(* ===== verification/Prelude.thy ===== *)
theory Prelude
  imports Main "HOL-Library.Word"
begin

text \<open>
  Shared vocabulary of the development.

  \<^item> JavaScript values: a string is the list of its UTF-16 code units (\<open>jsstring\<close>), an
    \<open>ArrayBuffer\<close> or \<open>Uint8Array\<close> is the list of its bytes (\<open>bytes\<close>).
  \<^item> Exceptions: \<open>js_error + 'a\<close> for code that only computes; the state-and-exception
    computations \<open>('w, 'a) js\<close> for methods, where an exception keeps the mutations made
    before it, as in JavaScript.
  \<^item> Insertion-ordered maps (JavaScript's \<open>Map\<close>): association lists with the operations
    \<open>amap_set\<close>, \<open>amap_del\<close> and \<open>map_of\<close>.
\<close>

section \<open>Collections of rewrite rules\<close>

named_theorems js_run \<open>evaluation of state-and-exception computations\<close>
named_theorems buf_simps \<open>reads and writes of byte buffers\<close>
named_theorems amap_simps \<open>insertion-ordered maps\<close>

section \<open>Values\<close>

type_synonym byte = "8 word"
type_synonym bytes = "byte list"
type_synonym code_unit = "16 word"
type_synonym jsstring = "code_unit list"

text \<open>A JavaScript string literal made of ASCII characters.\<close>

definition js :: "string \<Rightarrow> jsstring" where
  "js s = map of_char s"

lemma js_simps [simp]:
  "js [] = []"
  "js (c # s) = of_char c # js s"
  by (simp_all add: js_def)

lemma length_js [simp]: "length (js s) = length s"
  by (simp add: js_def)

text \<open>The decimal text of a non-negative integer, as in a template literal.\<close>

fun nat_text :: "nat \<Rightarrow> jsstring" where
  "nat_text n = (if n < 10 then [of_nat (0x30 + n)] else nat_text (n div 10) @ [of_nat (0x30 + n mod 10)])"

declare nat_text.simps [simp del]

lemma nat_text_not_Nil [simp]: "nat_text n \<noteq> []"
  by (subst nat_text.simps) simp

section \<open>Exceptions\<close>

text \<open>
  What JavaScript code throws: a \<open>RangeError\<close>, an \<open>Error\<close> known by its message, or a reference to
  an error object whose fields are kept by the component that creates it.
\<close>

datatype js_error = RangeError | JSError jsstring | ErrorRef nat

abbreviation err :: "string \<Rightarrow> js_error" where
  "err s \<equiv> JSError (js s)"

definition bindE :: "'e + 'a \<Rightarrow> ('a \<Rightarrow> 'e + 'b) \<Rightarrow> 'e + 'b" where
  "bindE m k = (case m of Inl e \<Rightarrow> Inl e | Inr x \<Rightarrow> k x)"

lemma bindE_simps [simp]:
  "bindE (Inl e) k = Inl e"
  "bindE (Inr x) k = k x"
  by (simp_all add: bindE_def)

lemma bindE_Inr_iff: "bindE m k = Inr y \<longleftrightarrow> (\<exists>x. m = Inr x \<and> k x = Inr y)"
  by (cases m) auto

lemma bindE_split:
  "P (bindE m k) = ((\<forall>e. m = Inl e \<longrightarrow> P (Inl e)) \<and> (\<forall>x. m = Inr x \<longrightarrow> P (k x)))"
  by (cases m) auto

lemma bindE_assoc: "bindE (bindE m k) h = bindE m (\<lambda>x. bindE (k x) h)"
  by (cases m) auto

section \<open>State and exceptions\<close>

text \<open>
  A method call on a world \<open>'w\<close>: its outcome and the world it leaves, also when it throws.
\<close>

type_synonym ('w, 'a) js = "'w \<Rightarrow> (js_error + 'a) \<times> 'w"

definition ret :: "'a \<Rightarrow> ('w, 'a) js" where
  "ret x w = (Inr x, w)"

definition throw :: "js_error \<Rightarrow> ('w, 'a) js" where
  "throw e w = (Inl e, w)"

definition andThen :: "('w, 'a) js \<Rightarrow> ('a \<Rightarrow> ('w, 'b) js) \<Rightarrow> ('w, 'b) js" where
  "andThen m k w = (case m w of (Inl e, w') \<Rightarrow> (Inl e, w') | (Inr x, w') \<Rightarrow> k x w')"

definition reads :: "('w \<Rightarrow> ('w, 'a) js) \<Rightarrow> ('w, 'a) js" where
  "reads k w = k w w"

definition modifies :: "('w \<Rightarrow> 'w) \<Rightarrow> ('w, unit) js" where
  "modifies f w = (Inr (), f w)"

definition lift :: "js_error + 'a \<Rightarrow> ('w, 'a) js" where
  "lift m w = (m, w)"

primrec forEach :: "'x list \<Rightarrow> ('x \<Rightarrow> ('w, unit) js) \<Rightarrow> ('w, unit) js" where
  "forEach [] f = ret ()"
| "forEach (x # xs) f = andThen (f x) (\<lambda>_. forEach xs f)"

definition tryCatch :: "('w, 'a) js \<Rightarrow> (js_error \<Rightarrow> ('w, 'a) js) \<Rightarrow> ('w, 'a) js" where
  "tryCatch m h w = (case m w of (Inl e, w') \<Rightarrow> h e w' | (Inr x, w') \<Rightarrow> (Inr x, w'))"

text \<open>\<open>try { m } finally { c }\<close>: an exception of the last part replaces the outcome.\<close>

definition tryFinally :: "('w, 'a) js \<Rightarrow> ('w, unit) js \<Rightarrow> ('w, 'a) js" where
  "tryFinally m c w = (case m w of (r, w') \<Rightarrow> (case c w' of (Inl e, w'') \<Rightarrow> (Inl e, w'') | (Inr _, w'') \<Rightarrow> (r, w'')))"

text \<open>\<open>Array.prototype.map\<close> with a function that has effects\<close>

primrec mapM :: "'x list \<Rightarrow> ('x \<Rightarrow> ('w, 'y) js) \<Rightarrow> ('w, 'y list) js" where
  "mapM [] f = ret []"
| "mapM (x # xs) f = andThen (f x) (\<lambda>y. andThen (mapM xs f) (\<lambda>ys. ret (y # ys)))"

lemma mapM_cong [fundef_cong]: "xs = ys \<Longrightarrow> (\<And>x. x \<in> set ys \<Longrightarrow> f x = g x) \<Longrightarrow> mapM xs f = mapM ys g"
  by (induction xs arbitrary: ys) auto

abbreviation skip :: "('w, unit) js" where
  "skip \<equiv> ret ()"

lemma js_run_simps [simp, js_run]:
  "ret x w = (Inr x, w)"
  "throw e w = (Inl e, w)"
  "reads k w = k w w"
  "modifies f w = (Inr (), f w)"
  "lift m w = (m, w)"
  by (simp_all add: ret_def throw_def reads_def modifies_def lift_def)

lemma andThen_ret [simp, js_run]:
  "andThen (ret x) k1 = k1 x"
  "andThen (modifies f) k2 w = k2 () (f w)"
  "andThen (reads h) k3 w = andThen (h w) k3 w"
  "andThen (throw e) k4 = throw e"
  "andThen (lift (Inr y)) k5 = k5 y"
  "andThen (lift (Inl e)) k6 = throw e"
  by (auto simp: andThen_def)

lemma andThen_step: "m w = (Inr x, w') \<Longrightarrow> andThen m k w = k x w'"
  by (simp add: andThen_def)

lemma andThen_error: "m w = (Inl e, w') \<Longrightarrow> andThen m k w = (Inl e, w')"
  by (simp add: andThen_def)

lemma andThen_assoc: "andThen (andThen m k) h = andThen m (\<lambda>x. andThen (k x) h)"
  by (auto simp: andThen_def split: prod.splits sum.splits)

lemma tryCatch_simps [simp, js_run]:
  "tryCatch (ret x) h w = (Inr x, w)"
  "tryCatch (throw e) h w = h e w"
  by (simp_all add: tryCatch_def)

lemma forEach_step: "f x w = (Inr (), w') \<Longrightarrow> forEach (x # xs) f w = forEach xs f w'"
  by (simp add: andThen_def)

lemma mapM_step:
  "f x w = (Inr y, w') \<Longrightarrow> mapM xs f w' = (Inr ys, w'') \<Longrightarrow> mapM (x # xs) f w = (Inr (y # ys), w'')"
  by (simp add: andThen_def)

text \<open>
  An invariant of worlds that a computation keeps, whether it returns or throws: the
  shape of every preservation lemma of the components.
\<close>

definition keeps :: "('w \<Rightarrow> bool) \<Rightarrow> ('w, 'a) js \<Rightarrow> bool" where
  "keeps P m \<longleftrightarrow> (\<forall>w. P w \<longrightarrow> P (snd (m w)))"

lemma keepsI [intro?]: "(\<And>w. P w \<Longrightarrow> P (snd (m w))) \<Longrightarrow> keeps P m"
  by (simp add: keeps_def)

lemma keepsD: "keeps P m \<Longrightarrow> P w \<Longrightarrow> P (snd (m w))"
  by (simp add: keeps_def)

lemma keeps_ret [simp, intro!]: "keeps P (ret x)"
  by (simp add: keeps_def)

lemma keeps_throw [simp, intro!]: "keeps P (throw e)"
  by (simp add: keeps_def)

lemma keeps_lift [simp, intro!]: "keeps P (lift m)"
  by (simp add: keeps_def)

lemma keeps_Pair [simp, intro!]: "keeps P (Pair r)"
  by (simp add: keeps_def)

text \<open>A computation chosen by the world it starts in.\<close>

lemma keeps_diag: "(\<And>w. keeps P (k w)) \<Longrightarrow> keeps P (\<lambda>w. k w w)"
  by (simp add: keeps_def)

lemma keeps_modifies: "(\<And>w. P w \<Longrightarrow> P (f w)) \<Longrightarrow> keeps P (modifies f)"
  by (simp add: keeps_def)

lemma keeps_andThen [intro]:
  assumes "keeps P m" and "\<And>x. keeps P (k x)"
  shows "keeps P (andThen m k)"
proof
  fix w assume "P w"
  with assms(1) have "P (snd (m w))" by (rule keepsD)
  with assms(2) show "P (snd (andThen m k w))"
    by (auto simp: andThen_def keeps_def split: prod.splits sum.splits)
qed

lemma keeps_tryCatch [intro]:
  "keeps P m \<Longrightarrow> (\<And>e. keeps P (h e)) \<Longrightarrow> keeps P (tryCatch m h)"
  by (auto simp: keeps_def tryCatch_def split: prod.splits sum.splits)

lemma keeps_tryFinally [intro]:
  "keeps P m \<Longrightarrow> keeps P c \<Longrightarrow> keeps P (tryFinally m c)"
  by (auto simp: keeps_def tryFinally_def split: prod.splits sum.splits)

lemma keeps_reads_any: "(\<And>w. keeps P (k w)) \<Longrightarrow> keeps P (reads k)"
  by (simp add: keeps_def)

lemma keeps_mapM [intro]:
  "(\<And>x. x \<in> set xs \<Longrightarrow> keeps P (f x)) \<Longrightarrow> keeps P (mapM xs f)"
  by (induction xs) auto

lemma keeps_reads:
  "(\<And>w. P w \<Longrightarrow> P (snd (k w w))) \<Longrightarrow> keeps P (reads k)"
  by (simp add: keeps_def)

lemma keeps_forEach [intro]:
  "(\<And>x. x \<in> set xs \<Longrightarrow> keeps P (f x)) \<Longrightarrow> keeps P (forEach xs f)"
  by (induction xs) auto

text \<open>
  The same with a relation between the world before and after: the invariant holds again and
  the change is one that \<open>R\<close> allows. With a reflexive and transitive \<open>R\<close> it composes.
\<close>

definition steps :: "('w \<Rightarrow> bool) \<Rightarrow> ('w \<Rightarrow> 'w \<Rightarrow> bool) \<Rightarrow> ('w, 'a) js \<Rightarrow> bool" where
  "steps I R m \<longleftrightarrow> (\<forall>w. I w \<longrightarrow> I (snd (m w)) \<and> R w (snd (m w)))"

definition preorder_rel :: "('w \<Rightarrow> 'w \<Rightarrow> bool) \<Rightarrow> bool" where
  "preorder_rel R \<longleftrightarrow> (\<forall>w. R w w) \<and> (\<forall>u v w. R u v \<longrightarrow> R v w \<longrightarrow> R u w)"

lemma stepsI: "(\<And>w. I w \<Longrightarrow> I (snd (m w)) \<and> R w (snd (m w))) \<Longrightarrow> steps I R m"
  by (simp add: steps_def)

lemma stepsD: "steps I R m \<Longrightarrow> I w \<Longrightarrow> I (snd (m w)) \<and> R w (snd (m w))"
  by (simp add: steps_def)

lemma steps_ret: "preorder_rel R \<Longrightarrow> steps I R (ret x)"
  by (simp add: steps_def preorder_rel_def)

lemma steps_throw: "preorder_rel R \<Longrightarrow> steps I R (throw e)"
  by (simp add: steps_def preorder_rel_def)

lemma steps_lift: "preorder_rel R \<Longrightarrow> steps I R (lift m)"
  by (simp add: steps_def preorder_rel_def)

lemma steps_Pair: "preorder_rel R \<Longrightarrow> steps I R (Pair r)"
  by (simp add: steps_def preorder_rel_def)

lemma steps_modifies: "(\<And>w. I w \<Longrightarrow> I (f w) \<and> R w (f w)) \<Longrightarrow> steps I R (modifies f)"
  by (simp add: steps_def)

lemma steps_andThen:
  assumes "preorder_rel R" and "steps I R m" and "\<And>x. steps I R (k x)"
  shows "steps I R (andThen m k)"
proof (rule stepsI)
  fix w assume I: "I w"
  from stepsD [OF assms(2) I] have m: "I (snd (m w))" "R w (snd (m w))" by auto
  obtain r w' where mw: "m w = (r, w')" by (cases "m w")
  show "I (snd (andThen m k w)) \<and> R w (snd (andThen m k w))"
  proof (cases r)
    case (Inl e)
    with mw m show ?thesis by (simp add: andThen_def)
  next
    case (Inr x)
    from m mw have "I w'" "R w w'" by simp_all
    with stepsD [OF assms(3) \<open>I w'\<close>, of x] assms(1) Inr mw show ?thesis
      by (auto simp: andThen_def preorder_rel_def)
  qed
qed

lemma steps_reads:
  "(\<And>w. I w \<Longrightarrow> I (snd (k w w)) \<and> R w (snd (k w w))) \<Longrightarrow> steps I R (reads k)"
  by (simp add: steps_def)

text \<open>A computation chosen by reading the world, where each choice keeps the contract.\<close>

lemma steps_reads_any: "(\<And>w. steps I R (k w)) \<Longrightarrow> steps I R (reads k)"
  by (simp add: steps_def)

lemma steps_forEach:
  "preorder_rel R \<Longrightarrow> (\<And>x. x \<in> set xs \<Longrightarrow> steps I R (f x)) \<Longrightarrow> steps I R (forEach xs f)"
  by (induction xs) (auto intro: steps_ret steps_andThen)

lemmas steps_rules = steps_ret steps_throw steps_lift steps_andThen steps_forEach

text \<open>
  Mapping over a list with a computation that extends the world: each result is related to its
  argument in the final world, if the relation survives extensions.
\<close>

lemma mapM_rel:
  assumes "preorder_rel G" and "\<And>w w' x y. R w x y \<Longrightarrow> G w w' \<Longrightarrow> R w' x y"
    and "\<And>x w. x \<in> set xs \<Longrightarrow> G w0 w \<Longrightarrow> \<exists>y w'. f x w = (Inr y, w') \<and> G w w' \<and> R w' x y"
  shows "\<exists>ys w'. mapM xs f w0 = (Inr ys, w') \<and> G w0 w' \<and> list_all2 (R w') xs ys"
proof -
  have tr: "G u v \<Longrightarrow> G v w \<Longrightarrow> G u w" and rf: "G w w" for u v w using assms(1) by (auto simp: preorder_rel_def)
  have "\<exists>ys w'. mapM xs f w = (Inr ys, w') \<and> G w w' \<and> list_all2 (R w') xs ys" if "G w0 w" for w
    using assms(3) that
  proof (induction xs arbitrary: w)
    case (Cons x xs)
    from Cons.prems(1) [of x w] Cons.prems(2) obtain y w1 where y: "f x w = (Inr y, w1)" "G w w1" "R w1 x y" by auto
    have "\<exists>ys w'. mapM xs f w1 = (Inr ys, w') \<and> G w1 w' \<and> list_all2 (R w') xs ys"
      by (rule Cons.IH) (use Cons.prems in simp, rule tr [OF Cons.prems(2) y(2)])
    then obtain ys w2 where ys: "mapM xs f w1 = (Inr ys, w2)" "G w1 w2" "list_all2 (R w2) xs ys" by blast
    have "G w w2" "R w2 x y" using tr [OF y(2) ys(2)] assms(2) [OF y(3) ys(2)] .
    with mapM_step [OF y(1) ys(1)] ys(3) show ?case by (intro exI [of _ "y # ys"] exI [of _ w2]) simp
  qed (use rf in auto)
  then show ?thesis using rf by blast
qed

section \<open>Insertion-ordered maps\<close>

text \<open>\<open>Map.set\<close> replaces the value of a present key in place and appends a new key.\<close>

fun amap_set :: "'k \<Rightarrow> 'v \<Rightarrow> ('k \<times> 'v) list \<Rightarrow> ('k \<times> 'v) list" where
  "amap_set k v [] = [(k, v)]"
| "amap_set k v ((k', v') # m) = (if k = k' then (k, v) # m else (k', v') # amap_set k v m)"

definition amap_del :: "'k \<Rightarrow> ('k \<times> 'v) list \<Rightarrow> ('k \<times> 'v) list" where
  "amap_del k m = filter (\<lambda>e. fst e \<noteq> k) m"

lemma map_of_amap_set [simp, amap_simps]: "map_of (amap_set k v m) = (map_of m)(k \<mapsto> v)"
  by (induction k v m rule: amap_set.induct) (auto simp: fun_eq_iff)

lemma map_of_amap_del [simp, amap_simps]: "map_of (amap_del k m) = (map_of m)(k := None)"
  by (induction m) (auto simp: amap_del_def fun_eq_iff)

lemma keys_amap_set [simp, amap_simps]: "fst ` set (amap_set k v m) = insert k (fst ` set m)"
  by (induction k v m rule: amap_set.induct) auto

lemma keys_amap_del [simp, amap_simps]: "fst ` set (amap_del k m) = fst ` set m - {k}"
  by (auto simp: amap_del_def)

lemma amap_del_simps [simp, amap_simps]:
  "amap_del k [] = []"
  "amap_del k ((k', v) # m) = (if k' = k then amap_del k m else (k', v) # amap_del k m)"
  by (simp_all add: amap_del_def)

lemma distinct_amap_set [simp, amap_simps]:
  "distinct (map fst m) \<Longrightarrow> distinct (map fst (amap_set k v m))"
proof (induction k v m rule: amap_set.induct)
  case (2 k v k' v' m)
  moreover have "k \<noteq> k' \<Longrightarrow> k' \<notin> fst ` set m \<Longrightarrow> k' \<notin> fst ` set (amap_set k v m)"
    by simp
  ultimately show ?case by auto
qed simp

lemma distinct_amap_del [simp, amap_simps]:
  "distinct (map fst m) \<Longrightarrow> distinct (map fst (amap_del k m))"
  by (induction m) (auto simp: amap_del_def)

lemma set_amap_del_subset: "set (amap_del k m) \<subseteq> set m"
  by (auto simp: amap_del_def)

lemma vals_amap_set_subset: "snd ` set (amap_set k v m) \<subseteq> insert v (snd ` set m)"
  by (induction k v m rule: amap_set.induct) auto

lemma amap_set_new: "k \<notin> fst ` set m \<Longrightarrow> amap_set k v m = m @ [(k, v)]"
  by (induction k v m rule: amap_set.induct) auto

lemma amap_set_same [simp, amap_simps]: "map_of m k = Some v \<Longrightarrow> amap_set k v m = m"
  by (induction k v m rule: amap_set.induct) (auto split: if_splits)

end
