(* ===== verification/JS_Text.thy ===== *)
theory JS_Text
  imports Prelude
begin

text \<open>
  The text codecs of the JavaScript platform that the sources call: \<open>TextEncoder\<close>
  (UTF-8 with lone surrogates replaced by U+FFFD), its bounded form \<open>encodeInto\<close>, and
  \<open>TextDecoder\<close> (the WHATWG UTF-8 decoder in replacement mode, which also drops a leading
  byte order mark). Code points are natural numbers, code units and bytes are words.
\<close>

section \<open>UTF-16\<close>

definition is_high :: "code_unit \<Rightarrow> bool" where
  "is_high c \<longleftrightarrow> 0xD800 \<le> unat c \<and> unat c < 0xDC00"

definition is_low :: "code_unit \<Rightarrow> bool" where
  "is_low c \<longleftrightarrow> 0xDC00 \<le> unat c \<and> unat c < 0xE000"

definition pair_cp :: "code_unit \<Rightarrow> code_unit \<Rightarrow> nat" where
  "pair_cp c d = 0x10000 + (unat c - 0xD800) * 0x400 + (unat d - 0xDC00)"

text \<open>The scalar values of a string; a surrogate without its partner becomes U+FFFD.\<close>

fun code_points :: "jsstring \<Rightarrow> nat list" where
  "code_points [] = []"
| "code_points [c] = [if is_high c \<or> is_low c then 0xFFFD else unat c]"
| "code_points (c # d # s) =
     (if is_high c \<and> is_low d then pair_cp c d # code_points s
      else if is_high c \<or> is_low c then 0xFFFD # code_points (d # s)
      else unat c # code_points (d # s))"

fun utf16_ok :: "jsstring \<Rightarrow> bool" where
  "utf16_ok [] = True"
| "utf16_ok [c] = (\<not> is_high c \<and> \<not> is_low c)"
| "utf16_ok (c # d # s) =
     (if is_high c then is_low d \<and> utf16_ok s else \<not> is_low c \<and> utf16_ok (d # s))"

definition units_of :: "nat \<Rightarrow> jsstring" where
  "units_of cp = (if cp < 0x10000 then [of_nat cp]
     else [of_nat (0xD800 + (cp - 0x10000) div 0x400), of_nat (0xDC00 + (cp - 0x10000) mod 0x400)])"

definition string_of_cps :: "nat list \<Rightarrow> jsstring" where
  "string_of_cps cps = concat (map units_of cps)"

definition is_scalar :: "nat \<Rightarrow> bool" where
  "is_scalar cp \<longleftrightarrow> cp < 0xD800 \<or> (0xE000 \<le> cp \<and> cp < 0x110000)"

section \<open>UTF-8\<close>

definition encode_cp :: "nat \<Rightarrow> bytes" where
  "encode_cp cp =
     (if cp < 0x80 then [of_nat cp]
      else if cp < 0x800 then [of_nat (0xC0 + cp div 64), of_nat (0x80 + cp mod 64)]
      else if cp < 0x10000 then
        [of_nat (0xE0 + cp div 4096), of_nat (0x80 + cp div 64 mod 64), of_nat (0x80 + cp mod 64)]
      else [of_nat (0xF0 + cp div 262144), of_nat (0x80 + cp div 4096 mod 64),
            of_nat (0x80 + cp div 64 mod 64), of_nat (0x80 + cp mod 64)])"

definition utf8_cps :: "nat list \<Rightarrow> bytes" where
  "utf8_cps cps = concat (map encode_cp cps)"

text \<open>\<open>new TextEncoder().encode(s)\<close>\<close>

definition utf8_encode :: "jsstring \<Rightarrow> bytes" where
  "utf8_encode s = utf8_cps (code_points s)"

text \<open>The bytes \<open>encodeInto\<close> writes into a destination with room for \<open>n\<close> bytes: whole code points only.\<close>

fun utf8_fit :: "nat \<Rightarrow> nat list \<Rightarrow> bytes" where
  "utf8_fit n [] = []"
| "utf8_fit n (cp # cps) =
     (if length (encode_cp cp) \<le> n
      then encode_cp cp @ utf8_fit (n - length (encode_cp cp)) cps else [])"

text \<open>
  The WHATWG decoder. Its state is the code point collected so far, how many continuation
  bytes are still needed and the range the next byte has to fall in.
\<close>

datatype dec_state = DStart | DNeed nat nat nat nat

fun dec_byte :: "nat \<Rightarrow> dec_state \<times> nat list" where
  "dec_byte b =
     (if b \<le> 0x7F then (DStart, [b])
      else if 0xC2 \<le> b \<and> b \<le> 0xDF then (DNeed (b - 0xC0) 1 0x80 0xBF, [])
      else if 0xE0 \<le> b \<and> b \<le> 0xEF then
        (DNeed (b - 0xE0) 2 (if b = 0xE0 then 0xA0 else 0x80) (if b = 0xED then 0x9F else 0xBF), [])
      else if 0xF0 \<le> b \<and> b \<le> 0xF4 then
        (DNeed (b - 0xF0) 3 (if b = 0xF0 then 0x90 else 0x80) (if b = 0xF4 then 0x8F else 0xBF), [])
      else (DStart, [0xFFFD]))"

definition dec_step :: "dec_state \<Rightarrow> nat \<Rightarrow> dec_state \<times> nat list" where
  "dec_step st b = (case st of
     DStart \<Rightarrow> dec_byte b
   | DNeed cp n lo hi \<Rightarrow>
       if lo \<le> b \<and> b \<le> hi then
         (if n = 1 then (DStart, [cp * 64 + b mod 64])
          else (DNeed (cp * 64 + b mod 64) (n - 1) 0x80 0xBF, []))
       else (case dec_byte b of (st', out) \<Rightarrow> (st', 0xFFFD # out)))"

fun dec_run :: "dec_state \<Rightarrow> bytes \<Rightarrow> nat list" where
  "dec_run DStart [] = []"
| "dec_run (DNeed cp n lo hi) [] = [0xFFFD]"
| "dec_run st (b # bs) = (case dec_step st (unat b) of (st', out) \<Rightarrow> out @ dec_run st' bs)"

definition utf8_decode_cps :: "bytes \<Rightarrow> nat list" where
  "utf8_decode_cps bs = dec_run DStart bs"

definition strip_bom :: "nat list \<Rightarrow> nat list" where
  "strip_bom cps = (case cps of [] \<Rightarrow> [] | c # cs \<Rightarrow> if c = 0xFEFF then cs else cps)"

text \<open>\<open>new TextDecoder().decode(bs)\<close>\<close>

definition utf8_decode :: "bytes \<Rightarrow> jsstring" where
  "utf8_decode bs = string_of_cps (strip_bom (utf8_decode_cps bs))"

section \<open>Lengths\<close>

lemma length_encode_cp: "length (encode_cp cp) \<le> 4" "cp < 0x10000 \<Longrightarrow> length (encode_cp cp) \<le> 3"
  by (auto simp: encode_cp_def)

lemma encode_cp_nonempty [simp]: "encode_cp cp \<noteq> []"
  by (simp add: encode_cp_def)

lemma unat_unit_less: "unat (c :: code_unit) < 0x10000"
  using unsigned_less [of c] by simp

lemma utf8_encode_length: "length (utf8_encode s) \<le> 3 * length s"
proof -
  have "length (utf8_cps (code_points s)) \<le> 3 * length s"
  proof (induction s rule: code_points.induct)
    case (2 c)
    then show ?case
      using unat_unit_less [of c] by (simp add: utf8_cps_def length_encode_cp)
  next
    case (3 c d s)
    have "length (encode_cp (unat c)) \<le> 3" "length (encode_cp 0xFFFD) \<le> 3"
      using unat_unit_less [of c] by (simp_all add: length_encode_cp)
    moreover have "length (encode_cp (pair_cp c d)) \<le> 4"
      by (rule length_encode_cp)
    ultimately show ?case
      using 3 by (auto simp: utf8_cps_def)
  qed (simp add: utf8_cps_def)
  then show ?thesis by (simp add: utf8_encode_def)
qed

lemma utf8_encode_Nil [simp]: "utf8_encode [] = []"
  by (simp add: utf8_encode_def utf8_cps_def)

text \<open>With room for the whole encoding, \<open>encodeInto\<close> writes all of it.\<close>

lemma utf8_fit_all: "length (utf8_cps cps) \<le> n \<Longrightarrow> utf8_fit n cps = utf8_cps cps"
  by (induction cps arbitrary: n) (auto simp: utf8_cps_def)

lemma utf8_fit_length: "length (utf8_fit n cps) \<le> n"
proof (induction cps arbitrary: n)
  case (Cons cp cps)
  show ?case using Cons [of "n - length (encode_cp cp)"] by auto
qed simp

lemma utf8_fit_room: "3 * length s \<le> n \<Longrightarrow> utf8_fit n (code_points s) = utf8_encode s"
  using utf8_encode_length [of s] by (simp add: utf8_fit_all utf8_encode_def)

section \<open>Round trips\<close>

lemma cp_digits:
  fixes cp :: nat
  shows "cp div 64 * 64 + cp mod 64 = cp"
    and "(cp div 4096 * 64 + cp div 64 mod 64) * 64 + cp mod 64 = cp"
    and "((cp div 262144 * 64 + cp div 4096 mod 64) * 64 + cp div 64 mod 64) * 64 + cp mod 64 = cp"
proof -
  have "cp div 4096 = cp div 64 div 64" "cp div 262144 = cp div 4096 div 64"
    by (simp_all add: div_mult2_eq [symmetric])
  then show "cp div 64 * 64 + cp mod 64 = cp"
    and "(cp div 4096 * 64 + cp div 64 mod 64) * 64 + cp mod 64 = cp"
    and "((cp div 262144 * 64 + cp div 4096 mod 64) * 64 + cp div 64 mod 64) * 64 + cp mod 64 = cp"
    by simp_all
qed

lemma continuation_mod: "(z::nat) < 64 \<Longrightarrow> (0x80 + z) mod 64 = z"
  using mod_mult_self3 [of 2 64 z] by simp

lemma dec_run_of_nat:
  "b < 256 \<Longrightarrow> dec_run st (of_nat b # bs)
     = (case dec_step st b of (st', out) \<Rightarrow> out @ dec_run st' bs)"
  by (cases st) (simp_all add: unat_of_nat)

lemma dec_run_encode_cp:
  assumes "is_scalar cp"
  shows "dec_run DStart (encode_cp cp @ bs) = cp # dec_run DStart bs"
proof -
  consider "cp < 0x80" | "0x80 \<le> cp" "cp < 0x800" | "0x800 \<le> cp" "cp < 0x10000"
    | "0x10000 \<le> cp" "cp < 0x110000"
    using assms by (force simp: is_scalar_def)
  then show ?thesis
  proof cases
    case 1
    then show ?thesis by (simp add: encode_cp_def dec_run_of_nat dec_step_def del: dec_run.simps)
  next
    case 2
    define y z where yz: "y = cp div 64" "z = cp mod 64"
    have b: "z < 64" and e: "y * 64 + z = cp"
      unfolding yz by simp_all
    have r: "2 \<le> y" "y < 32" using 2 b e by linarith+
    have "dec_run DStart ([of_nat (0xC0 + y), of_nat (0x80 + z)] @ bs)
            = (y * 64 + z) # dec_run DStart bs"
      using b r by (simp add: dec_run_of_nat dec_step_def continuation_mod del: of_nat_add dec_run.simps)
    moreover have "encode_cp cp = [of_nat (0xC0 + y), of_nat (0x80 + z)]"
      using 2 by (simp add: encode_cp_def yz)
    ultimately show ?thesis by (simp only: e)
  next
    case 3
    define x y z where xyz: "x = cp div 4096" "y = cp div 64 mod 64" "z = cp mod 64"
    have b: "y < 64" "z < 64" and e: "(x * 64 + y) * 64 + z = cp"
      unfolding xyz using cp_digits(2) by simp_all
    have e': "4096 * x + 64 * y + z = cp" using e by (simp add: algebra_simps)
    have r1: "x < 16" using 3 b e' by linarith
    have r2: "32 \<le> y" if "x = 0" using that 3 b e' by linarith
    have r3: "y \<le> 31" if "x = 13"
      using assms b e' that unfolding is_scalar_def by (elim disjE conjE) linarith+
    note r = r1 r2 r3
    have "dec_run DStart ([of_nat (0xE0 + x), of_nat (0x80 + y), of_nat (0x80 + z)] @ bs)
            = ((x * 64 + y) * 64 + z) # dec_run DStart bs"
      using b r by (simp add: dec_run_of_nat dec_step_def continuation_mod del: of_nat_add dec_run.simps)
    moreover have "encode_cp cp = [of_nat (0xE0 + x), of_nat (0x80 + y), of_nat (0x80 + z)]"
      using 3 by (simp add: encode_cp_def xyz)
    ultimately show ?thesis by (simp only: e)
  next
    case 4
    define w x y z where wxyz: "w = cp div 262144" "x = cp div 4096 mod 64"
      "y = cp div 64 mod 64" "z = cp mod 64"
    have b: "x < 64" "y < 64" "z < 64" and e: "((w * 64 + x) * 64 + y) * 64 + z = cp"
      unfolding wxyz using cp_digits(3) by simp_all
    have e': "262144 * w + 4096 * x + 64 * y + z = cp" using e by (simp add: algebra_simps)
    have r1: "w < 5" using 4 b e' by linarith
    have r2: "16 \<le> x" if "w = 0" using that 4 b e' by linarith
    have r3: "x \<le> 15" if "w = 4" using that 4 b e' by linarith
    note r = r1 r2 r3
    have "dec_run DStart ([of_nat (0xF0 + w), of_nat (0x80 + x), of_nat (0x80 + y),
            of_nat (0x80 + z)] @ bs) = (((w * 64 + x) * 64 + y) * 64 + z) # dec_run DStart bs"
      using b r by (simp add: dec_run_of_nat dec_step_def continuation_mod del: of_nat_add dec_run.simps)
    moreover have "encode_cp cp =
        [of_nat (0xF0 + w), of_nat (0x80 + x), of_nat (0x80 + y), of_nat (0x80 + z)]"
      using 4 by (simp add: encode_cp_def wxyz)
    ultimately show ?thesis by (simp only: e)
  qed
qed

lemma utf8_decode_cps_utf8_cps:
  "list_all is_scalar cps \<Longrightarrow> utf8_decode_cps (utf8_cps cps) = cps"
  by (induction cps) (simp_all add: utf8_decode_cps_def utf8_cps_def dec_run_encode_cp)

lemma pair_cp_range:
  "is_high c \<Longrightarrow> is_low d \<Longrightarrow> 0x10000 \<le> pair_cp c d \<and> pair_cp c d < 0x110000"
  by (auto simp: is_high_def is_low_def pair_cp_def)

lemma code_points_scalar: "list_all is_scalar (code_points s)"
proof (induction s rule: code_points.induct)
  case (2 c)
  then show ?case
    using unat_unit_less [of c] by (auto simp: is_scalar_def is_high_def is_low_def)
next
  case (3 c d s)
  then show ?case
    using unat_unit_less [of c] pair_cp_range [of c d]
    by (auto simp: is_scalar_def is_high_def is_low_def)
qed simp

lemma units_of_unit [simp]: "units_of (unat c) = [c]"
  using unat_unit_less [of c] by (simp add: units_of_def)

lemma units_of_pair:
  assumes "is_high c" "is_low d"
  shows "units_of (pair_cp c d) = [c, d]"
proof -
  have q: "pair_cp c d - 0x10000 = (unat c - 0xD800) * 0x400 + (unat d - 0xDC00)"
    by (simp add: pair_cp_def)
  have l: "unat d - 0xDC00 < 0x400" and h: "0xD800 \<le> unat c" "0xDC00 \<le> unat d"
    using assms by (auto simp: is_high_def is_low_def)
  have "0xD800 + (pair_cp c d - 0x10000) div 0x400 = unat c"
    "0xDC00 + (pair_cp c d - 0x10000) mod 0x400 = unat d"
    using l h(1) le_add_diff_inverse [OF h(2)] unfolding q mod_mult_self3 by simp_all
  then show ?thesis
    using pair_cp_range [OF assms] by (simp add: units_of_def)
qed

lemma string_of_code_points: "utf16_ok s \<Longrightarrow> string_of_cps (code_points s) = s"
  by (induction s rule: utf16_ok.induct)
    (auto simp: string_of_cps_def units_of_pair split: if_splits)

lemma strip_bom_id: "cps = [] \<or> hd cps \<noteq> 0xFEFF \<Longrightarrow> strip_bom cps = cps"
  by (cases cps) (auto simp: strip_bom_def)

text \<open>The strings a decode of their encoding gives back: well-formed, and no leading byte order mark.\<close>

definition text_ok :: "jsstring \<Rightarrow> bool" where
  "text_ok s \<longleftrightarrow> utf16_ok s \<and> (s = [] \<or> unat (hd s) \<noteq> 0xFEFF)"

lemma hd_code_points:
  "s \<noteq> [] \<Longrightarrow> unat (hd s) \<noteq> 0xFEFF \<Longrightarrow> hd (code_points s) \<noteq> 0xFEFF"
  by (cases s rule: code_points.cases) (auto simp: pair_cp_def)

lemma code_points_eq_Nil [simp]: "code_points s = [] \<longleftrightarrow> s = []"
  by (cases s rule: code_points.cases) auto

lemma utf8_roundtrip: "text_ok s \<Longrightarrow> utf8_decode (utf8_encode s) = s"
proof -
  assume ok: "text_ok s"
  then have "strip_bom (code_points s) = code_points s"
    using hd_code_points [of s] by (intro strip_bom_id) (auto simp: text_ok_def)
  with ok show ?thesis
    by (simp add: utf8_decode_def utf8_encode_def utf8_decode_cps_utf8_cps
        code_points_scalar string_of_code_points text_ok_def)
qed

text \<open>Evaluation of the text functions on literals.\<close>

lemmas text_eval = text_ok_def utf8_encode_def utf8_cps_def encode_cp_def is_high_def is_low_def
  utf8_decode_def utf8_decode_cps_def strip_bom_def string_of_cps_def units_of_def dec_step_def

end
