(* ===== verification/JS_Buffer.thy ===== *)
theory JS_Buffer
  imports JS_Text
begin

text \<open>
  Byte buffers of the JavaScript platform: \<open>ArrayBuffer\<close> (zero-filled on creation), the
  big-endian accessors of \<open>DataView\<close>, \<open>Uint8Array.set\<close>, views and slices, and
  \<open>TextEncoder.encodeInto\<close> on a subarray. An access outside the buffer throws a
  \<open>RangeError\<close>. The rules in \<open>buf_simps\<close> compute writes on a buffer cut into chunks, which
  is how the layouts of the wire messages are proved.
\<close>

section \<open>Operations\<close>

definition newBuffer :: "nat \<Rightarrow> bytes" where
  "newBuffer n = replicate n 0"

primrec be :: "nat \<Rightarrow> nat \<Rightarrow> bytes" where
  "be 0 v = []"
| "be (Suc n) v = be n (v div 256) @ [of_nat v]"

definition unbe :: "bytes \<Rightarrow> nat" where
  "unbe bs = foldl (\<lambda>a b. a * 256 + unat b) 0 bs"

definition write_at :: "nat \<Rightarrow> bytes \<Rightarrow> bytes \<Rightarrow> js_error + bytes" where
  "write_at off bs buf =
     (if off + length bs \<le> length buf
      then Inr (take off buf @ bs @ drop (off + length bs) buf) else Inl RangeError)"

abbreviation setUint8 :: "nat \<Rightarrow> nat \<Rightarrow> bytes \<Rightarrow> js_error + bytes" where
  "setUint8 off v \<equiv> write_at off (be 1 v)"

abbreviation setUint16 :: "nat \<Rightarrow> nat \<Rightarrow> bytes \<Rightarrow> js_error + bytes" where
  "setUint16 off v \<equiv> write_at off (be 2 v)"

abbreviation setUint32 :: "nat \<Rightarrow> nat \<Rightarrow> bytes \<Rightarrow> js_error + bytes" where
  "setUint32 off v \<equiv> write_at off (be 4 v)"

abbreviation setBigUint64 :: "nat \<Rightarrow> nat \<Rightarrow> bytes \<Rightarrow> js_error + bytes" where
  "setBigUint64 off v \<equiv> write_at off (be 8 v)"

text \<open>\<open>uint8View.set(src, off)\<close>\<close>

abbreviation setBytes :: "bytes \<Rightarrow> nat \<Rightarrow> bytes \<Rightarrow> js_error + bytes" where
  "setBytes src off \<equiv> write_at off src"

definition getUint :: "nat \<Rightarrow> nat \<Rightarrow> bytes \<Rightarrow> js_error + nat" where
  "getUint n off buf =
     (if off + n \<le> length buf then Inr (unbe (take n (drop off buf))) else Inl RangeError)"

abbreviation getUint8 :: "nat \<Rightarrow> bytes \<Rightarrow> js_error + nat" where
  "getUint8 \<equiv> getUint 1"

abbreviation getUint32 :: "nat \<Rightarrow> bytes \<Rightarrow> js_error + nat" where
  "getUint32 \<equiv> getUint 4"

text \<open>\<open>new Uint8Array(buf, off, len)\<close> and \<open>new Uint8Array(buf, off)\<close>\<close>

definition view :: "nat \<Rightarrow> nat \<Rightarrow> bytes \<Rightarrow> js_error + bytes" where
  "view off len buf =
     (if off + len \<le> length buf then Inr (take len (drop off buf)) else Inl RangeError)"

definition view_from :: "nat \<Rightarrow> bytes \<Rightarrow> js_error + bytes" where
  "view_from off buf = (if off \<le> length buf then Inr (drop off buf) else Inl RangeError)"

text \<open>\<open>buf.slice(from, to)\<close> clamps both ends.\<close>

definition slice :: "nat \<Rightarrow> nat \<Rightarrow> bytes \<Rightarrow> bytes" where
  "slice from to buf = drop from (take to buf)"

text \<open>\<open>textEncoder.encodeInto(s, uint8View.subarray(off))\<close>: the buffer after it and \<open>written\<close>.\<close>

definition encodeInto :: "jsstring \<Rightarrow> nat \<Rightarrow> bytes \<Rightarrow> bytes \<times> nat" where
  "encodeInto s off buf =
     (let out = utf8_fit (length buf - off) (code_points s)
      in (take off buf @ out @ drop (off + length out) buf, length out))"

section \<open>Big-endian integers\<close>

lemma length_be [simp]: "length (be n v) = n"
  by (induction n arbitrary: v) simp_all

lemma unbe_Nil [simp]: "unbe [] = 0"
  by (simp add: unbe_def)

lemma unbe_snoc [simp]: "unbe (bs @ [b]) = unbe bs * 256 + unat b"
  by (simp add: unbe_def)

lemma unbe_be: "unbe (be n v) = v mod 256 ^ n"
proof (induction n arbitrary: v)
  case (Suc n)
  have "unbe (be (Suc n) v) = v div 256 mod 256 ^ n * 256 + v mod 256"
    using Suc by (simp add: unat_of_nat)
  also have "\<dots> = v mod 256 ^ Suc n"
    by (simp add: mod_mult2_eq mult.commute)
  finally show ?case .
qed simp

lemma unbe_be_id: "v < 256 ^ n \<Longrightarrow> unbe (be n v) = v"
  by (simp add: unbe_be)

lemma unbe_less: "unbe bs < 256 ^ length bs"
proof (induction bs rule: rev_induct)
  case (snoc b bs)
  have "unat b < 256" using unsigned_less [of b] by simp
  with snoc show ?case by simp
qed simp

lemma be_numeral: "be (numeral k) v = be (pred_numeral k) (v div 256) @ [of_nat v]"
  using be.simps(2) [of "pred_numeral k" v] by (simp only: numeral_eq_Suc [symmetric])

lemma be_1: "be 1 v = [of_nat v]"
  by simp

declare be.simps [simp del]

lemma be_split: "be (m + n) v = be m (v div 256 ^ n) @ be n v"
  by (induction n arbitrary: v) (simp_all add: be.simps div_mult2_eq)

lemma be_mult: "be n (v * 256 ^ n) = be n 0"
proof (induction n arbitrary: v)
  case (Suc n)
  have "(of_nat (v * 256 ^ Suc n) :: byte) = 0"
    by (simp only: word_of_nat_eq_0_iff) simp
  moreover have "v * 256 ^ Suc n div 256 = v * 256 ^ n" by simp
  ultimately show ?case using Suc by (simp add: be.simps)
qed (simp add: be.simps)

lemma be_0: "be n 0 = replicate n 0"
  by (induction n) (simp_all add: be.simps replicate_append_same)

section \<open>Writes on chunks\<close>

lemma newBuffer_add: "newBuffer (m + n) = newBuffer m @ newBuffer n"
  by (simp add: newBuffer_def replicate_add)

lemma length_newBuffer [simp]: "length (newBuffer n) = n"
  by (simp add: newBuffer_def)

lemma drop_newBuffer [simp]: "drop k (newBuffer n) = newBuffer (n - k)"
  by (simp add: newBuffer_def)

lemma newBuffer_0 [simp]: "newBuffer 0 = []"
  by (simp add: newBuffer_def)

lemma write_at_skip [buf_simps]:
  "length c \<le> off \<Longrightarrow>
     write_at off bs (c @ rest) = map_sum id ((@) c) (write_at (off - length c) bs rest)"
  by (auto simp: write_at_def)

lemma write_at_here [buf_simps]:
  "length bs = length c \<Longrightarrow> write_at 0 bs (c @ rest) = Inr (bs @ rest)"
  by (simp add: write_at_def)

lemma write_at_all [buf_simps]:
  "length bs = length c \<Longrightarrow> write_at 0 bs c = Inr bs"
  by (simp add: write_at_def)

lemma write_at_length: "write_at off bs buf = Inr buf' \<Longrightarrow> length buf' = length buf"
  by (auto simp: write_at_def split: if_splits)

lemma write_at_Inr_iff: "(\<exists>buf'. write_at off bs buf = Inr buf') \<longleftrightarrow> off + length bs \<le> length buf"
  by (auto simp: write_at_def)

lemma encodeInto_length: "length (fst (encodeInto s off buf)) = length buf"
  using utf8_fit_length [of "length buf - off" "code_points s"]
  by (auto simp: encodeInto_def Let_def min_def)

lemma be_high: "be (m + n) (v * 256 ^ n) = be m v @ newBuffer n"
  by (simp add: be_split be_mult be_0 newBuffer_def)

text \<open>Enough room for three bytes per code unit means nothing is cut off.\<close>

lemma encodeInto_skip [buf_simps]:
  "length c \<le> off \<Longrightarrow>
     encodeInto s off (c @ rest) = map_prod ((@) c) id (encodeInto s (off - length c) rest)"
  by (simp add: encodeInto_def Let_def add.commute)

lemma encodeInto_room [buf_simps]:
  "3 * length s \<le> length rest \<Longrightarrow>
     encodeInto s 0 rest
       = (utf8_encode s @ drop (length (utf8_encode s)) rest, length (utf8_encode s))"
  by (simp add: encodeInto_def utf8_fit_room Let_def)

lemma encodeInto_fits:
  "length (utf8_encode s) \<le> length rest \<Longrightarrow>
     encodeInto s 0 rest
       = (utf8_encode s @ drop (length (utf8_encode s)) rest, length (utf8_encode s))"
  by (simp add: encodeInto_def utf8_fit_all utf8_encode_def Let_def)

lemma encodeInto_exact [buf_simps]:
  "encodeInto s 0 (newBuffer (length (utf8_encode s)) @ rest)
     = (utf8_encode s @ rest, length (utf8_encode s))"
  by (simp add: encodeInto_fits)

lemma slice_from_0 [buf_simps]: "slice 0 n buf = take n buf"
  by (simp add: slice_def)

lemma view_here [buf_simps]:
  "length c \<le> off \<Longrightarrow> view off len (c @ rest) = view (off - length c) len rest"
  "len = length c \<Longrightarrow> view 0 len (c @ rest) = Inr c"
  "len = length c \<Longrightarrow> view 0 len c = Inr c"
  by (auto simp: view_def)

lemma view_from_here [buf_simps]:
  "length c \<le> off \<Longrightarrow> view_from off (c @ rest) = view_from (off - length c) rest"
  "view_from 0 c = Inr c"
  by (auto simp: view_from_def)

lemma getUint_skip [buf_simps]:
  "length c \<le> off \<Longrightarrow> getUint n off (c @ rest) = getUint n (off - length c) rest"
  by (auto simp: getUint_def)

lemma getUint_here: "length c = n \<Longrightarrow> getUint n 0 (c @ rest) = Inr (unbe c)"
  by (simp add: getUint_def)

lemma getUint_be [buf_simps]:
  "getUint n 0 (be n v @ rest) = Inr (v mod 256 ^ n)"
  "getUint n 0 (be n v) = Inr (v mod 256 ^ n)"
  by (simp_all add: getUint_def unbe_be)

lemma getUint_less: "getUint n off buf = Inr v \<Longrightarrow> v < 256 ^ n"
proof -
  assume "getUint n off buf = Inr v"
  then have "length (take n (drop off buf)) = n" and "v = unbe (take n (drop off buf))"
    by (auto simp: getUint_def split: if_splits)
  then show ?thesis using unbe_less [of "take n (drop off buf)"] by simp
qed

lemma getUint_short: "length buf < off + n \<Longrightarrow> getUint n off buf = Inl RangeError"
  by (simp add: getUint_def)

end
