(* ===== verification/Mux_Codec.thy ===== *)
theory Mux_Codec
  imports JS_Buffer
begin

text \<open>
  The frames of the stream multiplexing protocol of \<open>sql/ts/src/skdb_orchestration.ts\<close>:
  the message types, the private encoders of \<open>MuxedSocket\<close> and the parsing part of its
  \<open>decode\<close>. The lemmas give every encoder's byte layout, show that its buffer is always large
  enough, and that parsing an encoded frame returns what was encoded.

  The platform's randomness, clock and HMAC signature enter \<open>encodeAuthMsg\<close> as arguments.
\<close>

unbundle bit_operations_syntax

section \<open>Messages\<close>

text \<open>
  \<open>MuxGoaway lastStream errorCode msg\<close>, \<open>MuxStreamData stream payload\<close>,
  \<open>MuxStreamClose stream\<close>, \<open>MuxStreamReset stream errorCode msg\<close>.
\<close>

datatype MuxMessage =
    MuxAuth
  | MuxGoaway nat nat jsstring
  | MuxStreamData nat bytes
  | MuxStreamClose nat
  | MuxStreamReset nat nat jsstring

text \<open>What \<open>decode\<close> distinguishes; pings, pongs and unknown types never leave it.\<close>

datatype frame = Frame MuxMessage | Ping nat | Pong nat | Unknown

record Creds =
  accessKey :: jsstring
  deviceUuid :: jsstring

section \<open>Encoders\<close>

definition encodeGoawayMsg :: "nat \<Rightarrow> nat \<Rightarrow> jsstring \<Rightarrow> js_error + bytes" where
  "encodeGoawayMsg lst code m =
     (if 2 ^ 24 \<le> lst then Inl (err ''Cannot encode lastStream'')
      else
        let buf = newBuffer (16 + length m * 4);
            (buf, written) = encodeInto m 16 buf
        in bindE (setUint8 0 0x1 buf) (\<lambda>buf.
           bindE (setUint32 4 lst buf) (\<lambda>buf.
           bindE (setUint32 8 code buf) (\<lambda>buf.
           bindE (setUint32 12 written buf) (\<lambda>buf.
           Inr (slice 0 (16 + written) buf))))))"

definition encodePingMsg :: "js_error + bytes" where
  "encodePingMsg = setUint8 0 0x5 (newBuffer 4)"

definition encodePongMsg :: "js_error + bytes" where
  "encodePongMsg = setUint8 0 0x6 (newBuffer 4)"

definition encodeStreamDataMsg :: "nat \<Rightarrow> bytes \<Rightarrow> js_error + bytes" where
  "encodeStreamDataMsg sid data =
     (if 2 ^ 24 \<le> sid then Inl (err ''Cannot encode stream'')
      else
        let buf = newBuffer (4 + length data)
        in bindE (setUint32 0 (push_bit 24 0x2 OR sid) buf) (\<lambda>buf.
           setBytes data 4 buf))"

definition encodeStreamCloseMsg :: "nat \<Rightarrow> js_error + bytes" where
  "encodeStreamCloseMsg sid =
     (if 2 ^ 24 \<le> sid then Inl (err ''Cannot encode stream'')
      else setUint32 0 (push_bit 24 0x3 OR sid) (newBuffer 4))"

definition encodeStreamResetMsg :: "nat \<Rightarrow> nat \<Rightarrow> jsstring \<Rightarrow> js_error + bytes" where
  "encodeStreamResetMsg sid code m =
     (if 2 ^ 24 \<le> sid then Inl (err ''Cannot encode stream'')
      else
        let buf = newBuffer (12 + length m * 4)
        in bindE (setUint32 0 (push_bit 24 0x4 OR sid) buf) (\<lambda>buf.
           bindE (setUint32 4 code buf) (\<lambda>buf.
           let (buf, written) = encodeInto m 12 buf
           in bindE (setUint32 8 written buf) (\<lambda>buf.
              Inr (slice 0 (12 + written) buf)))))"

text \<open>\<open>btoa(String.fromCharCode(...bytes))\<close>\<close>

definition b64_digit :: "nat \<Rightarrow> code_unit" where
  "b64_digit n = js ''ABCDEFGHIJKLMNOPQRSTUVWXYZabcdefghijklmnopqrstuvwxyz0123456789+/'' ! (n mod 64)"

fun btoa :: "bytes \<Rightarrow> jsstring" where
  "btoa [] = []"
| "btoa [a] = (let n = unat a * 16 in [b64_digit (n div 64), b64_digit n] @ js ''=='')"
| "btoa [a, b] = (let n = (unat a * 256 + unat b) * 4 in
     [b64_digit (n div 4096), b64_digit (n div 64), b64_digit n] @ js ''='')"
| "btoa (a # b # c # rest) = (let n = unat a * 65536 + unat b * 256 + unat c in
     [b64_digit (n div 262144), b64_digit (n div 4096), b64_digit (n div 64), b64_digit n] @ btoa rest)"

definition npmVersion :: jsstring where
  "npmVersion = js ''''"

definition clientVersion :: jsstring where
  "clientVersion = js ''js-'' @ npmVersion"

text \<open>
  \<open>rnd\<close> are the eight random bytes, \<open>now\<close> is \<open>new Date().toISOString()\<close> and \<open>sign\<close> the HMAC
  under the private key.
\<close>

definition encodeAuthMsg :: "Creds \<Rightarrow> bytes \<Rightarrow> jsstring \<Rightarrow> (bytes \<Rightarrow> bytes) \<Rightarrow> js_error + bytes" where
  "encodeAuthMsg creds rnd now sign =
     (let buf = newBuffer (140 + length clientVersion)
      in bindE (setBytes rnd 35 buf) (\<lambda>buf.
         let b64nonce = btoa rnd;
             bytesToSign = utf8_encode (js ''auth'' @ accessKey creds @ now @ b64nonce);
             sig = sign bytesToSign
         in bindE (setUint8 0 0x0 buf) (\<lambda>buf.
            bindE (setUint8 4 0x0 buf) (\<lambda>buf.
            let (buf, written) = encodeInto (accessKey creds) 8 buf
            in if written = 0 \<or> 27 < written then Inl (err ''Unable to encode access key'')
               else bindE (setBytes sig 43 buf) (\<lambda>buf.
                 let (buf, written) = encodeInto (deviceUuid creds) 75 buf
                 in if written = 0 \<or> written \<noteq> 36 then Inl (err ''Unable to encode device id'')
                    else
                      let (buf, written) = encodeInto now 112 buf
                      in bindE (if written = 24 then Inr (buf, 136)
                                else if written = 27
                                then bindE (setUint8 111 0x1 buf) (\<lambda>buf. Inr (buf, 139))
                                else Inl (err ''Unexpected ISO date length''))
                          (\<lambda>(buf, pos).
                            let (buf, written) = encodeInto clientVersion (pos + 1) buf
                            in if 255 < written then Inl (err ''Client version too long to encode'')
                               else bindE (setUint8 pos written buf) (\<lambda>buf.
                                 Inr (slice 0 (pos + 1 + written) buf))))))))"

section \<open>Parsing\<close>

definition decode_frame :: "bytes \<Rightarrow> js_error + frame" where
  "decode_frame m =
     bindE (getUint32 0 m) (\<lambda>typeAndStream.
     let type = drop_bit 24 typeAndStream;
         sid = typeAndStream AND 0xffffff
     in if type = 0 then Inr (Frame MuxAuth)
        else if type = 1 then
          bindE (getUint32 12 m) (\<lambda>msgLength.
          bindE (view 16 msgLength m) (\<lambda>errorMsgBytes.
          bindE (getUint32 4 m) (\<lambda>lastStream.
          bindE (getUint32 8 m) (\<lambda>errorCode.
          Inr (Frame (MuxGoaway lastStream errorCode (utf8_decode errorMsgBytes)))))))
        else if type = 2 then Inr (Frame (MuxStreamData sid (drop 4 m)))
        else if type = 3 then Inr (Frame (MuxStreamClose sid))
        else if type = 4 then
          bindE (getUint32 8 m) (\<lambda>msgLength.
          bindE (view 12 msgLength m) (\<lambda>errorMsgBytes.
          bindE (getUint32 4 m) (\<lambda>errorCode.
          Inr (Frame (MuxStreamReset sid errorCode (utf8_decode errorMsgBytes))))))
        else if type = 5 then Inr (Ping sid)
        else if type = 6 then Inr (Pong sid)
        else Inr Unknown)"

section \<open>Type and stream in one word\<close>

lemma type_or_stream:
  fixes t s :: nat
  assumes "s < 2 ^ 24"
  shows "push_bit 24 t OR s = t * 2 ^ 24 + s"
proof -
  have "take_bit 24 s = s" using assms by (simp add: take_bit_nat_eq_self)
  then have "\<not> bit (push_bit 24 t) n \<or> \<not> bit s n" for n
    by (metis bit_push_bit_iff bit_take_bit_iff not_le)
  then have "push_bit 24 t + s = push_bit 24 t OR s" by (rule disjunctive_add)
  then show ?thesis by (simp add: push_bit_eq_mult mult.commute)
qed

lemma type_of_word: "s < 2 ^ 24 \<Longrightarrow> drop_bit 24 (t * 2 ^ 24 + s :: nat) = t"
  by (simp add: drop_bit_eq_div)

lemma stream_of_word: "s < 2 ^ 24 \<Longrightarrow> (t * 2 ^ 24 + s :: nat) AND 0xffffff = s"
proof -
  assume s: "s < 2 ^ 24"
  have "(0xffffff :: nat) = mask 24" by (simp add: mask_eq_exp_minus_1)
  then have "(t * 2 ^ 24 + s) AND 0xffffff = take_bit 24 (t * 2 ^ 24 + s)"
    by (simp only: take_bit_eq_mask)
  also have "\<dots> = s" using s by (simp add: take_bit_eq_mod)
  finally show ?thesis .
qed

section \<open>Layouts\<close>

lemmas type_words =
  type_or_stream [where t = 2, simplified] type_or_stream [where t = 3, simplified]
  type_or_stream [where t = 4, simplified]

lemmas encode_simps = buf_simps Let_def type_words

lemma encodeGoawayMsg_layout:
  assumes "lst < 2 ^ 24"
  shows "encodeGoawayMsg lst code m =
     Inr (be 1 1 @ newBuffer 3 @ be 4 lst @ be 4 code @ be 4 (length (utf8_encode m)) @ utf8_encode m)"
proof -
  have "newBuffer (16 + length m * 4)
      = newBuffer 1 @ newBuffer 3 @ newBuffer 4 @ newBuffer 4 @ newBuffer 4 @ newBuffer (length m * 4)"
    by (simp add: newBuffer_add [symmetric])
  with assms show ?thesis
    by (simp add: encodeGoawayMsg_def encode_simps)
qed

lemma encodePingMsg_layout: "encodePingMsg = Inr (be 1 5 @ newBuffer 3)"
  and encodePongMsg_layout: "encodePongMsg = Inr (be 1 6 @ newBuffer 3)"
  by (simp_all add: encodePingMsg_def encodePongMsg_def write_at_def)

lemma encodeStreamDataMsg_layout:
  "sid < 2 ^ 24 \<Longrightarrow> encodeStreamDataMsg sid data = Inr (be 4 (2 * 2 ^ 24 + sid) @ data)"
  by (simp add: encodeStreamDataMsg_def newBuffer_add encode_simps)

lemma encodeStreamCloseMsg_layout:
  "sid < 2 ^ 24 \<Longrightarrow> encodeStreamCloseMsg sid = Inr (be 4 (3 * 2 ^ 24 + sid))"
  by (simp add: encodeStreamCloseMsg_def encode_simps)

lemma encodeStreamResetMsg_layout:
  assumes "sid < 2 ^ 24"
  shows "encodeStreamResetMsg sid code m =
     Inr (be 4 (4 * 2 ^ 24 + sid) @ be 4 code @ be 4 (length (utf8_encode m)) @ utf8_encode m)"
proof -
  have "newBuffer (12 + length m * 4)
      = newBuffer 4 @ newBuffer 4 @ newBuffer 4 @ newBuffer (length m * 4)"
    by (simp add: newBuffer_add [symmetric])
  with assms show ?thesis
    by (simp add: encodeStreamResetMsg_def encode_simps)
qed

lemma encode_too_large:
  "2 ^ 24 \<le> sid \<Longrightarrow> encodeGoawayMsg sid code m = Inl (err ''Cannot encode lastStream'')"
  "2 ^ 24 \<le> sid \<Longrightarrow> encodeStreamDataMsg sid data = Inl (err ''Cannot encode stream'')"
  "2 ^ 24 \<le> sid \<Longrightarrow> encodeStreamCloseMsg sid = Inl (err ''Cannot encode stream'')"
  "2 ^ 24 \<le> sid \<Longrightarrow> encodeStreamResetMsg sid code m = Inl (err ''Cannot encode stream'')"
  by (simp_all add: encodeGoawayMsg_def encodeStreamDataMsg_def encodeStreamCloseMsg_def
      encodeStreamResetMsg_def)

section \<open>Authentication message\<close>

text \<open>
  Fixed offsets: 8 zero bytes, the access key in 27 bytes, the nonce in 8, the signature in 32,
  the device id in 36, a flag for the long date format, the date, the length of the client
  version and the version.
\<close>

definition auth_prefix :: "bytes \<Rightarrow> bytes \<Rightarrow> bytes \<Rightarrow> bytes \<Rightarrow> bytes" where
  "auth_prefix key rnd sig uuid =
     newBuffer 8 @ (key @ newBuffer (27 - length key)) @ rnd @ sig @ uuid"

lemma utf8_clientVersion: "utf8_encode clientVersion = [0x6A, 0x73, 0x2D]"
  by (simp add: clientVersion_def npmVersion_def utf8_encode_def utf8_cps_def encode_cp_def is_high_def is_low_def)

lemma encodeAuthMsg_layout:
  fixes creds :: Creds and now :: jsstring and rnd :: bytes
  defines "key \<equiv> utf8_encode (accessKey creds)" and "uuid \<equiv> utf8_encode (deviceUuid creds)"
    and "date \<equiv> utf8_encode now"
  defines "tosign \<equiv> utf8_encode (js ''auth'' @ accessKey creds @ now @ btoa rnd)"
  assumes "key \<noteq> []" "length key \<le> 27" "length rnd = 8" "length (sign tosign) = 32"
    "length uuid = 36" "length date = 24 \<or> length date = 27"
  shows "encodeAuthMsg creds rnd now sign =
     Inr (auth_prefix key rnd (sign tosign) uuid @ be 1 (if length date = 27 then 1 else 0)
          @ date @ be 1 3 @ [0x6A, 0x73, 0x2D])"
proof -
  define K where "K = key @ newBuffer (27 - length key)"
  have K: "length K = 27" using assms by (simp add: K_def)
  have key: "encodeInto (accessKey creds) 0 (newBuffer 27 @ rest) = (K @ rest, length key)" for rest
    using assms encodeInto_fits [of "accessKey creds" "newBuffer 27 @ rest"] by (simp add: K_def)
  have uuid: "encodeInto (deviceUuid creds) 0 (newBuffer 36 @ rest) = (uuid @ rest, 36)" for rest
    using assms encodeInto_fits [of "deviceUuid creds" "newBuffer 36 @ rest"] by simp
  have date: "encodeInto now 0 (newBuffer n @ rest) = (date @ rest, n)" if "length date = n" for n rest
    using that assms encodeInto_fits [of now "newBuffer n @ rest"] by simp
  have version: "encodeInto clientVersion 0 (newBuffer 3 @ rest)
      = ([0x6A, 0x73, 0x2D] @ rest, 3)" for rest
    using encodeInto_fits [of clientVersion "newBuffer 3 @ rest"]
    by (simp add: utf8_clientVersion)
  have z: "newBuffer 143 = newBuffer 1 @ newBuffer 3 @ newBuffer 1 @ newBuffer 3 @ newBuffer 27
      @ newBuffer 8 @ newBuffer 32 @ newBuffer 36 @ newBuffer 1 @ newBuffer 31"
    and z24: "newBuffer 31 = newBuffer 24 @ newBuffer 1 @ newBuffer 3 @ newBuffer 3"
    and z27: "newBuffer 31 = newBuffer 27 @ newBuffer 1 @ newBuffer 3"
    by (simp_all add: newBuffer_add [symmetric])
  have flag: "newBuffer (Suc 0) = be (Suc 0) 0" by (simp add: newBuffer_def be.simps)
  have "newBuffer 8 = newBuffer 1 @ newBuffer 3 @ newBuffer 1 @ newBuffer 3"
    by (simp add: newBuffer_add [symmetric])
  then have pre: "be (Suc 0) 0 @ newBuffer 3 @ be (Suc 0) 0 @ newBuffer 3 @ rest = newBuffer 8 @ rest"
    for rest by (simp add: flag)
  have len: "length clientVersion = 3" by (simp add: clientVersion_def npmVersion_def)
  note facts = encodeAuthMsg_def Let_def len z K key uuid version version [of "[]", simplified] auth_prefix_def
    K_def [symmetric] tosign_def [symmetric]
  from assms(10) show ?thesis
  proof
    assume d: "length date = 24"
    with assms(5-9) show ?thesis
      by (simp add: facts date [OF d] buf_simps z24 del: js_simps) (simp add: flag pre)
  next
    assume d: "length date = 27"
    with assms(5-9) show ?thesis
      by (simp add: facts date [OF d] buf_simps z27 del: js_simps) (simp add: flag pre [of "[]", simplified])
  qed
qed

section \<open>Round trips\<close>

lemma type_byte_word: "be 1 t @ newBuffer 3 = be 4 (t * 2 ^ 24 + 0)"
  using be_high [of 1 3 t] by simp

lemma decode_frame_word:
  assumes "s < 2 ^ 24" "t < 256"
  shows "getUint32 0 (be 4 (t * 2 ^ 24 + s) @ rest) = Inr (t * 2 ^ 24 + s)"
proof -
  have "t * 2 ^ 24 + s < 256 ^ 4" using assms by simp
  then show ?thesis by (simp add: getUint_be)
qed

lemmas decode_word = decode_frame_word type_of_word stream_of_word

lemma decode_goaway:
  assumes "lst < 2 ^ 24" "code < 2 ^ 32" "text_ok m" "length (utf8_encode m) < 2 ^ 32"
  shows "bindE (encodeGoawayMsg lst code m) decode_frame = Inr (Frame (MuxGoaway lst code m))"
proof -
  have "encodeGoawayMsg lst code m = Inr (be 4 (1 * 2 ^ 24 + 0) @ be 4 lst @ be 4 code
      @ be 4 (length (utf8_encode m)) @ utf8_encode m)"
    using encodeGoawayMsg_layout [OF assms(1), of code m] type_byte_word [of 1]
    by (metis append.assoc)
  with assms show ?thesis
    by (simp add: decode_frame_def decode_word [where t = 1 and s = 0, simplified] buf_simps
        utf8_roundtrip)
qed

lemma decode_data:
  assumes "sid < 2 ^ 24"
  shows "bindE (encodeStreamDataMsg sid data) decode_frame = Inr (Frame (MuxStreamData sid data))"
  using assms decode_word [OF assms, of 2]
  by (simp add: encodeStreamDataMsg_layout decode_frame_def)

lemma decode_close:
  assumes "sid < 2 ^ 24"
  shows "bindE (encodeStreamCloseMsg sid) decode_frame = Inr (Frame (MuxStreamClose sid))"
  using assms decode_word [OF assms, of 3] decode_frame_word [OF assms, of 3 "[]"]
  by (simp add: encodeStreamCloseMsg_layout decode_frame_def)

lemma decode_reset:
  assumes "sid < 2 ^ 24" "code < 2 ^ 32" "text_ok m" "length (utf8_encode m) < 2 ^ 32"
  shows "bindE (encodeStreamResetMsg sid code m) decode_frame
           = Inr (Frame (MuxStreamReset sid code m))"
  using assms decode_word [OF assms(1), of 4]
  by (simp add: encodeStreamResetMsg_layout decode_frame_def buf_simps utf8_roundtrip)

lemma decode_ping: "bindE encodePingMsg decode_frame = Inr (Ping 0)"
  and decode_pong: "bindE encodePongMsg decode_frame = Inr (Pong 0)"
  unfolding encodePingMsg_layout encodePongMsg_layout type_byte_word
  using decode_frame_word [of 0 5 "[]"] decode_frame_word [of 0 6 "[]"]
    type_of_word [of 0 5] type_of_word [of 0 6] stream_of_word [of 0 5] stream_of_word [of 0 6]
  by (simp_all add: decode_frame_def)

text \<open>
  C36: every frame \<open>MuxedSocket\<close> encodes is parsed back by \<open>decode\<close> to the message that was
  encoded: goaway, data, close, reset, ping and pong frames, for every stream number below 2^24,
  every 32-bit error code and every text that is well-formed UTF-16 without a leading byte order
  mark.
\<close>

theorem mux_frames_roundtrip:
  assumes "sid < 2 ^ 24" "code < 2 ^ 32" "text_ok m" "length (utf8_encode m) < 2 ^ 32"
  shows "bindE (encodeGoawayMsg sid code m) decode_frame = Inr (Frame (MuxGoaway sid code m))
    \<and> bindE (encodeStreamDataMsg sid data) decode_frame = Inr (Frame (MuxStreamData sid data))
    \<and> bindE (encodeStreamCloseMsg sid) decode_frame = Inr (Frame (MuxStreamClose sid))
    \<and> bindE (encodeStreamResetMsg sid code m) decode_frame = Inr (Frame (MuxStreamReset sid code m))
    \<and> bindE encodePingMsg decode_frame = Inr (Ping 0)
    \<and> bindE encodePongMsg decode_frame = Inr (Pong 0)"
  using assms by (simp add: decode_goaway decode_data decode_close decode_reset decode_ping decode_pong)

theorem mux_frames_roundtrip_witness:
  "bindE (encodeGoawayMsg 5 7 (js ''bye'')) decode_frame = Inr (Frame (MuxGoaway 5 7 (js ''bye'')))
    \<and> bindE (encodeStreamDataMsg 5 [1, 2]) decode_frame = Inr (Frame (MuxStreamData 5 [1, 2]))"
proof -
  have "text_ok (js ''bye'')" and "length (utf8_encode (js ''bye'')) = 3"
    by (simp_all add: text_eval)
  then show ?thesis
    using mux_frames_roundtrip [of 5 7 "js ''bye''" "[1, 2]"] by simp
qed

end
