(* ===== verification/Mux_World.thy ===== *)
theory Mux_World
  imports Mux_Codec
begin

text \<open>
  The state shared by the classes \<open>MuxedSocket\<close> and \<open>Stream\<close> of
  \<open>sql/ts/src/skdb_orchestration.ts\<close>: one heap of sockets, one of streams, the timers, promises
  and continuations they create, and the log of what reaches the \<open>WebSocket\<close>. A callback stored
  in an object is a handler identifier; what a handler does is an argument of the operations
  that call it, so that callbacks may re-enter the objects. The record is extensible: the
  resilient layer adds its own objects to it.
\<close>

section \<open>Objects\<close>

datatype MuxedSocketState = IDLE | AUTH_SENT | CLOSING | CLOSEWAIT | CLOSED

datatype StreamState = S_OPEN | S_CLOSING | S_CLOSEWAIT | S_CLOSED

text \<open>
  A health check closure is its timer and the promise it resolves. \<open>activeStreams\<close> is an
  insertion-ordered map from stream numbers to the addresses of \<open>Stream\<close> objects.
\<close>

record 'h MuxedSocket =
  state :: MuxedSocketState
  reauthTimer :: "nat option"
  activeStreams :: "(nat \<times> nat) list"
  serverStreamWatermark :: nat
  nextStream :: nat
  healthChecks :: "(nat \<times> nat) list"
  onStream :: "'h option"
  onClose :: "'h option"
  onError :: "'h option"

record 'h Stream =
  st_socket :: nat
  streamId :: nat
  st_state :: StreamState
  st_onClose :: "'h option"
  st_onError :: "'h option"
  st_onData :: "'h option"

text \<open>
  A \<open>WebSocket\<close> that \<open>MuxedSocket.connect\<close> waits for, with the \<open>MuxedSocket\<close> on it once it is open.
\<close>

record Connection =
  muxSocket :: "nat option"
  failed :: bool
  connPromise :: nat
  connTimer :: nat

section \<open>Timers, promises, continuations and effects\<close>

datatype task =
    ReauthTask nat
  | OpenTask nat nat
  | PingTask nat
  | ConnectTask nat
  | FailureTask nat
  | BackoffTask nat "nat option"

datatype pvalue = PUnit | PBool bool | PStream nat | PSocket nat | PResilient nat

datatype promise = Pending | Resolved pvalue | Rejected js_error

datatype job = AuthJob nat "nat option"

datatype effect =
    Sent nat bytes
  | SocketClosed nat "nat option"
  | ConnClosed nat
  | ConsoleError js_error

record 'h mux_world =
  sockets :: "nat \<Rightarrow> 'h MuxedSocket"
  streams :: "nat \<Rightarrow> 'h Stream"
  conns :: "nat \<Rightarrow> Connection"
  promises :: "nat \<Rightarrow> promise"
  timers :: "(nat \<times> task) list"
  jobs :: "job list"
  out :: "effect list"
  nextConn :: nat
  nextSocketAddr :: nat
  nextStreamAddr :: nat
  nextPromise :: nat
  nextTimer :: nat

definition newMuxedSocket :: "'h MuxedSocket" where
  "newMuxedSocket = \<lparr>state = IDLE, reauthTimer = None, activeStreams = [],
     serverStreamWatermark = 0, nextStream = 1, healthChecks = [],
     onStream = None, onClose = None, onError = None\<rparr>"

definition newStreamObject :: "nat \<Rightarrow> nat \<Rightarrow> 'h Stream" where
  "newStreamObject s sid = \<lparr>st_socket = s, streamId = sid, st_state = S_OPEN,
     st_onClose = None, st_onError = None, st_onData = None\<rparr>"

text \<open>Addresses that are not allocated yet hold closed streams.\<close>

definition init_world :: "'h mux_world" where
  "init_world = \<lparr>sockets = (\<lambda>_. newMuxedSocket), streams = (\<lambda>_. (newStreamObject 0 0)\<lparr>st_state := S_CLOSED\<rparr>),
     conns = (\<lambda>_. \<lparr>muxSocket = None, failed = False, connPromise = 0, connTimer = 0\<rparr>),
     promises = (\<lambda>_. Pending), timers = [], jobs = [], out = [],
     nextConn = 0, nextSocketAddr = 0, nextStreamAddr = 0, nextPromise = 0, nextTimer = 0\<rparr>"

section \<open>Primitive operations\<close>

text \<open>Handlers: what the stored callbacks do, by identifier.\<close>

record ('h, 'w) stream_handlers =
  hClose :: "'h \<Rightarrow> ('w, unit) js"
  hError :: "'h \<Rightarrow> nat \<Rightarrow> jsstring \<Rightarrow> ('w, unit) js"
  hData :: "'h \<Rightarrow> bytes \<Rightarrow> ('w, unit) js"

record ('h, 'w) socket_handlers =
  kStream :: "'h \<Rightarrow> nat \<Rightarrow> ('w, unit) js"
  kClose :: "'h \<Rightarrow> ('w, unit) js"
  kError :: "'h \<Rightarrow> nat \<Rightarrow> jsstring \<Rightarrow> ('w, unit) js"

definition callIf :: "'h option \<Rightarrow> ('h \<Rightarrow> ('w, unit) js) \<Rightarrow> ('w, unit) js" where
  "callIf h f = (case h of None \<Rightarrow> skip | Some h \<Rightarrow> f h)"

definition updSocket ::
  "nat \<Rightarrow> ('h MuxedSocket \<Rightarrow> 'h MuxedSocket) \<Rightarrow> (('h, 'a) mux_world_scheme, unit) js" where
  "updSocket s f = modifies (\<lambda>w. w\<lparr>sockets := (sockets w)(s := f (sockets w s))\<rparr>)"

definition updStream ::
  "nat \<Rightarrow> ('h Stream \<Rightarrow> 'h Stream) \<Rightarrow> (('h, 'a) mux_world_scheme, unit) js" where
  "updStream a f = modifies (\<lambda>w. w\<lparr>streams := (streams w)(a := f (streams w a))\<rparr>)"

definition emit :: "effect \<Rightarrow> (('h, 'a) mux_world_scheme, unit) js" where
  "emit e = modifies (\<lambda>w. w\<lparr>out := out w @ [e]\<rparr>)"

definition setTimeout :: "task \<Rightarrow> (nat \<Rightarrow> (('h, 'a) mux_world_scheme, unit) js) \<Rightarrow>
    (('h, 'a) mux_world_scheme, unit) js" where
  "setTimeout t k = reads (\<lambda>w.
     andThen (modifies (\<lambda>w. w\<lparr>timers := timers w @ [(nextTimer w, t)], nextTimer := nextTimer w + 1\<rparr>))
       (\<lambda>_. k (nextTimer w)))"

definition clearTimeout :: "nat option \<Rightarrow> (('h, 'a) mux_world_scheme, unit) js" where
  "clearTimeout t = (case t of None \<Rightarrow> skip
     | Some i \<Rightarrow> modifies (\<lambda>w. w\<lparr>timers := amap_del i (timers w)\<rparr>))"

text \<open>Only the first \<open>resolve\<close> or \<open>reject\<close> of a promise has an effect.\<close>

definition settle :: "nat \<Rightarrow> promise \<Rightarrow> (('h, 'a) mux_world_scheme, unit) js" where
  "settle p v = modifies (\<lambda>w.
     if promises w p = Pending then w\<lparr>promises := (promises w)(p := v)\<rparr> else w)"

lemma settle_once:
  "promises w p \<noteq> Pending \<Longrightarrow> settle p v w = (Inr (), w)"
  by (simp add: settle_def)

end
