(* ===== verification/Mux_Stream.thy ===== *)
theory Mux_Stream
  imports Mux_World
begin

text \<open>
  The class \<open>Stream\<close> and the part of \<open>MuxedSocket\<close> it calls. Streams are half-closed on each
  side separately. The contract of every stream operation is given by an invariant of worlds
  (\<open>mux_inv\<close>) and a relation on worlds (\<open>evolves\<close>): stream numbers are unique on a socket, states
  only move towards closed, and no frame of a stream leaves after its local side was closed.
\<close>

section \<open>Interface of the socket used by Stream\<close>

definition streamClose :: "nat \<Rightarrow> nat \<Rightarrow> bool \<Rightarrow> (('h, 'a) mux_world_scheme, unit) js" where
  "streamClose s sid nowClosed = reads (\<lambda>w. case state (sockets w s) of
     IDLE \<Rightarrow> skip | CLOSING \<Rightarrow> skip | CLOSED \<Rightarrow> skip
   | _ \<Rightarrow> andThen (lift (encodeStreamCloseMsg sid)) (\<lambda>b.
          andThen (emit (Sent s b)) (\<lambda>_.
          if nowClosed then updSocket s (activeStreams_update (amap_del sid)) else skip)))"

definition streamError :: "nat \<Rightarrow> nat \<Rightarrow> nat \<Rightarrow> jsstring \<Rightarrow> (('h, 'a) mux_world_scheme, unit) js" where
  "streamError s sid errorCode msg = reads (\<lambda>w. case state (sockets w s) of
     IDLE \<Rightarrow> skip | CLOSING \<Rightarrow> skip | CLOSED \<Rightarrow> skip
   | _ \<Rightarrow> andThen (lift (encodeStreamResetMsg sid errorCode msg)) (\<lambda>b.
          andThen (emit (Sent s b)) (\<lambda>_.
          updSocket s (activeStreams_update (amap_del sid)))))"

definition streamSend :: "nat \<Rightarrow> nat \<Rightarrow> bytes \<Rightarrow> (('h, 'a) mux_world_scheme, unit) js" where
  "streamSend s sid data = reads (\<lambda>w. case state (sockets w s) of
     IDLE \<Rightarrow> skip | CLOSING \<Rightarrow> skip | CLOSED \<Rightarrow> skip
   | _ \<Rightarrow> andThen (lift (encodeStreamDataMsg sid data)) (\<lambda>b. emit (Sent s b)))"

section \<open>Stream: user facing interface\<close>

definition close :: "nat \<Rightarrow> (('h, 'a) mux_world_scheme, unit) js" where
  "close a = reads (\<lambda>w. let st = streams w a in case st_state st of
     S_CLOSING \<Rightarrow> skip | S_CLOSED \<Rightarrow> skip
   | S_OPEN \<Rightarrow> andThen (updStream a (st_state_update (\<lambda>_. S_CLOSING)))
                 (\<lambda>_. streamClose (st_socket st) (streamId st) False)
   | S_CLOSEWAIT \<Rightarrow> andThen (updStream a (st_state_update (\<lambda>_. S_CLOSED)))
                 (\<lambda>_. streamClose (st_socket st) (streamId st) True))"

definition error :: "nat \<Rightarrow> nat \<Rightarrow> jsstring \<Rightarrow> (('h, 'a) mux_world_scheme, unit) js" where
  "error a errorCode msg = reads (\<lambda>w. let st = streams w a in
     if st_state st = S_CLOSED \<or> st_state st = S_CLOSING
     then updStream a (st_state_update (\<lambda>_. S_CLOSED))
     else andThen (updStream a (st_state_update (\<lambda>_. S_CLOSED)))
            (\<lambda>_. streamError (st_socket st) (streamId st) errorCode msg))"

definition send :: "nat \<Rightarrow> bytes \<Rightarrow> (('h, 'a) mux_world_scheme, unit) js" where
  "send a data = reads (\<lambda>w. let st = streams w a in
     if st_state st = S_CLOSING \<or> st_state st = S_CLOSED then skip
     else streamSend (st_socket st) (streamId st) data)"

section \<open>Stream: interface used by MuxedSocket\<close>

definition onStreamClose ::
  "('h, ('h, 'a) mux_world_scheme) stream_handlers \<Rightarrow> nat \<Rightarrow> (('h, 'a) mux_world_scheme, bool) js" where
  "onStreamClose sh a = reads (\<lambda>w. let st = streams w a in case st_state st of
     S_CLOSED \<Rightarrow> ret True
   | S_CLOSEWAIT \<Rightarrow> ret False
   | S_OPEN \<Rightarrow> andThen (updStream a (st_state_update (\<lambda>_. S_CLOSEWAIT))) (\<lambda>_.
               andThen (callIf (st_onClose st) (hClose sh)) (\<lambda>_. ret False))
   | S_CLOSING \<Rightarrow> andThen (updStream a (st_state_update (\<lambda>_. S_CLOSED))) (\<lambda>_.
               andThen (callIf (st_onClose st) (hClose sh)) (\<lambda>_. ret True)))"

definition onStreamError :: "('h, ('h, 'a) mux_world_scheme) stream_handlers \<Rightarrow> nat \<Rightarrow>
    nat \<Rightarrow> jsstring \<Rightarrow> (('h, 'a) mux_world_scheme, unit) js" where
  "onStreamError sh a errorCode msg = reads (\<lambda>w. let st = streams w a in
     if st_state st = S_CLOSED then skip
     else andThen (updStream a (st_state_update (\<lambda>_. S_CLOSED)))
            (\<lambda>_. callIf (st_onError st) (\<lambda>h. hError sh h errorCode msg)))"

definition onStreamData :: "('h, ('h, 'a) mux_world_scheme) stream_handlers \<Rightarrow> nat \<Rightarrow>
    bytes \<Rightarrow> (('h, 'a) mux_world_scheme, unit) js" where
  "onStreamData sh a data = reads (\<lambda>w. let st = streams w a in
     if st_state st = S_CLOSED \<or> st_state st = S_CLOSEWAIT then skip
     else callIf (st_onData st) (\<lambda>h. hData sh h data))"

section \<open>The contract\<close>

unbundle bit_operations_syntax

text \<open>The stream a data, close or reset frame belongs to.\<close>

definition stream_frame :: "bytes \<Rightarrow> nat option" where
  "stream_frame b = (case getUint32 0 b of Inl e \<Rightarrow> None
     | Inr v \<Rightarrow> if drop_bit 24 v \<in> {2, 3, 4} then Some (v AND 0xffffff) else None)"

definition local_closed :: "StreamState \<Rightarrow> bool" where
  "local_closed st \<longleftrightarrow> st = S_CLOSING \<or> st = S_CLOSED"

definition remote_closed :: "StreamState \<Rightarrow> bool" where
  "remote_closed st \<longleftrightarrow> st = S_CLOSEWAIT \<or> st = S_CLOSED"

definition st_le :: "StreamState \<Rightarrow> StreamState \<Rightarrow> bool" where
  "st_le x y \<longleftrightarrow> (local_closed x \<longrightarrow> local_closed y) \<and> (remote_closed x \<longrightarrow> remote_closed y)"

text \<open>The entries of one socket: what \<open>activeStreams\<close> holds are its own streams.\<close>

definition socket_ok :: "('h, 'a) mux_world_scheme \<Rightarrow> nat \<Rightarrow> bool" where
  "socket_ok w s \<longleftrightarrow>
     distinct (map fst (activeStreams (sockets w s)))
   \<and> (\<forall>(k, a) \<in> set (activeStreams (sockets w s)).
        a < nextStreamAddr w \<and> streamId (streams w a) = k \<and> st_socket (streams w a) = s)
   \<and> odd (nextStream (sockets w s))
   \<and> (state (sockets w s) = CLOSED \<longrightarrow> activeStreams (sockets w s) = [])"

text \<open>
  Client streams have odd numbers below \<open>nextStream\<close>, server streams even numbers up to the
  watermark.
\<close>

definition stream_ok :: "('h, 'a) mux_world_scheme \<Rightarrow> nat \<Rightarrow> bool" where
  "stream_ok w a \<longleftrightarrow> (let st = streams w a; so = sockets w (st_socket st) in
     if odd (streamId st) then streamId st < nextStream so
     else streamId st \<le> serverStreamWatermark so)"

text \<open>Objects that were not created yet: no stream, job or timer refers to such a socket.\<close>

definition alloc_ok :: "('h, 'a) mux_world_scheme \<Rightarrow> bool" where
  "alloc_ok w \<longleftrightarrow>
     (\<forall>a < nextStreamAddr w. st_socket (streams w a) < nextSocketAddr w)
   \<and> (\<forall>a \<ge> nextStreamAddr w. st_state (streams w a) = S_CLOSED)
   \<and> (\<forall>s \<ge> nextSocketAddr w. state (sockets w s) \<notin> {AUTH_SENT, CLOSING}
        \<and> nextStream (sockets w s) = 1 \<and> serverStreamWatermark (sockets w s) = 0)
   \<and> (\<forall>s k. AuthJob s k \<in> set (jobs w) \<longrightarrow> s < nextSocketAddr w)
   \<and> (\<forall>i s. (i, ReauthTask s) \<in> set (timers w) \<longrightarrow> s < nextSocketAddr w)"

definition mux_inv :: "('h, 'a) mux_world_scheme \<Rightarrow> bool" where
  "mux_inv w \<longleftrightarrow> (\<forall>s. socket_ok w s) \<and> (\<forall>a < nextStreamAddr w. stream_ok w a) \<and> alloc_ok w
   \<and> (\<forall>a < nextStreamAddr w. \<forall>b < nextStreamAddr w.
        st_socket (streams w a) = st_socket (streams w b)
        \<longrightarrow> streamId (streams w a) = streamId (streams w b) \<longrightarrow> a = b)"

text \<open>A frame that belongs to a stream whose local side is closed in \<open>w\<close>.\<close>

definition late_frame :: "('h, 'a) mux_world_scheme \<Rightarrow> effect \<Rightarrow> bool" where
  "late_frame w e \<longleftrightarrow> (case e of
     Sent s b \<Rightarrow> (\<exists>a < nextStreamAddr w. st_socket (streams w a) = s
        \<and> stream_frame b = Some (streamId (streams w a)) \<and> local_closed (st_state (streams w a)))
   | _ \<Rightarrow> False)"

definition same_stream :: "'h Stream \<Rightarrow> 'h Stream \<Rightarrow> bool" where
  "same_stream x y \<longleftrightarrow> st_socket y = st_socket x \<and> streamId y = streamId x
     \<and> st_le (st_state x) (st_state y)"

definition evolves :: "('h, 'a) mux_world_scheme \<Rightarrow> ('h, 'a) mux_world_scheme \<Rightarrow> bool" where
  "evolves w w' \<longleftrightarrow> nextStreamAddr w \<le> nextStreamAddr w' \<and> nextSocketAddr w \<le> nextSocketAddr w'
   \<and> (\<forall>a < nextStreamAddr w. same_stream (streams w a) (streams w' a))
   \<and> (\<forall>s. nextStream (sockets w s) \<le> nextStream (sockets w' s)
        \<and> serverStreamWatermark (sockets w s) \<le> serverStreamWatermark (sockets w' s))
   \<and> (\<exists>es. out w' = out w @ es \<and> (\<forall>e \<in> set es. \<not> late_frame w e))"

lemma st_le_refl [simp]: "st_le x x"
  by (simp add: st_le_def)

lemma st_le_trans: "st_le x y \<Longrightarrow> st_le y z \<Longrightarrow> st_le x z"
  by (simp add: st_le_def)

lemma st_le_antisym: "st_le x y \<Longrightarrow> st_le y x \<Longrightarrow> x = y"
  by (cases x; cases y) (simp_all add: st_le_def local_closed_def remote_closed_def)

lemma closed_final: "st_le S_CLOSED x \<longleftrightarrow> x = S_CLOSED"
  by (cases x) (simp_all add: st_le_def local_closed_def remote_closed_def)

lemma same_stream_refl [simp]: "same_stream x x"
  by (simp add: same_stream_def)

lemma same_stream_trans: "same_stream x y \<Longrightarrow> same_stream y z \<Longrightarrow> same_stream x z"
  unfolding same_stream_def using st_le_trans by metis

lemma late_frame_mono:
  assumes "late_frame w e" "nextStreamAddr w \<le> nextStreamAddr w'"
    "\<forall>a < nextStreamAddr w. same_stream (streams w a) (streams w' a)"
  shows "late_frame w' e"
  using assms
  by (force simp: late_frame_def same_stream_def st_le_def split: effect.splits)

lemma evolves_refl [simp]: "evolves w w"
  by (simp add: evolves_def same_stream_def)

lemma evolves_trans:
  assumes "evolves u v" "evolves v w"
  shows "evolves u w"
proof -
  from assms obtain e1 e2 where e: "out v = out u @ e1" "out w = out v @ e2"
    "\<forall>e \<in> set e1. \<not> late_frame u e" "\<forall>e \<in> set e2. \<not> late_frame v e"
    by (auto simp: evolves_def)
  have n: "nextStreamAddr u \<le> nextStreamAddr v" "nextStreamAddr v \<le> nextStreamAddr w"
    and s1: "\<forall>a < nextStreamAddr u. same_stream (streams u a) (streams v a)"
    and s2: "\<forall>a < nextStreamAddr v. same_stream (streams v a) (streams w a)"
    using assms by (simp_all add: evolves_def)
  have "\<forall>a < nextStreamAddr u. same_stream (streams u a) (streams w a)"
    using s1 s2 n(1) by (meson order_less_le_trans same_stream_trans)
  moreover have "nextSocketAddr u \<le> nextSocketAddr w"
    using assms unfolding evolves_def by (meson order_trans)
  moreover have "\<forall>e \<in> set (e1 @ e2). \<not> late_frame u e"
    using e(3,4) late_frame_mono [of u _ v] n(1) s1 by auto
  moreover have "\<forall>s. nextStream (sockets u s) \<le> nextStream (sockets w s)
      \<and> serverStreamWatermark (sockets u s) \<le> serverStreamWatermark (sockets w s)"
    using assms unfolding evolves_def by (meson order_trans)
  ultimately show ?thesis
    using n e(1,2) unfolding evolves_def by (metis append.assoc order_trans)
qed

lemma preorder_evolves [simp, intro]: "preorder_rel evolves"
  unfolding preorder_rel_def using evolves_refl evolves_trans by blast

section \<open>Frames\<close>

lemma stream_frame_word:
  assumes "sid < 2 ^ 24" "t < 256"
  shows "stream_frame (be 4 (t * 2 ^ 24 + sid) @ rest) = (if t \<in> {2, 3, 4} then Some sid else None)"
  using decode_frame_word [OF assms, of rest] type_of_word [OF assms(1), of t]
    stream_of_word [OF assms(1), of t]
  unfolding stream_frame_def by simp

lemma encode_small:
  "encodeGoawayMsg sid code m = Inr b \<Longrightarrow> sid < 2 ^ 24"
  "encodeStreamDataMsg sid data = Inr b \<Longrightarrow> sid < 2 ^ 24"
  "encodeStreamCloseMsg sid = Inr b \<Longrightarrow> sid < 2 ^ 24"
  "encodeStreamResetMsg sid code m = Inr b \<Longrightarrow> sid < 2 ^ 24"
  using encode_too_large [of sid] by (fastforce simp: not_le [symmetric] simp del: js_simps)+

lemma stream_frame_data: "encodeStreamDataMsg sid data = Inr b \<Longrightarrow> stream_frame b = Some sid"
  using encode_small(2) [of sid data b] encodeStreamDataMsg_layout [of sid data]
    stream_frame_word [of sid 2 data] by simp

lemma stream_frame_close: "encodeStreamCloseMsg sid = Inr b \<Longrightarrow> stream_frame b = Some sid"
  using encode_small(3) [of sid b] encodeStreamCloseMsg_layout [of sid]
    stream_frame_word [of sid 3 "[]"] by simp

lemma stream_frame_reset: "encodeStreamResetMsg sid code m = Inr b \<Longrightarrow> stream_frame b = Some sid"
  using encode_small(4) [of sid code m b] encodeStreamResetMsg_layout [of sid code m]
    stream_frame_word [of sid 4 "be 4 code @ be 4 (length (utf8_encode m)) @ utf8_encode m"] by simp

lemma stream_frame_goaway:
  assumes "encodeGoawayMsg lst code m = Inr b"
  shows "stream_frame b = None"
proof -
  have "b = be 4 (1 * 2 ^ 24 + 0) @ be 4 lst @ be 4 code @ be 4 (length (utf8_encode m)) @ utf8_encode m"
    using encodeGoawayMsg_layout [OF encode_small(1) [OF assms], of code m] assms type_byte_word [of 1]
    by (metis append.assoc sum.inject(2))
  then show ?thesis using stream_frame_word [of 0 1] by simp
qed

lemma stream_frame_ping: "encodePingMsg = Inr b \<Longrightarrow> stream_frame b = None"
  and stream_frame_pong: "encodePongMsg = Inr b \<Longrightarrow> stream_frame b = None"
  using stream_frame_word [of 0 5 "[]"] stream_frame_word [of 0 6 "[]"]
  unfolding encodePingMsg_layout encodePongMsg_layout type_byte_word by auto

lemma own_frame_not_late:
  assumes "mux_inv w" "a < nextStreamAddr w" "\<not> local_closed (st_state (streams w a))"
    "stream_frame b = Some (streamId (streams w a))"
  shows "\<not> late_frame w (Sent (st_socket (streams w a)) b)"
  using assms unfolding mux_inv_def late_frame_def by (auto, metis)

section \<open>Elementary changes\<close>

lemma mux_inv_out [simp]: "mux_inv (w\<lparr>out := x\<rparr>) = mux_inv w"
  by (simp add: mux_inv_def socket_ok_def stream_ok_def alloc_ok_def)

lemma mux_inv_stream:
  assumes "mux_inv w" "st_socket st = st_socket (streams w a)" "streamId st = streamId (streams w a)"
    and "st_le (st_state (streams w a)) (st_state st)"
  shows "mux_inv (w\<lparr>streams := (streams w)(a := st)\<rparr>)"
proof -
  have "st_socket (((streams w)(a := st)) b) = st_socket (streams w b)"
    "streamId (((streams w)(a := st)) b) = streamId (streams w b)" for b
    using assms(2,3) by simp_all
  moreover have "st_state (((streams w)(a := st)) b) = S_CLOSED" if "nextStreamAddr w \<le> b" for b
  proof -
    have "st_state (streams w b) = S_CLOSED" using assms(1) that by (simp add: mux_inv_def alloc_ok_def)
    with assms(4) show ?thesis by (auto simp: closed_final)
  qed
  ultimately show ?thesis
    using assms(1) by (simp add: mux_inv_def socket_ok_def stream_ok_def alloc_ok_def Let_def del: fun_upd_apply)
qed

text \<open>A change of a socket that keeps its counters and does not enlarge the map of active streams.\<close>

definition socket_shrinks :: "'h MuxedSocket \<Rightarrow> 'h MuxedSocket \<Rightarrow> bool" where
  "socket_shrinks x y \<longleftrightarrow> nextStream y = nextStream x
     \<and> serverStreamWatermark y = serverStreamWatermark x
     \<and> distinct (map fst (activeStreams y)) \<and> set (activeStreams y) \<subseteq> set (activeStreams x)
     \<and> (state y = CLOSED \<longrightarrow> activeStreams y = [])"

lemma mux_inv_socket:
  assumes "mux_inv w" "socket_shrinks (sockets w s) y"
    and "state y \<in> {AUTH_SENT, CLOSING} \<longrightarrow> s < nextSocketAddr w"
  shows "mux_inv (w\<lparr>sockets := (sockets w)(s := y)\<rparr>)"
proof -
  let ?w = "w\<lparr>sockets := (sockets w)(s := y)\<rparr>"
  have "socket_ok ?w s'" for s'
    using assms(1) assms(2) [unfolded socket_shrinks_def]
    unfolding mux_inv_def socket_ok_def by (cases "s' = s") (simp_all, blast)
  moreover have "stream_ok ?w a = stream_ok w a" for a
    using assms(2) by (simp add: stream_ok_def socket_shrinks_def Let_def)
  moreover have "alloc_ok ?w"
  proof -
    have "alloc_ok w" using assms(1) by (simp add: mux_inv_def)
    moreover have "nextStream y = nextStream (sockets w s)"
      "serverStreamWatermark y = serverStreamWatermark (sockets w s)"
      using assms(2) by (simp_all add: socket_shrinks_def)
    ultimately show ?thesis
      using assms(3) unfolding alloc_ok_def by (simp split: if_splits) force
  qed
  ultimately show ?thesis using assms(1) by (simp add: mux_inv_def)
qed

lemma active_allocated:
  "mux_inv w \<Longrightarrow> state (sockets w s) \<in> {AUTH_SENT, CLOSING} \<Longrightarrow> s < nextSocketAddr w"
  unfolding mux_inv_def alloc_ok_def by (meson not_le)

lemma shrinks_del:
  assumes "mux_inv w"
  shows "socket_shrinks (sockets w s) (activeStreams_update (amap_del k) (sockets w s))"
  using assms set_amap_del_subset [of k "activeStreams (sockets w s)"]
  by (auto simp: socket_shrinks_def mux_inv_def socket_ok_def)

lemma evolvesI:
  assumes "nextStreamAddr w' = nextStreamAddr w" and "nextSocketAddr w \<le> nextSocketAddr w'"
    and "\<And>a. same_stream (streams w a) (streams w' a)"
    and "\<And>s. nextStream (sockets w' s) = nextStream (sockets w s)
           \<and> serverStreamWatermark (sockets w' s) = serverStreamWatermark (sockets w s)"
    and "out w' = out w @ es" and "\<forall>e \<in> set es. \<not> late_frame w e"
  shows "evolves w w'"
  using assms by (auto simp: evolves_def)

section \<open>Stream operations keep the contract\<close>

lemma mux_inv_cong:
  "sockets w' = sockets w \<Longrightarrow> streams w' = streams w \<Longrightarrow> nextStreamAddr w' = nextStreamAddr w \<Longrightarrow>
     nextSocketAddr w' = nextSocketAddr w \<Longrightarrow> set (jobs w') \<subseteq> set (jobs w) \<Longrightarrow>
     set (timers w') \<subseteq> set (timers w) \<Longrightarrow> mux_inv w \<Longrightarrow> mux_inv w'"
  unfolding mux_inv_def socket_ok_def stream_ok_def alloc_ok_def by (simp, blast)

definition frame_effect ::
  "nat \<Rightarrow> nat \<Rightarrow> ('h, 'a) mux_world_scheme \<Rightarrow> ('h, 'a) mux_world_scheme \<Rightarrow> bool" where
  "frame_effect s sid w w' \<longleftrightarrow> w' = w \<or> (\<exists>b. stream_frame b = Some sid
     \<and> (w' = w\<lparr>out := out w @ [Sent s b]\<rparr>
        \<or> w' = w\<lparr>out := out w @ [Sent s b],
              sockets := (sockets w)(s := activeStreams_update (amap_del sid) (sockets w s))\<rparr>))"

lemma streamClose_effect: "frame_effect s sid w (snd (streamClose s sid nowClosed w))"
  using stream_frame_close [of sid]
  by (cases "encodeStreamCloseMsg sid")
    (auto simp: streamClose_def frame_effect_def emit_def updSocket_def split: MuxedSocketState.splits)

lemma streamError_effect: "frame_effect s sid w (snd (streamError s sid code msg w))"
  using stream_frame_reset [of sid code msg]
  by (cases "encodeStreamResetMsg sid code msg")
    (auto simp: streamError_def frame_effect_def emit_def updSocket_def split: MuxedSocketState.splits)

lemma streamSend_effect: "frame_effect s sid w (snd (streamSend s sid data w))"
  using stream_frame_data [of sid data]
  by (cases "encodeStreamDataMsg sid data")
    (auto simp: streamSend_def frame_effect_def emit_def split: MuxedSocketState.splits)

abbreviation with_state ::
  "nat \<Rightarrow> StreamState \<Rightarrow> ('h, 'a) mux_world_scheme \<Rightarrow> ('h, 'a) mux_world_scheme" where
  "with_state a v w \<equiv> w\<lparr>streams := (streams w)(a := (streams w a)\<lparr>st_state := v\<rparr>)\<rparr>"

lemma same_stream_state: "st_le (st_state x) v \<Longrightarrow> same_stream x (x\<lparr>st_state := v\<rparr>)"
  by (simp add: same_stream_def)

lemma with_state_step:
  assumes "mux_inv w" "st_le (st_state (streams w a)) v"
  shows "mux_inv (with_state a v w)" "evolves w (with_state a v w)"
  using assms same_stream_state [of "streams w a" v]
  by (auto intro!: mux_inv_stream evolvesI [where es = "[]"])

lemma open_allocated: "mux_inv w \<Longrightarrow> \<not> local_closed (st_state (streams w a)) \<Longrightarrow> a < nextStreamAddr w"
  by (rule ccontr) (auto simp: mux_inv_def alloc_ok_def local_closed_def)

lemma own_frame_step:
  assumes "mux_inv w" "\<not> local_closed (st_state (streams w a))"
    and "st_le (st_state (streams w a)) v"
    and "frame_effect (st_socket (streams w a)) (streamId (streams w a)) (with_state a v w) w'"
  shows "mux_inv w' \<and> evolves w w'"
proof -
  let ?s = "st_socket (streams w a)" and ?k = "streamId (streams w a)"
  let ?so = "activeStreams_update (amap_del ?k) (sockets w ?s)"
  note st = with_state_step [OF assms(1,3)]
  have sh: "socket_shrinks (sockets (with_state a v w) ?s) ?so"
    using shrinks_del [OF assms(1)] by simp
  have i: "mux_inv ((with_state a v w)\<lparr>sockets := (sockets w)(?s := ?so)\<rparr>)"
    using mux_inv_socket [OF st(1) sh] active_allocated [OF assms(1), of ?s] by simp
  show ?thesis
  proof (cases "w' = with_state a v w")
    case False
    then obtain b where b: "stream_frame b = Some ?k"
      and w': "w' = (with_state a v w)\<lparr>out := out w @ [Sent ?s b]\<rparr>
        \<or> w' = (with_state a v w)\<lparr>out := out w @ [Sent ?s b], sockets := (sockets w)(?s := ?so)\<rparr>"
      using assms(4) by (auto simp: frame_effect_def)
    have "mux_inv w'"
      using w' st(1) mux_inv_cong [OF _ _ _ _ _ _ i, of w'] by auto
    moreover have "evolves w w'"
      using w' own_frame_not_late [OF assms(1) open_allocated [OF assms(1,2)] assms(2) b] same_stream_state [OF assms(3)]
      by (auto intro!: evolvesI [where es = "[Sent ?s b]"])
    ultimately show ?thesis by simp
  qed (use st in simp)
qed

lemma close_step:
  assumes "mux_inv w"
  shows "mux_inv (snd (close a w)) \<and> evolves w (snd (close a w))"
proof -
  let ?st = "streams w a"
  note eff = streamClose_effect [of "st_socket ?st" "streamId ?st" "with_state a S_CLOSING w" False]
    streamClose_effect [of "st_socket ?st" "streamId ?st" "with_state a S_CLOSED w" True]
  show ?thesis
    using assms own_frame_step [OF assms, of a S_CLOSING] own_frame_step [OF assms, of a S_CLOSED] eff
    by (cases "st_state ?st")
      (auto simp: close_def updStream_def Let_def local_closed_def remote_closed_def st_le_def)
qed

lemma error_step:
  assumes "mux_inv w"
  shows "mux_inv (snd (error a code msg w)) \<and> evolves w (snd (error a code msg w))"
  using own_frame_step [OF assms, of a S_CLOSED] with_state_step [OF assms, of a S_CLOSED]
    streamError_effect [of "st_socket (streams w a)" "streamId (streams w a)" "with_state a S_CLOSED w" code msg]
  by (cases "st_state (streams w a)")
    (simp_all add: error_def updStream_def Let_def local_closed_def remote_closed_def st_le_def)

lemma send_step:
  assumes "mux_inv w"
  shows "mux_inv (snd (send a data w)) \<and> evolves w (snd (send a data w))"
proof (cases "local_closed (st_state (streams w a))")
  case False
  have "with_state a (st_state (streams w a)) w = w" by simp
  then show ?thesis
    using False own_frame_step [OF assms False st_le_refl]
      streamSend_effect [of "st_socket (streams w a)" "streamId (streams w a)" w data]
    by (auto simp: send_def Let_def local_closed_def)
qed (use assms in \<open>auto simp: send_def Let_def local_closed_def\<close>)

lemma steps_callIf:
  "preorder_rel R \<Longrightarrow> (\<And>h. steps I R (f h)) \<Longrightarrow> steps I R (callIf h f)"
  by (cases h) (auto simp: callIf_def intro: steps_ret)

lemma steps_after:
  assumes "steps I R m" "preorder_rel R" "I w'" "R w w'"
  shows "I (snd (m w')) \<and> R w (snd (m w'))"
  using stepsD [OF assms(1,3)] assms(2,4) unfolding preorder_rel_def by blast

lemma state_then_call:
  assumes "mux_inv w" "st_le (st_state (streams w a)) v" "\<And>h. steps mux_inv evolves (f h)"
  shows "mux_inv (snd (callIf h f (with_state a v w))) \<and> evolves w (snd (callIf h f (with_state a v w)))"
  using with_state_step [OF assms(1,2)] steps_callIf [OF preorder_evolves assms(3), of h]
  by (intro steps_after) auto

section \<open>Callbacks\<close>

text \<open>
  The interface between a stream and its user: a callback may do anything that keeps the
  contract, in particular use the stream it is called by.
\<close>

locale stream_client =
  fixes sh :: "('h, ('h, 'a) mux_world_scheme) stream_handlers"
  assumes hClose_steps: "steps mux_inv evolves (hClose sh h)"
    and hError_steps: "steps mux_inv evolves (hError sh h code msg)"
    and hData_steps: "steps mux_inv evolves (hData sh h data)"
begin

lemma onStreamClose_steps: "steps mux_inv evolves (onStreamClose sh a)"
proof (rule stepsI)
  fix w :: "('h, 'a) mux_world_scheme" assume i: "mux_inv w"
  let ?h = "st_onClose (streams w a)"
  have c: "mux_inv (snd (andThen (callIf ?h (hClose sh)) (\<lambda>_. ret x) (with_state a v w)))
      \<and> evolves w (snd (andThen (callIf ?h (hClose sh)) (\<lambda>_. ret x) (with_state a v w)))"
    if "st_le (st_state (streams w a)) v" for v and x :: bool
    using state_then_call [where f = "hClose sh", OF i that hClose_steps, of ?h]
    by (auto simp: andThen_def split: prod.splits sum.splits)
  show "mux_inv (snd (onStreamClose sh a w)) \<and> evolves w (snd (onStreamClose sh a w))"
    using i c by (cases "st_state (streams w a)")
      (auto simp: onStreamClose_def updStream_def Let_def st_le_def local_closed_def remote_closed_def)
qed

lemma onStreamError_steps: "steps mux_inv evolves (onStreamError sh a code msg)"
proof (rule stepsI)
  fix w :: "('h, 'a) mux_world_scheme" assume i: "mux_inv w"
  have "st_le (st_state (streams w a)) S_CLOSED"
    by (simp add: st_le_def local_closed_def remote_closed_def)
  from state_then_call [where f = "\<lambda>h. hError sh h code msg", OF i this hError_steps,
      of "st_onError (streams w a)"] i
  show "mux_inv (snd (onStreamError sh a code msg w)) \<and> evolves w (snd (onStreamError sh a code msg w))"
    by (simp add: onStreamError_def updStream_def Let_def)
qed

lemma onStreamData_steps: "steps mux_inv evolves (onStreamData sh a data)"
  unfolding onStreamData_def Let_def
  by (intro steps_reads_any) (auto intro!: steps_ret steps_callIf hData_steps)

end

end
