(* ===== verification/Muxed_Socket.thy ===== *)
theory Muxed_Socket
  imports Mux_Stream
begin

text \<open>
  The class \<open>MuxedSocket\<close> of \<open>sql/ts/src/skdb_orchestration.ts\<close>: opening streams, closing and
  erroring the socket, pings, connecting, authentication and the reaction to the events of the
  \<open>WebSocket\<close>. An \<open>async\<close> method is split at its \<open>await\<close>: the continuation is a job of the world
  that runs later, after any other events. The world of events is a step relation; every
  reachable world satisfies the contract of \<open>Mux_Stream\<close>.
\<close>

section \<open>Allocation\<close>

definition newPromise :: "(('h, 'a) mux_world_scheme, nat) js" where
  "newPromise = reads (\<lambda>w. andThen
     (modifies (\<lambda>w. w\<lparr>promises := (promises w)(nextPromise w := Pending),
                      nextPromise := nextPromise w + 1\<rparr>))
     (\<lambda>_. ret (nextPromise w)))"

text \<open>\<open>new Stream(this, sid)\<close> followed by \<open>activeStreams.set(sid, stream)\<close>\<close>

definition newStream :: "nat \<Rightarrow> nat \<Rightarrow> (('h, 'a) mux_world_scheme, nat) js" where
  "newStream s sid = reads (\<lambda>w. andThen
     (modifies (\<lambda>w. w\<lparr>streams := (streams w)(nextStreamAddr w := newStreamObject s sid),
                      nextStreamAddr := nextStreamAddr w + 1\<rparr>)) (\<lambda>_. andThen
     (updSocket s (activeStreams_update (amap_set sid (nextStreamAddr w))))
     (\<lambda>_. ret (nextStreamAddr w))))"

text \<open>
  \<open>for (const stream of this.activeStreams.values())\<close>: the iteration of a map is live. Entries deleted before their
  turn are not visited, and those added meanwhile are. An entry is one \<open>set\<close> of a new \<open>Stream\<close>, so a key and an address
  occur once. A loop that goes on for more than \<open>2 ^ 24\<close> entries, the size limit of a map, is cut off;
  \<open>forLive_enough\<close> shows that more makes no difference when the body adds no streams.
\<close>

primrec forLive :: "nat \<Rightarrow> (nat \<times> nat) list \<Rightarrow> nat \<Rightarrow> (nat \<Rightarrow> (('h, 'a) mux_world_scheme, unit) js) \<Rightarrow>
    (('h, 'a) mux_world_scheme, unit) js" where
  "forLive 0 seen s f = throw RangeError"
| "forLive (Suc n) seen s f = reads (\<lambda>w.
     case filter (\<lambda>e. e \<notin> set seen) (activeStreams (sockets w s)) of
       [] \<Rightarrow> skip
     | (k, a) # _ \<Rightarrow> andThen (f a) (\<lambda>_. forLive n ((k, a) # seen) s f))"

definition forActive :: "nat \<Rightarrow> (nat \<Rightarrow> (('h, 'a) mux_world_scheme, unit) js) \<Rightarrow>
    (('h, 'a) mux_world_scheme, unit) js" where
  "forActive s f = forLive (Suc (2 ^ 24)) [] s f"

lemma forActive_none: "activeStreams (sockets w s) = [] \<Longrightarrow> forActive s f w = (Inr (), w)"
  unfolding forActive_def forLive.simps by simp

lemma forLive_enough:
  assumes "\<And>a w. set (activeStreams (sockets (snd (f a w)) s)) \<subseteq> set (activeStreams (sockets w s))"
    and "card (set (activeStreams (sockets w s)) - set seen) < n" and "n \<le> m"
  shows "forLive m seen s f w = forLive n seen s f w"
  using assms(2,3)
proof (induction n arbitrary: m seen w)
  case (Suc n)
  then obtain m' where m: "m = Suc m'" "n \<le> m'" by (cases m) auto
  show ?case
  proof (cases "filter (\<lambda>e. e \<notin> set seen) (activeStreams (sockets w s))")
    case Nil
    then show ?thesis by (simp add: m)
  next
    case (Cons e es)
    obtain k a where e: "e = (k, a)" by (cases e)
    let ?A = "\<lambda>w. set (activeStreams (sockets w s))"
    from Cons have "e \<in> set (filter (\<lambda>e. e \<notin> set seen) (activeStreams (sockets w s)))" by simp
    then have "(k, a) \<in> ?A w - set seen" by (simp add: e)
    then have "card (?A w - set ((k, a) # seen)) < card (?A w - set seen)" by (intro psubset_card_mono) auto
    moreover have "card (?A (snd (f a w)) - set ((k, a) # seen)) \<le> card (?A w - set ((k, a) # seen))"
      using assms(1) [of a w] by (intro card_mono) auto
    ultimately have "forLive m' ((k, a) # seen) s f (snd (f a w)) = forLive n ((k, a) # seen) s f (snd (f a w))"
      using Suc.prems(1) m(2) by (intro Suc.IH) simp_all
    then show ?thesis using Cons by (auto simp: m e andThen_def split: prod.splits sum.splits)
  qed
qed simp

section \<open>User facing interface\<close>

definition openStream_fn :: "nat \<Rightarrow> nat \<Rightarrow> (('h, 'a) mux_world_scheme, unit) js" where
  "openStream_fn s p = reads (\<lambda>w. case state (sockets w s) of
     AUTH_SENT \<Rightarrow>
       let sid = nextStream (sockets w s)
       in andThen (updSocket s (nextStream_update (\<lambda>n. n + 2))) (\<lambda>_.
          andThen (newStream s sid) (\<lambda>a.
          settle p (Resolved (PStream a))))
   | IDLE \<Rightarrow> setTimeout (OpenTask s p) (\<lambda>_. skip)
   | CLOSING \<Rightarrow> settle p (Rejected (err ''Connection closing''))
   | CLOSEWAIT \<Rightarrow> settle p (Rejected (err ''Connection closing''))
   | CLOSED \<Rightarrow> settle p (Rejected (err ''Connection not established'')))"

definition openStream :: "nat \<Rightarrow> (('h, 'a) mux_world_scheme, nat) js" where
  "openStream s = andThen newPromise (\<lambda>p. andThen (openStream_fn s p) (\<lambda>_. ret p))"

text \<open>\<open>this.activeStreams.clear(); clearTimeout(this.reauthTimer); this.state = CLOSED\<close>\<close>

definition shutSocket :: "nat \<Rightarrow> (('h, 'a) mux_world_scheme, unit) js" where
  "shutSocket s =
     andThen (updSocket s (activeStreams_update (\<lambda>_. []))) (\<lambda>_.
     andThen (reads (\<lambda>w. clearTimeout (reauthTimer (sockets w s)))) (\<lambda>_.
     updSocket s (state_update (\<lambda>_. CLOSED))))"

definition closeSocket :: "nat \<Rightarrow> (('h, 'a) mux_world_scheme, unit) js" where
  "closeSocket s = reads (\<lambda>w. case state (sockets w s) of
     CLOSING \<Rightarrow> skip
   | CLOSED \<Rightarrow> skip
   | IDLE \<Rightarrow> andThen (shutSocket s) (\<lambda>_. emit (SocketClosed s None))
   | CLOSEWAIT \<Rightarrow> andThen (forActive s close) (\<lambda>_.
                  andThen (shutSocket s) (\<lambda>_. emit (SocketClosed s None)))
   | AUTH_SENT \<Rightarrow> andThen (forActive s close) (\<lambda>_.
                  andThen (updSocket s (state_update (\<lambda>_. CLOSING)))
                  (\<lambda>_. emit (SocketClosed s None))))"

definition errorSocket :: "('h, ('h, 'a) mux_world_scheme) stream_handlers \<Rightarrow> nat \<Rightarrow>
    nat \<Rightarrow> jsstring \<Rightarrow> (('h, 'a) mux_world_scheme, unit) js" where
  "errorSocket sh s errorCode msg = reads (\<lambda>w. case state (sockets w s) of
     IDLE \<Rightarrow> shutSocket s
   | CLOSING \<Rightarrow> shutSocket s
   | CLOSED \<Rightarrow> shutSocket s
   | _ \<Rightarrow> andThen (forActive s (\<lambda>a. onStreamError sh a errorCode msg)) (\<lambda>_.
          andThen (shutSocket s) (\<lambda>_.
          reads (\<lambda>w. let so = sockets w s; lastStream = max (nextStream so - 2) (serverStreamWatermark so) in
          andThen (lift (encodeGoawayMsg lastStream errorCode msg)) (\<lambda>b.
          andThen (emit (Sent s b)) (\<lambda>_.
          emit (SocketClosed s (Some 4000))))))))"

definition pingSocket :: "nat \<Rightarrow> (('h, 'a) mux_world_scheme, nat) js" where
  "pingSocket s = andThen newPromise (\<lambda>p. reads (\<lambda>w. case state (sockets w s) of
     IDLE \<Rightarrow> andThen (settle p (Resolved (PBool False))) (\<lambda>_. ret p)
   | CLOSING \<Rightarrow> andThen (settle p (Resolved (PBool False))) (\<lambda>_. ret p)
   | CLOSED \<Rightarrow> andThen (settle p (Resolved (PBool False))) (\<lambda>_. ret p)
   | _ \<Rightarrow> andThen (lift encodePingMsg) (\<lambda>b.
          andThen (emit (Sent s b)) (\<lambda>_.
          andThen (setTimeout (PingTask p) (\<lambda>t. updSocket s (healthChecks_update (\<lambda>hs. hs @ [(t, p)]))))
          (\<lambda>_. ret p)))))"

section \<open>Authentication\<close>

text \<open>\<open>sendAuth\<close> up to its \<open>await\<close>, and what its caller does when it ends.\<close>

definition authDone :: "nat \<Rightarrow> nat option \<Rightarrow> (('h, 'a) mux_world_scheme, unit) js" where
  "authDone s k = (case k of None \<Rightarrow> skip | Some p \<Rightarrow> settle p (Resolved (PSocket s)))"

definition authFailed :: "nat option \<Rightarrow> js_error \<Rightarrow> (('h, 'a) mux_world_scheme, unit) js" where
  "authFailed k e = (case k of None \<Rightarrow> emit (ConsoleError e) | Some p \<Rightarrow> settle p (Rejected e))"

definition sendAuth :: "nat \<Rightarrow> nat option \<Rightarrow> (('h, 'a) mux_world_scheme, unit) js" where
  "sendAuth s k = reads (\<lambda>w. case state (sockets w s) of
     IDLE \<Rightarrow> modifies (\<lambda>w. w\<lparr>jobs := jobs w @ [AuthJob s k]\<rparr>)
   | AUTH_SENT \<Rightarrow> modifies (\<lambda>w. w\<lparr>jobs := jobs w @ [AuthJob s k]\<rparr>)
   | _ \<Rightarrow> authDone s k)"

text \<open>The rest of \<open>sendAuth\<close>, once the message is signed.\<close>

definition sendAuth_resume ::
  "nat \<Rightarrow> nat option \<Rightarrow> js_error + bytes \<Rightarrow> (('h, 'a) mux_world_scheme, unit) js" where
  "sendAuth_resume s k auth = (case auth of
     Inl e \<Rightarrow> authFailed k e
   | Inr b \<Rightarrow>
       andThen (emit (Sent s b)) (\<lambda>_.
       andThen (updSocket s (state_update (\<lambda>_. AUTH_SENT))) (\<lambda>_.
       andThen (reads (\<lambda>w. clearTimeout (reauthTimer (sockets w s)))) (\<lambda>_.
       andThen (setTimeout (ReauthTask s) (\<lambda>t. updSocket s (reauthTimer_update (\<lambda>_. Some t))))
       (\<lambda>_. authDone s k)))))"

section \<open>Connecting\<close>

definition connect :: "(('h, 'a) mux_world_scheme, nat) js" where
  "connect = andThen newPromise (\<lambda>p. reads (\<lambda>w.
     let c = nextConn w in
     andThen (modifies (\<lambda>w. w\<lparr>nextConn := nextConn w + 1\<rparr>)) (\<lambda>_.
     andThen (setTimeout (ConnectTask c) (\<lambda>t. modifies (\<lambda>w. w\<lparr>conns := (conns w)(c :=
         \<lparr>muxSocket = None, failed = False, connPromise = p, connTimer = t\<rparr>)\<rparr>)))
     (\<lambda>_. ret p))))"

definition connect_timeout :: "nat \<Rightarrow> (('h, 'a) mux_world_scheme, unit) js" where
  "connect_timeout c =
     andThen (modifies (\<lambda>w. w\<lparr>conns := (conns w)(c := (conns w c)\<lparr>failed := True\<rparr>)\<rparr>)) (\<lambda>_.
     reads (\<lambda>w. settle (connPromise (conns w c)) (Rejected (err ''Timeout waiting to connect''))))"

definition newSocket :: "(('h, 'a) mux_world_scheme, nat) js" where
  "newSocket = reads (\<lambda>w. andThen
     (modifies (\<lambda>w. w\<lparr>sockets := (sockets w)(nextSocketAddr w := newMuxedSocket),
                      nextSocketAddr := nextSocketAddr w + 1\<rparr>))
     (\<lambda>_. ret (nextSocketAddr w)))"

definition connect_open :: "nat \<Rightarrow> (('h, 'a) mux_world_scheme, unit) js" where
  "connect_open c = reads (\<lambda>w.
     andThen (clearTimeout (Some (connTimer (conns w c)))) (\<lambda>_.
     if failed (conns w c) then emit (ConnClosed c)
     else
       andThen newSocket (\<lambda>s.
       andThen (modifies (\<lambda>w. w\<lparr>conns := (conns w)(c := (conns w c)\<lparr>muxSocket := Some s\<rparr>)\<rparr>)) (\<lambda>_.
       sendAuth s (Some (connPromise (conns w c)))))))"

section \<open>Events of the socket\<close>

definition onSocketClose :: "('h, ('h, 'a) mux_world_scheme) stream_handlers \<Rightarrow>
    ('h, ('h, 'a) mux_world_scheme) socket_handlers \<Rightarrow> nat \<Rightarrow> (('h, 'a) mux_world_scheme, unit) js" where
  "onSocketClose sh kh s = reads (\<lambda>w.
     let notify = andThen (forActive s (\<lambda>a. andThen (onStreamClose sh a) (\<lambda>_. skip)))
                    (\<lambda>_. reads (\<lambda>w. callIf (onClose (sockets w s)) (kClose kh)))
     in case state (sockets w s) of
       CLOSEWAIT \<Rightarrow> skip
     | CLOSED \<Rightarrow> skip
     | CLOSING \<Rightarrow> andThen notify (\<lambda>_. shutSocket s)
     | _ \<Rightarrow> andThen notify (\<lambda>_. updSocket s (state_update (\<lambda>_. CLOSEWAIT))))"

definition onSocketError :: "('h, ('h, 'a) mux_world_scheme) stream_handlers \<Rightarrow>
    ('h, ('h, 'a) mux_world_scheme) socket_handlers \<Rightarrow> nat \<Rightarrow> nat \<Rightarrow> jsstring \<Rightarrow>
    (('h, 'a) mux_world_scheme, unit) js" where
  "onSocketError sh kh s errorCode msg = reads (\<lambda>w.
     if state (sockets w s) = CLOSED then skip
     else andThen (forActive s (\<lambda>a. onStreamError sh a errorCode msg)) (\<lambda>_.
          andThen (reads (\<lambda>w. callIf (onError (sockets w s)) (\<lambda>h. kError kh h errorCode msg)))
          (\<lambda>_. shutSocket s)))"

definition decode :: "nat \<Rightarrow> bytes \<Rightarrow> (('h, 'a) mux_world_scheme, MuxMessage option) js" where
  "decode s m = andThen (lift (decode_frame m)) (\<lambda>f. case f of
     Frame msg \<Rightarrow> ret (Some msg)
   | Ping sid \<Rightarrow>
       if sid \<noteq> 0 then ret None
       else reads (\<lambda>w. if state (sockets w s) = AUTH_SENT \<or> state (sockets w s) = CLOSEWAIT
         then andThen (lift encodePongMsg) (\<lambda>b. andThen (emit (Sent s b)) (\<lambda>_. ret None))
         else ret None)
   | Pong sid \<Rightarrow>
       if sid \<noteq> 0 then ret None
       else andThen (reads (\<lambda>w. forEach (healthChecks (sockets w s)) (\<lambda>(t, p).
              andThen (clearTimeout (Some t)) (\<lambda>_. settle p (Resolved (PBool True))))))
              (\<lambda>_. ret None)
   | Unknown \<Rightarrow> ret None)"

datatype event_data = BinaryData bytes | TextData jsstring

definition onData :: "('h, ('h, 'a) mux_world_scheme) stream_handlers \<Rightarrow>
    ('h, ('h, 'a) mux_world_scheme) socket_handlers \<Rightarrow> nat \<Rightarrow> nat \<Rightarrow> bytes \<Rightarrow>
    (('h, 'a) mux_world_scheme, unit) js" where
  "onData sh kh s sid payload = reads (\<lambda>w.
     let so = sockets w s in
     case map_of (activeStreams so) sid of
       Some a \<Rightarrow> onStreamData sh a payload
     | None \<Rightarrow>
         if state so = CLOSING then skip
         else if sid mod 2 = 0 \<and> serverStreamWatermark so < sid then
           andThen (updSocket s (serverStreamWatermark_update (\<lambda>_. sid))) (\<lambda>_.
           andThen (newStream s sid) (\<lambda>a.
           andThen (reads (\<lambda>w. callIf (onStream (sockets w s)) (\<lambda>h. kStream kh h a))) (\<lambda>_.
           onStreamData sh a payload)))
         else skip)"

definition onMuxMessage :: "('h, ('h, 'a) mux_world_scheme) stream_handlers \<Rightarrow>
    ('h, ('h, 'a) mux_world_scheme) socket_handlers \<Rightarrow> nat \<Rightarrow> MuxMessage option \<Rightarrow>
    (('h, 'a) mux_world_scheme, unit) js" where
  "onMuxMessage sh kh s r = (case r of
     None \<Rightarrow> skip
   | Some MuxAuth \<Rightarrow> throw (err ''Unexepected auth message from server'')
   | Some (MuxGoaway lst code txt) \<Rightarrow> onSocketError sh kh s code txt
   | Some (MuxStreamData sid payload) \<Rightarrow> onData sh kh s sid payload
   | Some (MuxStreamClose sid) \<Rightarrow> reads (\<lambda>w.
       case map_of (activeStreams (sockets w s)) sid of
         None \<Rightarrow> skip
       | Some a \<Rightarrow> andThen (onStreamClose sh a) (\<lambda>closed.
           if closed then updSocket s (activeStreams_update (amap_del sid)) else skip))
   | Some (MuxStreamReset sid code txt) \<Rightarrow> reads (\<lambda>w.
       andThen (case map_of (activeStreams (sockets w s)) sid of
           None \<Rightarrow> skip | Some a \<Rightarrow> onStreamError sh a code txt)
         (\<lambda>_. updSocket s (activeStreams_update (amap_del sid)))))"

definition onSocketMessage :: "('h, ('h, 'a) mux_world_scheme) stream_handlers \<Rightarrow>
    ('h, ('h, 'a) mux_world_scheme) socket_handlers \<Rightarrow> nat \<Rightarrow> event_data \<Rightarrow>
    (('h, 'a) mux_world_scheme, unit) js" where
  "onSocketMessage sh kh s ev = reads (\<lambda>w.
     if state (sockets w s) \<noteq> AUTH_SENT \<and> state (sockets w s) \<noteq> CLOSING then skip
     else case ev of
       TextData t \<Rightarrow> throw (err ''Received unexpected text data'')
     | BinaryData m \<Rightarrow> andThen (decode s m) (onMuxMessage sh kh s))"

text \<open>The handlers of the \<open>WebSocket\<close>: those of \<open>connect\<close> until it opens, the socket's afterwards.\<close>

definition ws_close :: "('h, ('h, 'a) mux_world_scheme) stream_handlers \<Rightarrow>
    ('h, ('h, 'a) mux_world_scheme) socket_handlers \<Rightarrow> nat \<Rightarrow> (('h, 'a) mux_world_scheme, unit) js" where
  "ws_close sh kh c = reads (\<lambda>w. case muxSocket (conns w c) of Some s \<Rightarrow> onSocketClose sh kh s
     | None \<Rightarrow> settle (connPromise (conns w c)) (Rejected (err ''Socket closed before open'')))"

definition ws_error :: "('h, ('h, 'a) mux_world_scheme) stream_handlers \<Rightarrow>
    ('h, ('h, 'a) mux_world_scheme) socket_handlers \<Rightarrow> nat \<Rightarrow> jsstring \<Rightarrow>
    (('h, 'a) mux_world_scheme, unit) js" where
  "ws_error sh kh c event = reads (\<lambda>w.
     case muxSocket (conns w c) of Some s \<Rightarrow> onSocketError sh kh s 0 (js ''socket error'')
     | None \<Rightarrow> settle (connPromise (conns w c)) (Rejected (JSError event)))"

definition ws_message :: "('h, ('h, 'a) mux_world_scheme) stream_handlers \<Rightarrow>
    ('h, ('h, 'a) mux_world_scheme) socket_handlers \<Rightarrow> nat \<Rightarrow> event_data \<Rightarrow>
    (('h, 'a) mux_world_scheme, unit) js" where
  "ws_message sh kh c ev = reads (\<lambda>w. case muxSocket (conns w c) of Some s \<Rightarrow> onSocketMessage sh kh s ev
     | None \<Rightarrow> settle (connPromise (conns w c)) (Rejected (err ''Socket messaged before open'')))"

section \<open>Elementary steps\<close>

lemma neutral_step:
  assumes "mux_inv w" "sockets w' = sockets w" "streams w' = streams w"
    "nextStreamAddr w' = nextStreamAddr w" "nextSocketAddr w' = nextSocketAddr w"
    "jobs w' = jobs w" "set (timers w') \<subseteq> set (timers w)" "out w' = out w"
  shows "mux_inv w' \<and> evolves w w'"
proof
  show "mux_inv w'" by (rule mux_inv_cong) (use assms in simp_all)
  show "evolves w w'" by (rule evolvesI [where es = "[]"]) (use assms in simp_all)
qed

abbreviation mux_steps :: "(('h, 'a) mux_world_scheme, 'b) js \<Rightarrow> bool" where
  "mux_steps \<equiv> steps mux_inv evolves"

lemma settle_steps: "mux_steps (settle p v)"
  unfolding settle_def by (rule steps_modifies) (auto intro: neutral_step [THEN conjunct1] neutral_step [THEN conjunct2])

lemma conns_steps: "mux_steps (modifies (\<lambda>w. w\<lparr>conns := f w\<rparr>))"
  by (rule steps_modifies) (rule neutral_step, auto)

lemma nextConn_steps: "mux_steps (modifies (\<lambda>w. w\<lparr>nextConn := f w\<rparr>))"
  by (rule steps_modifies) (rule neutral_step, auto)

lemma newPromise_steps: "mux_steps newPromise"
  unfolding newPromise_def
  by (intro steps_reads_any steps_andThen steps_ret steps_modifies neutral_step) auto

lemma clearTimeout_steps: "mux_steps (clearTimeout t)"
proof (cases t)
  case (Some i)
  then show ?thesis
    unfolding clearTimeout_def Some option.case
    by (intro steps_modifies neutral_step) (auto simp: amap_del_def)
qed (simp add: clearTimeout_def steps_ret)

lemma timers_step:
  assumes "mux_inv w" "\<And>s. t = ReauthTask s \<Longrightarrow> s < nextSocketAddr w"
  shows "mux_inv (w\<lparr>timers := timers w @ [(i, t)], nextTimer := n\<rparr>)
    \<and> evolves w (w\<lparr>timers := timers w @ [(i, t)], nextTimer := n\<rparr>)"
  using assms by (auto simp: mux_inv_def socket_ok_def stream_ok_def alloc_ok_def Let_def
      intro!: evolvesI [where es = "[]"])

lemma setTimeout_step:
  assumes "mux_inv w" "\<And>s. t = ReauthTask s \<Longrightarrow> s < nextSocketAddr w" "\<And>i. mux_steps (k i)"
  shows "mux_inv (snd (setTimeout t k w)) \<and> evolves w (snd (setTimeout t k w))"
proof -
  from timers_step [OF assms(1,2)] have "mux_inv (snd (k (nextTimer w) (w\<lparr>timers := timers w @ [(nextTimer w, t)],
      nextTimer := nextTimer w + 1\<rparr>))) \<and> evolves w (snd (k (nextTimer w)
      (w\<lparr>timers := timers w @ [(nextTimer w, t)], nextTimer := nextTimer w + 1\<rparr>)))"
    by (intro steps_after [OF assms(3) preorder_evolves]) auto
  then show ?thesis by (simp add: setTimeout_def)
qed

lemma setTimeout_steps:
  "(\<And>s. t \<noteq> ReauthTask s) \<Longrightarrow> (\<And>i. mux_steps (k i)) \<Longrightarrow> mux_steps (setTimeout t k)"
  by (rule stepsI) (auto intro: setTimeout_step [THEN conjunct1] setTimeout_step [THEN conjunct2])

lemma emit_steps:
  assumes "\<And>w :: ('h, 'a) mux_world_scheme. \<not> late_frame w e"
  shows "mux_steps (emit e :: (('h, 'a) mux_world_scheme, unit) js)"
  unfolding emit_def
  by (rule steps_modifies) (use assms in \<open>auto intro!: evolvesI [where es = "[e]"]\<close>)

lemma late_frame_simps [simp]:
  "\<not> late_frame w (SocketClosed s c)" "\<not> late_frame w (ConnClosed i)" "\<not> late_frame w (ConsoleError x)"
  "stream_frame b = None \<Longrightarrow> \<not> late_frame w (Sent s b)"
  by (simp_all add: late_frame_def)

lemma updSocket_step:
  assumes "mux_inv w" "socket_shrinks (sockets w s) (f (sockets w s))"
    "state (f (sockets w s)) \<in> {AUTH_SENT, CLOSING} \<longrightarrow> s < nextSocketAddr w"
  shows "mux_inv (snd (updSocket s f w)) \<and> evolves w (snd (updSocket s f w))"
  using mux_inv_socket [OF assms] assms(2)
  by (auto simp: updSocket_def socket_shrinks_def intro!: evolvesI [where es = "[]"])

lemma shrinks_same:
  assumes "mux_inv w" "nextStream y = nextStream (sockets w s)"
    "serverStreamWatermark y = serverStreamWatermark (sockets w s)"
    "activeStreams y = activeStreams (sockets w s)" "state y = CLOSED \<longrightarrow> state (sockets w s) = CLOSED"
  shows "socket_shrinks (sockets w s) y"
  using assms by (auto simp: socket_shrinks_def mux_inv_def socket_ok_def)

lemma delete_steps: "mux_steps (updSocket s (activeStreams_update (amap_del k)))"
  by (rule stepsI, rule updSocket_step)
    (auto intro: shrinks_del dest: active_allocated)

lemma healthChecks_steps: "mux_steps (updSocket s (healthChecks_update f))"
  and reauthTimer_steps: "mux_steps (updSocket s (reauthTimer_update g))"
  by (rule stepsI, rule updSocket_step; auto intro!: shrinks_same dest: active_allocated)+

lemma shutSocket_eq:
  "shutSocket s w = (Inr (), w\<lparr>sockets := (sockets w)(s := (sockets w s)\<lparr>activeStreams := [], state := CLOSED\<rparr>),
     timers := (case reauthTimer (sockets w s) of None \<Rightarrow> timers w | Some i \<Rightarrow> amap_del i (timers w))\<rparr>)"
  by (cases "reauthTimer (sockets w s)") (simp_all add: shutSocket_def updSocket_def clearTimeout_def)

lemma shutSocket_steps: "mux_steps (shutSocket s :: (('h, 'a) mux_world_scheme, unit) js)"
proof (rule stepsI)
  fix w :: "('h, 'a) mux_world_scheme" assume i: "mux_inv w"
  let ?so = "(sockets w s)\<lparr>activeStreams := [], state := CLOSED\<rparr>"
  let ?w = "w\<lparr>sockets := (sockets w)(s := ?so)\<rparr>"
  have "mux_inv ?w"
    using i by (intro mux_inv_socket) (simp_all add: socket_shrinks_def)
  then have "mux_inv (snd (shutSocket s w))"
    by (rule mux_inv_cong [rotated -1])
      (auto simp: shutSocket_eq amap_del_def split: option.splits)
  moreover have "evolves w (snd (shutSocket s w))"
    by (rule evolvesI [where es = "[]"]) (simp_all add: shutSocket_eq)
  ultimately show "mux_inv (snd (shutSocket s w)) \<and> evolves w (snd (shutSocket s w))" ..
qed

lemma new_stream_step:
  fixes w :: "('h, 'a) mux_world_scheme"
  assumes inv: "mux_inv w" and s: "s < nextSocketAddr w" and st: "state (sockets w s) \<noteq> CLOSED"
    and n: "nextStream (sockets w s) \<le> n" "odd n"
    and m: "serverStreamWatermark (sockets w s) \<le> m"
    and sid: "odd sid \<Longrightarrow> nextStream (sockets w s) \<le> sid \<and> sid < n"
      "even sid \<Longrightarrow> serverStreamWatermark (sockets w s) < sid \<and> sid \<le> m"
    and w': "w' = w\<lparr>streams := (streams w)(nextStreamAddr w := newStreamObject s sid),
        nextStreamAddr := nextStreamAddr w + 1,
        sockets := (sockets w)(s := (sockets w s)\<lparr>nextStream := n, serverStreamWatermark := m,
          activeStreams := amap_set sid (nextStreamAddr w) (activeStreams (sockets w s))\<rparr>)\<rparr>"
  shows "mux_inv w' \<and> evolves w w'"
proof
  have new: "\<not> (streamId (streams w a) = sid \<and> st_socket (streams w a) = s)" if "a < nextStreamAddr w" for a
  proof -
    have "stream_ok w a" using inv that by (simp add: mux_inv_def)
    then show ?thesis using sid by (auto simp: stream_ok_def Let_def split: if_splits)
  qed
  have key: "sid \<notin> fst ` set (activeStreams (sockets w s))"
  proof
    assume "sid \<in> fst ` set (activeStreams (sockets w s))"
    then obtain a where a: "(sid, a) \<in> set (activeStreams (sockets w s))" by auto
    have "socket_ok w s" using inv by (simp add: mux_inv_def)
    with a have "a < nextStreamAddr w \<and> streamId (streams w a) = sid \<and> st_socket (streams w a) = s"
      unfolding socket_ok_def by blast
    with new [of a] show False by simp
  qed
  have act: "amap_set sid (nextStreamAddr w) (activeStreams (sockets w s))
      = activeStreams (sockets w s) @ [(sid, nextStreamAddr w)]"
    using key by (rule amap_set_new)
  have "socket_ok w' t" for t
  proof -
    have "socket_ok w t" "socket_ok w s" using inv by (simp_all add: mux_inv_def)
    then show ?thesis
      using st n key unfolding socket_ok_def w' act
      by (auto simp: newStreamObject_def)
  qed
  moreover have "stream_ok w' a" if "a < nextStreamAddr w'" for a
  proof (cases "a = nextStreamAddr w")
    case True
    then show ?thesis using sid by (simp add: stream_ok_def w' newStreamObject_def Let_def)
  next
    case False
    then have "stream_ok w a" using that inv by (simp add: mux_inv_def w')
    then show ?thesis using False n m by (auto simp: stream_ok_def w' Let_def split: if_splits)
  qed
  moreover have "alloc_ok w'"
    using inv s by (auto simp: mux_inv_def alloc_ok_def w' newStreamObject_def)
  moreover have "a = b" if "a < nextStreamAddr w'" "b < nextStreamAddr w'"
    "st_socket (streams w' a) = st_socket (streams w' b)" "streamId (streams w' a) = streamId (streams w' b)"
    for a b
    using that inv new [of a] new [of b] unfolding mux_inv_def w'
    by (auto simp: newStreamObject_def less_Suc_eq split: if_splits)
  ultimately show "mux_inv w'" unfolding mux_inv_def by blast
  show "evolves w w'"
    using n m by (auto simp: evolves_def w')
qed

section \<open>Operations without callbacks\<close>

lemma forActive_steps:
  assumes "\<And>a. mux_steps (f a)"
  shows "mux_steps (forActive s f)"
proof -
  have "mux_steps (forLive n seen s f)" for n seen
    by (induction n arbitrary: seen)
      (auto intro!: steps_throw steps_reads_any steps_ret steps_andThen assms split: list.split)
  then show ?thesis by (simp add: forActive_def)
qed

text \<open>The contract at one world, for operations that need more than the invariant.\<close>

definition step_at :: "(('h, 'a) mux_world_scheme, 'b) js \<Rightarrow> ('h, 'a) mux_world_scheme \<Rightarrow> bool" where
  "step_at m w \<longleftrightarrow> mux_inv (snd (m w)) \<and> evolves w (snd (m w))"

lemma stepsI': "(\<And>w. mux_inv w \<Longrightarrow> step_at m w) \<Longrightarrow> mux_steps m"
  by (simp add: steps_def step_at_def)

lemma stepsD': "mux_steps m \<Longrightarrow> mux_inv w \<Longrightarrow> step_at m w"
  by (simp add: steps_def step_at_def)

lemma step_andThen:
  assumes "step_at m w"
    and "\<And>x w'. mux_inv w' \<Longrightarrow> evolves w w' \<Longrightarrow> step_at (k x) w'"
  shows "step_at (andThen m k) w"
proof -
  obtain r w' where mw: "m w = (r, w')" by (cases "m w")
  with assms(1) have w': "mux_inv w'" "evolves w w'" by (simp_all add: step_at_def)
  show ?thesis
    using w' assms(2) [OF w'] evolves_trans [OF w'(2)] mw
    by (cases r) (auto simp: andThen_def step_at_def)
qed

lemma openStream_fn_steps:
  fixes p :: nat
  shows "mux_steps (openStream_fn s p :: (('h, 'a) mux_world_scheme, unit) js)"
proof (rule stepsI)
  fix w :: "('h, 'a) mux_world_scheme" assume i: "mux_inv w"
  show "mux_inv (snd (openStream_fn s p w)) \<and> evolves w (snd (openStream_fn s p w))"
  proof (cases "state (sockets w s)")
    case AUTH_SENT
    let ?sid = "nextStream (sockets w s)"
    define w1 where "w1 = w\<lparr>streams := (streams w)(nextStreamAddr w := newStreamObject s ?sid),
        nextStreamAddr := nextStreamAddr w + 1,
        sockets := (sockets w)(s := (sockets w s)\<lparr>nextStream := ?sid + 2,
          serverStreamWatermark := serverStreamWatermark (sockets w s),
          activeStreams := amap_set ?sid (nextStreamAddr w) (activeStreams (sockets w s))\<rparr>)\<rparr>"
    have odd: "odd ?sid" using i by (simp add: mux_inv_def socket_ok_def)
    have "mux_inv w1 \<and> evolves w w1"
      by (rule new_stream_step [where n = "?sid + 2" and sid = ?sid, OF i _ _ _ _ _ _ _ w1_def])
        (use odd AUTH_SENT active_allocated [OF i, of s] in auto)
    moreover have upd: "activeStreams_update f (nextStream_update (\<lambda>n. Suc (Suc n)) so)
        = so\<lparr>nextStream := Suc (Suc (nextStream so)), activeStreams := f (activeStreams so)\<rparr>"
      for f and so :: "'h MuxedSocket" by (cases so) simp
    then have "openStream_fn s p w = settle p (Resolved (PStream (nextStreamAddr w))) w1"
      by (simp add: openStream_fn_def AUTH_SENT newStream_def updSocket_def w1_def Let_def andThen_assoc
          upd)
    ultimately show ?thesis
      using steps_after [OF settle_steps preorder_evolves, of w1 w p] by simp
  next
    case IDLE
    have "mux_steps (setTimeout (OpenTask s p) (\<lambda>_. skip) :: (('h, 'a) mux_world_scheme, unit) js)"
      by (intro setTimeout_steps) (auto intro: steps_ret)
    with i IDLE show ?thesis by (simp add: openStream_fn_def steps_def)
  qed (use i settle_steps [of p, unfolded steps_def] in \<open>auto simp: openStream_fn_def simp del: js_simps\<close>)
qed

lemma openStream_steps: "mux_steps (openStream s)"
  unfolding openStream_def
  by (intro steps_andThen newPromise_steps openStream_fn_steps steps_ret preorder_evolves)

lemma emit_close_steps: "mux_steps (emit (SocketClosed s c))"
  by (rule emit_steps) simp

lemma closing_step:
  "mux_inv w \<Longrightarrow> s < nextSocketAddr w \<Longrightarrow> step_at (updSocket s (state_update (\<lambda>_. CLOSING))) w"
  unfolding step_at_def by (intro updSocket_step shrinks_same) auto

lemma closeSocket_steps: "mux_steps (closeSocket s :: (('h, 'a) mux_world_scheme, unit) js)"
proof (rule stepsI')
  fix w :: "('h, 'a) mux_world_scheme" assume i: "mux_inv w"
  have fa: "mux_steps (forActive s close :: (('h, 'a) mux_world_scheme, unit) js)"
    by (rule forActive_steps, rule stepsI) (rule close_step)
  have shut: "mux_steps (andThen (shutSocket s) (\<lambda>_. emit (SocketClosed s None))
      :: (('h, 'a) mux_world_scheme, unit) js)"
    by (intro steps_andThen shutSocket_steps emit_close_steps preorder_evolves)
  show "step_at (closeSocket s) w"
  proof (cases "state (sockets w s)")
    case AUTH_SENT
    then have s: "s < nextSocketAddr w" using active_allocated [OF i] by simp
    have "step_at (andThen (forActive s close) (\<lambda>_. andThen (updSocket s (state_update (\<lambda>_. CLOSING)))
        (\<lambda>_. emit (SocketClosed s None)))) w"
      by (rule step_andThen [OF stepsD' [OF fa i]], rule step_andThen [OF closing_step stepsD' [OF emit_close_steps]])
        (use s in \<open>auto simp: evolves_def\<close>)
    with AUTH_SENT show ?thesis by (simp add: closeSocket_def step_at_def)
  next
    case CLOSEWAIT
    with stepsD' [OF steps_andThen [OF preorder_evolves fa shut] i] show ?thesis
      by (simp add: closeSocket_def step_at_def)
  qed (use i stepsD' [OF shut i] in \<open>simp_all add: closeSocket_def step_at_def\<close>)
qed

lemma goaway_steps:
  "mux_steps (andThen (lift (encodeGoawayMsg n code msg)) (\<lambda>b. andThen (emit (Sent s b)) (\<lambda>_. emit (SocketClosed s c))))"
  using stream_frame_goaway [of n code msg]
  by (cases "encodeGoawayMsg n code msg")
    (auto intro!: steps_andThen steps_throw emit_steps)

lemma ping_steps: "mux_steps (andThen (lift encodePingMsg) (\<lambda>b. andThen (emit (Sent s b)) k))"
  if "\<And>x. mux_steps (k x)"
  using that stream_frame_ping by (simp add: encodePingMsg_layout steps_andThen emit_steps)

lemma pong_steps: "mux_steps (andThen (lift encodePongMsg) (\<lambda>b. andThen (emit (Sent s b)) k))"
  if "\<And>x. mux_steps (k x)"
  using that stream_frame_pong by (simp add: encodePongMsg_layout steps_andThen emit_steps)

lemma pingSocket_steps: "mux_steps (pingSocket s)"
proof -
  have no: "mux_steps (andThen (settle p v) (\<lambda>_. ret p))" for p v
    by (intro steps_andThen settle_steps steps_ret preorder_evolves)
  have "mux_steps (andThen (setTimeout (PingTask p)
      (\<lambda>t. updSocket s (healthChecks_update (\<lambda>hs. hs @ [(t, p)])))) (\<lambda>_. ret p))" for p
    by (intro steps_andThen setTimeout_steps healthChecks_steps steps_ret preorder_evolves) simp_all
  with no show ?thesis
    unfolding pingSocket_def
    by (intro steps_andThen newPromise_steps preorder_evolves steps_reads_any)
      (auto split: MuxedSocketState.splits intro: ping_steps)
qed

section \<open>The authentication message is not a stream frame\<close>

definition headZ :: "js_error + bytes \<Rightarrow> bool" where
  "headZ r \<longleftrightarrow> (\<forall>b. r = Inr b \<longrightarrow> (\<exists>t. b = 0 # t))"

lemma headZ_bind: "(\<And>x. m = Inr x \<Longrightarrow> headZ (k x)) \<Longrightarrow> headZ (bindE m k)"
  by (cases m) (auto simp: headZ_def)

lemma headZ_write: "write_at off bs (0 # t) = Inr buf \<Longrightarrow> 0 < off \<Longrightarrow> \<exists>t. buf = 0 # t"
  by (cases off) (auto simp: write_at_def split: if_splits)

lemma headZ_encode: "encodeInto s off (0 # t) = (buf, n) \<Longrightarrow> 0 < off \<Longrightarrow> \<exists>t. buf = 0 # t"
  by (cases off) (auto simp: encodeInto_def Let_def)

lemma headZ_first: "setUint8 0 0 buf = Inr buf' \<Longrightarrow> \<exists>t. buf' = 0 # t"
  by (auto simp: write_at_def be.simps split: if_splits)

lemma headZ_simps: "headZ (Inl e)" "0 < n \<Longrightarrow> headZ (Inr (slice 0 n (0 # t)))"
  by (cases n; simp add: headZ_def slice_def)+

lemma encodeAuthMsg_head: "headZ (encodeAuthMsg creds rnd now sign)"
  unfolding encodeAuthMsg_def Let_def
  apply (intro headZ_bind)
  apply (drule headZ_first, erule exE, hypsubst)
  apply (drule headZ_write, simp, erule exE)
  apply (auto split: prod.split if_splits intro!: headZ_bind simp del: js_simps simp: headZ_simps bindE_Inr_iff dest!: headZ_write headZ_encode)
  done

lemma stream_frame_zero: "stream_frame (0 # t) = None"
proof (cases "getUint32 0 (0 # t)")
  case (Inr v)
  then have "3 \<le> length t" "v = unbe (take 3 t)"
    by (auto simp: getUint_def unbe_def numeral_eq_Suc split: if_splits)
  with unbe_less [of "take 3 t"] have "v < 2 ^ 24" by simp
  then have "drop_bit 24 v = 0" by (simp add: drop_bit_eq_div)
  with Inr show ?thesis by (simp add: stream_frame_def)
qed (simp add: stream_frame_def)

lemma stream_frame_auth: "encodeAuthMsg creds rnd now sign = Inr b \<Longrightarrow> stream_frame b = None"
  using encodeAuthMsg_head [of creds rnd now sign] stream_frame_zero by (auto simp: headZ_def)

section \<open>Authentication and connecting\<close>

lemma authDone_steps: "mux_steps (authDone s k)"
  by (cases k) (simp_all add: authDone_def settle_steps steps_ret)

lemma authFailed_steps: "mux_steps (authFailed k e)"
  by (cases k) (simp_all add: authFailed_def settle_steps emit_steps)

text \<open>The contract of operations on a socket that exists.\<close>

abbreviation steps_on :: "nat \<Rightarrow> (('h, 'a) mux_world_scheme, 'b) js \<Rightarrow> bool" where
  "steps_on s \<equiv> steps (\<lambda>w. mux_inv w \<and> s < nextSocketAddr w) evolves"

lemma steps_onI: "(\<And>w. mux_inv w \<Longrightarrow> s < nextSocketAddr w \<Longrightarrow> step_at m w) \<Longrightarrow> steps_on s m"
  by (force simp: steps_def step_at_def evolves_def)

lemma steps_on_any: "mux_steps m \<Longrightarrow> steps_on s m"
  by (rule steps_onI) (rule stepsD')

lemma steps_on_at: "steps_on s m \<Longrightarrow> mux_inv w \<Longrightarrow> s < nextSocketAddr w \<Longrightarrow> step_at m w"
  by (simp add: steps_def step_at_def)

lemma authJob_step:
  assumes "mux_inv w" "s < nextSocketAddr w"
  shows "step_at (modifies (\<lambda>w. w\<lparr>jobs := jobs w @ [AuthJob s k]\<rparr>)) w"
  using assms by (auto simp: step_at_def mux_inv_def socket_ok_def stream_ok_def alloc_ok_def Let_def
      intro!: evolvesI [where es = "[]"])

lemma sendAuth_step:
  assumes "mux_inv w" "s < nextSocketAddr w"
  shows "step_at (sendAuth s k) w"
  using authJob_step [OF assms, of k] stepsD' [OF authDone_steps assms(1), of s k]
  by (simp add: sendAuth_def step_at_def split: MuxedSocketState.split)

lemma authSent_step:
  "mux_inv w \<Longrightarrow> s < nextSocketAddr w \<Longrightarrow> step_at (updSocket s (state_update (\<lambda>_. AUTH_SENT))) w"
  unfolding step_at_def by (intro updSocket_step shrinks_same) auto

lemma sendAuth_resume_step:
  fixes w :: "('h, 'a) mux_world_scheme"
  assumes "mux_inv w" "s < nextSocketAddr w"
  shows "step_at (sendAuth_resume s k (encodeAuthMsg creds rnd now sign)) w"
proof (cases "encodeAuthMsg creds rnd now sign")
  case (Inl e)
  with stepsD' [OF authFailed_steps assms(1)] show ?thesis by (simp add: sendAuth_resume_def)
next
  case (Inr b)
  have e: "mux_steps (emit (Sent s b) :: (('h, 'a) mux_world_scheme, unit) js)"
    using stream_frame_auth [OF Inr] by (intro emit_steps) simp
  have c: "mux_steps (reads (\<lambda>w. clearTimeout (reauthTimer (sockets w s))) :: (('h, 'a) mux_world_scheme, unit) js)"
    by (intro steps_reads_any clearTimeout_steps)
  have t: "step_at (setTimeout (ReauthTask s) (\<lambda>t. updSocket s (reauthTimer_update (\<lambda>_. Some t)))) w'"
    if "mux_inv w'" "s < nextSocketAddr w'" for w' :: "('h, 'a) mux_world_scheme"
    unfolding step_at_def using that by (intro setTimeout_step reauthTimer_steps) auto
  have "steps_on s (sendAuth_resume s k (Inr b) :: (('h, 'a) mux_world_scheme, unit) js)"
    unfolding sendAuth_resume_def sum.case
    by (intro steps_andThen preorder_evolves steps_on_any [OF e] steps_onI [OF authSent_step]
        steps_on_any [OF c] steps_onI [OF t] steps_on_any [OF authDone_steps])
  with assms Inr show ?thesis by (simp add: steps_on_at)
qed

lemma connect_steps: "mux_steps connect"
  unfolding connect_def Let_def
  by (intro steps_andThen newPromise_steps steps_reads_any nextConn_steps setTimeout_steps conns_steps
      steps_ret preorder_evolves) simp

lemma connect_timeout_steps: "mux_steps (connect_timeout c)"
  unfolding connect_timeout_def
  by (intro steps_andThen conns_steps steps_reads_any settle_steps preorder_evolves)

lemma newSocket_step:
  assumes "mux_inv w"
  defines "w' \<equiv> w\<lparr>sockets := (sockets w)(nextSocketAddr w := newMuxedSocket), nextSocketAddr := nextSocketAddr w + 1\<rparr>"
  shows "mux_inv w' \<and> evolves w w'"
proof
  have s: "st_socket (streams w a) < nextSocketAddr w" if "a < nextStreamAddr w" for a
    using assms(1) that by (simp add: mux_inv_def alloc_ok_def)
  have "socket_ok w' t" for t
    using assms(1) by (auto simp: mux_inv_def socket_ok_def w'_def newMuxedSocket_def)
  moreover have "stream_ok w' a" if "a < nextStreamAddr w'" for a
    using assms(1) s [of a] that by (auto simp: mux_inv_def stream_ok_def w'_def Let_def)
  moreover have "alloc_ok w'"
    using assms(1) by (auto simp: mux_inv_def alloc_ok_def w'_def less_Suc_eq)
  ultimately show "mux_inv w'" using assms(1) by (simp add: mux_inv_def w'_def)
  have "nextStream (sockets w (nextSocketAddr w)) = 1 \<and> serverStreamWatermark (sockets w (nextSocketAddr w)) = 0"
    using assms(1) by (simp add: mux_inv_def alloc_ok_def)
  then show "evolves w w'"
    by (auto simp: w'_def newMuxedSocket_def intro!: evolvesI [where es = "[]"])
qed

lemma connect_open_steps: "mux_steps (connect_open c :: (('h, 'a) mux_world_scheme, unit) js)"
proof -
  have "mux_steps (andThen newSocket (\<lambda>s. andThen (modifies (\<lambda>w. w\<lparr>conns := f w s\<rparr>)) (\<lambda>_. sendAuth s k))
      :: (('h, 'a) mux_world_scheme, unit) js)" for f k
  proof (rule stepsI')
    fix w :: "('h, 'a) mux_world_scheme" assume i: "mux_inv w"
    let ?s = "nextSocketAddr w"
    define w' where "w' = w\<lparr>sockets := (sockets w)(?s := newMuxedSocket), nextSocketAddr := ?s + 1\<rparr>"
    have w': "mux_inv w' \<and> evolves w w'" unfolding w'_def using i by (rule newSocket_step)
    have "steps_on ?s (andThen (modifies (\<lambda>w. w\<lparr>conns := f w ?s\<rparr>)) (\<lambda>_. sendAuth ?s k)
        :: (('h, 'a) mux_world_scheme, unit) js)"
      by (intro steps_andThen preorder_evolves steps_on_any [OF conns_steps] steps_onI [OF sendAuth_step])
    then have "step_at (andThen (modifies (\<lambda>w. w\<lparr>conns := f w ?s\<rparr>)) (\<lambda>_. sendAuth ?s k)) w'"
      using w' by (intro steps_on_at) (auto simp: w'_def)
    with w' show "step_at (andThen newSocket (\<lambda>s. andThen (modifies (\<lambda>w. w\<lparr>conns := f w s\<rparr>)) (\<lambda>_. sendAuth s k))) w"
      by (auto simp: newSocket_def andThen_assoc step_at_def w'_def intro: evolves_trans)
  qed
  then show ?thesis
    unfolding connect_open_def
    by (intro steps_reads_any steps_andThen clearTimeout_steps preorder_evolves)
      (auto intro: emit_steps)
qed

section \<open>Operations with callbacks\<close>

context stream_client
begin

lemma forActive_error_steps: "mux_steps (forActive s (\<lambda>a. onStreamError sh a code msg))"
  by (rule forActive_steps) (rule onStreamError_steps)

lemma forActive_close_steps: "mux_steps (forActive s (\<lambda>a. andThen (onStreamClose sh a) (\<lambda>_. skip)))"
  by (intro forActive_steps steps_andThen preorder_evolves onStreamClose_steps steps_ret)

lemma errorSocket_steps: "mux_steps (errorSocket sh s code msg)"
  unfolding errorSocket_def Let_def
  by (intro steps_reads_any)
    (auto split: MuxedSocketState.splits
      intro!: shutSocket_steps steps_andThen forActive_error_steps steps_reads_any goaway_steps)

end

text \<open>The user of a socket: its callbacks keep the contract too.\<close>

locale socket_client = stream_client sh
  for sh :: "('h, ('h, 'a) mux_world_scheme) stream_handlers" +
  fixes kh :: "('h, ('h, 'a) mux_world_scheme) socket_handlers"
  assumes kStream_steps: "mux_steps (kStream kh h a)"
    and kClose_steps: "mux_steps (kClose kh h)"
    and kError_steps: "mux_steps (kError kh h code msg)"
begin

lemma closewait_steps: "mux_steps (updSocket s (state_update (\<lambda>_. CLOSEWAIT)))"
  by (rule stepsI, rule updSocket_step) (auto intro!: shrinks_same)

lemma onSocketClose_steps: "mux_steps (onSocketClose sh kh s)"
  unfolding onSocketClose_def Let_def
  by (intro steps_reads_any)
    (auto split: MuxedSocketState.splits intro!: steps_ret steps_andThen forActive_close_steps
      steps_reads_any steps_callIf kClose_steps shutSocket_steps closewait_steps)

lemma onSocketError_steps: "mux_steps (onSocketError sh kh s code msg)"
  unfolding onSocketError_def
  by (intro steps_reads_any)
    (auto intro!: steps_ret steps_andThen forActive_error_steps steps_reads_any steps_callIf
      kError_steps shutSocket_steps)

lemma decode_steps: "mux_steps (decode s m)"
proof (cases "decode_frame m")
  case (Inr f)
  have "mux_steps (forEach hs (\<lambda>(t, p). andThen (clearTimeout (Some t)) (\<lambda>_. settle p v)))" for hs v
    by (intro steps_forEach preorder_evolves) (auto intro!: steps_andThen clearTimeout_steps settle_steps)
  with Inr show ?thesis
    by (cases f) (auto simp: decode_def intro!: steps_ret steps_Pair steps_reads_any pong_steps steps_andThen)
qed (simp add: decode_def steps_throw)

lemma onData_step:
  fixes w :: "('h, 'a) mux_world_scheme"
  assumes i: "mux_inv w" and st: "state (sockets w s) \<in> {AUTH_SENT, CLOSING}"
  shows "step_at (onData sh kh s sid payload) w"
proof (cases "map_of (activeStreams (sockets w s)) sid = None \<and> state (sockets w s) = AUTH_SENT
      \<and> even sid \<and> serverStreamWatermark (sockets w s) < sid")
    case True
    have sa: "s < nextSocketAddr w" using i st by (rule active_allocated)
    define w1 where "w1 = w\<lparr>streams := (streams w)(nextStreamAddr w := newStreamObject s sid),
        nextStreamAddr := nextStreamAddr w + 1,
        sockets := (sockets w)(s := (sockets w s)\<lparr>nextStream := nextStream (sockets w s),
          serverStreamWatermark := sid,
          activeStreams := amap_set sid (nextStreamAddr w) (activeStreams (sockets w s))\<rparr>)\<rparr>"
    let ?rest = "andThen (reads (\<lambda>w'. callIf (onStream (sockets w' s)) (\<lambda>h. kStream kh h (nextStreamAddr w))))
      (\<lambda>_. onStreamData sh (nextStreamAddr w) payload)"
    have "odd (nextStream (sockets w s))" using i by (simp add: mux_inv_def socket_ok_def)
    then have "mux_inv w1 \<and> evolves w w1"
      by (intro new_stream_step [where sid = sid, OF i _ _ _ _ _ _ _ w1_def]) (use True sa in auto)
    moreover have "mux_steps ?rest"
      by (intro steps_andThen steps_reads_any steps_callIf kStream_steps onStreamData_steps preorder_evolves)
    moreover have upd: "activeStreams_update (amap_set sid n) (serverStreamWatermark_update (\<lambda>_. sid) so)
        = so\<lparr>serverStreamWatermark := sid, activeStreams := amap_set sid n (activeStreams so)\<rparr>"
      for n and so :: "'h MuxedSocket" by (cases so) simp
    then have "onData sh kh s sid payload w = ?rest w1"
      using True
      by (simp add: onData_def newStream_def updSocket_def w1_def Let_def andThen_assoc even_iff_mod_2_eq_zero upd)
    ultimately show ?thesis
      using steps_after [of mux_inv evolves ?rest w1 w] by (simp add: step_at_def)
next
    case False
    then show ?thesis
      using i st stepsD' [OF onStreamData_steps i] by (auto simp: onData_def Let_def step_at_def
          even_iff_mod_2_eq_zero split: option.splits)
qed

lemma decode_state:
  fixes w :: "('h, 'a) mux_world_scheme"
  shows "state (sockets (snd (decode s m w)) t) = state (sockets w t)"
proof (cases "decode_frame m")
  case (Inr f)
  have loop: "sockets (snd (forEach hs (\<lambda>(t, p). andThen (clearTimeout (Some t)) (\<lambda>_. settle p v)) w)) = sockets w"
    for hs v and w :: "('h, 'a) mux_world_scheme"
    by (induction hs arbitrary: w) (auto simp: clearTimeout_def settle_def andThen_assoc)
  show ?thesis
  proof (cases f)
    case (Pong k)
    then show ?thesis
      using Inr loop [of "healthChecks (sockets w s)" "Resolved (PBool True)" w]
      by (auto simp: decode_def andThen_def split: prod.splits sum.splits)
  qed (use Inr in \<open>auto simp: decode_def encodePongMsg_layout emit_def\<close>)
qed (simp add: decode_def)

lemma onMuxMessage_step:
  assumes "mux_inv w" "state (sockets w s) \<in> {AUTH_SENT, CLOSING}"
  shows "step_at (onMuxMessage sh kh s r) w"
proof (cases "\<exists>sid payload. r = Some (MuxStreamData sid payload)")
  case True
  with onData_step [OF assms] show ?thesis by (auto simp: onMuxMessage_def)
next
  case False
  then have "mux_steps (onMuxMessage sh kh s r)"
    by (auto simp: onMuxMessage_def split: option.splits MuxMessage.splits
      intro!: steps_ret steps_throw steps_andThen steps_reads_any onSocketError_steps
        onStreamClose_steps onStreamError_steps delete_steps)
  then show ?thesis using assms(1) by (rule stepsD')
qed

lemma onSocketMessage_steps: "mux_steps (onSocketMessage sh kh s ev)"
proof (rule stepsI')
  fix w :: "('h, 'a) mux_world_scheme" assume i: "mux_inv w"
  show "step_at (onSocketMessage sh kh s ev) w"
  proof (cases "state (sockets w s) \<in> {AUTH_SENT, CLOSING} \<and> (\<exists>m. ev = BinaryData m)")
    case True
    then obtain m where m: "ev = BinaryData m" and st: "state (sockets w s) \<in> {AUTH_SENT, CLOSING}" by auto
    obtain r w' where d: "decode s m w = (r, w')" by (cases "decode s m w")
    have w': "mux_inv w'" "evolves w w'" using stepsD [OF decode_steps i, of s m] d by simp_all
    have st': "state (sockets w' s) \<in> {AUTH_SENT, CLOSING}" using decode_state [of s m w s] d st by simp
    have "step_at (andThen (decode s m) (onMuxMessage sh kh s)) w"
      using w' onMuxMessage_step [OF w'(1) st'] evolves_trans [OF w'(2)] d
      by (cases r) (auto simp: andThen_def step_at_def)
    moreover have "onSocketMessage sh kh s ev w = andThen (decode s m) (onMuxMessage sh kh s) w"
      using st by (auto simp: onSocketMessage_def m)
    ultimately show ?thesis by (simp add: step_at_def)
  next
    case False
    with i show ?thesis by (cases ev) (auto simp: onSocketMessage_def step_at_def)
  qed
qed

lemma ws_steps: "mux_steps (ws_close sh kh c)" "mux_steps (ws_error sh kh c event)" "mux_steps (ws_message sh kh c ev)"
  unfolding ws_close_def ws_error_def ws_message_def
  by (intro steps_reads_any; auto split: option.splits
      intro!: settle_steps onSocketClose_steps onSocketError_steps onSocketMessage_steps)+

end

section \<open>Events\<close>

text \<open>
  What can happen to sockets and streams, in any order: a timer fires, a signature is ready, an
  event of a \<open>WebSocket\<close> arrives, a user calls an operation or sets a callback.
\<close>

definition runTask :: "task \<Rightarrow> (('h, 'a) mux_world_scheme, unit) js" where
  "runTask t = (case t of
     ReauthTask s \<Rightarrow> sendAuth s None
   | OpenTask s p \<Rightarrow> openStream_fn s p
   | PingTask p \<Rightarrow> settle p (Resolved (PBool False))
   | ConnectTask c \<Rightarrow> connect_timeout c
   | _ \<Rightarrow> skip)"

definition fireTimer :: "nat \<Rightarrow> task \<Rightarrow> (('h, 'a) mux_world_scheme, unit) js" where
  "fireTimer i t = andThen (clearTimeout (Some i)) (\<lambda>_. runTask t)"

inductive mux_event for sh :: "('h, ('h, 'a) mux_world_scheme) stream_handlers"
  and kh :: "('h, ('h, 'a) mux_world_scheme) socket_handlers" where
  timer: "(i, t) \<in> set (timers w) \<Longrightarrow> mux_event sh kh w (snd (fireTimer i t w))"
| signed: "AuthJob s k \<in> set (jobs w) \<Longrightarrow>
    mux_event sh kh w (snd (sendAuth_resume s k (encodeAuthMsg creds rnd now sign)
      (w\<lparr>jobs := remove1 (AuthJob s k) (jobs w)\<rparr>)))"
| connect: "mux_event sh kh w (snd (connect w))"
| ws_open: "mux_event sh kh w (snd (connect_open c w))"
| ws_close: "mux_event sh kh w (snd (ws_close sh kh c w))"
| ws_error: "mux_event sh kh w (snd (ws_error sh kh c txt w))"
| ws_message: "mux_event sh kh w (snd (ws_message sh kh c ev w))"
| open_stream: "mux_event sh kh w (snd (openStream s w))"
| close_socket: "mux_event sh kh w (snd (closeSocket s w))"
| error_socket: "mux_event sh kh w (snd (errorSocket sh s code msg w))"
| ping: "mux_event sh kh w (snd (pingSocket s w))"
| stream_close: "mux_event sh kh w (snd (close a w))"
| stream_error: "mux_event sh kh w (snd (error a code msg w))"
| stream_send: "mux_event sh kh w (snd (send a data w))"
| set_stream_callbacks: "mux_event sh kh w (snd (updStream a (\<lambda>st. st\<lparr>st_onClose := h1, st_onError := h2, st_onData := h3\<rparr>) w))"
| set_socket_callbacks: "mux_event sh kh w (snd (updSocket s (\<lambda>so. so\<lparr>onStream := h1, onClose := h2, onError := h3\<rparr>) w))"

inductive_cases mux_eventE: "mux_event sh kh w w'"

lemma fireTimer_step:
  assumes "mux_inv w" "(i, t) \<in> set (timers w)"
  shows "step_at (fireTimer i t) w"
proof (cases "\<exists>s. t = ReauthTask s")
  case True
  then obtain s where t: "t = ReauthTask s" by auto
  have "s < nextSocketAddr w" using assms t by (auto simp: mux_inv_def alloc_ok_def)
  moreover have "steps_on s (fireTimer i t)"
    unfolding fireTimer_def runTask_def t task.case
    by (intro steps_andThen preorder_evolves steps_on_any [OF clearTimeout_steps] steps_onI [OF sendAuth_step])
  ultimately show ?thesis using assms(1) by (intro steps_on_at)
next
  case False
  then have "mux_steps (runTask t)"
    by (cases t) (auto simp: runTask_def openStream_fn_steps settle_steps connect_timeout_steps steps_ret)
  then have "mux_steps (fireTimer i t)"
    unfolding fireTimer_def by (intro steps_andThen preorder_evolves clearTimeout_steps)
  then show ?thesis using assms(1) by (rule stepsD')
qed

lemma jobs_removed:
  assumes "mux_inv w"
  shows "mux_inv (w\<lparr>jobs := remove1 j (jobs w)\<rparr>)" "evolves w (w\<lparr>jobs := remove1 j (jobs w)\<rparr>)"
  using mux_inv_cong [OF _ _ _ _ _ _ assms, of "w\<lparr>jobs := remove1 j (jobs w)\<rparr>"] set_remove1_subset [of j "jobs w"]
  by (auto intro!: evolvesI [where es = "[]"])

lemma signed_step:
  fixes w :: "('h, 'a) mux_world_scheme"
  assumes "mux_inv w" "AuthJob s k \<in> set (jobs w)"
    and w'_def: "w' = snd (sendAuth_resume s k (encodeAuthMsg creds rnd now sign) (w\<lparr>jobs := remove1 (AuthJob s k) (jobs w)\<rparr>))"
  shows "mux_inv w' \<and> evolves w w'"
proof -
  have "s < nextSocketAddr w" using assms(1,2) by (auto simp: mux_inv_def alloc_ok_def)
  then have "step_at (sendAuth_resume s k (encodeAuthMsg creds rnd now sign)) (w\<lparr>jobs := remove1 (AuthJob s k) (jobs w)\<rparr>)"
    using jobs_removed [OF assms(1)] by (intro sendAuth_resume_step) auto
  then show ?thesis
    using jobs_removed(2) [OF assms(1), of "AuthJob s k"] by (auto simp: step_at_def w'_def intro: evolves_trans)
qed

lemma callbacks_steps:
  "mux_steps (updSocket s (\<lambda>so. so\<lparr>onStream := h1, onClose := h2, onError := h3\<rparr>))"
  "mux_steps (updStream a (\<lambda>st. st\<lparr>st_onClose := h1, st_onError := h2, st_onData := h3\<rparr>))"
proof -
  show "mux_steps (updSocket s (\<lambda>so. so\<lparr>onStream := h1, onClose := h2, onError := h3\<rparr>))"
    by (rule stepsI, rule updSocket_step) (auto intro!: shrinks_same dest: active_allocated)
  show "mux_steps (updStream a (\<lambda>st. st\<lparr>st_onClose := h1, st_onError := h2, st_onData := h3\<rparr>))"
    unfolding updStream_def
    by (rule steps_modifies) (auto intro!: mux_inv_stream evolvesI [where es = "[]"] simp: same_stream_def)
qed

context socket_client
begin

lemma mux_event_step:
  assumes "mux_event sh kh w w'" "mux_inv w"
  shows "mux_inv w' \<and> evolves w w'"
  using assms
proof (cases rule: mux_event.cases)
  case (timer i t)
  with fireTimer_step [of w i t] assms(2) show ?thesis by (simp add: step_at_def)
next
  case (signed s k creds rnd now sign)
  with signed_step [OF assms(2), of s k w' creds rnd now sign] show ?thesis by simp
next
  case connect
  then show ?thesis using stepsD [OF connect_steps assms(2)] by simp
next
  case ws_open
  then show ?thesis using stepsD [OF connect_open_steps assms(2)] by simp
next
  case ws_close
  then show ?thesis using stepsD [OF ws_steps(1) assms(2)] by simp
next
  case ws_error
  then show ?thesis using stepsD [OF ws_steps(2) assms(2)] by simp
next
  case ws_message
  then show ?thesis using stepsD [OF ws_steps(3) assms(2)] by simp
next
  case open_stream
  then show ?thesis using stepsD [OF openStream_steps assms(2)] by simp
next
  case close_socket
  then show ?thesis using stepsD [OF closeSocket_steps assms(2)] by simp
next
  case error_socket
  then show ?thesis using stepsD [OF errorSocket_steps assms(2)] by simp
next
  case ping
  then show ?thesis using stepsD [OF pingSocket_steps assms(2)] by simp
next
  case set_stream_callbacks
  then show ?thesis using stepsD [OF callbacks_steps(2) assms(2)] by simp
next
  case set_socket_callbacks
  then show ?thesis using stepsD [OF callbacks_steps(1) assms(2)] by simp
next
  case stream_close
  then show ?thesis using close_step [OF assms(2)] by simp
next
  case stream_error
  then show ?thesis using error_step [OF assms(2)] by simp
next
  case stream_send
  then show ?thesis using send_step [OF assms(2)] by simp
qed

lemma mux_events_step:
  assumes "(mux_event sh kh)\<^sup>*\<^sup>* w w'" "mux_inv w"
  shows "mux_inv w' \<and> evolves w w'"
  using assms
proof (induction rule: rtranclp_induct)
  case (step u v)
  with mux_event_step [of u v] show ?case by (blast intro: evolves_trans)
qed simp

end

lemma init_world_inv: "mux_inv (mux_world.extend init_world x)"
  by (simp add: mux_inv_def socket_ok_def stream_ok_def alloc_ok_def init_world_def newMuxedSocket_def
      mux_world.defs)

end
