(* ===== verification/Resilient.thy ===== *)
theory Resilient
  imports Muxed_Socket
begin

text \<open>
  \<open>ResilientMuxedSocket\<close> and \<open>ResilientStream\<close> of \<open>sql/ts/src/skdb_orchestration.ts\<close>: a socket that
  is replaced when it fails and streams that are re-opened on the replacement. Their callbacks on
  sockets and streams are the handlers \<open>HSock r\<close> and \<open>HStream x\<close>; those of their own users and the
  reconnection policy are arguments (\<open>app_handlers\<close>). Every \<open>await\<close> ends a step; the rest of the
  method is a job that runs when the awaited promise is settled.
\<close>

section \<open>Objects\<close>

datatype 'p handler = HSock nat | HStream nat | App 'p

record 'p ResilientMuxedSocket =
  rs_socket :: "nat option"
  socketQueue :: "nat list"
  permanentFailureReason :: "jsstring option"
  rs_onStream :: "'p option"

record 'p ResilientStream =
  rst_socket :: nat
  rst_stream :: "nat option"
  failureDetectionTimeout :: "nat option"
  rst_onData :: "'p option"
  rst_onReconnect :: "'p option"

text \<open>
  Continuations. \<open>JShould r x\<close> waits for the policy on behalf of stream \<open>x\<close>; \<open>JSocket\<close>, \<open>JOpen\<close> and
  \<open>JAgain\<close> are the later steps of replacing the stream; \<open>JConnect\<close> is the loop that replaces the
  socket, for a stream that waits for it or for nobody; the others belong to calls of users, who
  hold the promise in the last argument.
\<close>

datatype rjob =
    JShould nat nat
  | JSocket nat nat nat
  | JOpen nat nat nat
  | JAgain nat nat
  | JConnect nat "nat option" nat
  | JUserSocket bool nat nat nat
  | JUserOpen bool nat nat nat
  | JCloseSocket nat nat nat
  | JErrorSocket nat nat jsstring nat nat

record 'p rworld = "'p handler mux_world" +
  rsockets :: "nat \<Rightarrow> 'p ResilientMuxedSocket"
  rstreams :: "nat \<Rightarrow> 'p ResilientStream"
  rjobs :: "rjob list"
  nextRSocket :: nat
  nextRStream :: nat

record ('p, 'w) app_handlers =
  aClose :: "'p \<Rightarrow> ('w, unit) js"
  aError :: "'p \<Rightarrow> nat \<Rightarrow> jsstring \<Rightarrow> ('w, unit) js"
  aData :: "'p \<Rightarrow> bytes \<Rightarrow> ('w, unit) js"
  aStream :: "'p \<Rightarrow> nat \<Rightarrow> ('w, unit) js"
  aReconnect :: "'p \<Rightarrow> ('w, unit) js"
  notifyFailedStream :: "nat \<Rightarrow> ('w, unit) js"

section \<open>Primitive operations\<close>

definition updRSocket :: "nat \<Rightarrow> ('p ResilientMuxedSocket \<Rightarrow> 'p ResilientMuxedSocket) \<Rightarrow>
    (('p, 'a) rworld_scheme, unit) js" where
  "updRSocket r f = modifies (\<lambda>w. w\<lparr>rsockets := (rsockets w)(r := f (rsockets w r))\<rparr>)"

definition updRStream :: "nat \<Rightarrow> ('p ResilientStream \<Rightarrow> 'p ResilientStream) \<Rightarrow>
    (('p, 'a) rworld_scheme, unit) js" where
  "updRStream x f = modifies (\<lambda>w. w\<lparr>rstreams := (rstreams w)(x := f (rstreams w x))\<rparr>)"

definition addJob :: "rjob \<Rightarrow> (('p, 'a) rworld_scheme, unit) js" where
  "addJob j = modifies (\<lambda>w. w\<lparr>rjobs := rjobs w @ [j]\<rparr>)"

text \<open>\<open>m().catch((e) => console.error(e))\<close> for the synchronous part of an async method.\<close>

definition catchLog :: "(('p, 'a) rworld_scheme, unit) js \<Rightarrow> (('p, 'a) rworld_scheme, unit) js" where
  "catchLog m w = (case m w of (Inr u, w') \<Rightarrow> (Inr (), w') | (Inl e, w') \<Rightarrow> emit (ConsoleError e) w')"

text \<open>The promise of an async method that runs \<open>m\<close> to its end.\<close>

definition settleWith :: "nat \<Rightarrow> (('p, 'a) rworld_scheme, unit) js \<Rightarrow> (('p, 'a) rworld_scheme, unit) js" where
  "settleWith p m w = (case m w of (Inr u, w') \<Rightarrow> settle p (Resolved PUnit) w'
     | (Inl e, w') \<Rightarrow> settle p (Rejected e) w')"

definition setStreamCallbacks :: "nat \<Rightarrow> 'p handler option \<Rightarrow> (('p, 'a) rworld_scheme, unit) js" where
  "setStreamCallbacks a h = updStream a (\<lambda>st. st\<lparr>st_onClose := h, st_onError := h, st_onData := h\<rparr>)"

definition setSocketCallbacks :: "nat \<Rightarrow> 'p handler option \<Rightarrow> (('p, 'a) rworld_scheme, unit) js" where
  "setSocketCallbacks s h = updSocket s (\<lambda>so. so\<lparr>onStream := h, onClose := h, onError := h\<rparr>)"

section \<open>ResilientStream\<close>

definition setFailureDetectionTimeout :: "nat \<Rightarrow> nat option \<Rightarrow> (('p, 'a) rworld_scheme, unit) js" where
  "setFailureDetectionTimeout x t =
     andThen (reads (\<lambda>w. clearTimeout (failureDetectionTimeout (rstreams w x)))) (\<lambda>_.
     updRStream x (failureDetectionTimeout_update (\<lambda>_. t)))"

definition rs_close :: "nat \<Rightarrow> (('p, 'a) rworld_scheme, unit) js" where
  "rs_close x = andThen (reads (\<lambda>w. case rst_stream (rstreams w x) of
       None \<Rightarrow> skip
     | Some a \<Rightarrow> andThen (setStreamCallbacks a None) (\<lambda>_.
                 andThen (close a) (\<lambda>_.
                 updRStream x (rst_stream_update (\<lambda>_. None))))))
     (\<lambda>_. setFailureDetectionTimeout x None)"

definition rs_send :: "nat \<Rightarrow> bytes \<Rightarrow> (('p, 'a) rworld_scheme, unit) js" where
  "rs_send x data = reads (\<lambda>w. case rst_stream (rstreams w x) of None \<Rightarrow> skip | Some a \<Rightarrow> send a data)"

definition expectingData :: "nat \<Rightarrow> (('p, 'a) rworld_scheme, unit) js" where
  "expectingData x = reads (\<lambda>w.
     if failureDetectionTimeout (rstreams w x) \<noteq> None then skip
     else if rst_stream (rstreams w x) = None then skip
     else setTimeout (FailureTask x) (\<lambda>t. setFailureDetectionTimeout x (Some t)))"

definition attachStream :: "nat \<Rightarrow> nat \<Rightarrow> (('p, 'a) rworld_scheme, unit) js" where
  "attachStream x a = andThen (setStreamCallbacks a (Some (HStream x))) (\<lambda>_.
     updRStream x (rst_stream_update (\<lambda>_. Some a)))"

text \<open>The part of \<open>ResilientMuxedSocket.replaceFailedStream\<close> before its first \<open>await\<close>.\<close>

definition r_replaceFailedStream ::
  "('p, ('p, 'a) rworld_scheme) app_handlers \<Rightarrow> nat \<Rightarrow> nat \<Rightarrow> (('p, 'a) rworld_scheme, unit) js" where
  "r_replaceFailedStream ap r x = andThen (notifyFailedStream ap r) (\<lambda>_. addJob (JShould r x))"

text \<open>\<open>ResilientStream.replaceFailedStream\<close> up to its \<open>await\<close>.\<close>

definition replaceFailedStream ::
  "('p, ('p, 'a) rworld_scheme) app_handlers \<Rightarrow> nat \<Rightarrow> (('p, 'a) rworld_scheme, unit) js" where
  "replaceFailedStream ap x = reads (\<lambda>w. case rst_stream (rstreams w x) of
     None \<Rightarrow> skip
   | Some a \<Rightarrow>
       andThen (setStreamCallbacks a None) (\<lambda>_.
       andThen (updRStream x (rst_stream_update (\<lambda>_. None))) (\<lambda>_.
       andThen (setFailureDetectionTimeout x None) (\<lambda>_.
       andThen (error a 0 (js ''Stream suspected to have failed'')) (\<lambda>_.
       r_replaceFailedStream ap (rst_socket (rstreams w x)) x)))))"

text \<open>The closures that \<open>attachStream\<close> stores in a stream.\<close>

definition streamCallbacks :: "('p, ('p, 'a) rworld_scheme) app_handlers \<Rightarrow>
    ('p handler, ('p, 'a) rworld_scheme) stream_handlers" where
  "streamCallbacks ap = \<lparr>
     hClose = (\<lambda>h. case h of HStream x \<Rightarrow> catchLog (replaceFailedStream ap x) | App p \<Rightarrow> aClose ap p | HSock r \<Rightarrow> skip),
     hError = (\<lambda>h c m. case h of HStream x \<Rightarrow> catchLog (replaceFailedStream ap x) | App p \<Rightarrow> aError ap p c m | HSock r \<Rightarrow> skip),
     hData = (\<lambda>h d. case h of
         HStream x \<Rightarrow> andThen (setFailureDetectionTimeout x None) (\<lambda>_.
           reads (\<lambda>w. callIf (rst_onData (rstreams w x)) (\<lambda>p. aData ap p d)))
       | App p \<Rightarrow> aData ap p d | HSock r \<Rightarrow> skip)\<rparr>"

section \<open>ResilientMuxedSocket\<close>

definition isSocketErrorRetryable :: "nat \<Rightarrow> bool" where
  "isSocketErrorRetryable errorCode = (errorCode \<noteq> 1002 \<and> errorCode \<noteq> 1004)"

definition isSocketConsideredHealthy :: "nat \<Rightarrow> ('p, 'a) rworld_scheme \<Rightarrow> bool" where
  "isSocketConsideredHealthy r w = (rs_socket (rsockets w r) \<noteq> None)"

text \<open>\<open>replaceFailedSocket\<close> has ended for the stream that awaits it.\<close>

definition replaceDone :: "nat \<Rightarrow> nat option \<Rightarrow> (('p, 'a) rworld_scheme, unit) js" where
  "replaceDone r k = (case k of None \<Rightarrow> skip | Some x \<Rightarrow> addJob (JAgain r x))"

definition replaceFailedSocket :: "('p, ('p, 'a) rworld_scheme) app_handlers \<Rightarrow> nat \<Rightarrow> nat option \<Rightarrow>
    (('p, 'a) rworld_scheme, unit) js" where
  "replaceFailedSocket ap r k = reads (\<lambda>w.
     if permanentFailureReason (rsockets w r) \<noteq> None then replaceDone r k
     else case rs_socket (rsockets w r) of
       None \<Rightarrow> replaceDone r k
     | Some s \<Rightarrow>
         andThen (setSocketCallbacks s None) (\<lambda>_.
         andThen (updRSocket r (rs_socket_update (\<lambda>_. None))) (\<lambda>_.
         andThen (errorSocket (streamCallbacks ap) s 0 (js ''Socket suspected to have failed'')) (\<lambda>_.
         setTimeout (BackoffTask r k) (\<lambda>_. skip)))))"

text \<open>The closures that \<open>attachSocket\<close> stores in a socket.\<close>

definition socketCallbacks :: "('p, ('p, 'a) rworld_scheme) app_handlers \<Rightarrow>
    ('p handler, ('p, 'a) rworld_scheme) socket_handlers" where
  "socketCallbacks ap = \<lparr>
     kStream = (\<lambda>h a. case h of
         HSock r \<Rightarrow> reads (\<lambda>w. callIf (rs_onStream (rsockets w r)) (\<lambda>p. aStream ap p a))
       | _ \<Rightarrow> skip),
     kClose = (\<lambda>h. case h of HSock r \<Rightarrow> catchLog (replaceFailedSocket ap r None) | _ \<Rightarrow> skip),
     kError = (\<lambda>h errorCode msg. case h of
         HSock r \<Rightarrow>
           if \<not> isSocketErrorRetryable errorCode then
             updRSocket r (\<lambda>rs. rs\<lparr>permanentFailureReason := Some msg, rs_socket := None\<rparr>)
           else catchLog (replaceFailedSocket ap r None)
       | _ \<Rightarrow> skip)\<rparr>"

definition attachSocket :: "nat \<Rightarrow> nat \<Rightarrow> (('p, 'a) rworld_scheme, unit) js" where
  "attachSocket r s =
     andThen (setSocketCallbacks s (Some (HSock r))) (\<lambda>_.
     andThen (updRSocket r (rs_socket_update (\<lambda>_. Some s))) (\<lambda>_.
     andThen (reads (\<lambda>w. forEach (socketQueue (rsockets w r)) (\<lambda>p. settle p (Resolved (PSocket s))))) (\<lambda>_.
     updRSocket r (socketQueue_update (\<lambda>_. [])))))"

text \<open>\<open>getSocket\<close>: the promise of a socket, or the reason why there will never be one.\<close>

definition getSocket :: "nat \<Rightarrow> (('p, 'a) rworld_scheme, nat) js" where
  "getSocket r = reads (\<lambda>w. case permanentFailureReason (rsockets w r) of
     Some reason \<Rightarrow> throw (JSError reason)
   | None \<Rightarrow> andThen newPromise (\<lambda>p. andThen (case rs_socket (rsockets w r) of
         Some s \<Rightarrow> settle p (Resolved (PSocket s))
       | None \<Rightarrow> updRSocket r (socketQueue_update (\<lambda>q. q @ [p]))) (\<lambda>_. ret p)))"

text \<open>\<open>openStream\<close> and (with \<open>True\<close>) \<open>openResilientStream\<close>\<close>

definition r_open :: "bool \<Rightarrow> nat \<Rightarrow> (('p, 'a) rworld_scheme, nat) js" where
  "r_open resilient r = andThen newPromise (\<lambda>u. \<lambda>w. case getSocket r w of
       (Inl e, w') \<Rightarrow> andThen (settle u (Rejected e)) (\<lambda>_. ret u) w'
     | (Inr p, w') \<Rightarrow> andThen (addJob (JUserSocket resilient r p u)) (\<lambda>_. ret u) w')"

definition r_closeWith :: "nat \<Rightarrow> nat \<Rightarrow> (('p, 'a) rworld_scheme, unit) js" where
  "r_closeWith r s =
     andThen (updRSocket r (\<lambda>rs. rs\<lparr>rs_socket := None, socketQueue := []\<rparr>)) (\<lambda>_. closeSocket s)"

definition r_errorWith :: "('p, ('p, 'a) rworld_scheme) app_handlers \<Rightarrow> nat \<Rightarrow> nat \<Rightarrow> nat \<Rightarrow> jsstring \<Rightarrow>
    (('p, 'a) rworld_scheme, unit) js" where
  "r_errorWith ap r s errorCode msg =
     andThen (updRSocket r (\<lambda>rs. rs\<lparr>rs_socket := None, socketQueue := []\<rparr>))
       (\<lambda>_. errorSocket (streamCallbacks ap) s errorCode msg)"

definition r_closeSocket :: "nat \<Rightarrow> (('p, 'a) rworld_scheme, nat) js" where
  "r_closeSocket r = andThen newPromise (\<lambda>u. \<lambda>w. case rs_socket (rsockets w r) of
       Some s \<Rightarrow> andThen (settleWith u (r_closeWith r s)) (\<lambda>_. ret u) w
     | None \<Rightarrow> (case getSocket r w of
           (Inl e, w') \<Rightarrow> andThen (settle u (Rejected e)) (\<lambda>_. ret u) w'
         | (Inr p, w') \<Rightarrow> andThen (addJob (JCloseSocket r p u)) (\<lambda>_. ret u) w'))"

definition r_errorSocket :: "('p, ('p, 'a) rworld_scheme) app_handlers \<Rightarrow> nat \<Rightarrow> nat \<Rightarrow> jsstring \<Rightarrow>
    (('p, 'a) rworld_scheme, nat) js" where
  "r_errorSocket ap r errorCode msg = andThen newPromise (\<lambda>u. \<lambda>w. case rs_socket (rsockets w r) of
       Some s \<Rightarrow> andThen (settleWith u (r_errorWith ap r s errorCode msg)) (\<lambda>_. ret u) w
     | None \<Rightarrow> (case getSocket r w of
           (Inl e, w') \<Rightarrow> andThen (settle u (Rejected e)) (\<lambda>_. ret u) w'
         | (Inr p, w') \<Rightarrow> andThen (addJob (JErrorSocket r errorCode msg p u)) (\<lambda>_. ret u) w'))"

definition isSocketResponsive :: "nat \<Rightarrow> (('p, 'a) rworld_scheme, nat) js" where
  "isSocketResponsive r = reads (\<lambda>w. case rs_socket (rsockets w r) of
     None \<Rightarrow> andThen newPromise (\<lambda>p. andThen (settle p (Resolved (PBool False))) (\<lambda>_. ret p))
   | Some s \<Rightarrow> pingSocket s)"

text \<open>The constructors.\<close>

definition newResilientSocket :: "nat \<Rightarrow> (('p, 'a) rworld_scheme, nat) js" where
  "newResilientSocket s = reads (\<lambda>w. let r = nextRSocket w in
     andThen (modifies (\<lambda>w. w\<lparr>rsockets := (rsockets w)(r := \<lparr>rs_socket = None, socketQueue = [],
        permanentFailureReason = None, rs_onStream = None\<rparr>), nextRSocket := r + 1\<rparr>)) (\<lambda>_.
     andThen (attachSocket r s) (\<lambda>_. ret r)))"

definition newResilientStream :: "nat \<Rightarrow> nat \<Rightarrow> (('p, 'a) rworld_scheme, nat) js" where
  "newResilientStream r a = reads (\<lambda>w. let x = nextRStream w in
     andThen (modifies (\<lambda>w. w\<lparr>rstreams := (rstreams w)(x := \<lparr>rst_socket = r, rst_stream = None,
        failureDetectionTimeout = None, rst_onData = None, rst_onReconnect = None\<rparr>), nextRStream := x + 1\<rparr>)) (\<lambda>_.
     andThen (attachStream x a) (\<lambda>_. ret x)))"

section \<open>Continuations and timers\<close>

text \<open>
  What a job does once what it awaits is there; \<open>b\<close> is the policy's answer to
  \<open>shouldReconnect\<close>.
\<close>

definition resume :: "('p, ('p, 'a) rworld_scheme) app_handlers \<Rightarrow> bool \<Rightarrow> rjob \<Rightarrow>
    (('p, 'a) rworld_scheme, unit) js" where
  "resume ap b j = (case j of
     JShould r x \<Rightarrow>
       andThen (if b then catchLog (replaceFailedSocket ap r None) else skip) (\<lambda>_. \<lambda>w.
         case getSocket r w of
           (Inl e, w') \<Rightarrow> emit (ConsoleError e) w'
         | (Inr p, w') \<Rightarrow> addJob (JSocket r x p) w')
   | JSocket r x p \<Rightarrow> reads (\<lambda>w. case promises w p of
       Resolved (PSocket s) \<Rightarrow> andThen (openStream s) (\<lambda>q. addJob (JOpen r x q))
     | _ \<Rightarrow> skip)
   | JOpen r x q \<Rightarrow> reads (\<lambda>w. case promises w q of
       Resolved (PStream a) \<Rightarrow> catchLog (andThen (attachStream x a) (\<lambda>_.
         reads (\<lambda>w. callIf (rst_onReconnect (rstreams w x)) (aReconnect ap))))
     | Rejected e \<Rightarrow> catchLog (replaceFailedSocket ap r (Some x))
     | _ \<Rightarrow> skip)
   | JAgain r x \<Rightarrow> catchLog (r_replaceFailedStream ap r x)
   | JConnect r k p \<Rightarrow> reads (\<lambda>w. case promises w p of
       Resolved (PSocket s) \<Rightarrow> andThen (attachSocket r s) (\<lambda>_. replaceDone r k)
     | Rejected e \<Rightarrow> setTimeout (BackoffTask r k) (\<lambda>_. skip)
     | _ \<Rightarrow> skip)
   | JUserSocket resilient r p u \<Rightarrow> reads (\<lambda>w. case promises w p of
       Resolved (PSocket s) \<Rightarrow> andThen (openStream s) (\<lambda>q. addJob (JUserOpen resilient r q u))
     | _ \<Rightarrow> skip)
   | JUserOpen resilient r q u \<Rightarrow> reads (\<lambda>w. case promises w q of
       Resolved (PStream a) \<Rightarrow>
         if resilient then andThen (newResilientStream r a) (\<lambda>x. settle u (Resolved (PResilient x)))
         else settle u (Resolved (PStream a))
     | Rejected e \<Rightarrow> settle u (Rejected e)
     | _ \<Rightarrow> skip)
   | JCloseSocket r p u \<Rightarrow> reads (\<lambda>w. case promises w p of
       Resolved (PSocket s) \<Rightarrow> settleWith u (r_closeWith r s)
     | _ \<Rightarrow> skip)
   | JErrorSocket r errorCode msg p u \<Rightarrow> reads (\<lambda>w. case promises w p of
       Resolved (PSocket s) \<Rightarrow> settleWith u (r_errorWith ap r s errorCode msg)
     | _ \<Rightarrow> skip))"

text \<open>A job is ready when the promise it awaits is settled.\<close>

definition awaits :: "rjob \<Rightarrow> nat option" where
  "awaits j = (case j of JShould r x \<Rightarrow> None | JSocket r x p \<Rightarrow> Some p | JOpen r x q \<Rightarrow> Some q
     | JAgain r x \<Rightarrow> None | JConnect r k p \<Rightarrow> Some p | JUserSocket b r p u \<Rightarrow> Some p
     | JUserOpen b r q u \<Rightarrow> Some q | JCloseSocket r p u \<Rightarrow> Some p | JErrorSocket r c m p u \<Rightarrow> Some p)"

definition ready :: "('p, 'a) rworld_scheme \<Rightarrow> rjob \<Rightarrow> bool" where
  "ready w j = (case awaits j of None \<Rightarrow> True | Some p \<Rightarrow> promises w p \<noteq> Pending)"

definition runJob :: "('p, ('p, 'a) rworld_scheme) app_handlers \<Rightarrow> bool \<Rightarrow> rjob \<Rightarrow>
    (('p, 'a) rworld_scheme, unit) js" where
  "runJob ap b j = andThen (modifies (\<lambda>w. w\<lparr>rjobs := remove1 j (rjobs w)\<rparr>)) (\<lambda>_. resume ap b j)"

definition runResilientTask :: "('p, ('p, 'a) rworld_scheme) app_handlers \<Rightarrow> nat \<Rightarrow> task \<Rightarrow>
    (('p, 'a) rworld_scheme, unit) js" where
  "runResilientTask ap i t = (case t of
     FailureTask x \<Rightarrow> andThen (clearTimeout (Some i)) (\<lambda>_. catchLog (replaceFailedStream ap x))
   | BackoffTask r k \<Rightarrow> andThen (clearTimeout (Some i)) (\<lambda>_.
       andThen connect (\<lambda>p. addJob (JConnect r k p)))
   | _ \<Rightarrow> fireTimer i t)"

section \<open>The contract of sockets and streams is kept\<close>

lemma ext_steps:
  "mux_steps (updRSocket r f)" "mux_steps (updRStream x g)" "mux_steps (addJob j)"
  "mux_steps (modifies (\<lambda>w. w\<lparr>rjobs := h w\<rparr>))"
  unfolding updRSocket_def updRStream_def addJob_def
  by (intro steps_modifies neutral_step; simp)+

lemma catchLog_steps:
  fixes m :: "(('p, 'a) rworld_scheme, unit) js"
  assumes "mux_steps m"
  shows "mux_steps (catchLog m)"
proof (rule stepsI)
  fix w :: "('p, 'a) rworld_scheme" assume i: "mux_inv w"
  obtain r w' where mw: "m w = (r, w')" by (cases "m w")
  with stepsD [OF assms i] have w': "mux_inv w'" "evolves w w'" by simp_all
  then have "mux_inv (snd (emit (ConsoleError e) w')) \<and> evolves w (snd (emit (ConsoleError e) w'))" for e
    by (intro steps_after [OF emit_steps]) auto
  with mw w' show "mux_inv (snd (catchLog m w)) \<and> evolves w (snd (catchLog m w))"
    by (cases r) (simp_all add: catchLog_def)
qed

lemma settleWith_steps:
  fixes m :: "(('p, 'a) rworld_scheme, unit) js"
  assumes "mux_steps m"
  shows "mux_steps (settleWith p m)"
proof (rule stepsI)
  fix w :: "('p, 'a) rworld_scheme" assume i: "mux_inv w"
  obtain r w' where mw: "m w = (r, w')" by (cases "m w")
  with stepsD [OF assms i] have w': "mux_inv w'" "evolves w w'" by simp_all
  then have "mux_inv (snd (settle p v w')) \<and> evolves w (snd (settle p v w'))" for v
    by (intro steps_after [OF settle_steps]) auto
  with mw show "mux_inv (snd (settleWith p m w)) \<and> evolves w (snd (settleWith p m w))"
    by (cases r) (simp_all add: settleWith_def)
qed

lemma setCallbacks_steps: "mux_steps (setStreamCallbacks a h)" "mux_steps (setSocketCallbacks s h)"
  by (simp_all add: setStreamCallbacks_def setSocketCallbacks_def callbacks_steps)

lemma stream_ops_steps: "mux_steps (close a)" "mux_steps (error a code msg)" "mux_steps (send a data)"
  by (rule stepsI, erule close_step error_step send_step)+

lemma setFailureDetectionTimeout_steps: "mux_steps (setFailureDetectionTimeout x t)"
  unfolding setFailureDetectionTimeout_def
  by (intro steps_andThen preorder_evolves steps_reads_any clearTimeout_steps ext_steps)

lemma rs_steps: "mux_steps (rs_close x)" "mux_steps (rs_send x data)" "mux_steps (expectingData x)"
  "mux_steps (attachStream x a)"
  unfolding rs_close_def rs_send_def expectingData_def attachStream_def
  by (auto split: option.splits intro!: steps_andThen steps_ret steps_reads_any setCallbacks_steps stream_ops_steps
      ext_steps setFailureDetectionTimeout_steps setTimeout_steps)

text \<open>
  The interface of the layer above: callbacks of users and the policy keep the contract. Then so
  do the callbacks of this layer, which makes it a client of sockets and streams.
\<close>

locale app_client =
  fixes ap :: "('p, ('p, 'a) rworld_scheme) app_handlers"
  assumes aClose_steps: "mux_steps (aClose ap p)"
    and aError_steps: "mux_steps (aError ap p code msg)"
    and aData_steps: "mux_steps (aData ap p data)"
    and aStream_steps: "mux_steps (aStream ap p a)"
    and aReconnect_steps: "mux_steps (aReconnect ap p)"
    and notify_steps: "mux_steps (notifyFailedStream ap r)"
begin

lemma r_replaceFailedStream_steps: "mux_steps (r_replaceFailedStream ap r x)"
  unfolding r_replaceFailedStream_def
  by (intro steps_andThen preorder_evolves notify_steps ext_steps)

lemma replaceFailedStream_steps: "mux_steps (replaceFailedStream ap x)"
  unfolding replaceFailedStream_def
  by (intro steps_reads_any)
    (auto split: option.splits intro!: steps_ret steps_andThen setCallbacks_steps ext_steps
      setFailureDetectionTimeout_steps stream_ops_steps r_replaceFailedStream_steps)

end

sublocale app_client \<subseteq> stream: stream_client "streamCallbacks ap"
proof unfold_locales
  show "mux_steps (hClose (streamCallbacks ap) h)" for h
    by (cases h) (simp_all add: streamCallbacks_def catchLog_steps replaceFailedStream_steps aClose_steps steps_ret)
  show "mux_steps (hError (streamCallbacks ap) h code msg)" for h code msg
    by (cases h) (simp_all add: streamCallbacks_def catchLog_steps replaceFailedStream_steps aError_steps steps_ret)
  show "mux_steps (hData (streamCallbacks ap) h data)" for h data
    by (cases h) (auto simp: streamCallbacks_def aData_steps intro!: steps_ret steps_andThen steps_reads_any
        setFailureDetectionTimeout_steps steps_callIf aData_steps)
qed

context app_client
begin

lemma replaceDone_steps: "mux_steps (replaceDone r k :: (('p, 'a) rworld_scheme, unit) js)"
  by (cases k) (simp_all add: replaceDone_def ext_steps steps_ret)

lemma replaceFailedSocket_steps: "mux_steps (replaceFailedSocket ap r k)"
  unfolding replaceFailedSocket_def
  by (intro steps_reads_any)
    (auto split: option.splits intro!: steps_ret steps_andThen setCallbacks_steps ext_steps replaceDone_steps
      stream.errorSocket_steps setTimeout_steps)

end

sublocale app_client \<subseteq> socket: socket_client "streamCallbacks ap" "socketCallbacks ap"
proof unfold_locales
  show "mux_steps (kStream (socketCallbacks ap) h a)" for h a
    by (cases h) (auto simp: socketCallbacks_def intro!: steps_ret steps_reads_any steps_callIf aStream_steps)
  show "mux_steps (kClose (socketCallbacks ap) h)" for h
    by (cases h) (simp_all add: socketCallbacks_def catchLog_steps replaceFailedSocket_steps steps_ret)
  show "mux_steps (kError (socketCallbacks ap) h code msg)" for h code msg
    by (cases h) (simp_all add: socketCallbacks_def catchLog_steps replaceFailedSocket_steps steps_ret ext_steps)
qed

lemma attachSocket_steps: "mux_steps (attachSocket r s)"
  unfolding attachSocket_def
  by (intro steps_andThen preorder_evolves setCallbacks_steps ext_steps steps_reads_any steps_forEach settle_steps)

lemma getSocket_steps: "mux_steps (getSocket r)"
  unfolding getSocket_def
  by (intro steps_reads_any)
    (auto split: option.splits intro!: steps_throw steps_andThen newPromise_steps settle_steps ext_steps steps_ret)

lemma newResilient_steps: "mux_steps (newResilientSocket s)" "mux_steps (newResilientStream r a)"
  unfolding newResilientSocket_def newResilientStream_def Let_def
  by (intro steps_reads_any steps_andThen preorder_evolves attachSocket_steps rs_steps steps_ret
      steps_modifies neutral_step; simp)+

lemma case_result_steps:
  fixes m :: "(('p, 'a) rworld_scheme, 'b) js" and f :: "js_error \<Rightarrow> (('p, 'a) rworld_scheme, 'c) js"
  assumes "mux_steps m" "\<And>e. mux_steps (f e)" "\<And>x. mux_steps (g x)"
  shows "mux_steps (\<lambda>w. case m w of (Inl e, w') \<Rightarrow> f e w' | (Inr x, w') \<Rightarrow> g x w')"
proof (rule stepsI)
  fix w :: "('p, 'a) rworld_scheme" assume i: "mux_inv w"
  obtain r w' where mw: "m w = (r, w')" by (cases "m w")
  with stepsD [OF assms(1) i] have w': "mux_inv w'" "evolves w w'" by simp_all
  show "mux_inv (snd (case m w of (Inl e, w') \<Rightarrow> f e w' | (Inr x, w') \<Rightarrow> g x w'))
      \<and> evolves w (snd (case m w of (Inl e, w') \<Rightarrow> f e w' | (Inr x, w') \<Rightarrow> g x w'))"
    using mw steps_after [OF assms(2) preorder_evolves w'] steps_after [OF assms(3) preorder_evolves w']
    by (cases r) simp_all
qed

lemma steps_by_world: "(\<And>w. mux_steps (k w)) \<Longrightarrow> mux_steps (\<lambda>w. k w w)"
  by (simp add: steps_def)

lemma r_closeWith_steps: "mux_steps (r_closeWith r s)"
  unfolding r_closeWith_def by (intro steps_andThen preorder_evolves ext_steps closeSocket_steps)

lemma then_ret_steps: "mux_steps m \<Longrightarrow> mux_steps (andThen m (\<lambda>_. ret u))"
  by (intro steps_andThen preorder_evolves steps_ret)

lemma r_open_steps: "mux_steps (r_open b r)"
  unfolding r_open_def
  by (intro steps_andThen preorder_evolves newPromise_steps case_result_steps getSocket_steps then_ret_steps
      settle_steps ext_steps)

lemma r_closeSocket_steps: "mux_steps (r_closeSocket r :: (('p, 'a) rworld_scheme, nat) js)"
proof -
  have "mux_steps (case rs_socket (rsockets v r) of
       Some s \<Rightarrow> andThen (settleWith u (r_closeWith r s)) (\<lambda>_. ret u)
     | None \<Rightarrow> (\<lambda>w. case getSocket r w of
           (Inl e, w') \<Rightarrow> andThen (settle u (Rejected e)) (\<lambda>_. ret u) w'
         | (Inr p, w') \<Rightarrow> andThen (addJob (JCloseSocket r p u)) (\<lambda>_. ret u) w'))"
    for u and v :: "('p, 'a) rworld_scheme"
    by (auto split: option.splits intro!: then_ret_steps settleWith_steps r_closeWith_steps
        case_result_steps getSocket_steps settle_steps ext_steps)
  from steps_by_world [OF this] show ?thesis
    unfolding r_closeSocket_def
    by (intro steps_andThen preorder_evolves newPromise_steps) (simp add: option.case_distrib [of "\<lambda>f. f _"] cong: option.case_cong)
qed

lemma isSocketResponsive_steps: "mux_steps (isSocketResponsive r)"
  unfolding isSocketResponsive_def
  by (intro steps_reads_any)
    (auto split: option.splits intro!: steps_andThen newPromise_steps settle_steps steps_ret pingSocket_steps)

context app_client
begin

lemma r_errorWith_steps: "mux_steps (r_errorWith ap r s code msg)"
  unfolding r_errorWith_def by (intro steps_andThen preorder_evolves ext_steps stream.errorSocket_steps)

lemma resume_steps: "mux_steps (resume ap b j)"
proof (cases j)
  case (JShould r x)
  show ?thesis
    unfolding resume_def JShould rjob.case
    by (intro steps_andThen preorder_evolves case_result_steps getSocket_steps ext_steps emit_steps)
      (auto intro: catchLog_steps replaceFailedSocket_steps steps_ret)
qed (auto simp: resume_def split: promise.splits pvalue.splits
    intro!: steps_reads_any steps_andThen steps_ret openStream_steps ext_steps catchLog_steps rs_steps steps_callIf
      aReconnect_steps replaceFailedSocket_steps r_replaceFailedStream_steps attachSocket_steps replaceDone_steps
      setTimeout_steps newResilient_steps settle_steps settleWith_steps r_closeWith_steps r_errorWith_steps)

lemma runJob_steps: "mux_steps (runJob ap b j)"
  unfolding runJob_def by (intro steps_andThen preorder_evolves ext_steps resume_steps)

lemma runResilientTask_step:
  assumes "mux_inv w" "(i, t) \<in> set (timers w)"
  shows "step_at (runResilientTask ap i t) w"
proof (cases "(\<exists>x. t = FailureTask x) \<or> (\<exists>r k. t = BackoffTask r k)")
  case True
  then have "mux_steps (runResilientTask ap i t)"
    by (auto simp: runResilientTask_def intro!: steps_andThen clearTimeout_steps catchLog_steps
        replaceFailedStream_steps connect_steps ext_steps)
  then show ?thesis using assms(1) by (rule stepsD')
next
  case False
  then have "runResilientTask ap i t = fireTimer i t"
    by (cases t) (auto simp: runResilientTask_def)
  then show ?thesis using fireTimer_step [OF assms] by simp
qed

end

end
