(* ===== verification/JS_Json.thy ===== *)
theory JS_Json
  imports JS_Text
begin

text \<open>
  JSON values as JavaScript holds them, \<open>JSON.stringify\<close> and \<open>Object.fromEntries\<close>. An object is
  the list of its own enumerable properties in property order. The type of numbers is left
  open: the text JavaScript prints for a number is an argument of \<open>JSON_stringify\<close>.
\<close>

section \<open>Values\<close>

datatype 'n json =
    JNull
  | JBool bool
  | JNum 'n
  | JStr jsstring
  | JArr "'n json list"
  | JObj "(jsstring \<times> 'n json) list"

section \<open>Quoting\<close>

definition hex_digit :: "nat \<Rightarrow> code_unit" where
  "hex_digit n = js ''0123456789abcdef'' ! (n mod 16)"

definition u_escape :: "code_unit \<Rightarrow> jsstring" where
  "u_escape c = [0x5C, 0x75, hex_digit (unat c div 4096), hex_digit (unat c div 256),
     hex_digit (unat c div 16), hex_digit (unat c)]"

definition quote_unit :: "code_unit \<Rightarrow> jsstring" where
  "quote_unit c =
     (if c = 0x08 then [0x5C, 0x62] else if c = 0x09 then [0x5C, 0x74]
      else if c = 0x0A then [0x5C, 0x6E] else if c = 0x0C then [0x5C, 0x66]
      else if c = 0x0D then [0x5C, 0x72] else if c = 0x22 then [0x5C, 0x22]
      else if c = 0x5C then [0x5C, 0x5C] else if unat c < 0x20 then u_escape c else [c])"

fun quote_units :: "jsstring \<Rightarrow> jsstring" where
  "quote_units [] = []"
| "quote_units [c] = (if is_high c \<or> is_low c then u_escape c else quote_unit c)"
| "quote_units (c # d # s) =
     (if is_high c \<and> is_low d then c # d # quote_units s
      else if is_high c \<or> is_low c then u_escape c @ quote_units (d # s)
      else quote_unit c @ quote_units (d # s))"

definition quote :: "jsstring \<Rightarrow> jsstring" where
  "quote s = [0x22] @ quote_units s @ [0x22]"

section \<open>Stringify\<close>

text \<open>\<open>Array.prototype.join\<close>\<close>

fun join :: "jsstring \<Rightarrow> jsstring list \<Rightarrow> jsstring" where
  "join sep [] = []"
| "join sep [x] = x"
| "join sep (x # y # xs) = x @ sep @ join sep (y # xs)"

fun JSON_stringify :: "('n \<Rightarrow> jsstring) \<Rightarrow> 'n json \<Rightarrow> jsstring" where
  "JSON_stringify num JNull = js ''null''"
| "JSON_stringify num (JBool b) = (if b then js ''true'' else js ''false'')"
| "JSON_stringify num (JNum n) = num n"
| "JSON_stringify num (JStr s) = quote s"
| "JSON_stringify num (JArr vs) = [0x5B] @ join [0x2C] (map (JSON_stringify num) vs) @ [0x5D]"
| "JSON_stringify num (JObj kvs) =
     [0x7B] @ join [0x2C] (map (\<lambda>(k, v). quote k @ [0x3A] @ JSON_stringify num v) kvs) @ [0x7D]"

lemma JSON_stringify_obj_length: "2 \<le> length (JSON_stringify num (JObj kvs))"
  by simp

section \<open>Properties in JavaScript's order\<close>

text \<open>
  Integer-like keys come first, in ascending order, the other keys in the order of their first
  insertion; a repeated key keeps its last value.
\<close>

definition is_digit :: "code_unit \<Rightarrow> bool" where
  "is_digit c \<longleftrightarrow> 0x30 \<le> unat c \<and> unat c \<le> 0x39"

definition dec_value :: "jsstring \<Rightarrow> nat" where
  "dec_value s = foldl (\<lambda>n c. n * 10 + (unat c - 0x30)) 0 s"

definition is_index :: "jsstring \<Rightarrow> bool" where
  "is_index s \<longleftrightarrow> s \<noteq> [] \<and> list_all is_digit s \<and> (length s = 1 \<or> unat (hd s) \<noteq> 0x30)
     \<and> dec_value s < 4294967295"

definition own_order :: "(jsstring \<times> 'v) list \<Rightarrow> (jsstring \<times> 'v) list" where
  "own_order kvs = sort_key (dec_value \<circ> fst) (filter (is_index \<circ> fst) kvs)
     @ filter (\<lambda>e. \<not> is_index (fst e)) kvs"

definition fromEntries :: "(jsstring \<times> 'v) list \<Rightarrow> (jsstring \<times> 'v) list" where
  "fromEntries kvs = own_order (foldl (\<lambda>m (k, v). amap_set k v m) [] kvs)"

lemma map_of_own_order:
  assumes "distinct (map fst kvs)"
  shows "map_of (own_order kvs) = map_of kvs"
proof -
  have s: "set (own_order kvs) = set kvs"
    by (auto simp: own_order_def)
  have "distinct (own_order kvs)"
    using assms by (auto simp: own_order_def distinct_map)
  with assms s have "distinct (map fst (own_order kvs))"
    by (simp add: distinct_map)
  with s show ?thesis
    using assms by (metis map_of_inject_set)
qed

lemma foldl_amap_set:
  "distinct (map fst m) \<Longrightarrow> distinct (map fst (foldl (\<lambda>m (k, v). amap_set k v m) m kvs))
     \<and> map_of (foldl (\<lambda>m (k, v). amap_set k v m) m kvs) = map_of (rev kvs @ m)"
proof (induction kvs arbitrary: m)
  case (Cons kv kvs)
  obtain k v where kv: "kv = (k, v)" by (cases kv)
  from Cons.prems have "distinct (map fst (amap_set k v m))" by simp
  from Cons.IH [OF this] show ?case by (simp add: kv map_add_def fun_eq_iff)
qed simp

text \<open>Reading a property of the object gives the last entry of that key.\<close>

lemma map_of_fromEntries: "map_of (fromEntries kvs) = map_of (rev kvs)"
  using foldl_amap_set [of "[]" kvs] by (simp add: fromEntries_def map_of_own_order)

end
