(* ===== verification/Proto_Codec.thy ===== *)
theory Proto_Codec
  imports JS_Buffer JS_Json
begin

text \<open>
  The orchestration protocol of \<open>sql/ts/src/skdb_orchestration.ts\<close>: the messages a client and
  the server exchange inside one stream, \<open>encodeProtoMsg\<close> and the incremental
  \<open>ProtoMsgDecoder\<close>. The lemmas give the byte layout of every request, show that the buffer each
  branch allocates is large enough for its text, and that the decoder reassembles a message
  from any split of its payload into chunks.
\<close>

unbundle bit_operations_syntax

section \<open>Messages\<close>

text \<open>Query parameters are a \<open>Map\<close> or a plain object.\<close>

datatype 'n Params = ParamMap "(jsstring \<times> 'n json) list" | ParamObj "(jsstring \<times> 'n json) list"

record 'n ProtoRequestTail =
  table :: jsstring
  expectedColumns :: jsstring
  since :: int
  filterExpr :: jsstring
  params :: "'n Params"

datatype 'n ProtoMsg =
    ProtoQuery (query: jsstring) (format: jsstring)
  | ProtoQuerySchema (schema_name: "jsstring option") (scope: jsstring) (suffix: "jsstring option")
  | ProtoTail "'n ProtoRequestTail"
  | ProtoRequestTailBatch "'n ProtoRequestTail list"
  | ProtoPushPromise (schemas: "(jsstring \<times> jsstring) list")
  | ProtoRequestCreateDb (db_name: jsstring)
  | ProtoRequestCreateUser
  | ProtoResponseCreds (resp_accessKey: jsstring) (resp_privateKey: bytes)
  | ProtoData (payload: bytes)

section \<open>Encoding\<close>

definition formatLookup :: "(jsstring \<times> nat) list" where
  "formatLookup = [(js ''json'', 0x0), (js ''raw'', 0x1), (js ''csv'', 0x2)]"

definition scopeLookup :: "(jsstring \<times> nat) list" where
  "scopeLookup =
     [(js ''all'', 0x0), (js ''table'', 0x1), (js ''view'', 0x2), (js ''legacy_schema'', 0x3)]"

definition encodeQuery :: "jsstring \<Rightarrow> jsstring \<Rightarrow> js_error + bytes" where
  "encodeQuery q fmt =
     (let buf = newBuffer (6 + length q * 4);
          (buf, written) = encodeInto q 6 buf
      in bindE (setUint8 0 0x1 buf) (\<lambda>buf.
         case map_of formatLookup fmt of
           None \<Rightarrow> Inl (JSError (js ''Cannot serialize format '' @ fmt))
         | Some f \<Rightarrow>
             bindE (setUint8 1 f buf) (\<lambda>buf.
             bindE (setUint32 2 written buf) (\<lambda>buf.
             Inr (slice 0 (6 + written) buf)))))"

definition encodeSchema :: "jsstring option \<Rightarrow> jsstring \<Rightarrow> jsstring option \<Rightarrow> js_error + bytes" where
  "encodeSchema nm scp sfx =
     (let name = (case nm of None \<Rightarrow> [] | Some s \<Rightarrow> s);
          suffix = (case sfx of None \<Rightarrow> [] | Some s \<Rightarrow> s);
          buf = newBuffer (6 + length name * 4 + length suffix * 4);
          (buf, written) = encodeInto name 4 buf;
          suffixIdx = 4 + written
      in bindE (setUint8 0 0x4 buf) (\<lambda>buf.
         case map_of scopeLookup scp of
           None \<Rightarrow> Inl (JSError (js ''Cannot serialize scope '' @ scp))
         | Some sc \<Rightarrow>
             bindE (setUint8 1 sc buf) (\<lambda>buf.
             bindE (setUint16 2 written buf) (\<lambda>buf.
             let (buf, written) = encodeInto suffix (suffixIdx + 2) buf
             in bindE (setUint16 suffixIdx written buf) (\<lambda>buf.
                Inr (slice 0 (suffixIdx + 2 + written) buf))))))"

definition params_object :: "'n Params \<Rightarrow> 'n json" where
  "params_object p = (case p of ParamMap m \<Rightarrow> JObj (fromEntries m) | ParamObj kvs \<Rightarrow> JObj kvs)"

definition encodeTail :: "('n \<Rightarrow> jsstring) \<Rightarrow> 'n ProtoRequestTail \<Rightarrow> js_error + bytes" where
  "encodeTail num t =
     (let serialisedParams = JSON_stringify num (params_object (params t));
          buf = newBuffer (20 + length (table t) * 4 + length (expectedColumns t) * 4
                           + length (filterExpr t) * 4 + length serialisedParams * 4);
          (buf, written) = encodeInto (table t) 14 buf
      in bindE (setUint8 0 0x2 buf) (\<lambda>buf.
         bindE (setBigUint64 4 (nat (since t mod 2 ^ 64)) buf) (\<lambda>buf.
         bindE (setUint16 12 written buf) (\<lambda>buf.
         let expectedColsOffset = 14 + written;
             (buf, written) = encodeInto (expectedColumns t) (expectedColsOffset + 2) buf
         in bindE (setUint16 expectedColsOffset written buf) (\<lambda>buf.
         let filterExprOffset = expectedColsOffset + 2 + written;
             (buf, written) = encodeInto (filterExpr t) (filterExprOffset + 2) buf
         in bindE (setUint16 filterExprOffset written buf) (\<lambda>buf.
         let paramsOffset = filterExprOffset + 2 + written;
             (buf, written) = encodeInto serialisedParams (paramsOffset + 2) buf
         in bindE (setUint16 paramsOffset written buf) (\<lambda>buf.
            Inr (slice 0 (paramsOffset + 2 + written) buf))))))))"

fun mapE :: "('a \<Rightarrow> 'e + 'b) \<Rightarrow> 'a list \<Rightarrow> 'e + 'b list" where
  "mapE f [] = Inr []"
| "mapE f (x # xs) = bindE (f x) (\<lambda>y. bindE (mapE f xs) (\<lambda>ys. Inr (y # ys)))"

fun setAll :: "bytes list \<Rightarrow> nat \<Rightarrow> bytes \<Rightarrow> js_error + bytes" where
  "setAll [] offset buf = Inr buf"
| "setAll (tail # tails) offset buf =
     bindE (setBytes tail offset buf) (\<lambda>buf. setAll tails (offset + length tail) buf)"

definition encodeTailBatch :: "('n \<Rightarrow> jsstring) \<Rightarrow> 'n ProtoRequestTail list \<Rightarrow> js_error + bytes" where
  "encodeTailBatch num requests =
     bindE (mapE (encodeTail num) requests) (\<lambda>buffers.
     let size = foldl (\<lambda>acc b. acc + length b) 0 buffers;
         buf = newBuffer (4 + size)
     in bindE (setUint8 0 0x7 buf) (\<lambda>buf.
        bindE (setUint16 2 (length requests) buf) (\<lambda>buf.
        setAll buffers 4 buf)))"

definition encodePushPromise :: "(jsstring \<times> jsstring) list \<Rightarrow> js_error + bytes" where
  "encodePushPromise scs =
     (let serializedSchemas =
            JSON_stringify (\<lambda>_::unit. []) (JObj (map (\<lambda>(k, v). (k, JStr v)) scs));
          buf = newBuffer (4 + length serializedSchemas * 4);
          (buf, written) = encodeInto serializedSchemas 6 buf
      in bindE (setUint8 0 0x3 buf) (\<lambda>buf.
         bindE (setUint16 4 written buf) (\<lambda>buf.
         Inr (slice 0 (6 + written) buf))))"

definition encodeCreateDatabase :: "jsstring \<Rightarrow> js_error + bytes" where
  "encodeCreateDatabase name =
     (let buf = newBuffer (3 + length name * 4);
          (buf, written) = encodeInto name 3 buf
      in bindE (setUint8 0 0x5 buf) (\<lambda>buf.
         bindE (setUint16 1 written buf) (\<lambda>buf.
         Inr (slice 0 (3 + written) buf))))"

definition encodeCreateUser :: "js_error + bytes" where
  "encodeCreateUser = setUint8 0 0x6 (newBuffer 1)"

definition encodeData :: "bytes \<Rightarrow> js_error + bytes" where
  "encodeData p =
     bindE (setUint8 0 0x0 (newBuffer (2 + length p))) (\<lambda>buf.
     bindE (setUint8 1 0x1 buf) (\<lambda>buf.
     setBytes p 2 buf))"

fun encodeProtoMsg :: "('n \<Rightarrow> jsstring) \<Rightarrow> 'n ProtoMsg \<Rightarrow> js_error + bytes" where
  "encodeProtoMsg num (ProtoQuery q fmt) = encodeQuery q fmt"
| "encodeProtoMsg num (ProtoQuerySchema nm scp sfx) = encodeSchema nm scp sfx"
| "encodeProtoMsg num (ProtoTail t) = encodeTail num t"
| "encodeProtoMsg num (ProtoRequestTailBatch ts) = encodeTailBatch num ts"
| "encodeProtoMsg num (ProtoPushPromise scs) = encodePushPromise scs"
| "encodeProtoMsg num (ProtoRequestCreateDb nm) = encodeCreateDatabase nm"
| "encodeProtoMsg num ProtoRequestCreateUser = encodeCreateUser"
| "encodeProtoMsg num (ProtoResponseCreds k pk) = Inl (err ''Encoding credentials unsupported'')"
| "encodeProtoMsg num (ProtoData p) = encodeData p"

section \<open>Decoding\<close>

record 'n ProtoMsgDecoder =
  bufs :: "bytes list"
  msgs :: "'n ProtoMsg option list"

definition newDecoder :: "'n ProtoMsgDecoder" where
  "newDecoder = \<lparr>bufs = [], msgs = []\<rparr>"

definition popBufs :: "'n ProtoMsgDecoder \<Rightarrow> (js_error + bytes) \<times> 'n ProtoMsgDecoder" where
  "popBufs d =
     (if length (bufs d) = 1 then (Inr (last (bufs d)), d\<lparr>bufs := butlast (bufs d)\<rparr>)
      else (case setAll (bufs d) 0 (newBuffer (foldl (\<lambda>n b. n + length b) 0 (bufs d))) of
              Inl e \<Rightarrow> (Inl e, d)
            | Inr acc \<Rightarrow> (Inr acc, d\<lparr>bufs := []\<rparr>)))"

definition zeroIndex :: "bytes \<Rightarrow> nat option" where
  "zeroIndex bs = (if list_ex (\<lambda>x. x = 0) bs then Some (length (takeWhile (\<lambda>x. x \<noteq> 0) bs)) else None)"

definition push :: "bytes \<Rightarrow> 'n ProtoMsgDecoder \<Rightarrow> (js_error + bool) \<times> 'n ProtoMsgDecoder" where
  "push m d =
     (case getUint8 0 m of
        Inl e \<Rightarrow> (Inl e, d)
      | Inr type \<Rightarrow>
          if type = 0x80 then
            (case view 1 27 m of
               Inl e \<Rightarrow> (Inl e, d)
             | Inr fixed \<Rightarrow>
                 let keyBytes = take (case zeroIndex fixed of None \<Rightarrow> 27 | Some i \<Rightarrow> i) fixed
                 in (case view 28 32 m of
                       Inl e \<Rightarrow> (Inl e, d)
                     | Inr pk \<Rightarrow>
                         (Inr True,
                          d\<lparr>msgs := msgs d @ [Some (ProtoResponseCreds (utf8_decode keyBytes) pk)]\<rparr>)))
          else if type = 0x0 then
            (case getUint8 1 m of
               Inl e \<Rightarrow> (Inl e, d)
             | Inr flags \<Rightarrow>
                 (case view_from 2 m of
                    Inl e \<Rightarrow> (Inl e, d)
                  | Inr chunk \<Rightarrow>
                      let d = d\<lparr>bufs := bufs d @ [chunk]\<rparr>
                      in if flags AND 0x01 = 1 then
                           (case popBufs d of
                              (Inl e, d) \<Rightarrow> (Inl e, d)
                            | (Inr p, d) \<Rightarrow>
                                (Inr True, d\<lparr>msgs := msgs d @ [Some (ProtoData p)]\<rparr>))
                         else (Inr False, d)))
          else (Inr True, d\<lparr>msgs := msgs d @ [None]\<rparr>))"

definition pop :: "'n ProtoMsgDecoder \<Rightarrow> (js_error + 'n ProtoMsg option) \<times> 'n ProtoMsgDecoder" where
  "pop d = (if msgs d = [] then (Inl (err ''Popping an empty stack.''), d)
            else (Inr (last (msgs d)), d\<lparr>msgs := butlast (msgs d)\<rparr>))"

definition tryPop :: "'n ProtoMsgDecoder \<Rightarrow> 'n ProtoMsg option \<times> 'n ProtoMsgDecoder" where
  "tryPop d = (if msgs d = [] then (None, d)
               else (last (msgs d), d\<lparr>msgs := butlast (msgs d)\<rparr>))"

section \<open>Layouts\<close>

text \<open>A text field with its length in two bytes before it.\<close>

definition field16 :: "jsstring \<Rightarrow> bytes" where
  "field16 s = be 2 (length (utf8_encode s)) @ utf8_encode s"

lemma length_field16: "length (field16 s) = 2 + length (utf8_encode s)"
  by (simp add: field16_def)

lemma newBuffer_text:
  "newBuffer (length s * 4 + n)
     = newBuffer (length (utf8_encode s)) @ newBuffer (length s * 4 - length (utf8_encode s) + n)"
  using utf8_encode_length [of s] by (simp add: newBuffer_add [symmetric])

lemma encodeQuery_layout:
  assumes "map_of formatLookup fmt = Some f"
  shows "encodeQuery q fmt = Inr (be 1 1 @ be 1 f @ be 4 (length (utf8_encode q)) @ utf8_encode q)"
proof -
  have "newBuffer (6 + length q * 4)
      = newBuffer 1 @ newBuffer 1 @ newBuffer 4 @ newBuffer (length q * 4)"
    by (simp add: newBuffer_add [symmetric])
  then show ?thesis
    using assms by (simp add: encodeQuery_def Let_def buf_simps)
qed

lemma encodeSchema_layout:
  assumes "map_of scopeLookup scp = Some f"
  shows "encodeSchema nm scp sfx
    = Inr (be 1 4 @ be 1 f @ field16 (case nm of None \<Rightarrow> [] | Some s \<Rightarrow> s)
           @ field16 (case sfx of None \<Rightarrow> [] | Some s \<Rightarrow> s))"
proof -
  define n where "n = (case nm of None \<Rightarrow> [] | Some s \<Rightarrow> s)"
  define x where "x = (case sfx of None \<Rightarrow> [] | Some s \<Rightarrow> s)"
  have "newBuffer (6 + length n * 4 + length x * 4)
      = newBuffer 1 @ newBuffer 1 @ newBuffer 2 @ newBuffer (length (utf8_encode n)) @ newBuffer 2
        @ newBuffer (length (utf8_encode x))
        @ newBuffer (length n * 4 + length x * 4 - length (utf8_encode n) - length (utf8_encode x))"
    using utf8_encode_length [of n] utf8_encode_length [of x]
    unfolding newBuffer_add [symmetric] by (intro arg_cong [where f = newBuffer]) simp
  then show ?thesis
    using assms
    by (simp add: encodeSchema_def Let_def buf_simps n_def [symmetric] x_def [symmetric] field16_def)
qed

lemma encodeTail_layout:
  "encodeTail num t
    = Inr (be 1 2 @ newBuffer 3 @ be 8 (nat (since t mod 2 ^ 64)) @ field16 (table t)
           @ field16 (expectedColumns t) @ field16 (filterExpr t)
           @ field16 (JSON_stringify num (params_object (params t))))"
proof -
  define p where "p = JSON_stringify num (params_object (params t))"
  let ?u = "\<lambda>s. length (utf8_encode s)"
  let ?a = "table t" and ?b = "expectedColumns t" and ?c = "filterExpr t"
  have "newBuffer (20 + length ?a * 4 + length ?b * 4 + length ?c * 4 + length p * 4)
      = newBuffer 1 @ newBuffer 3 @ newBuffer 8 @ newBuffer 2 @ newBuffer (?u ?a) @ newBuffer 2
        @ newBuffer (?u ?b) @ newBuffer 2 @ newBuffer (?u ?c) @ newBuffer 2 @ newBuffer (?u p)
        @ newBuffer (length ?a * 4 + length ?b * 4 + length ?c * 4 + length p * 4
                     - ?u ?a - ?u ?b - ?u ?c - ?u p)"
    using utf8_encode_length [of ?a] utf8_encode_length [of ?b] utf8_encode_length [of ?c]
      utf8_encode_length [of p]
    unfolding newBuffer_add [symmetric] by (intro arg_cong [where f = newBuffer]) simp
  then show ?thesis
    by (simp add: encodeTail_def Let_def buf_simps p_def [symmetric] field16_def)
qed

lemma encodePushPromise_layout:
  "encodePushPromise scs
    = Inr (be 1 3 @ newBuffer 3
           @ field16 (JSON_stringify (\<lambda>_::unit. []) (JObj (map (\<lambda>(k, v). (k, JStr v)) scs))))"
proof -
  define p where "p = JSON_stringify (\<lambda>_::unit. []) (JObj (map (\<lambda>(k, v). (k, JStr v)) scs))"
  have "2 \<le> length p" unfolding p_def by (rule JSON_stringify_obj_length)
  then have "newBuffer (4 + length p * 4)
      = newBuffer 1 @ newBuffer 3 @ newBuffer 2 @ newBuffer (length (utf8_encode p))
        @ newBuffer (length p * 4 - 2 - length (utf8_encode p))"
    using utf8_encode_length [of p]
    unfolding newBuffer_add [symmetric] by (intro arg_cong [where f = newBuffer]) simp
  then show ?thesis
    by (simp add: encodePushPromise_def Let_def buf_simps p_def [symmetric] field16_def
        del: JSON_stringify.simps)
qed

lemma encodeCreateDatabase_layout: "encodeCreateDatabase nm = Inr (be 1 5 @ field16 nm)"
proof -
  have "newBuffer (3 + length nm * 4) = newBuffer 1 @ newBuffer 2 @ newBuffer (length nm * 4)"
    unfolding newBuffer_add [symmetric] by (intro arg_cong [where f = newBuffer]) simp
  then show ?thesis
    by (simp add: encodeCreateDatabase_def Let_def buf_simps field16_def)
qed

lemma encodeCreateUser_layout: "encodeCreateUser = Inr (be 1 6)"
  by (simp add: encodeCreateUser_def buf_simps)

lemma encodeData_layout: "encodeData p = Inr (be 1 0 @ be 1 1 @ p)"
proof -
  have "newBuffer (2 + length p) = newBuffer 1 @ newBuffer 1 @ newBuffer (length p)"
    by (simp add: newBuffer_add [symmetric])
  then show ?thesis by (simp add: encodeData_def buf_simps)
qed

lemma foldl_lengths: "foldl (\<lambda>n b. n + length b) k bs = k + length (concat bs)"
  by (induction bs arbitrary: k) simp_all

lemma setAll_concat:
  "setAll bs (length done) (done @ newBuffer (length (concat bs))) = Inr (done @ concat bs)"
proof (induction bs arbitrary: "done")
  case (Cons b bs)
  have "write_at (length done) b (done @ newBuffer (length (concat (b # bs))))
      = Inr ((done @ b) @ newBuffer (length (concat bs)))"
    by (simp add: newBuffer_add buf_simps)
  with Cons.IH [of "done @ b"] show ?case by simp
qed simp

lemma mapE_Inr: "(\<And>x. x \<in> set xs \<Longrightarrow> f x = Inr (g x)) \<Longrightarrow> mapE f xs = Inr (map g xs)"
  by (induction xs) simp_all

definition tail_bytes :: "('n \<Rightarrow> jsstring) \<Rightarrow> 'n ProtoRequestTail \<Rightarrow> bytes" where
  "tail_bytes num t = be 1 2 @ newBuffer 3 @ be 8 (nat (since t mod 2 ^ 64)) @ field16 (table t)
     @ field16 (expectedColumns t) @ field16 (filterExpr t)
     @ field16 (JSON_stringify num (params_object (params t)))"

lemma encodeTail_bytes: "encodeTail num t = Inr (tail_bytes num t)"
  by (simp add: encodeTail_layout tail_bytes_def)

lemma encodeTailBatch_layout:
  "encodeTailBatch num ts
     = Inr (be 1 7 @ newBuffer 1 @ be 2 (length ts) @ concat (map (tail_bytes num) ts))"
proof -
  let ?bs = "map (tail_bytes num) ts"
  have m: "mapE (encodeTail num) ts = Inr ?bs"
    by (rule mapE_Inr) (rule encodeTail_bytes)
  have z: "newBuffer (4 + length (concat ?bs))
      = newBuffer 1 @ newBuffer 1 @ newBuffer 2 @ newBuffer (length (concat ?bs))"
    unfolding newBuffer_add [symmetric] by (intro arg_cong [where f = newBuffer]) simp
  have four: "Suc (Suc (Suc (Suc 0))) = 4" by simp
  show ?thesis
    using setAll_concat [of ?bs "be 1 7 @ newBuffer 1 @ be 2 (length ts)"]
    by (simp add: encodeTailBatch_def m foldl_lengths z buf_simps Let_def four)
qed

section \<open>Reassembly\<close>

lemma setAll_fresh: "setAll bs 0 (newBuffer (length (concat bs))) = Inr (concat bs)"
  using setAll_concat [of bs "[]"] by simp

text \<open>The shortcut for a single buffer and the copying path both return the concatenation.\<close>

lemma popBufs_concat: "popBufs d = (Inr (concat (bufs d)), d\<lparr>bufs := []\<rparr>)"
proof (cases "bufs d")
  case (Cons b bs)
  then show ?thesis
    using setAll_fresh [of "bufs d"] by (cases bs) (auto simp: popBufs_def foldl_lengths)
next
  case Nil
  then show ?thesis by (simp add: popBufs_def newBuffer_def)
qed

text \<open>The bytes of one data message with the fin flag or without it.\<close>

definition data_chunk :: "byte \<Rightarrow> bytes \<Rightarrow> bytes" where
  "data_chunk flags p = [0, flags] @ p"

lemma getUint8_data: "getUint8 0 (data_chunk fl p) = Inr 0" "getUint8 1 (data_chunk fl p) = Inr (unat fl)"
  by (simp_all add: data_chunk_def getUint_def unbe_def)

lemma view_from_data: "view_from 2 (data_chunk fl p) = Inr p"
  by (simp add: data_chunk_def view_from_def)

lemma push_data:
  "push (data_chunk fl p) d =
     (if odd fl then (Inr True, d\<lparr>bufs := [], msgs := msgs d @ [Some (ProtoData (concat (bufs d) @ p))]\<rparr>)
      else (Inr False, d\<lparr>bufs := bufs d @ [p]\<rparr>))"
proof -
  have "unat fl AND 1 = 1 \<longleftrightarrow> odd (unat fl)"
    by (simp add: and_one_eq mod2_eq_if)
  moreover have "odd (unat fl) \<longleftrightarrow> odd fl"
    by (simp add: bit_0 [symmetric] bit_unsigned_iff del: bit_0)
  ultimately show ?thesis
    using getUint8_data [of fl p] by (simp add: push_def view_from_data popBufs_concat)
qed

fun pushAll :: "bytes list \<Rightarrow> 'n ProtoMsgDecoder \<Rightarrow> (js_error + bool) list \<times> 'n ProtoMsgDecoder" where
  "pushAll [] d = ([], d)"
| "pushAll (m # ms) d = (case push m d of (r, d) \<Rightarrow> case pushAll ms d of (rs, d) \<Rightarrow> (r # rs, d))"

lemma pushAll_append:
  "pushAll (ms @ ns) d =
     (case pushAll ms d of (rs, d) \<Rightarrow> case pushAll ns d of (ss, d) \<Rightarrow> (rs @ ss, d))"
  by (induction ms arbitrary: d) (simp_all split: prod.splits)

lemma pushAll_chunks:
  "\<forall>c \<in> set cs. even (fst c) \<Longrightarrow>
   pushAll (map (\<lambda>(fl, p). data_chunk fl p) cs) d
     = (replicate (length cs) (Inr False), d\<lparr>bufs := bufs d @ map snd cs\<rparr>)"
  by (induction cs arbitrary: d) (auto simp: push_data)

section \<open>Properties\<close>

text \<open>
  A message sent in any number of chunks is reassembled: every chunk without the fin flag
  makes \<open>push\<close> return false, the final one makes it return true, the message on top of the stack
  is the data message with the concatenation of all the chunks, and no chunk is left behind.
\<close>

theorem decoder_reassembles:
  assumes "\<forall>c \<in> set cs. even (fst c)" and "odd fl" and "bufs d = []"
  shows "pushAll (map (\<lambda>(fl, p). data_chunk fl p) cs @ [data_chunk fl p]) d
    = (replicate (length cs) (Inr False) @ [Inr True],
       d\<lparr>msgs := msgs d @ [Some (ProtoData (concat (map snd cs) @ p))]\<rparr>)"
  using assms by (simp add: pushAll_append pushAll_chunks push_data)

text \<open>The witness of the reassembly of a message: two chunks and a final one.\<close>

theorem decoder_reassembles_witness:
  "pushAll [[0, 0, 7], [0, 2, 8, 9], [0, 1, 10]] (newDecoder :: unit ProtoMsgDecoder)
    = ([Inr False, Inr False, Inr True],
       \<lparr>bufs = [], msgs = [Some (ProtoData [7, 8, 9, 10])]\<rparr>)"
  using decoder_reassembles [of "[(0, [7]), (2, [8, 9])]" 1 "newDecoder :: unit ProtoMsgDecoder" "[10]"]
  by (simp add: data_chunk_def newDecoder_def del: pushAll.simps)

text \<open>
  C37: \<open>encodeProtoMsg\<close> followed by \<open>push\<close> and \<open>pop\<close> returns the payload of a data message and
  leaves the decoder as it was, and \<open>tryPop\<close> does the same.
\<close>

theorem proto_data_roundtrip:
  assumes "encodeProtoMsg num (ProtoData p) = Inr m" and "bufs d = []"
  shows "fst (push m d) = Inr True
    \<and> pop (snd (push m d)) = (Inr (Some (ProtoData p)), d)
    \<and> tryPop (snd (push m d)) = (Some (ProtoData p), d)"
proof -
  have "m = data_chunk 1 p"
    using assms(1) by (simp add: encodeData_layout data_chunk_def be.simps)
  then show ?thesis
    using assms(2) by (simp add: push_data pop_def tryPop_def)
qed

theorem proto_data_roundtrip_witness:
  "encodeProtoMsg (\<lambda>_::unit. []) (ProtoData [1, 2]) = Inr [0, 1, 1, 2]
    \<and> pop (snd (push [0, 1, 1, 2] (newDecoder :: unit ProtoMsgDecoder)))
        = (Inr (Some (ProtoData [1, 2])), newDecoder)"
proof -
  have e: "encodeProtoMsg (\<lambda>_::unit. []) (ProtoData [1, 2]) = Inr [0, 1, 1, 2]"
    by (simp add: encodeData_layout be.simps)
  from proto_data_roundtrip [OF e, of "newDecoder :: unit ProtoMsgDecoder"] e show ?thesis
    by (simp add: newDecoder_def)
qed

text \<open>The reader of the other side: fields with a 16-bit length, tail requests, batches of them.\<close>

definition read16 :: "bytes \<Rightarrow> bytes \<times> bytes" where
  "read16 bs = (let n = unbe (take 2 bs) in (take n (drop 2 bs), drop (2 + n) bs))"

lemma read16_field:
  "length (utf8_encode s) < 65536 \<Longrightarrow> read16 (field16 s @ rest) = (utf8_encode s, rest)"
  by (simp add: read16_def field16_def unbe_be Let_def)

definition readTail :: "bytes \<Rightarrow> nat \<times> bytes list \<times> bytes" where
  "readTail bs =
     (let (a, r1) = read16 (drop 12 bs); (b, r2) = read16 r1; (c, r3) = read16 r2; (e, r4) = read16 r3
      in (unbe (take 8 (drop 4 bs)), [a, b, c, e], r4))"

lemma readTail_bytes:
  assumes "\<forall>s \<in> {table t, expectedColumns t, filterExpr t,
      JSON_stringify num (params_object (params t))}. length (utf8_encode s) < 65536"
  shows "readTail (tail_bytes num t @ rest)
    = (nat (since t mod 2 ^ 64), map utf8_encode [table t, expectedColumns t, filterExpr t,
         JSON_stringify num (params_object (params t))], rest)"
proof -
  have "nat (since t mod 2 ^ 64) < 256 ^ 8"
    using pos_mod_bound [of "2 ^ 64" "since t"] by simp
  moreover have "read16 (field16 (JSON_stringify num (params_object (params t))) @ rest)
      = (utf8_encode (JSON_stringify num (params_object (params t))), rest)"
    using assms by (simp add: read16_field)
  ultimately show ?thesis
    using assms
    by (simp add: readTail_def tail_bytes_def read16_field unbe_be)
qed

fun readTails :: "nat \<Rightarrow> bytes \<Rightarrow> (nat \<times> bytes list) list \<times> bytes" where
  "readTails 0 bs = ([], bs)"
| "readTails (Suc n) bs =
     (case readTail bs of (s, fs, r) \<Rightarrow> case readTails n r of (ts, r) \<Rightarrow> ((s, fs) # ts, r))"

definition tail_fields :: "('n \<Rightarrow> jsstring) \<Rightarrow> 'n ProtoRequestTail \<Rightarrow> jsstring list" where
  "tail_fields num t = [table t, expectedColumns t, filterExpr t,
     JSON_stringify num (params_object (params t))]"

definition tail_ok :: "('n \<Rightarrow> jsstring) \<Rightarrow> 'n ProtoRequestTail \<Rightarrow> bool" where
  "tail_ok num t \<longleftrightarrow> list_all (\<lambda>s. length (utf8_encode s) < 65536) (tail_fields num t)"

definition tail_view :: "('n \<Rightarrow> jsstring) \<Rightarrow> 'n ProtoRequestTail \<Rightarrow> nat \<times> bytes list" where
  "tail_view num t = (nat (since t mod 2 ^ 64), map utf8_encode (tail_fields num t))"

lemma readTail_tail:
  "tail_ok num t \<Longrightarrow> readTail (tail_bytes num t @ rest)
     = (fst (tail_view num t), snd (tail_view num t), rest)"
  by (simp add: readTail_bytes tail_ok_def tail_view_def tail_fields_def)

lemma readTails_batch:
  "list_all (tail_ok num) ts \<Longrightarrow>
     readTails (length ts) (concat (map (tail_bytes num) ts) @ rest) = (map (tail_view num) ts, rest)"
  by (induction ts) (simp_all add: readTail_tail)

text \<open>
  A batch of tail requests is the header with the number of requests followed by the
  requests: reading that many requests after the header gives, for each one, the 64-bit
  transaction number and the UTF-8 text of the table, the expected columns, the filter and the
  serialised parameters, with no byte left, provided that each of these texts and the number of
  requests fit their 16-bit fields; no text is cut off by the buffer the encoder allocates.
\<close>

theorem tail_batch_roundtrip:
  assumes "encodeProtoMsg num (ProtoRequestTailBatch ts) = Inr m"
    and "list_all (tail_ok num) ts" and "length ts < 65536"
  shows "take 1 m = [7] \<and> unbe (take 2 (drop 2 m)) = length ts
    \<and> readTails (length ts) (drop 4 m) = (map (tail_view num) ts, [])"
proof -
  have "m = be 1 7 @ newBuffer 1 @ be 2 (length ts) @ concat (map (tail_bytes num) ts)"
    using assms(1) by (simp add: encodeTailBatch_layout)
  then show ?thesis
    using assms(2,3) readTails_batch [of num ts "[]"] by (simp add: unbe_be be_1 [simplified])
qed

definition sample_tail :: "unit ProtoRequestTail" where
  "sample_tail = \<lparr>table = js ''t'', expectedColumns = js ''*'', since = 5, filterExpr = [],
     params = ParamObj []\<rparr>"

theorem tail_batch_roundtrip_witness:
  "\<exists>m. encodeProtoMsg (\<lambda>_. []) (ProtoRequestTailBatch [sample_tail]) = Inr m
    \<and> readTails 1 (drop 4 m) = ([(5, [[0x74], [0x2A], [], [0x7B, 0x7D]])], [])"
proof -
  have u: "utf8_encode (js ''t'') = [0x74]" "utf8_encode (js ''*'') = [0x2A]" "utf8_encode [] = []"
    "utf8_encode (js ''{}'') = [0x7B, 0x7D]"
    by (simp_all add: text_eval)
  have ok: "list_all (tail_ok (\<lambda>_. [])) [sample_tail]"
    and v: "tail_view (\<lambda>_. []) sample_tail = (5, [[0x74], [0x2A], [], [0x7B, 0x7D]])"
    using u by (simp_all add: tail_ok_def tail_view_def tail_fields_def sample_tail_def params_object_def)
  obtain m where "encodeProtoMsg (\<lambda>_. []) (ProtoRequestTailBatch [sample_tail]) = Inr m"
    by (simp add: encodeTailBatch_layout)
  with tail_batch_roundtrip [OF this ok] v show ?thesis by auto
qed

lemma formatLookup_None:
  "map_of formatLookup fmt = None \<longleftrightarrow> fmt \<notin> {js ''json'', js ''raw'', js ''csv''}"
  by (auto simp: formatLookup_def)

lemma scopeLookup_None:
  "map_of scopeLookup scp = None \<longleftrightarrow>
     scp \<notin> {js ''all'', js ''table'', js ''view'', js ''legacy_schema''}"
  by (auto simp: scopeLookup_def)

lemma setUint8_first: "\<exists>buf'. setUint8 0 v (fst (encodeInto s k (newBuffer (Suc n)))) = Inr buf'"
  using write_at_Inr_iff [of 0 "be 1 v" "fst (encodeInto s k (newBuffer (Suc n)))"]
  by (simp add: encodeInto_length)

lemma encodeQuery_unknown:
  "map_of formatLookup fmt = None \<Longrightarrow>
     encodeQuery q fmt = Inl (JSError (js ''Cannot serialize format '' @ fmt))"
  using setUint8_first [of 1 q 6 "5 + length q * 4"]
  by (auto simp: encodeQuery_def Let_def split: prod.splits)

lemma encodeSchema_unknown:
  "map_of scopeLookup scp = None \<Longrightarrow>
     encodeSchema nm scp sfx = Inl (JSError (js ''Cannot serialize scope '' @ scp))"
  using setUint8_first [of 4 "case nm of None \<Rightarrow> [] | Some s \<Rightarrow> s" 4
      "5 + length (case nm of None \<Rightarrow> [] | Some s \<Rightarrow> s) * 4 + length (case sfx of None \<Rightarrow> [] | Some s \<Rightarrow> s) * 4"]
  by (auto simp: encodeSchema_def Let_def add.assoc split: prod.splits)

text \<open>
  C38: the only requests that cannot be serialised are a query with an unknown format, a schema
  query with an unknown scope, and credentials; every other message is encoded without an
  exception, however long its texts are.
\<close>

theorem encodeProtoMsg_fails:
  "(\<exists>e. encodeProtoMsg num msg = Inl e) \<longleftrightarrow>
     (case msg of ProtoQuery q fmt \<Rightarrow> fmt \<notin> {js ''json'', js ''raw'', js ''csv''}
      | ProtoQuerySchema nm scp sfx \<Rightarrow>
          scp \<notin> {js ''all'', js ''table'', js ''view'', js ''legacy_schema''}
      | ProtoResponseCreds k pk \<Rightarrow> True | _ \<Rightarrow> False)"
proof (cases msg)
  case (ProtoQuery q fmt)
  then show ?thesis
    using encodeQuery_layout [of fmt _ q] encodeQuery_unknown [of fmt q] formatLookup_None [of fmt]
    by (cases "map_of formatLookup fmt") auto
next
  case (ProtoQuerySchema nm scp sfx)
  then show ?thesis
    using encodeSchema_layout [of scp _ nm sfx] encodeSchema_unknown [of scp nm sfx]
      scopeLookup_None [of scp]
    by (cases "map_of scopeLookup scp") auto
qed (simp_all add: encodeTail_layout encodeTailBatch_layout encodePushPromise_layout
    encodeCreateDatabase_layout encodeCreateUser_layout encodeData_layout)

text \<open>
  A credentials response is decoded to the access key before its zero terminator (or all 27
  bytes when there is none) and the 32 bytes of the private key.
\<close>

theorem push_credentials:
  assumes "length key \<le> 27" "0 \<notin> set key" "length pk = 32"
  shows "push ([0x80] @ key @ newBuffer (27 - length key) @ pk @ rest) d
    = (Inr True, d\<lparr>msgs := msgs d @ [Some (ProtoResponseCreds (utf8_decode key) pk)]\<rparr>)"
proof -
  let ?fixed = "key @ newBuffer (27 - length key)"
  have f: "zeroIndex ?fixed = (if length key = 27 then None else Some (length key))"
    using assms by (auto simp: zeroIndex_def newBuffer_def list_ex_iff takeWhile_append)
  have "view 1 27 ([0x80] @ ?fixed @ pk @ rest) = Inr ?fixed"
    "view 28 32 ([0x80] @ ?fixed @ pk @ rest) = Inr pk"
    "getUint8 0 ([0x80] @ ?fixed @ pk @ rest) = Inr 0x80"
    using assms by (simp_all add: view_def getUint_def unbe_def)
  then show ?thesis
    using assms f by (simp add: push_def Let_def)
qed

theorem push_credentials_witness:
  "push ([0x80, 0x6B, 0x65, 0x79] @ replicate 24 0 @ replicate 32 9) (newDecoder :: unit ProtoMsgDecoder)
    = (Inr True, \<lparr>bufs = [], msgs = [Some (ProtoResponseCreds (js ''key'') (replicate 32 9))]\<rparr>)"
proof -
  have "utf8_decode [0x6B, 0x65, 0x79] = js ''key''" by (simp add: text_eval)
  with push_credentials [of "[0x6B, 0x65, 0x79]" "replicate 32 9" "[]" "newDecoder :: unit ProtoMsgDecoder"]
  show ?thesis by (simp add: newDecoder_def newBuffer_def)
qed

end
