(* ===== verification/JS_Strings.thy ===== *)
theory JS_Strings
  imports JS_Json
begin

text \<open>
  The operations of JavaScript strings that the sources use beyond concatenation: splitting at a
  separator, trimming, prefixes, and the decimal text of integers read back by \<open>parseInt\<close>.
\<close>

section \<open>Strings\<close>

text \<open>\<open>s.split(sep)\<close> for a separator of one code unit\<close>

fun split1 :: "code_unit \<Rightarrow> jsstring \<Rightarrow> jsstring list" where
  "split1 sep [] = [[]]"
| "split1 sep (c # s) = (if c = sep then [] # split1 sep s
     else case split1 sep s of [] \<Rightarrow> [[c]] | l # ls \<Rightarrow> (c # l) # ls)"

definition is_space :: "code_unit \<Rightarrow> bool" where
  "is_space c = (let n = unat c in
     (9 \<le> n \<and> n \<le> 13) \<or> n = 32 \<or> n = 0xA0 \<or> n = 0x1680 \<or> (0x2000 \<le> n \<and> n \<le> 0x200A)
     \<or> n = 0x2028 \<or> n = 0x2029 \<or> n = 0x202F \<or> n = 0x205F \<or> n = 0x3000 \<or> n = 0xFEFF)"

definition trim :: "jsstring \<Rightarrow> jsstring" where
  "trim s = rev (dropWhile is_space (rev (dropWhile is_space s)))"

abbreviation newline :: code_unit where "newline \<equiv> 10"
abbreviation blank :: code_unit where "blank \<equiv> 32"
abbreviation caret :: code_unit where "caret \<equiv> 0x5E"
abbreviation colon :: code_unit where "colon \<equiv> 0x3A"

definition startsWith1 :: "code_unit \<Rightarrow> jsstring \<Rightarrow> bool" where
  "startsWith1 c s = (case s of [] \<Rightarrow> False | d # _ \<Rightarrow> d = c)"

definition lines_of :: "jsstring \<Rightarrow> jsstring list" where
  "lines_of s = split1 newline s"

lemma split1_not_Nil [simp]: "split1 sep s \<noteq> []"
  by (induction sep s rule: split1.induct) (auto split: list.splits)

lemma join_split1: "join [sep] (split1 sep s) = s"
proof (induction sep s rule: split1.induct)
  case (2 sep c s)
  obtain l ls where l: "split1 sep s = l # ls" by (cases "split1 sep s") auto
  with 2 show ?case by (cases ls) auto
qed simp

lemma split1_no_sep: "l \<in> set (split1 sep s) \<Longrightarrow> sep \<notin> set l"
  by (induction sep s arbitrary: l rule: split1.induct) (auto split: list.splits if_splits)

section \<open>Numbers as text\<close>

definition int_text :: "int \<Rightarrow> jsstring" where
  "int_text i = (if i < 0 then [0x2D] @ nat_text (nat (- i)) else nat_text (nat i))"

text \<open>\<open>n.toString(16)\<close>\<close>

fun hex_text :: "nat \<Rightarrow> jsstring" where
  "hex_text n = (if n < 16 then [hex_digit n] else hex_text (n div 16) @ [hex_digit n])"

declare hex_text.simps [simp del]

definition is_hex :: "code_unit \<Rightarrow> bool" where
  "is_hex c \<longleftrightarrow> is_digit c \<or> 0x41 \<le> unat c \<and> unat c \<le> 0x46 \<or> 0x61 \<le> unat c \<and> unat c \<le> 0x66"

definition hex_val :: "code_unit \<Rightarrow> nat" where
  "hex_val c = (if is_digit c then unat c - 0x30 else if unat c \<le> 0x46 then unat c - 0x37 else unat c - 0x57)"

text \<open>\<open>parseInt(s)\<close>: leading white space, a sign, then hexadecimal after \<open>0x\<close> and decimal otherwise, up to
  the first character that is no digit; \<open>None\<close> is \<open>NaN\<close>.\<close>

definition parse_digits :: "jsstring \<Rightarrow> nat option" where
  "parse_digits s =
     (case s of
        z # x # r \<Rightarrow>
          if z = 0x30 \<and> (x = 0x78 \<or> x = 0x58)
          then (let d = takeWhile is_hex r in if d = [] then None else Some (foldl (\<lambda>n c. n * 16 + hex_val c) 0 d))
          else (let d = takeWhile is_digit s in if d = [] then None else Some (dec_value d))
      | _ \<Rightarrow> (let d = takeWhile is_digit s in if d = [] then None else Some (dec_value d)))"

definition parseInt :: "jsstring \<Rightarrow> int option" where
  "parseInt s =
     (case dropWhile is_space s of
        [] \<Rightarrow> None
      | c # r \<Rightarrow> if c = 0x2D then map_option (\<lambda>n. - int n) (parse_digits r)
                 else if c = 0x2B then map_option int (parse_digits r)
                 else map_option int (parse_digits (c # r)))"

lemma unat_digit: "n < 10 \<Longrightarrow> unat (of_nat (0x30 + n) :: code_unit) = 0x30 + n"
  by (simp add: unat_of_nat take_bit_nat_eq_self del: of_nat_add)

lemma is_digit_of_nat: "n < 10 \<Longrightarrow> is_digit (of_nat (0x30 + n))"
  unfolding is_digit_def by (subst unat_digit | simp)+

lemma nat_text_digits: "list_all is_digit (nat_text n)"
proof (induction n rule: nat_text.induct)
  case (1 n)
  then show ?case
    using is_digit_of_nat [of n] is_digit_of_nat [of "n mod 10"] by (simp add: nat_text.simps [of n])
qed

lemma dec_value_snoc: "dec_value (s @ [c]) = dec_value s * 10 + (unat c - 0x30)"
  by (simp add: dec_value_def)

lemma dec_value_nat_text [simp]: "dec_value (nat_text n) = n"
proof (induction n rule: nat_text.induct)
  case (1 n)
  show ?case
  proof (cases "n < 10")
    case True
    with unat_digit [of n] show ?thesis by (simp add: nat_text.simps [of n] dec_value_def)
  next
    case False
    with 1 unat_digit [of "n mod 10"] show ?thesis by (simp add: nat_text.simps [of n] dec_value_snoc)
  qed
qed

lemma hd_nat_text: "is_digit (hd (nat_text n))"
  using nat_text_digits [of n] by (cases "nat_text n") auto

lemma nat_text_no_hex: "\<not> (\<exists>x r. nat_text n = 0x30 # x # r)"
proof (induction n rule: nat_text.induct)
  case (1 n)
  show ?case
  proof (cases "n < 10")
    case True
    then show ?thesis by (simp add: nat_text.simps [of n])
  next
    case False
    have "nat_text (n div 10) \<noteq> [0x30]"
    proof
      assume a: "nat_text (n div 10) = [0x30]"
      have "n div 10 = dec_value [0x30]" using dec_value_nat_text [of "n div 10"] unfolding a by simp
      then show False using False by (simp add: dec_value_def)
    qed
    with 1 [OF False] show ?thesis
      using False by (subst nat_text.simps) (auto simp: append_eq_Cons_conv Cons_eq_append_conv)
  qed
qed

text \<open>\<open>parseInt\<close> reads back the decimal text of a number, also when other text follows.\<close>

lemma parseInt_nat_text:
  assumes "r = [] \<or> \<not> is_digit (hd r) \<and> hd r \<noteq> 0x78 \<and> hd r \<noteq> 0x58"
  shows "parseInt (nat_text n @ r) = Some (int n)"
proof -
  obtain c t where ct: "nat_text n = c # t" by (cases "nat_text n") auto
  with hd_nat_text [of n] have c: "0x30 \<le> unat c" "unat c \<le> 0x39" by (simp_all add: is_digit_def)
  then have "\<not> is_space c" "c \<noteq> 0x2D" "c \<noteq> 0x2B" by (auto simp: is_space_def)
  moreover have tw: "takeWhile is_digit (nat_text n @ r) = nat_text n"
    using assms nat_text_digits [of n] by (cases r) (auto simp: takeWhile_append list_all_iff)
  moreover have "parse_digits (nat_text n @ r) = Some n"
  proof (cases "\<exists>x y. nat_text n @ r = 0x30 # x # y \<and> (x = 0x78 \<or> x = 0x58)")
    case True
    then obtain x y where xy: "c = 0x30" "t @ r = x # y" "x = 0x78 \<or> x = 0x58" using ct by auto
    with nat_text_no_hex [of n] ct have "t = []" by (cases t) auto
    with xy assms show ?thesis by auto
  next
    case False
    have "parse_digits (nat_text n @ r) = (let d = takeWhile is_digit (nat_text n @ r) in if d = [] then None else Some (dec_value d))"
      using False unfolding parse_digits_def by (auto split: list.split)
    then show ?thesis by (simp add: tw)
  qed
  ultimately show ?thesis by (simp add: parseInt_def ct)
qed

section \<open>The encoder of the WebAssembly host\<close>

text \<open>
  The bytes \<open>exportString\<close> of \<open>sk_types.ts\<close> produces, or the error it throws: a high surrogate needs its
  partner, a low surrogate on its own is encoded like any other unit. \<open>ci\<close> is the index of the first
  unit in the whole string.
\<close>

fun skip_utf8 :: "nat \<Rightarrow> jsstring \<Rightarrow> js_error + bytes" where
  "skip_utf8 ci [] = Inr []"
| "skip_utf8 ci (u # s) =
     (if is_high u then
        (case s of
           [] \<Rightarrow> Inl (err ''UTF-8 encode: incomplete surrogate pair'')
         | v # s2 \<Rightarrow>
             if is_low v then bindE (skip_utf8 (ci + 2) s2) (\<lambda>bs. Inr (encode_cp (pair_cp u v) @ bs))
             else Inl (JSError (js ''UTF-8 encode: second surrogate character 0x'' @ hex_text (unat v)
                    @ js '' at index '' @ nat_text (ci + 1) @ js '' out of range'')))
      else bindE (skip_utf8 (ci + 1) s) (\<lambda>bs. Inr (encode_cp (unat u) @ bs)))"

lemma utf8_encode_pair: "is_high c \<Longrightarrow> is_low d \<Longrightarrow> utf8_encode (c # d # s) = encode_cp (pair_cp c d) @ utf8_encode s"
  by (simp add: utf8_encode_def utf8_cps_def)

lemma utf8_encode_unit: "\<not> is_high c \<Longrightarrow> \<not> is_low c \<Longrightarrow> utf8_encode (c # s) = encode_cp (unat c) @ utf8_encode s"
  by (cases s) (simp_all add: utf8_encode_def utf8_cps_def)

lemma skip_utf8_ok: "utf16_ok s \<Longrightarrow> skip_utf8 ci s = Inr (utf8_encode s)"
proof (induction s arbitrary: ci rule: utf16_ok.induct)
  case (3 c d s)
  then show ?case
    by (cases "is_high c") (simp_all add: utf8_encode_pair utf8_encode_unit del: utf16_ok.simps(2))
qed (simp_all add: utf8_encode_unit)

lemma skip_utf8_length: "skip_utf8 ci s = Inr bs \<Longrightarrow> length bs \<le> 4 * length s"
proof (induction ci s arbitrary: bs rule: skip_utf8.induct)
  case (2 ci u s)
  show ?case
  proof (cases "is_high u")
    case True
    with "2.prems" obtain v s2 cs where v: "s = v # s2" "is_low v" "skip_utf8 (ci + 2) s2 = Inr cs"
      "bs = encode_cp (pair_cp u v) @ cs"
      by (auto split: list.splits if_splits simp: bindE_Inr_iff)
    from "2.IH"(1) [OF True v(1,2,3)] length_encode_cp(1) [of "pair_cp u v"] show ?thesis by (simp add: v)
  next
    case False
    with "2.prems" obtain cs where v: "skip_utf8 (ci + 1) s = Inr cs" "bs = encode_cp (unat u) @ cs"
      by (auto simp: bindE_Inr_iff)
    from "2.IH"(2) [OF False v(1)] length_encode_cp(1) [of "unat u"] show ?thesis by (simp add: v)
  qed
qed simp

end
