(* ===== verification/Server_Lines.thy ===== *)
theory Server_Lines
  imports Proto_Codec JS_Strings
begin

text \<open>
  The line protocol \<open>SKDBServer\<close> reads in data messages (\<open>sql/ts/src/skdb_orchestration.ts\<close>): the
  reboot signal, the checkpoint that resolves a server tail, and the count of rejected rows of a
  local tail.
\<close>

section \<open>Reboot and checkpoints\<close>

definition rebootSignalled :: "jsstring \<Rightarrow> bool" where
  "rebootSignalled txt = list_ex (\<lambda>line. trim line = js '':reboot'') (lines_of txt)"

text \<open>\<open>line.match(/^:[1-9]/g) != null\<close>\<close>

definition isCheckpoint :: "jsstring \<Rightarrow> bool" where
  "isCheckpoint line = (case line of c # d # _ \<Rightarrow> c = colon \<and> 0x31 \<le> unat d \<and> unat d \<le> 0x39 | _ \<Rightarrow> False)"

fun resolveLoop :: "jsstring list \<Rightarrow> bool \<Rightarrow> bool" where
  "resolveLoop [] signalled = signalled"
| "resolveLoop (line # ls) signalled =
     (if trim line = js ''!rebuild'' then False
      else resolveLoop ls (signalled \<or> isCheckpoint line))"

section \<open>Rejected rows\<close>

text \<open>
  The loop of \<open>establishLocalTail\<close>: the number of rows and the table so far (no table is falsy, and
  so is the empty name), and the warnings issued, each with a count and a table.
\<close>

record reject_state =
  rcount :: nat
  currentTable :: "jsstring option"
  warnings :: "(nat \<times> jsstring) list"

definition firstWord :: "jsstring \<Rightarrow> jsstring" where
  "firstWord line = hd (split1 blank line)"

definition rejectLine :: "jsstring \<Rightarrow> reject_state \<Rightarrow> reject_state" where
  "rejectLine line r =
     (if trim line = [] then r
      else if currentTable r = None \<or> currentTable r = Some [] then
        (if startsWith1 caret line then r\<lparr>rcount := 0, currentTable := Some (firstWord line)\<rparr> else r)
      else if startsWith1 caret line \<or> startsWith1 colon line then
        let r = (if 0 < rcount r then r\<lparr>warnings := warnings r @ [(rcount r, the (currentTable r))]\<rparr> else r);
            r = r\<lparr>rcount := 0\<rparr>
        in if startsWith1 caret line then r\<lparr>currentTable := Some (drop 1 (firstWord line))\<rparr> else r
      else r\<lparr>rcount := rcount r + 1\<rparr>)"

definition rejectScan :: "jsstring \<Rightarrow> (nat \<times> jsstring) list" where
  "rejectScan txt =
     warnings (fold rejectLine (lines_of txt) \<lparr>rcount = 0, currentTable = None, warnings = []\<rparr>)"

section \<open>Lemmas\<close>

text \<open>Splitting and joining again is the identity.\<close>

lemma resolveLoop_iff:
  "resolveLoop ls b \<longleftrightarrow> (b \<or> list_ex isCheckpoint ls) \<and> list_all (\<lambda>l. trim l \<noteq> js ''!rebuild'') ls"
  by (induction ls b rule: resolveLoop.induct) auto

text \<open>The rows counted are the lines of the payload that are neither blank nor marks.\<close>

definition is_row :: "jsstring \<Rightarrow> bool" where
  "is_row line \<longleftrightarrow> trim line \<noteq> [] \<and> \<not> startsWith1 caret line \<and> \<not> startsWith1 colon line"

definition warned :: "reject_state \<Rightarrow> nat" where
  "warned r = sum_list (map fst (warnings r))"

lemma rejectLine_count:
  "warned (rejectLine line r) + rcount (rejectLine line r)
     \<le> warned r + rcount r + (if is_row line then 1 else 0)"
  by (auto simp: rejectLine_def warned_def is_row_def Let_def)

lemma rejectLine_pos:
  "\<forall>(n, t) \<in> set (warnings r). 0 < n \<Longrightarrow> \<forall>(n, t) \<in> set (warnings (rejectLine line r)). 0 < n"
  by (auto simp: rejectLine_def Let_def)

lemma reject_fold:
  "warned (fold rejectLine ls r) + rcount (fold rejectLine ls r)
     \<le> warned r + rcount r + length (filter is_row ls)"
  and reject_fold_pos: "\<forall>(n, t) \<in> set (warnings r). 0 < n \<Longrightarrow>
     \<forall>(n, t) \<in> set (warnings (fold rejectLine ls r)). 0 < n"
proof (induction ls arbitrary: r)
  case (Cons l ls)
  {
    case 1
    with Cons.IH(1) [of "rejectLine l r"] rejectLine_count [of l r] show ?case by auto
  next
    case 2
    with Cons.IH(2) [of "rejectLine l r"] rejectLine_pos [of r l] show ?case by simp
  }
qed simp_all

section \<open>Properties\<close>

text \<open>
  A server tail is resolved by a payload exactly when one of its lines is a checkpoint with a
  non-zero transaction number and no line asks for a rebuild.
\<close>

theorem resolve_signal:
  "resolveLoop (lines_of txt) False \<longleftrightarrow>
     (\<exists>l \<in> set (lines_of txt). isCheckpoint l) \<and> \<not> (\<exists>l \<in> set (lines_of txt). trim l = js ''!rebuild'')"
  by (auto simp: resolveLoop_iff list_ex_iff list_all_iff)

text \<open>
  The warnings about rejected rows never claim more rows than the payload has, and each one
  is about at least one row.
\<close>

theorem rejected_rows_bound:
  "sum_list (map fst (rejectScan txt)) \<le> length (filter is_row (lines_of txt))
    \<and> list_all (\<lambda>(n, t). 0 < n) (rejectScan txt)"
  using reject_fold [of "lines_of txt" "\<lparr>rcount = 0, currentTable = None, warnings = []\<rparr>"]
    reject_fold_pos [of "\<lparr>rcount = 0, currentTable = None, warnings = []\<rparr>" "lines_of txt"]
  by (simp add: rejectScan_def warned_def list_all_iff)

text \<open>
  The first table of a payload is reported with its leading caret and a later one without it:
  the result of removing the caret is discarded for the first table.
\<close>

theorem first_table_keeps_caret:
  "rejectScan (js ''^t 1'' @ [newline] @ js ''row'' @ [newline] @ js ''^u 2'' @ [newline]
      @ js ''row'' @ [newline] @ js '':5'')
    = [(1, js ''^t''), (1, js ''u'')]"
  by (simp add: rejectScan_def lines_of_def rejectLine_def trim_def is_space_def startsWith1_def
      firstWord_def Let_def)

end
