(* ===== verification/Skdb_Server.thy ===== *)
theory Skdb_Server
  imports Resilient Server_Lines
begin

text \<open>
  \<open>SKDBServer\<close> of \<open>sql/ts/src/skdb_orchestration.ts\<close>: requests to the remote database over a stream
  each, the server and local tails of mirrored tables over resilient streams, and mirroring
  itself. The local database (\<open>SKDBMechanism\<close>) is a state of type \<open>'c\<close> with the operations of the
  record \<open>mechanism\<close>, an argument of the methods that use it. A method that awaits a stream is
  given by the step that runs once the stream is there. The callbacks of this class are the
  \<open>app_handlers\<close> of the resilient layer.
\<close>

section \<open>State\<close>

record MirrorDefn =
  def_table :: jsstring
  def_expectedColumns :: jsstring
  def_filterExpr :: "jsstring option"
  def_filterParams :: "jsstring Params option"

record 'c mechanism =
  watermark :: "jsstring \<Rightarrow> jsstring \<Rightarrow> 'c \<Rightarrow> int"
  writeCsv :: "jsstring \<Rightarrow> jsstring \<Rightarrow> 'c \<Rightarrow> 'c"
  watchFile :: "jsstring \<Rightarrow> nat \<Rightarrow> 'c \<Rightarrow> 'c"
  subscribe :: "jsstring \<Rightarrow> jsstring list \<Rightarrow> jsstring \<Rightarrow> 'c \<Rightarrow> jsstring \<times> 'c"
  unsubscribe :: "jsstring \<Rightarrow> 'c \<Rightarrow> 'c"
  diff :: "jsstring \<Rightarrow> (jsstring \<times> int) list \<Rightarrow> 'c \<Rightarrow> bytes option"
  tableExists :: "jsstring \<Rightarrow> 'c \<Rightarrow> bool"
  exec :: "jsstring \<Rightarrow> 'c \<Rightarrow> 'c"
  toggleView :: "jsstring \<Rightarrow> 'c \<Rightarrow> 'c"
  assertCanBeMirrored :: "jsstring \<Rightarrow> jsstring \<Rightarrow> 'c \<Rightarrow> js_error + unit"

text \<open>\<open>JSON.stringify\<close> of a response in an error message, and \<open>env.disableWarnings\<close>.\<close>

record server_env =
  stringify :: "jsstring ProtoMsg option \<Rightarrow> jsstring"
  disableWarnings :: bool

datatype callback = ReqCb nat | ServerTailCb nat | LocalTailCb nat

datatype response = NoResponse | Answered "jsstring ProtoMsg option" | Failed js_error

record request =
  rq_decoder :: "jsstring ProtoMsgDecoder"
  rq_response :: response

record tail =
  tl_stream :: nat
  tl_decoder :: "jsstring ProtoMsgDecoder"
  tl_resolved :: bool
  tl_defs :: "MirrorDefn list"
  tl_schemas :: "(jsstring \<times> jsstring) list"
  tl_session :: jsstring

datatype notice = RejectedRows nat jsstring | RebootCalled

record 'c server_world = "callback rworld" +
  mech_state :: 'c
  requests :: "nat \<Rightarrow> request"
  nextRequest :: nat
  tails :: "nat \<Rightarrow> tail"
  nextTail :: nat
  connection :: nat
  replicationUid :: jsstring
  srv_accessKey :: jsstring
  localTailSession :: "jsstring option"
  mirroredTables :: "(jsstring \<times> jsstring) list"
  mirrorStreams :: "nat list"
  onRebootSet :: bool
  notices :: "notice list"

type_synonym 'c srv = "'c server_world"

section \<open>Primitive operations\<close>

definition onMech :: "('c \<Rightarrow> 'c) \<Rightarrow> ('c srv, unit) js" where
  "onMech f = modifies (\<lambda>w. w\<lparr>mech_state := f (mech_state w)\<rparr>)"

definition notice :: "notice \<Rightarrow> ('c srv, unit) js" where
  "notice n = modifies (\<lambda>w. w\<lparr>notices := notices w @ [n]\<rparr>)"

definition updRequest :: "nat \<Rightarrow> (request \<Rightarrow> request) \<Rightarrow> ('c srv, unit) js" where
  "updRequest i f = modifies (\<lambda>w. w\<lparr>requests := (requests w)(i := f (requests w i))\<rparr>)"

definition updTail :: "nat \<Rightarrow> (tail \<Rightarrow> tail) \<Rightarrow> ('c srv, unit) js" where
  "updTail t f = modifies (\<lambda>w. w\<lparr>tails := (tails w)(t := f (tails w t))\<rparr>)"

text \<open>A promise keeps its first answer.\<close>

definition answer :: "nat \<Rightarrow> response \<Rightarrow> ('c srv, unit) js" where
  "answer i v = updRequest i (\<lambda>rq. if rq_response rq = NoResponse then rq\<lparr>rq_response := v\<rparr> else rq)"

definition newRequest :: "('c srv, nat) js" where
  "newRequest = reads (\<lambda>w. let i = nextRequest w in
     andThen (modifies (\<lambda>w. w\<lparr>requests := (requests w)(i := \<lparr>rq_decoder = newDecoder, rq_response = NoResponse\<rparr>),
       nextRequest := i + 1\<rparr>)) (\<lambda>_. ret i))"

definition newTail :: "tail \<Rightarrow> ('c srv, nat) js" where
  "newTail t = reads (\<lambda>w. let i = nextTail w in
     andThen (modifies (\<lambda>w. w\<lparr>tails := (tails w)(i := t), nextTail := i + 1\<rparr>)) (\<lambda>_. ret i))"

definition addMirrorStream :: "nat \<Rightarrow> ('c srv, unit) js" where
  "addMirrorStream x = modifies (\<lambda>w. w\<lparr>mirrorStreams :=
     (if x \<in> set (mirrorStreams w) then mirrorStreams w else mirrorStreams w @ [x])\<rparr>)"

section \<open>Requests\<close>

definition strictCastData :: "server_env \<Rightarrow> jsstring ProtoMsg option \<Rightarrow> js_error + bytes" where
  "strictCastData env r = (case r of
     Some (ProtoData p) \<Rightarrow> Inr p
   | _ \<Rightarrow> Inl (JSError (js ''Unexpected response: '' @ stringify env r)))"

text \<open>\<open>makeRequest\<close> once its stream is open: a throw inside the promise rejects it.\<close>

definition makeRequest :: "nat \<Rightarrow> jsstring ProtoMsg \<Rightarrow> ('c srv, nat) js" where
  "makeRequest a req = andThen newRequest (\<lambda>i.
     andThen (setStreamCallbacks a (Some (App (ReqCb i)))) (\<lambda>_. \<lambda>w.
       case andThen (lift (encodeProtoMsg id req)) (\<lambda>b. andThen (send a b) (\<lambda>_. close a)) w of
         (Inl e, w') \<Rightarrow> andThen (answer i (Failed e)) (\<lambda>_. ret i) w'
       | (Inr u, w') \<Rightarrow> ret i w'))"

definition request_onData :: "nat \<Rightarrow> bytes \<Rightarrow> ('c srv, unit) js" where
  "request_onData i data = reads (\<lambda>w. case push data (rq_decoder (requests w i)) of (r, d) \<Rightarrow>
     andThen (updRequest i (rq_decoder_update (\<lambda>_. d))) (\<lambda>_. andThen (lift r) (\<lambda>_. skip)))"

definition request_onClose :: "nat \<Rightarrow> ('c srv, unit) js" where
  "request_onClose i = reads (\<lambda>w. case tryPop (rq_decoder (requests w i)) of (msg, d) \<Rightarrow>
     andThen (updRequest i (rq_decoder_update (\<lambda>_. d))) (\<lambda>_.
     answer i (Answered (case msg of
         Some (ProtoResponseCreds k pk) \<Rightarrow> msg | Some (ProtoData p) \<Rightarrow> msg | _ \<Rightarrow> None))))"

definition request_onError :: "nat \<Rightarrow> jsstring \<Rightarrow> ('c srv, unit) js" where
  "request_onError i msg = answer i (Failed (JSError msg))"

text \<open>The \<open>then\<close> of \<open>makeStringRequest\<close>, of \<open>createDatabase\<close> and of \<open>createUser\<close>.\<close>

definition stringResponse :: "server_env \<Rightarrow> jsstring ProtoMsg option \<Rightarrow> js_error + jsstring" where
  "stringResponse env r = bindE (strictCastData env r) (\<lambda>p. Inr (utf8_decode p))"

definition credsResponse :: "jsstring ProtoMsg option \<Rightarrow> js_error + (jsstring \<times> bytes)" where
  "credsResponse r = (case r of Some (ProtoResponseCreds k pk) \<Rightarrow> Inr (k, pk)
     | _ \<Rightarrow> Inl (err ''Unexpected response.''))"

definition exec_request :: "jsstring \<Rightarrow> jsstring Params \<Rightarrow> jsstring ProtoMsg" where
  "exec_request stdin ps =
     ProtoQuery (JSON_stringify id (params_object ps) @ [newline] @ stdin) (js ''json'')"

definition tableSchema_request :: "jsstring \<Rightarrow> jsstring \<Rightarrow> bool \<Rightarrow> jsstring ProtoMsg" where
  "tableSchema_request tableName sfx legacySchema =
     ProtoQuerySchema (Some tableName) (if legacySchema then js ''legacy_schema'' else js ''table'') (Some sfx)"

definition viewSchema_request :: "jsstring \<Rightarrow> jsstring ProtoMsg" where
  "viewSchema_request viewName = ProtoQuerySchema (Some viewName) (js ''view'') (Some [])"

definition schema_request :: "jsstring ProtoMsg" where
  "schema_request = ProtoQuerySchema None (js ''all'') None"

definition getDbSocketUri :: "jsstring \<Rightarrow> jsstring \<Rightarrow> jsstring" where
  "getDbSocketUri endpoint db = endpoint @ js ''/dbs/'' @ db @ js ''/connection''"

section \<open>Data transfer\<close>

definition callOnReboot :: "('c srv, unit) js" where
  "callOnReboot = reads (\<lambda>w. if onRebootSet w then notice RebootCalled
     else throw (err ''Server signalled client should cold start to avoid diverging.''))"

definition srv_close :: "('c srv, nat) js" where
  "srv_close = reads (\<lambda>w. r_closeSocket (connection w))"

definition deliverDataTransferProtoMsg :: "server_env \<Rightarrow> jsstring ProtoMsg option \<Rightarrow>
    (jsstring \<Rightarrow> ('c srv, unit) js) \<Rightarrow> ('c srv, unit) js" where
  "deliverDataTransferProtoMsg env msg deliver =
     andThen (lift (strictCastData env msg)) (\<lambda>p.
     let txtPayload = utf8_decode p
     in if rebootSignalled txtPayload then andThen srv_close (\<lambda>_. callOnReboot)
        else deliver txtPayload)"

definition server_response_suffix :: jsstring where
  "server_response_suffix = js ''__skdb_mirror_feedback''"

definition serverResponseTable :: "jsstring \<Rightarrow> jsstring" where
  "serverResponseTable tableName = tableName @ server_response_suffix"

section \<open>Server tail\<close>

definition tailRequest :: "'c mechanism \<Rightarrow> jsstring \<Rightarrow> 'c \<Rightarrow> MirrorDefn \<Rightarrow> jsstring ProtoRequestTail" where
  "tailRequest m uid c d = \<lparr>table = def_table d, expectedColumns = def_expectedColumns d,
     since = watermark m uid (def_table d) c,
     filterExpr = (case def_filterExpr d of None \<Rightarrow> [] | Some e \<Rightarrow> e),
     params = (case def_filterParams d of None \<Rightarrow> ParamMap [] | Some ps \<Rightarrow> ps)\<rparr>"

definition buildTailRequest :: "'c mechanism \<Rightarrow> MirrorDefn list \<Rightarrow> 'c srv \<Rightarrow> js_error + bytes" where
  "buildTailRequest m defs w =
     encodeProtoMsg id (ProtoRequestTailBatch (map (tailRequest m (replicationUid w) (mech_state w)) defs))"

definition sendTailRequest :: "'c mechanism \<Rightarrow> nat \<Rightarrow> ('c srv, unit) js" where
  "sendTailRequest m t = reads (\<lambda>w. let x = tl_stream (tails w t) in
     andThen (lift (buildTailRequest m (tl_defs (tails w t)) w)) (\<lambda>b.
     andThen (rs_send x b) (\<lambda>_. expectingData x)))"

definition serverTail_deliver :: "'c mechanism \<Rightarrow> jsstring \<Rightarrow> ('c srv, unit) js" where
  "serverTail_deliver m txt = reads (\<lambda>w. onMech (writeCsv m txt (replicationUid w)))"

definition serverTail_onData :: "'c mechanism \<Rightarrow> server_env \<Rightarrow> nat \<Rightarrow> bytes \<Rightarrow> ('c srv, unit) js" where
  "serverTail_onData m env t data = reads (\<lambda>w. case push data (tl_decoder (tails w t)) of (r, d) \<Rightarrow>
     andThen (updTail t (tl_decoder_update (\<lambda>_. d))) (\<lambda>_.
     andThen (lift r) (\<lambda>complete.
     andThen (if complete then
         (case pop d of (r, d) \<Rightarrow>
           andThen (updTail t (tl_decoder_update (\<lambda>_. d))) (\<lambda>_.
           andThen (lift r) (\<lambda>msg.
           deliverDataTransferProtoMsg env msg (\<lambda>txt.
             andThen (serverTail_deliver m txt) (\<lambda>_.
             if \<not> tl_resolved (tails w t) \<and> resolveLoop (lines_of txt) False
             then updTail t (tl_resolved_update (\<lambda>_. True)) else skip)))))
       else skip) (\<lambda>_.
     expectingData (tl_stream (tails w t))))))"

definition establishServerTail :: "'c mechanism \<Rightarrow> MirrorDefn list \<Rightarrow> nat \<Rightarrow> ('c srv, nat) js" where
  "establishServerTail m defs x =
     andThen (addMirrorStream x) (\<lambda>_.
     andThen (newTail \<lparr>tl_stream = x, tl_decoder = newDecoder, tl_resolved = False, tl_defs = defs,
                tl_schemas = [], tl_session = []\<rparr>) (\<lambda>t.
     andThen (updRStream x (\<lambda>rst. rst\<lparr>rst_onData := Some (ServerTailCb t), rst_onReconnect := Some (ServerTailCb t)\<rparr>)) (\<lambda>_.
     andThen (sendTailRequest m t) (\<lambda>_. ret t))))"

section \<open>Local tail\<close>

definition localTail_deliver :: "'c mechanism \<Rightarrow> server_env \<Rightarrow> jsstring \<Rightarrow> ('c srv, unit) js" where
  "localTail_deliver m env txt = reads (\<lambda>w.
     andThen (onMech (writeCsv m txt (replicationUid w))) (\<lambda>_.
     if disableWarnings env then skip
     else forEach (rejectScan txt) (\<lambda>(n, tbl). notice (RejectedRows n tbl))))"

definition localTail_onData :: "'c mechanism \<Rightarrow> server_env \<Rightarrow> nat \<Rightarrow> bytes \<Rightarrow> ('c srv, unit) js" where
  "localTail_onData m env t data = reads (\<lambda>w. case push data (tl_decoder (tails w t)) of (r, d) \<Rightarrow>
     andThen (updTail t (tl_decoder_update (\<lambda>_. d))) (\<lambda>_.
     andThen (lift r) (\<lambda>complete.
     if complete then
       (case pop d of (r, d) \<Rightarrow>
         andThen (updTail t (tl_decoder_update (\<lambda>_. d))) (\<lambda>_.
         andThen (lift r) (\<lambda>msg.
         deliverDataTransferProtoMsg env msg (localTail_deliver m env))))
     else skip)))"

text \<open>The callback of \<open>client.watchFile\<close>.\<close>

definition localTail_onFile :: "nat \<Rightarrow> bytes \<Rightarrow> ('c srv, unit) js" where
  "localTail_onFile t p = reads (\<lambda>w. let x = tl_stream (tails w t) in
     andThen (lift (encodeProtoMsg id (ProtoData p))) (\<lambda>b.
     andThen (rs_send x b) (\<lambda>_. expectingData x)))"

definition pushPromise_request :: "(jsstring \<times> jsstring) list \<Rightarrow> jsstring ProtoMsg" where
  "pushPromise_request scs = ProtoPushPromise (fromEntries scs)"

definition responseMarks :: "'c mechanism \<Rightarrow> jsstring \<Rightarrow> 'c \<Rightarrow> jsstring list \<Rightarrow> (jsstring \<times> int) list" where
  "responseMarks m uid c tables = map (\<lambda>t. (t, watermark m uid (serverResponseTable t) c)) tables"

definition localTail_onReconnect :: "'c mechanism \<Rightarrow> nat \<Rightarrow> ('c srv, unit) js" where
  "localTail_onReconnect m t = reads (\<lambda>w. let tl = tails w t; x = tl_stream tl in
     andThen (lift (encodeProtoMsg id (pushPromise_request (tl_schemas tl)))) (\<lambda>b.
     andThen (rs_send x b) (\<lambda>_. reads (\<lambda>w.
     case diff m (tl_session tl) (responseMarks m (replicationUid w) (mech_state w) (map fst (tl_schemas tl)))
            (mech_state w) of
       None \<Rightarrow> skip
     | Some dat \<Rightarrow>
         andThen (lift (encodeProtoMsg id (ProtoData dat))) (\<lambda>b.
         andThen (rs_send x b) (\<lambda>_. expectingData x))))))"

definition establishLocalTail :: "'c mechanism \<Rightarrow> (jsstring \<times> jsstring) list \<Rightarrow> nat \<Rightarrow> ('c srv, jsstring) js" where
  "establishLocalTail m scs x =
     andThen (addMirrorStream x) (\<lambda>_.
     andThen (newTail \<lparr>tl_stream = x, tl_decoder = newDecoder, tl_resolved = False, tl_defs = [],
                tl_schemas = scs, tl_session = []\<rparr>) (\<lambda>t.
     andThen (updRStream x (rst_onData_update (\<lambda>_. Some (LocalTailCb t)))) (\<lambda>_.
     andThen (lift (encodeProtoMsg id (pushPromise_request scs))) (\<lambda>b.
     andThen (rs_send x b) (\<lambda>_. reads (\<lambda>w.
     let tables = map fst scs;
         fileName = join (js ''_'') tables @ js ''_'' @ srv_accessKey w
     in andThen (onMech (watchFile m fileName t)) (\<lambda>_. reads (\<lambda>w.
        case subscribe m (replicationUid w) tables fileName (mech_state w) of (session, c) \<Rightarrow>
        andThen (onMech (\<lambda>_. c)) (\<lambda>_.
        andThen (updTail t (tl_session_update (\<lambda>_. session))) (\<lambda>_.
        andThen (updRStream x (rst_onReconnect_update (\<lambda>_. Some (LocalTailCb t)))) (\<lambda>_.
        ret session)))))))))))"

section \<open>Mirroring\<close>

definition isConnectionHealthy :: "'c srv \<Rightarrow> bool" where
  "isConnectionHealthy w = isSocketConsideredHealthy (connection w) w"

definition tablesAwaitingSync :: "'c mechanism \<Rightarrow> 'c srv \<Rightarrow> jsstring list" where
  "tablesAwaitingSync m w = (case localTailSession w of
     None \<Rightarrow> []
   | Some session \<Rightarrow> remdups (filter (\<lambda>t.
       diff m session (responseMarks m (replicationUid w) (mech_state w) [t]) (mech_state w) \<noteq> None)
       (map fst (mirroredTables w))))"

text \<open>\<open>mirror\<close> up to the \<open>await\<close> of the schemas.\<close>

definition mirror_begin :: "'c mechanism \<Rightarrow> MirrorDefn list \<Rightarrow> ('c srv, unit) js" where
  "mirror_begin m defs =
     (if length defs < 1 then throw (err ''Must specify at least one table to mirror'')
      else
        andThen (reads (\<lambda>w. case localTailSession w of
            None \<Rightarrow> skip
          | Some session \<Rightarrow> andThen (onMech (unsubscribe m session)) (\<lambda>_.
              modifies (\<lambda>w. w\<lparr>localTailSession := None\<rparr>)))) (\<lambda>_.
        andThen (reads (\<lambda>w. forEach (mirrorStreams w) rs_close)) (\<lambda>_.
        modifies (\<lambda>w. w\<lparr>mirrorStreams := [], mirroredTables := []\<rparr>))))"

text \<open>
  \<open>setupTable\<close> after the answers of the remote: whether it is a view, the schemas of the table and of
  its response table, and the legacy schema if it is asked for.
\<close>

record remote_schema =
  remoteView :: jsstring
  remoteTable :: jsstring
  remoteResponseTable :: jsstring
  legacyView :: jsstring

definition setupTable :: "'c mechanism \<Rightarrow> remote_schema \<Rightarrow> MirrorDefn \<Rightarrow> ('c srv, unit) js" where
  "setupTable m rem d =
     (let tableName = def_table d; expectedSchema = def_expectedColumns d;
          isViewOnRemote = (remoteView rem \<noteq> [])
      in if remoteTable rem = [] then throw (JSError (js ''Table '' @ tableName @ js '' does not exist''))
         else
           let (createTable, createResponseTable) =
                 (if expectedSchema = js ''*'' then (remoteTable rem, remoteResponseTable rem)
                  else (js ''CREATE TABLE '' @ tableName @ js '' '' @ expectedSchema @ js '';'',
                        js ''CREATE TABLE '' @ serverResponseTable tableName @ js '' '' @ expectedSchema @ js '';''))
           in andThen (reads (\<lambda>w. if tableExists m tableName (mech_state w) then skip
                else andThen (onMech (exec m createTable)) (\<lambda>_.
                     if isViewOnRemote then onMech (toggleView m tableName) else skip))) (\<lambda>_.
              if isViewOnRemote then skip
              else andThen (reads (\<lambda>w. if tableExists m (serverResponseTable tableName) (mech_state w) then skip
                     else onMech (exec m createResponseTable))) (\<lambda>_.
                   andThen (reads (\<lambda>w. case assertCanBeMirrored m (remoteTable rem) expectedSchema (mech_state w) of
                       Inr u \<Rightarrow> skip
                     | Inl e \<Rightarrow> lift (assertCanBeMirrored m (legacyView rem) expectedSchema (mech_state w)))) (\<lambda>_.
                   modifies (\<lambda>w. w\<lparr>mirroredTables := amap_set tableName expectedSchema (mirroredTables w)\<rparr>)))))"

section \<open>The callbacks of the class\<close>

definition server_handlers :: "'c mechanism \<Rightarrow> server_env \<Rightarrow> (callback, 'c srv) app_handlers" where
  "server_handlers m env = \<lparr>
     aClose = (\<lambda>p. case p of ReqCb i \<Rightarrow> request_onClose i | _ \<Rightarrow> skip),
     aError = (\<lambda>p code msg. case p of ReqCb i \<Rightarrow> request_onError i msg | _ \<Rightarrow> skip),
     aData = (\<lambda>p d. case p of ReqCb i \<Rightarrow> request_onData i d
        | ServerTailCb t \<Rightarrow> serverTail_onData m env t d | LocalTailCb t \<Rightarrow> localTail_onData m env t d),
     aStream = (\<lambda>p a. skip),
     aReconnect = (\<lambda>p. case p of ReqCb i \<Rightarrow> skip
        | ServerTailCb t \<Rightarrow> sendTailRequest m t | LocalTailCb t \<Rightarrow> localTail_onReconnect m t),
     notifyFailedStream = (\<lambda>r. skip)\<rparr>"

section \<open>The callbacks keep the contract of sockets and streams\<close>

lemma local_steps:
  "mux_steps (onMech f)" "mux_steps (notice n)" "mux_steps (updRequest i g)" "mux_steps (updTail t h)"
  "mux_steps (answer i v)" "mux_steps (addMirrorStream x)" "mux_steps newRequest" "mux_steps (newTail t0)"
  "mux_steps (modifies (\<lambda>w. w\<lparr>localTailSession := s\<rparr>))"
  "mux_steps (modifies (\<lambda>w. w\<lparr>mirrorStreams := xs, mirroredTables := ys\<rparr>))"
  "mux_steps (modifies (\<lambda>w. w\<lparr>mirroredTables := q w\<rparr>))"
  unfolding onMech_def notice_def updRequest_def updTail_def answer_def addMirrorStream_def newRequest_def
    newTail_def Let_def
  by (intro steps_reads_any steps_andThen preorder_evolves steps_ret steps_modifies neutral_step; simp)+

lemmas server_rules = local_steps steps_andThen preorder_evolves steps_ret steps_throw steps_lift steps_forEach
  steps_reads_any ext_steps rs_steps setCallbacks_steps stream_ops_steps r_closeSocket_steps

lemma request_steps:
  "mux_steps (request_onData i data)" "mux_steps (request_onClose i)" "mux_steps (request_onError i msg)"
  unfolding request_onData_def request_onClose_def request_onError_def
  by (auto split: prod.splits intro!: server_rules)

lemma deliver_steps:
  "(\<And>txt. mux_steps (k txt)) \<Longrightarrow> mux_steps (deliverDataTransferProtoMsg env msg k)"
  unfolding deliverDataTransferProtoMsg_def Let_def srv_close_def callOnReboot_def
  by (intro steps_andThen preorder_evolves steps_lift) (auto intro!: server_rules)

lemma sendTailRequest_steps: "mux_steps (sendTailRequest m t)"
  unfolding sendTailRequest_def Let_def by (intro server_rules)

lemma serverTail_steps: "mux_steps (serverTail_onData m env t data)"
  unfolding serverTail_onData_def serverTail_deliver_def
  by (intro steps_reads_any)
    (auto split: prod.splits intro!: server_rules deliver_steps)

lemma localTail_deliver_steps: "mux_steps (localTail_deliver m env txt)"
  unfolding localTail_deliver_def by (auto intro!: server_rules split: prod.splits)

lemma localTail_steps:
  "mux_steps (localTail_onData m env t data)" "mux_steps (localTail_onReconnect m t)"
  "mux_steps (localTail_onFile t p)"
  unfolding localTail_onData_def localTail_onReconnect_def localTail_onFile_def Let_def
  by (auto split: prod.splits option.splits intro!: server_rules deliver_steps localTail_deliver_steps)

interpretation srv: app_client "server_handlers m env" for m :: "'c mechanism" and env
proof unfold_locales
  show "mux_steps (aClose (server_handlers m env) p)" for p
    by (cases p) (simp_all add: server_handlers_def request_steps steps_ret)
  show "mux_steps (aError (server_handlers m env) p code msg)" for p code msg
    by (cases p) (simp_all add: server_handlers_def request_steps steps_ret)
  show "mux_steps (aData (server_handlers m env) p data)" for p data
    by (cases p) (simp_all add: server_handlers_def request_steps serverTail_steps localTail_steps)
  show "mux_steps (aReconnect (server_handlers m env) p)" for p
    by (cases p) (simp_all add: server_handlers_def sendTailRequest_steps localTail_steps steps_ret)
qed (simp_all add: server_handlers_def steps_ret)

lemma establish_steps: "mux_steps (establishServerTail m defs x)" "mux_steps (establishLocalTail m scs x)"
  unfolding establishServerTail_def establishLocalTail_def Let_def
  by (auto split: prod.splits intro!: server_rules sendTailRequest_steps)

lemma mirror_steps: "mux_steps (mirror_begin m defs)" "mux_steps (setupTable m rem d)"
  unfolding mirror_begin_def setupTable_def Let_def
  by (auto split: option.splits prod.splits sum.splits intro!: server_rules)

lemma makeRequest_steps: "mux_steps (makeRequest a req)"
  unfolding makeRequest_def
  by (intro steps_andThen preorder_evolves local_steps setCallbacks_steps case_result_steps)
    (auto intro!: server_rules steps_Pair)

section \<open>The system\<close>

text \<open>
  Everything that can happen to the client of a remote database, in any order: events of sockets
  and streams with the callbacks of this class, timers and continuations of the resilient layer,
  and calls of the public operations.
\<close>

inductive srv_event for m :: "'c mechanism" and env :: server_env where
  mux: "mux_event (streamCallbacks (server_handlers m env)) (socketCallbacks (server_handlers m env)) w w' \<Longrightarrow> srv_event m env w w'"
| timer: "(i, t) \<in> set (timers w) \<Longrightarrow> srv_event m env w (snd (runResilientTask (server_handlers m env) i t w))"
| job: "j \<in> set (rjobs w) \<Longrightarrow> ready w j \<Longrightarrow> srv_event m env w (snd (runJob (server_handlers m env) b j w))"
| connected: "srv_event m env w (snd (newResilientSocket s w))"
| open_stream: "srv_event m env w (snd (r_open resilient r w))"
| close_socket: "srv_event m env w (snd (r_closeSocket r w))"
| error_socket: "srv_event m env w (snd (r_errorSocket (server_handlers m env) r code msg w))"
| responsive: "srv_event m env w (snd (isSocketResponsive r w))"
| request: "srv_event m env w (snd (makeRequest a req w))"
| server_tail: "srv_event m env w (snd (establishServerTail m defs x w))"
| local_tail: "srv_event m env w (snd (establishLocalTail m scs x w))"
| local_change: "srv_event m env w (snd (localTail_onFile t p w))"
| mirror: "srv_event m env w (snd (mirror_begin m defs w))"
| setup_table: "srv_event m env w (snd (setupTable m rem d w))"

lemma r_errorSocket_steps: "mux_steps (r_errorSocket (server_handlers m env) r code msg)"
proof -
  let ?ap = "server_handlers m env"
  have "mux_steps (case rs_socket (rsockets v r) of
       Some s \<Rightarrow> andThen (settleWith u (r_errorWith ?ap r s code msg)) (\<lambda>_. ret u)
     | None \<Rightarrow> (\<lambda>w. case getSocket r w of
           (Inl e, w') \<Rightarrow> andThen (settle u (Rejected e)) (\<lambda>_. ret u) w'
         | (Inr p, w') \<Rightarrow> andThen (addJob (JErrorSocket r code msg p u)) (\<lambda>_. ret u) w'))"
    for u and v :: "'a srv"
    by (auto split: option.splits intro!: then_ret_steps settleWith_steps srv.r_errorWith_steps
        case_result_steps getSocket_steps settle_steps ext_steps)
  from steps_by_world [OF this] show ?thesis
    unfolding r_errorSocket_def
    by (intro steps_andThen preorder_evolves newPromise_steps)
      (simp add: option.case_distrib [of "\<lambda>f. f _"] cong: option.case_cong)
qed

lemma srv_event_step:
  assumes "srv_event m env w w'" "mux_inv w"
  shows "mux_inv w' \<and> evolves w w'"
  using assms(1)
proof cases
  case mux
  then show ?thesis using assms(2) by (rule srv.socket.mux_event_step)
next
  case (timer i t)
  with srv.runResilientTask_step [OF assms(2)] show ?thesis by (simp add: step_at_def)
next
  case job
  then show ?thesis using stepsD [OF srv.runJob_steps assms(2)] by simp
next
  case connected
  then show ?thesis using stepsD [OF newResilient_steps(1) assms(2)] by simp
next
  case open_stream
  then show ?thesis using stepsD [OF r_open_steps assms(2)] by simp
next
  case close_socket
  then show ?thesis using stepsD [OF r_closeSocket_steps assms(2)] by simp
next
  case error_socket
  then show ?thesis using stepsD [OF r_errorSocket_steps assms(2)] by simp
next
  case responsive
  then show ?thesis using stepsD [OF isSocketResponsive_steps assms(2)] by simp
next
  case request
  then show ?thesis using stepsD [OF makeRequest_steps assms(2)] by simp
next
  case server_tail
  then show ?thesis using stepsD [OF establish_steps(1) assms(2)] by simp
next
  case local_tail
  then show ?thesis using stepsD [OF establish_steps(2) assms(2)] by simp
next
  case local_change
  then show ?thesis using stepsD [OF localTail_steps(3) assms(2)] by simp
next
  case mirror
  then show ?thesis using stepsD [OF mirror_steps(1) assms(2)] by simp
next
  case setup_table
  then show ?thesis using stepsD [OF mirror_steps(2) assms(2)] by simp
qed

lemma srv_events_step:
  assumes "(srv_event m env)\<^sup>*\<^sup>* w w'" "mux_inv w"
  shows "mux_inv w' \<and> evolves w w'"
  using assms
proof (induction rule: rtranclp_induct)
  case (step u v)
  with srv_event_step [of m env u v] show ?case by (blast intro: evolves_trans)
qed simp

text \<open>A client before it connects.\<close>

definition init_server :: "'c \<Rightarrow> jsstring \<Rightarrow> jsstring \<Rightarrow> 'c srv" where
  "init_server c uid key = \<lparr>sockets = (\<lambda>_. newMuxedSocket),
     streams = (\<lambda>_. (newStreamObject 0 0)\<lparr>st_state := S_CLOSED\<rparr>),
     conns = (\<lambda>_. \<lparr>muxSocket = None, failed = False, connPromise = 0, connTimer = 0\<rparr>),
     promises = (\<lambda>_. Pending), timers = [], jobs = [], out = [],
     nextConn = 0, nextSocketAddr = 0, nextStreamAddr = 0, nextPromise = 0, nextTimer = 0,
     rsockets = (\<lambda>_. \<lparr>rs_socket = None, socketQueue = [], permanentFailureReason = None, rs_onStream = None\<rparr>),
     rstreams = (\<lambda>_. \<lparr>rst_socket = 0, rst_stream = None, failureDetectionTimeout = None, rst_onData = None,
       rst_onReconnect = None\<rparr>),
     rjobs = [], nextRSocket = 0, nextRStream = 0,
     mech_state = c, requests = (\<lambda>_. \<lparr>rq_decoder = newDecoder, rq_response = NoResponse\<rparr>), nextRequest = 0,
     tails = (\<lambda>_. \<lparr>tl_stream = 0, tl_decoder = newDecoder, tl_resolved = False, tl_defs = [], tl_schemas = [],
       tl_session = []\<rparr>), nextTail = 0,
     connection = 0, replicationUid = uid, srv_accessKey = key, localTailSession = None, mirroredTables = [],
     mirrorStreams = [], onRebootSet = False, notices = []\<rparr>"

lemma init_server_inv: "mux_inv (init_server c uid key)"
  by (simp add: mux_inv_def socket_ok_def stream_ok_def alloc_ok_def init_server_def newMuxedSocket_def)

end
