(* ===== verification/Client_System.thy ===== *)
theory Client_System
  imports Skdb_Server
begin

text \<open>
  Properties of a whole client of a remote database, over every sequence of events of the
  relation \<open>srv_event\<close>, and the functional behaviour of the operations of sockets, streams and the
  resilient layer on their branches.
\<close>

section \<open>Properties of reachable clients\<close>

abbreviation reachable :: "'c mechanism \<Rightarrow> server_env \<Rightarrow> 'c srv \<Rightarrow> bool" where
  "reachable m env w \<equiv> \<exists>c uid key. (srv_event m env)\<^sup>*\<^sup>* (init_server c uid key) w"

lemma reachable_inv: "reachable m env w \<Longrightarrow> mux_inv w"
  by (erule exE)+ (drule srv_events_step [OF _ init_server_inv], erule conjunct1)

text \<open>
  C2: whatever happens to a client, no two streams it ever created on a socket have the same
  number; the numbers of its own streams are odd and below the next number of the socket, those of
  the server's are even and at most the watermark; every entry of a socket's map of active streams
  is a stream of that socket under its own number; and a closed socket has no active streams.
\<close>

theorem stream_numbers_unique:
  assumes "reachable m env w"
  shows "(\<forall>a < nextStreamAddr w. \<forall>b < nextStreamAddr w.
            st_socket (streams w a) = st_socket (streams w b) \<and> streamId (streams w a) = streamId (streams w b)
            \<longrightarrow> a = b)
    \<and> (\<forall>a < nextStreamAddr w.
         if odd (streamId (streams w a)) then streamId (streams w a) < nextStream (sockets w (st_socket (streams w a)))
         else streamId (streams w a) \<le> serverStreamWatermark (sockets w (st_socket (streams w a))))
    \<and> (\<forall>s k a. map_of (activeStreams (sockets w s)) k = Some a \<longrightarrow>
         streamId (streams w a) = k \<and> st_socket (streams w a) = s)
    \<and> (\<forall>s. state (sockets w s) = CLOSED \<longrightarrow> activeStreams (sockets w s) = [])"
proof -
  note inv = reachable_inv [OF assms, unfolded mux_inv_def]
  have "streamId (streams w a) = k \<and> st_socket (streams w a) = s"
    if "map_of (activeStreams (sockets w s)) k = Some a" for s k a
  proof -
    have "socket_ok w s" using inv by blast
    then show ?thesis using map_of_SomeD [OF that] unfolding socket_ok_def by blast
  qed
  moreover have "\<forall>s. state (sockets w s) = CLOSED \<longrightarrow> activeStreams (sockets w s) = []"
    using inv unfolding socket_ok_def by blast
  ultimately show ?thesis
    using inv unfolding stream_ok_def Let_def by blast
qed

lemma code_points_Cons: "\<not> is_high c \<Longrightarrow> \<not> is_low c \<Longrightarrow> code_points (c # s) = unat c # code_points s"
  by (cases s) simp_all

definition demo_creds :: Creds where
  "demo_creds = \<lparr>accessKey = js ''k'', deviceUuid = replicate 36 0x61\<rparr>"

definition demo_auth :: "js_error + bytes" where
  "demo_auth = encodeAuthMsg demo_creds (replicate 8 0) (replicate 24 0x30) (\<lambda>_. replicate 32 0)"

lemma demo_auth_ok: "\<exists>b. demo_auth = Inr b"
proof -
  have "code_points (replicate n c) = replicate n (unat c)" if "\<not> is_high c" "\<not> is_low c" for n c
    using that by (induction n) (auto simp: code_points_Cons)
  then show ?thesis
    unfolding demo_auth_def
    by (subst encodeAuthMsg_layout)
      (simp_all add: demo_creds_def text_eval length_concat sum_list_replicate map_replicate_const)
qed

text \<open>A run: connect, the socket opens, the signature arrives, two streams are opened.\<close>

abbreviation demo0 :: "unit srv" where "demo0 \<equiv> init_server () [] []"

definition demo1 :: "unit srv" where "demo1 = snd (connect demo0)"
definition demo2 :: "unit srv" where "demo2 = snd (connect_open 0 demo1)"
definition demo3 :: "unit srv" where
  "demo3 = snd (sendAuth_resume 0 (Some 0) demo_auth (demo2\<lparr>jobs := remove1 (AuthJob 0 (Some 0)) (jobs demo2)\<rparr>))"
definition demo4 :: "unit srv" where "demo4 = snd (openStream 0 demo3)"
definition demo_world :: "unit srv" where "demo_world = snd (openStream 0 demo4)"

lemma init_server_sel:
  "sockets (init_server c uid key) = (\<lambda>_. newMuxedSocket)"
  "streams (init_server c uid key) = (\<lambda>_. (newStreamObject 0 0)\<lparr>st_state := S_CLOSED\<rparr>)"
  "promises (init_server c uid key) = (\<lambda>_. Pending)"
  "timers (init_server c uid key) = []" "jobs (init_server c uid key) = []" "out (init_server c uid key) = []"
  "nextConn (init_server c uid key) = 0" "nextSocketAddr (init_server c uid key) = 0"
  "nextStreamAddr (init_server c uid key) = 0" "nextPromise (init_server c uid key) = 0"
  "nextTimer (init_server c uid key) = 0"
  by (simp_all add: init_server_def)

lemma demo1_sel:
  "sockets demo1 = (\<lambda>_. newMuxedSocket)" "jobs demo1 = []" "nextSocketAddr demo1 = 0" "nextStreamAddr demo1 = 0"
  "conns demo1 0 = \<lparr>muxSocket = None, failed = False, connPromise = 0, connTimer = 0\<rparr>"
  by (simp_all add: demo1_def connect_def newPromise_def setTimeout_def init_server_sel Let_def andThen_assoc)

lemma demo2_sel:
  "sockets demo2 0 = newMuxedSocket" "jobs demo2 = [AuthJob 0 (Some 0)]" "nextStreamAddr demo2 = 0"
  by (simp_all add: demo2_def connect_open_def clearTimeout_def newSocket_def sendAuth_def demo1_sel
      newMuxedSocket_def andThen_assoc)

lemma demo3_sel:
  "state (sockets demo3 0) = AUTH_SENT" "activeStreams (sockets demo3 0) = []" "nextStream (sockets demo3 0) = 1"
  "nextStreamAddr demo3 = 0" "serverStreamWatermark (sockets demo3 0) = 0"
proof -
  obtain b where b: "demo_auth = Inr b" using demo_auth_ok by auto
  show "state (sockets demo3 0) = AUTH_SENT" "activeStreams (sockets demo3 0) = []" "nextStream (sockets demo3 0) = 1"
    "nextStreamAddr demo3 = 0" "serverStreamWatermark (sockets demo3 0) = 0"
    by (simp_all add: demo3_def sendAuth_resume_def b emit_def updSocket_def clearTimeout_def setTimeout_def
        authDone_def settle_def demo2_sel newMuxedSocket_def andThen_assoc)
qed

lemma openStream_eval:
  assumes "state (sockets w s) = AUTH_SENT"
  shows "nextStreamAddr (snd (openStream s w)) = nextStreamAddr w + 1"
    "streams (snd (openStream s w)) = (streams w)(nextStreamAddr w := newStreamObject s (nextStream (sockets w s)))"
    "state (sockets (snd (openStream s w)) s) = AUTH_SENT"
    "nextStream (sockets (snd (openStream s w)) s) = nextStream (sockets w s) + 2"
  using assms
  by (simp_all add: openStream_def newPromise_def openStream_fn_def newStream_def updSocket_def settle_def Let_def
      andThen_assoc)

lemma demo_world_sel:
  "nextStreamAddr demo_world = 2" "streams demo_world 0 = newStreamObject 0 1" "streams demo_world 1 = newStreamObject 0 3"
  "state (sockets demo_world 0) = AUTH_SENT"
  using openStream_eval [OF demo3_sel(1)] openStream_eval [of demo4 0]
  by (simp_all add: demo_world_def demo4_def demo3_sel eval_nat_numeral)

lemma mux_srv_event:
  "mux_event (streamCallbacks (server_handlers m env)) (socketCallbacks (server_handlers m env)) w w' \<Longrightarrow> (srv_event m env)\<^sup>*\<^sup>* u w \<Longrightarrow>
     (srv_event m env)\<^sup>*\<^sup>* u w'"
  by (meson srv_event.mux rtranclp.rtrancl_into_rtrancl)

lemma demo_world_reachable: "(srv_event m env)\<^sup>*\<^sup>* demo0 demo_world"
proof -
  have "(srv_event m env)\<^sup>*\<^sup>* demo0 demo1"
    unfolding demo1_def by (rule mux_srv_event [OF mux_event.connect]) simp
  then have "(srv_event m env)\<^sup>*\<^sup>* demo0 demo2"
    unfolding demo2_def by (rule mux_srv_event [OF mux_event.ws_open])
  then have "(srv_event m env)\<^sup>*\<^sup>* demo0 demo3"
    unfolding demo3_def demo_auth_def by (rule mux_srv_event [OF mux_event.signed, rotated]) (simp add: demo2_sel)
  then have "(srv_event m env)\<^sup>*\<^sup>* demo0 demo4"
    unfolding demo4_def by (rule mux_srv_event [OF mux_event.open_stream])
  then show ?thesis
    unfolding demo_world_def by (rule mux_srv_event [OF mux_event.open_stream])
qed

theorem stream_numbers_unique_witness:
  "streamId (streams demo_world 0) \<noteq> streamId (streams demo_world 1)
    \<and> streamId (streams demo_world 1) < nextStream (sockets demo_world 0)"
proof -
  have "reachable undefined undefined demo_world" using demo_world_reachable by blast
  note u = stream_numbers_unique [OF this]
  from u [THEN conjunct1, rule_format, of 0 1] u [THEN conjunct2, THEN conjunct1, rule_format, of 1]
  show ?thesis by (simp add: demo_world_sel demo_world_sel(3) [unfolded One_nat_def] newStreamObject_def)
qed

text \<open>
  C1: once the local side of a stream is closed, whatever happens afterwards, the client never
  sends another data, close or reset frame with that stream's number on that socket.
\<close>

theorem no_frame_after_local_close:
  assumes "reachable m env w" and "(srv_event m env)\<^sup>*\<^sup>* w w'"
    and "a < nextStreamAddr w" and "local_closed (st_state (streams w a))"
  shows "\<exists>es. out w' = out w @ es
    \<and> (\<forall>b. Sent (st_socket (streams w a)) b \<in> set es \<longrightarrow> stream_frame b \<noteq> Some (streamId (streams w a)))"
proof -
  have "evolves w w'" using srv_events_step [OF assms(2) reachable_inv [OF assms(1)]] ..
  then obtain es where "out w' = out w @ es" "\<forall>e \<in> set es. \<not> late_frame w e"
    by (auto simp: evolves_def)
  with assms(3,4) show ?thesis by (fastforce simp: late_frame_def)
qed

definition demo_closed :: "unit srv" where "demo_closed = snd (close 0 demo_world)"

lemma close_eval: "st_state (streams w a) = S_OPEN \<Longrightarrow>
    local_closed (st_state (streams (snd (close a w)) a)) \<and> nextStreamAddr (snd (close a w)) = nextStreamAddr w"
  using streamClose_effect [of "st_socket (streams w a)" "streamId (streams w a)" "with_state a S_CLOSING w" False]
  by (auto simp: close_def updStream_def frame_effect_def local_closed_def Let_def)

theorem no_frame_after_local_close_witness:
  "\<exists>es. out (snd (send 0 [1] demo_closed)) = out demo_closed @ es
    \<and> (\<forall>b. Sent (st_socket (streams demo_closed 0)) b \<in> set es
          \<longrightarrow> stream_frame b \<noteq> Some (streamId (streams demo_closed 0)))"
proof (rule no_frame_after_local_close)
  show "reachable undefined undefined demo_closed"
    unfolding demo_closed_def using mux_srv_event [OF mux_event.stream_close demo_world_reachable] by blast
  show "(srv_event undefined undefined)\<^sup>*\<^sup>* demo_closed (snd (send 0 [1] demo_closed))"
    using mux_srv_event [OF mux_event.stream_send] by blast
  show "0 < nextStreamAddr demo_closed" "local_closed (st_state (streams demo_closed 0))"
    unfolding demo_closed_def using close_eval [of demo_world 0] by (simp_all add: demo_world_sel newStreamObject_def)
qed

text \<open>
  C3: a stream keeps its socket and its number for ever, and each of its two sides, once closed,
  stays closed; numbers handed out by a socket only grow.
\<close>

theorem stream_sides_stay_closed:
  assumes "reachable m env w" and "(srv_event m env)\<^sup>*\<^sup>* w w'" and "a < nextStreamAddr w"
  shows "st_socket (streams w' a) = st_socket (streams w a) \<and> streamId (streams w' a) = streamId (streams w a)
    \<and> (local_closed (st_state (streams w a)) \<longrightarrow> local_closed (st_state (streams w' a)))
    \<and> (remote_closed (st_state (streams w a)) \<longrightarrow> remote_closed (st_state (streams w' a)))
    \<and> nextStream (sockets w s) \<le> nextStream (sockets w' s)"
proof -
  have "evolves w w'" using srv_events_step [OF assms(2) reachable_inv [OF assms(1)]] ..
  with assms(3) show ?thesis by (simp add: evolves_def same_stream_def st_le_def)
qed

theorem stream_sides_stay_closed_witness:
  "streamId (streams demo_closed 0) = 1 \<and> nextStream (sockets demo_world 0) \<le> nextStream (sockets demo_closed 0)"
proof -
  have r: "reachable undefined undefined demo_world" using demo_world_reachable by blast
  have "(srv_event undefined undefined)\<^sup>*\<^sup>* demo_world demo_closed"
    unfolding demo_closed_def using mux_srv_event [OF mux_event.stream_close] by blast
  from stream_sides_stay_closed [OF r this, of 0 0] show ?thesis
    by (simp add: demo_world_sel newStreamObject_def)
qed

section \<open>Half-closing\<close>

text \<open>The abstract stream: which of its two sides are closed.\<close>

definition halves :: "StreamState \<Rightarrow> bool \<times> bool" where
  "halves st = (local_closed st, remote_closed st)"

lemma halves_simps [simp]:
  "halves S_OPEN = (False, False)" "halves S_CLOSING = (True, False)"
  "halves S_CLOSEWAIT = (False, True)" "halves S_CLOSED = (True, True)"
  by (simp_all add: halves_def local_closed_def remote_closed_def)

lemma frame_effect_streams: "frame_effect s sid w w' \<Longrightarrow> streams w' = streams w"
  by (auto simp: frame_effect_def)

text \<open>The frames of a stream leave on its socket while that is authenticated and not closed from this side, if its number fits a frame.\<close>

definition sending :: "('h, 'a) mux_world_scheme \<Rightarrow> nat \<Rightarrow> bool" where
  "sending w a \<longleftrightarrow> state (sockets w (st_socket (streams w a))) \<in> {AUTH_SENT, CLOSEWAIT} \<and> streamId (streams w a) < 2 ^ 24"

abbreviation stream_sent :: "('h, 'a) mux_world_scheme \<Rightarrow> nat \<Rightarrow> nat \<Rightarrow> bytes \<Rightarrow> effect" where
  "stream_sent w a kd body \<equiv> Sent (st_socket (streams w a)) (be 4 (kd * 2 ^ 24 + streamId (streams w a)) @ body)"

text \<open>A callback that is set is called; its error is the error of the caller.\<close>

definition notified_by :: "'h option \<Rightarrow> ('h \<Rightarrow> ('w, unit) js) \<Rightarrow> 'r \<Rightarrow> ('w, 'r) js" where
  "notified_by cb f r w = (case cb of None \<Rightarrow> (Inr r, w)
     | Some h \<Rightarrow> (case f h w of (Inl e, w') \<Rightarrow> (Inl e, w') | (Inr _, w') \<Rightarrow> (Inr r, w')))"

lemma notified_by_run: "andThen (callIf cb f) (\<lambda>_. ret r) w = notified_by cb f r w"
  by (auto simp: notified_by_def callIf_def andThen_def split: option.splits prod.splits sum.splits)

lemma notified_by_unit: "callIf cb f w = notified_by cb f () w"
  by (auto simp: notified_by_def callIf_def split: option.splits prod.splits sum.splits)

lemma close_halves:
  "halves (st_state (streams (snd (close a w)) a)) = (True, snd (halves (st_state (streams w a))))"
  using streamClose_effect [of "st_socket (streams w a)" "streamId (streams w a)" "with_state a S_CLOSING w" False, THEN frame_effect_streams]
    streamClose_effect [of "st_socket (streams w a)" "streamId (streams w a)" "with_state a S_CLOSED w" True, THEN frame_effect_streams]
  by (cases "st_state (streams w a)") (simp_all add: close_def updStream_def Let_def)

lemma error_halves: "halves (st_state (streams (snd (error a code msg w)) a)) = (True, True)"
  using streamError_effect [of "st_socket (streams w a)" "streamId (streams w a)" "with_state a S_CLOSED w" code msg, THEN frame_effect_streams]
  by (cases "st_state (streams w a)") (simp_all add: error_def updStream_def Let_def)

lemma close_sends:
  assumes "sending w a"
  shows "fst (close a w) = Inr () \<and> out (snd (close a w)) = out w @ (if fst (halves (st_state (streams w a))) then [] else [stream_sent w a 3 []])"
  using assms unfolding sending_def
  by (cases "st_state (streams w a)")
    (auto simp: close_def streamClose_def updStream_def updSocket_def emit_def Let_def andThen_def encodeStreamCloseMsg_layout)

lemma error_sends:
  assumes "sending w a"
  shows "fst (error a code msg w) = Inr () \<and> out (snd (error a code msg w)) = out w @
    (if fst (halves (st_state (streams w a))) then []
     else [stream_sent w a 4 (be 4 code @ be 4 (length (utf8_encode msg)) @ utf8_encode msg)])"
  using assms unfolding sending_def
  by (cases "st_state (streams w a)")
    (auto simp: error_def streamError_def updStream_def updSocket_def emit_def Let_def andThen_def encodeStreamResetMsg_layout)

lemma send_sends:
  "fst (halves (st_state (streams w a))) \<Longrightarrow> send a data w = (Inr (), w)"
  "\<not> fst (halves (st_state (streams w a))) \<Longrightarrow> sending w a \<Longrightarrow>
     send a data w = (Inr (), w\<lparr>out := out w @ [stream_sent w a 2 data]\<rparr>)"
  unfolding sending_def
  by (cases "st_state (streams w a)";
      auto simp: send_def streamSend_def emit_def Let_def andThen_def encodeStreamDataMsg_layout)+

text \<open>
  C4: a stream implements a channel whose two sides close separately. Closing it closes the local
  side and keeps the remote one; an error closes both; both send one frame, of their kind and with the number of the stream,
  exactly if the local side was open. Data are sent in exactly one data frame, with the state of the stream as it was, if the local side is
  open, and not at all otherwise. Data of the peer reach the data callback exactly if the remote side is open. A close frame of the peer closes the
  remote side and keeps the local one before the close callback runs, the answer is whether both sides
  were then closed; a reset closes both before the error callback runs; neither does anything to a side that is closed already.
  Frames leave while the socket of the stream sends (it is authenticated and not closed from this side) and the number fits in 24 bits.
\<close>

theorem stream_refines_halves:
  assumes "halves (st_state (streams w a)) = (l, r)"
  shows "halves (st_state (streams (snd (close a w)) a)) = (True, r)
    \<and> halves (st_state (streams (snd (error a code msg w)) a)) = (True, True)
    \<and> (sending w a \<longrightarrow> out (snd (close a w)) = out w @ (if l then [] else [stream_sent w a 3 []])
        \<and> out (snd (error a code msg w)) = out w @
            (if l then [] else [stream_sent w a 4 (be 4 code @ be 4 (length (utf8_encode msg)) @ utf8_encode msg)]))
    \<and> (l \<longrightarrow> send a data w = (Inr (), w))
    \<and> (\<not> l \<and> sending w a \<longrightarrow> send a data w = (Inr (), w\<lparr>out := out w @ [stream_sent w a 2 data]\<rparr>))
    \<and> onStreamData hs a data w =
        (if r then (Inr (), w) else notified_by (st_onData (streams w a)) (\<lambda>h. hData hs h data) () w)
    \<and> (\<exists>v. halves v = (l, True) \<and> onStreamClose hs a w =
        (if r then (Inr l, w) else notified_by (st_onClose (streams w a)) (hClose hs) l (with_state a v w)))
    \<and> onStreamError hs a code msg w =
        (if l \<and> r then (Inr (), w)
         else notified_by (st_onError (streams w a)) (\<lambda>h. hError hs h code msg) () (with_state a S_CLOSED w))"
proof -
  have "onStreamData hs a data w =
      (if r then (Inr (), w) else notified_by (st_onData (streams w a)) (\<lambda>h. hData hs h data) () w)"
    using assms by (cases "st_state (streams w a)") (auto simp: onStreamData_def Let_def notified_by_unit)
  moreover have "\<exists>v. halves v = (l, True) \<and> onStreamClose hs a w =
      (if r then (Inr l, w) else notified_by (st_onClose (streams w a)) (hClose hs) l (with_state a v w))"
    using assms
    by (intro exI [of _ "if l then S_CLOSED else S_CLOSEWAIT"], cases "st_state (streams w a)")
      (auto simp: onStreamClose_def Let_def updStream_def notified_by_run)
  moreover have "onStreamError hs a code msg w =
      (if l \<and> r then (Inr (), w)
       else notified_by (st_onError (streams w a)) (\<lambda>h. hError hs h code msg) () (with_state a S_CLOSED w))"
    using assms by (cases "st_state (streams w a)") (auto simp: onStreamError_def Let_def updStream_def notified_by_unit)
  ultimately show ?thesis
    using assms close_halves [of a w] error_halves [of a code msg w] close_sends [of w a] error_sends [of w a code msg]
      send_sends [of w a data] by simp
qed

theorem stream_refines_halves_witness:
  "halves (st_state (streams (snd (close 0 demo_world)) 0)) = (True, False)
    \<and> send 0 [7] demo_world = (Inr (), demo_world\<lparr>out := out demo_world @ [Sent 0 (be 4 (2 * 2 ^ 24 + 1) @ [7])]\<rparr>)
    \<and> out (snd (close 0 demo_world)) = out demo_world @ [Sent 0 (be 4 (3 * 2 ^ 24 + 1))]"
proof -
  have "halves (st_state (streams demo_world 0)) = (False, False)" by (simp add: demo_world_sel newStreamObject_def)
  from stream_refines_halves [OF this, of 0 "[]" "[7]" "streamCallbacks (server_handlers undefined undefined)"]
  show ?thesis by (simp add: sending_def demo_world_sel newStreamObject_def)
qed

text \<open>
  Once the remote side of a stream is closed, data and further close frames of the peer reach
  no callback and change nothing.
\<close>

theorem remote_closed_is_silent:
  assumes "remote_closed (st_state (streams w a))"
  shows "onStreamData hs a data w = (Inr (), w)
    \<and> onStreamClose hs a w = (Inr (st_state (streams w a) = S_CLOSED), w)"
  using assms by (auto simp: remote_closed_def onStreamData_def onStreamClose_def)

theorem remote_closed_is_silent_witness:
  "onStreamData (streamCallbacks (server_handlers undefined undefined)) 0 [1] (with_state 0 S_CLOSEWAIT demo_world)
     = (Inr (), with_state 0 S_CLOSEWAIT demo_world)"
  using remote_closed_is_silent [of "with_state 0 S_CLOSEWAIT demo_world" 0
      "streamCallbacks (server_handlers undefined undefined)" "[1]"]
  by (simp add: remote_closed_def)

section \<open>A socket closed while its authentication is being signed\<close>

definition demo_shut :: "unit srv" where "demo_shut = snd (closeSocket 0 demo2)"

definition demo_revived :: "unit srv" where
  "demo_revived = snd (sendAuth_resume 0 (Some 0) demo_auth
     (demo_shut\<lparr>jobs := remove1 (AuthJob 0 (Some 0)) (jobs demo_shut)\<rparr>))"

lemma demo_shut_sel: "state (sockets demo_shut 0) = CLOSED" "jobs demo_shut = [AuthJob 0 (Some 0)]"
  by (simp_all add: demo_shut_def closeSocket_def demo2_sel newMuxedSocket_def shutSocket_eq emit_def andThen_def)

lemma demo_revived_sel:
  "state (sockets demo_revived 0) = AUTH_SENT" "\<exists>i. (i, ReauthTask 0) \<in> set (timers demo_revived)"
  "nextConn demo_revived = nextConn demo_shut"
proof -
  obtain b where b: "demo_auth = Inr b" using demo_auth_ok by auto
  show "state (sockets demo_revived 0) = AUTH_SENT" "\<exists>i. (i, ReauthTask 0) \<in> set (timers demo_revived)"
    "nextConn demo_revived = nextConn demo_shut"
    by (auto simp: demo_revived_def sendAuth_resume_def b emit_def updSocket_def clearTimeout_def setTimeout_def
        authDone_def settle_def andThen_assoc split: option.splits)
qed

text \<open>
  Closing a socket while its authentication message is being signed does not last: there is a
  client whose socket is closed and later, with no reconnection in between, is authenticated again
  and has its re-authentication timer armed.
\<close>

theorem closed_socket_revives:
  "\<exists>w w' :: unit srv. reachable m env w \<and> state (sockets w 0) = CLOSED \<and> (srv_event m env)\<^sup>*\<^sup>* w w'
     \<and> state (sockets w' 0) = AUTH_SENT \<and> (\<exists>i. (i, ReauthTask 0) \<in> set (timers w'))
     \<and> nextConn w' = nextConn w"
proof -
  have "(srv_event m env)\<^sup>*\<^sup>* demo0 demo2"
    unfolding demo2_def demo1_def
    by (rule mux_srv_event [OF mux_event.ws_open], rule mux_srv_event [OF mux_event.connect]) simp
  then have "(srv_event m env)\<^sup>*\<^sup>* demo0 demo_shut"
    unfolding demo_shut_def by (rule mux_srv_event [OF mux_event.close_socket])
  then have "reachable m env demo_shut" by blast
  moreover have "(srv_event m env)\<^sup>*\<^sup>* demo_shut demo_revived"
    unfolding demo_revived_def demo_auth_def
    by (rule mux_srv_event [OF mux_event.signed]) (simp_all add: demo_shut_sel)
  ultimately show ?thesis using demo_shut_sel demo_revived_sel by blast
qed

section \<open>Closing and erroring a socket\<close>

lemma andThen_Inr:
  "fst (andThen m k w) = Inr y \<Longrightarrow> \<exists>x w'. m w = (Inr x, w') \<and> fst (k x w') = Inr y \<and> snd (andThen m k w) = snd (k x w')"
  by (auto simp: andThen_def split: prod.splits sum.splits)

lemma shut_then:
  assumes "fst (andThen (shutSocket s) k w) = Inr y"
  shows "\<exists>w'. snd (andThen (shutSocket s) k w) = snd (k () w') \<and> fst (k () w') = Inr y
    \<and> state (sockets w' s) = CLOSED \<and> activeStreams (sockets w' s) = [] \<and> out w' = out w
    \<and> nextStream (sockets w' s) = nextStream (sockets w s)
    \<and> serverStreamWatermark (sockets w' s) = serverStreamWatermark (sockets w s)"
  using assms by (auto simp: andThen_def shutSocket_eq)

text \<open>
  An error of a socket that ends without an exception leaves the socket closed with no active
  streams; if the socket was authenticated or half closed, the last two things it did to the
  \<open>WebSocket\<close> are a goaway frame with the highest stream number used on either side and the error
  code, and closing it with code 4000.
\<close>

theorem errorSocket_closes:
  assumes "errorSocket hs s code msg w = (Inr (), w')"
  shows "state (sockets w' s) = CLOSED \<and> activeStreams (sockets w' s) = []
    \<and> (state (sockets w s) \<in> {AUTH_SENT, CLOSEWAIT} \<longrightarrow>
        (\<exists>pre b. out w' = pre @ [Sent s b, SocketClosed s (Some 4000)]
          \<and> encodeGoawayMsg (max (nextStream (sockets w' s) - 2) (serverStreamWatermark (sockets w' s))) code msg = Inr b))"
proof (cases "state (sockets w s) \<in> {AUTH_SENT, CLOSEWAIT}")
  case True
  let ?goaway = "reads (\<lambda>w. let so = sockets w s; lastStream = max (nextStream so - 2) (serverStreamWatermark so) in
          andThen (lift (encodeGoawayMsg lastStream code msg)) (\<lambda>b.
          andThen (emit (Sent s b)) (\<lambda>_. emit (SocketClosed s (Some 4000)))))"
  have e: "andThen (forActive s (\<lambda>a. onStreamError hs a code msg)) (\<lambda>_. andThen (shutSocket s) (\<lambda>_. ?goaway)) w = (Inr (), w')"
    using assms True by (auto simp: errorSocket_def)
  then obtain x v where "fst (andThen (shutSocket s) (\<lambda>_. ?goaway) v) = Inr ()"
    "w' = snd (andThen (shutSocket s) (\<lambda>_. ?goaway) v)"
    using andThen_Inr [of "forActive s (\<lambda>a. onStreamError hs a code msg)" "\<lambda>_. andThen (shutSocket s) (\<lambda>_. ?goaway)" w "()"]
    by fastforce
  with shut_then [of s "\<lambda>_. ?goaway" v "()"] obtain u where
    u: "w' = snd (?goaway u)" "fst (?goaway u) = Inr ()" "state (sockets u s) = CLOSED" "activeStreams (sockets u s) = []"
    by auto
  then obtain b where b: "encodeGoawayMsg (max (nextStream (sockets u s) - 2) (serverStreamWatermark (sockets u s))) code msg = Inr b"
    by (cases "encodeGoawayMsg (max (nextStream (sockets u s) - 2) (serverStreamWatermark (sockets u s))) code msg")
      (auto simp: Let_def)
  with u show ?thesis by (simp add: Let_def emit_def)
next
  case False
  then have "shutSocket s w = (Inr (), w')"
    using assms by (cases "state (sockets w s)") (auto simp: errorSocket_def)
  with False show ?thesis by (auto simp: shutSocket_eq)
qed

theorem errorSocket_closes_witness:
  "\<exists>w' pre b. errorSocket (streamCallbacks (server_handlers undefined undefined)) 0 7 (js ''x'') demo3 = (Inr (), w')
    \<and> state (sockets w' 0) = CLOSED \<and> out w' = pre @ [Sent 0 b, SocketClosed 0 (Some 4000)]"
proof -
  let ?hs = "streamCallbacks (server_handlers undefined undefined)"
  obtain w' where w': "errorSocket ?hs 0 7 (js ''x'') demo3 = (Inr (), w')"
    by (simp add: errorSocket_def forActive_none demo3_sel shutSocket_eq andThen_def Let_def emit_def
        encodeGoawayMsg_layout del: js_simps)
  from errorSocket_closes [OF this] w' show ?thesis by (auto simp: demo3_sel simp del: js_simps)
qed

section \<open>The resilient layer\<close>

lemma settle_all:
  "forEach ps (\<lambda>p. settle p v) w = (Inr (), w\<lparr>promises := (\<lambda>q. if q \<in> set ps \<and> promises w q = Pending then v else promises w q)\<rparr>)"
  if "v \<noteq> Pending"
proof (induction ps arbitrary: w)
  case (Cons p ps)
  let ?w = "if promises w p = Pending then w\<lparr>promises := (promises w)(p := v)\<rparr> else w"
  let ?F = "\<lambda>ps w q. if q \<in> set ps \<and> promises w q = Pending then v else promises w q"
  have "forEach (p # ps) (\<lambda>p. settle p v) w = forEach ps (\<lambda>p. settle p v) ?w"
    by (simp add: andThen_def settle_def)
  also have "\<dots> = (Inr (), ?w\<lparr>promises := ?F ps ?w\<rparr>)" by (rule Cons)
  also have "?w\<lparr>promises := ?F ps ?w\<rparr> = w\<lparr>promises := ?F ps ?w\<rparr>" by simp
  also have "?F ps ?w = ?F (p # ps) w" using that by (auto simp: fun_eq_iff)
  finally show ?case .
qed simp

lemma attachSocket_run:
  fixes w :: "('p, 'a) rworld_scheme"
  shows "fst (attachSocket r s w) = Inr ()
    \<and> promises (snd (attachSocket r s w)) =
        (\<lambda>q. if q \<in> set (socketQueue (rsockets w r)) \<and> promises w q = Pending then Resolved (PSocket s)
             else promises w q)
    \<and> rsockets (snd (attachSocket r s w)) = (rsockets w)(r := (rsockets w r)\<lparr>socketQueue := [], rs_socket := Some s\<rparr>)"
proof -
  have "forEach ps (\<lambda>p. settle p (Resolved (PSocket s))) v = (Inr (), v\<lparr>promises :=
      (\<lambda>q. if q \<in> set ps \<and> promises v q = Pending then Resolved (PSocket s) else promises v q)\<rparr>)"
    for ps and v :: "('p, 'a) rworld_scheme" by (rule settle_all) simp
  then show ?thesis
    by (auto simp: attachSocket_def setSocketCallbacks_def updSocket_def updRSocket_def andThen_def fun_eq_iff)
qed

text \<open>Requests for a socket while there is none: their promises are new and wait in the queue.\<close>

abbreviation waiting_for :: "nat \<Rightarrow> nat \<Rightarrow> ('p, 'a) rworld_scheme \<Rightarrow> ('p, 'a) rworld_scheme" where
  "waiting_for r n w \<equiv> w\<lparr>
     promises := (\<lambda>q. if nextPromise w \<le> q \<and> q < nextPromise w + n then Pending else promises w q), nextPromise := nextPromise w + n,
     rsockets := (rsockets w)(r := (rsockets w r)\<lparr>socketQueue := socketQueue (rsockets w r) @ [nextPromise w ..< nextPromise w + n]\<rparr>)\<rparr>"

lemma getSocket_waits:
  fixes w :: "('p, 'a) rworld_scheme"
  assumes "permanentFailureReason (rsockets w r) = None" "rs_socket (rsockets w r) = None"
  shows "mapM (replicate n ()) (\<lambda>_. getSocket r) w = (Inr [nextPromise w ..< nextPromise w + n], waiting_for r n w)"
  using assms
proof (induction n arbitrary: w)
  case 0
  have "(\<lambda>q. if nextPromise w \<le> q \<and> q < nextPromise w + 0 then Pending else promises w q) = promises w" by (rule ext) auto
  then show ?case by simp
next
  case (Suc n)
  let ?w = "waiting_for r 1 w"
  have g: "getSocket r w = (Inr (nextPromise w), ?w)"
    using Suc.prems by (simp add: getSocket_def newPromise_def updRSocket_def andThen_def fun_eq_iff fun_upd_def)
  have m: "mapM (replicate n ()) (\<lambda>_. getSocket r) ?w = (Inr [nextPromise ?w ..< nextPromise ?w + n], waiting_for r n ?w)"
    using Suc.prems by (intro Suc.IH) simp_all
  have eq: "waiting_for r n ?w = waiting_for r (Suc n) w"
    by (auto simp: fun_eq_iff upt_conv_Cons simp del: upt_Suc)
  have l: "nextPromise w # [nextPromise ?w ..< nextPromise ?w + n] = [nextPromise w ..< nextPromise w + Suc n]"
    by (simp add: upt_conv_Cons del: upt_Suc)
  have "mapM (replicate (Suc n) ()) (\<lambda>_. getSocket r) w
      = (Inr (nextPromise w # [nextPromise ?w ..< nextPromise ?w + n]), waiting_for r (Suc n) w)"
    unfolding replicate_Suc by (rule mapM_step, rule g) (rule m [unfolded eq])
  then show ?case unfolding l .
qed

text \<open>
  C39: whoever asks for a socket gets the one that is there, or waits for the next. With a current
  socket the promise is resolved with it at once. Without one, any number of requests get promises of
  their own, pending, at the end of the queue in the order of the requests; attaching a
  replacement socket then resolves every promise that waits in the queue, of these requests and of earlier ones,
  with that socket and leaves all other promises alone; the queue is empty, and the next request
  gets the new socket at once. This is for a resilient socket that has not failed for good.
\<close>

theorem attachSocket_serves_waiters:
  fixes w :: "('p, 'a) rworld_scheme"
  assumes ok: "permanentFailureReason (rsockets w r) = None" and new: "new = [nextPromise w ..< nextPromise w + n]"
  shows "(rs_socket (rsockets w r) = Some t \<longrightarrow> (\<exists>w'. getSocket r w = (Inr (nextPromise w), w')
        \<and> promises w' = (promises w)(nextPromise w := Resolved (PSocket t)) \<and> rsockets w' = rsockets w))
    \<and> (rs_socket (rsockets w r) = None \<longrightarrow> (\<exists>v v' p v''.
        mapM (replicate n ()) (\<lambda>_. getSocket r) w = (Inr new, v)
        \<and> socketQueue (rsockets v r) = socketQueue (rsockets w r) @ new
        \<and> (\<forall>p. promises v p = (if p \<in> set new then Pending else promises w p))
        \<and> attachSocket r s v = (Inr (), v')
        \<and> (\<forall>p. promises v' p = (if p \<in> set (socketQueue (rsockets v r)) \<and> promises v p = Pending
             then Resolved (PSocket s) else promises v p))
        \<and> socketQueue (rsockets v' r) = [] \<and> rs_socket (rsockets v' r) = Some s
        \<and> getSocket r v' = (Inr p, v'') \<and> promises v'' p = Resolved (PSocket s)))"
proof -
  have there: "\<exists>u'. getSocket r u = (Inr (nextPromise u), u') \<and> promises u' = (promises u)(nextPromise u := Resolved (PSocket t))
      \<and> rsockets u' = rsockets u"
    if "permanentFailureReason (rsockets u r) = None" "rs_socket (rsockets u r) = Some t" for u :: "('p, 'a) rworld_scheme" and t
    using that by (simp add: getSocket_def newPromise_def settle_def andThen_def)
  let ?v = "waiting_for r n w"
  obtain v' where v': "attachSocket r s ?v = (Inr (), v')"
    using attachSocket_run [of r s ?v] by (cases "attachSocket r s ?v") auto
  from attachSocket_run [of r s ?v] v' have a: "promises v' =
      (\<lambda>p. if p \<in> set (socketQueue (rsockets ?v r)) \<and> promises ?v p = Pending then Resolved (PSocket s) else promises ?v p)"
    "socketQueue (rsockets v' r) = []" "rs_socket (rsockets v' r) = Some s" "permanentFailureReason (rsockets v' r) = None"
    using ok by (simp_all add: fun_eq_iff)
  obtain v'' where g: "getSocket r v' = (Inr (nextPromise v'), v'')" "promises v'' (nextPromise v') = Resolved (PSocket s)"
    using there [OF a(4,3)] by auto
  have "\<forall>p. promises ?v p = (if p \<in> set new then Pending else promises w p)" by (auto simp: new)
  moreover have "\<forall>p. promises v' p = (if p \<in> set (socketQueue (rsockets ?v r)) \<and> promises ?v p = Pending
      then Resolved (PSocket s) else promises ?v p)" unfolding a(1) by blast
  moreover have "socketQueue (rsockets ?v r) = socketQueue (rsockets w r) @ new" by (simp add: new)
  moreover have "mapM (replicate n ()) (\<lambda>_. getSocket r) w = (Inr new, ?v)" if "rs_socket (rsockets w r) = None"
    unfolding new using getSocket_waits [OF ok that] .
  ultimately show ?thesis using there [OF ok] v' a(2,3) g by blast
qed

text \<open>A client whose current socket has been taken away.\<close>

theorem attachSocket_serves_waiters_witness:
  "\<exists>v v'. mapM (replicate 2 ()) (\<lambda>_. getSocket 0) (init_server () [] []) = (Inr [0, 1], v)
    \<and> attachSocket 0 5 v = (Inr (), v') \<and> promises v' 0 = Resolved (PSocket 5) \<and> promises v' 1 = Resolved (PSocket 5)
    \<and> promises v' 2 = Pending"
proof -
  let ?w = "init_server () [] [] :: unit srv"
  have "permanentFailureReason (rsockets ?w 0) = None" "rs_socket (rsockets ?w 0) = None" "socketQueue (rsockets ?w 0) = []"
    by (simp_all add: init_server_def)
  with attachSocket_serves_waiters [of ?w 0 "[0, 1]" 2 _ 5] show ?thesis
    by (fastforce simp: init_server_sel upt_conv_Cons)
qed

section \<open>Requests, reboots and mirroring\<close>

text \<open>
  A request whose message can be encoded sends exactly two frames on its stream, the message
  and the close of the local side; the stream is then half closed, its callbacks are those of the
  request, and the request has no answer yet.
\<close>

theorem makeRequest_sends:
  fixes w :: "'c srv"
  assumes "encodeProtoMsg id req = Inr b" and "st_state (streams w a) = S_OPEN"
    and "state (sockets w (st_socket (streams w a))) = AUTH_SENT" and "streamId (streams w a) < 2 ^ 24"
  shows "\<exists>w'. makeRequest a req w = (Inr (nextRequest w), w')
    \<and> out w' = out w @ [Sent (st_socket (streams w a)) (be 4 (2 * 2 ^ 24 + streamId (streams w a)) @ b),
                       Sent (st_socket (streams w a)) (be 4 (3 * 2 ^ 24 + streamId (streams w a)))]
    \<and> st_state (streams w' a) = S_CLOSING \<and> st_onData (streams w' a) = Some (App (ReqCb (nextRequest w)))
    \<and> rq_response (requests w' (nextRequest w)) = NoResponse"
  using assms encodeStreamDataMsg_layout [OF assms(4), of b] encodeStreamCloseMsg_layout [OF assms(4)]
  by (simp add: makeRequest_def newRequest_def setStreamCallbacks_def updStream_def send_def close_def
      streamSend_def streamClose_def emit_def Let_def andThen_def)

theorem makeRequest_sends_witness:
  "\<exists>w'. makeRequest 0 ProtoRequestCreateUser demo_world = (Inr (nextRequest demo_world), w')
    \<and> out w' = out demo_world @ [Sent 0 (be 4 (2 * 2 ^ 24 + 1) @ [6]), Sent 0 (be 4 (3 * 2 ^ 24 + 1))]"
proof -
  have e: "encodeProtoMsg id ProtoRequestCreateUser = Inr [6]"
    by (simp add: encodeCreateUser_layout be.simps)
  show ?thesis
    using makeRequest_sends [OF e, of demo_world 0] by (auto simp: demo_world_sel newStreamObject_def)
qed

subsection \<open>What sockets and streams do not touch\<close>

text \<open>Operations of sockets and streams that call no callback leave the extension of the world alone.\<close>

abbreviation keeps_ext :: "'x \<Rightarrow> (('h, 'x) mux_world_scheme, 'b) js \<Rightarrow> bool" where
  "keeps_ext x \<equiv> keeps (\<lambda>w. mux_world.more w = x)"

lemma ext_prims:
  "keeps_ext x (updSocket s f)" "keeps_ext x (updStream a g)" "keeps_ext x (emit e)" "keeps_ext x (clearTimeout t)"
  "keeps_ext x (settle p v)" "keeps_ext x newPromise"
  by (auto simp: keeps_def updSocket_def updStream_def emit_def clearTimeout_def settle_def newPromise_def split: option.split)

lemma ext_streamClose: "keeps_ext x (streamClose s sid nc)"
  unfolding streamClose_def
  by (intro keeps_reads_any) (auto split: MuxedSocketState.split intro!: keeps_andThen ext_prims)

lemma ext_close: "keeps_ext x (close a)"
  unfolding close_def Let_def
  by (intro keeps_reads_any) (auto split: StreamState.split intro!: keeps_andThen ext_prims ext_streamClose)

lemma keeps_forActive:
  assumes "\<And>a. keeps P (f a)"
  shows "keeps P (forActive s f)"
proof -
  have "keeps P (forLive n seen s f)" for n seen
    by (induction n arbitrary: seen)
      (auto intro!: keeps_reads_any keeps_andThen assms split: list.split simp: keeps_def [of P "throw _"] keeps_def [of P skip])
  then show ?thesis by (simp add: forActive_def)
qed

lemma ext_closeSocket: "keeps_ext x (closeSocket s)"
  unfolding closeSocket_def shutSocket_def
  by (intro keeps_reads_any)
    (auto split: MuxedSocketState.split option.split
      intro!: keeps_andThen ext_prims ext_close keeps_reads_any keeps_forActive)

text \<open>What is read from the extension is then the same.\<close>

lemma ext_same:
  fixes w w' :: "'c srv"
  assumes "mux_world.more w' = mux_world.more w"
  shows "mech_state w' = mech_state w" "rstreams w' = rstreams w" "rsockets w' = rsockets w"
    "localTailSession w' = localTailSession w"
  using assms by (cases w; cases w'; simp)+

lemma keeps_extD:
  fixes w :: "'c srv"
  assumes "\<And>x. keeps_ext x m"
  shows "mech_state (snd (m w)) = mech_state w" "rstreams (snd (m w)) = rstreams w"
    "localTailSession (snd (m w)) = localTailSession w"
  using assms by (auto intro!: ext_same simp: keeps_def)

abbreviation keeps_mech :: "'c \<Rightarrow> ('c srv, 'b) js \<Rightarrow> bool" where
  "keeps_mech c \<equiv> keeps (\<lambda>w. mech_state w = c)"

lemma keeps_mechI: "(\<And>x. keeps_ext x m) \<Longrightarrow> keeps_mech c m"
  by (rule keepsI) (simp add: keeps_extD)

lemma mech_prims:
  "keeps_mech c (settle p v)" "keeps_mech c newPromise" "keeps_mech c (updRSocket r h)" "keeps_mech c (notice n)"
  "keeps_mech c (closeSocket s)"
  by (auto simp: keeps_def updRSocket_def notice_def keeps_extD [OF ext_closeSocket] settle_def newPromise_def)

lemma mech_settleWith: "keeps_mech c m \<Longrightarrow> keeps_mech c (settleWith p m)"
  by (auto simp: keeps_def settleWith_def settle_def split: prod.split sum.split)

lemma mech_getSocket: "keeps_mech c (getSocket r)"
  unfolding getSocket_def
  by (intro keeps_reads_any) (auto split: option.split intro!: keeps_andThen mech_prims)

lemma mech_r_closeSocket: "keeps_mech (c :: 'c) (r_closeSocket r)"
proof -
  have "mech_state (snd (r_closeSocket r w)) = mech_state w" for w :: "'c srv"
  proof -
    obtain u w1 where n: "newPromise w = (Inr u, w1)" and c: "mech_state w1 = mech_state w"
      by (simp add: newPromise_def)
    have m1: "mech_state (snd (settleWith u (r_closeWith r s) w1)) = mech_state w" for s
      using keepsD [OF mech_settleWith [of "mech_state w" "r_closeWith r s" u], of w1] c
      by (auto simp: r_closeWith_def intro!: keeps_andThen mech_prims)
    have m2: "mech_state (snd (getSocket r w1)) = mech_state w"
      using keepsD [OF mech_getSocket, of w1 "mech_state w" r] c by simp
    show ?thesis
    proof (cases "rs_socket (rsockets w1 r)")
      case (Some s)
      with n m1 [of s] show ?thesis
        by (auto simp: r_closeSocket_def andThen_def split: prod.split sum.split)
    next
      case None
      with n c m2 show ?thesis
        by (auto simp: r_closeSocket_def andThen_def settle_def addJob_def split: prod.split sum.split)
    qed
  qed
  then show ?thesis by (simp add: keeps_def)
qed

text \<open>
  A data message one of whose lines is the reboot signal is never applied to the local
  database and never handed to the consumer of the tail: the connection is closed, and the reboot
  callback runs, or an exception is thrown when there is none.
\<close>

theorem reboot_is_not_delivered:
  assumes "rebootSignalled (utf8_decode p)"
  shows "deliverDataTransferProtoMsg env (Some (ProtoData p)) deliver w
      = andThen srv_close (\<lambda>_. callOnReboot) w
    \<and> mech_state (snd (deliverDataTransferProtoMsg env (Some (ProtoData p)) deliver w)) = mech_state w
    \<and> (\<not> onRebootSet w \<longrightarrow> (\<exists>e. fst (callOnReboot w) = Inl e))"
proof -
  have eq: "deliverDataTransferProtoMsg env (Some (ProtoData p)) deliver w = andThen srv_close (\<lambda>_. callOnReboot) w"
    using assms by (simp add: deliverDataTransferProtoMsg_def strictCastData_def Let_def)
  have "keeps_mech c (andThen srv_close (\<lambda>_. callOnReboot))" for c
    unfolding srv_close_def callOnReboot_def
    by (intro keeps_andThen keeps_reads_any mech_r_closeSocket) (auto intro: mech_prims)
  then have "mech_state (snd (andThen srv_close (\<lambda>_. callOnReboot) w)) = mech_state w"
    using keepsD by fastforce
  with eq show ?thesis by (simp add: callOnReboot_def)
qed

lemma init_server_mech: "mech_state (init_server c uid key) = c"
  by (simp add: init_server_def)

theorem reboot_is_not_delivered_witness:
  "mech_state (snd (deliverDataTransferProtoMsg \<lparr>stringify = (\<lambda>_. []), disableWarnings = False\<rparr>
     (Some (ProtoData [0x3A, 0x72, 0x65, 0x62, 0x6F, 0x6F, 0x74])) (\<lambda>txt. onMech (\<lambda>n. n + 1)) (init_server (3::nat) [] []))) = 3"
proof -
  have "utf8_decode [0x3A, 0x72, 0x65, 0x62, 0x6F, 0x6F, 0x74] = js '':reboot''" by (simp add: text_eval)
  then have "rebootSignalled (utf8_decode [0x3A, 0x72, 0x65, 0x62, 0x6F, 0x6F, 0x74])"
    by (simp add: rebootSignalled_def lines_of_def trim_def is_space_def Let_def)
  from reboot_is_not_delivered [OF this, THEN conjunct2, THEN conjunct1]
  show ?thesis by (rule trans) (rule init_server_mech)
qed

subsection \<open>Mirroring\<close>

lemma setFailureDetectionTimeout_stream:
  "fst (setFailureDetectionTimeout x t w) = Inr ()
    \<and> rst_stream (rstreams (snd (setFailureDetectionTimeout x t w)) y) = rst_stream (rstreams w y)"
  by (auto simp: setFailureDetectionTimeout_def clearTimeout_def updRStream_def split: option.split)

lemma rs_close_streams:
  fixes w :: "'c srv"
  assumes "fst (rs_close x w) = Inr ()"
  shows "rst_stream (rstreams (snd (rs_close x w)) y) = (if y = x then None else rst_stream (rstreams w y))"
proof (cases "rst_stream (rstreams w x)")
  case None
  then show ?thesis
    using setFailureDetectionTimeout_stream [of x None w y] by (simp add: rs_close_def)
next
  case (Some a)
  let ?w = "snd (setStreamCallbacks a None w)"
  have cb: "rstreams ?w = rstreams w" "setStreamCallbacks a None w = (Inr (), ?w)"
    by (simp_all add: setStreamCallbacks_def updStream_def)
  obtain r v where c: "close a ?w = (r, v)" by (cases "close a ?w")
  with keeps_extD(2) [where w = ?w, OF ext_close, of a] cb have rs: "rstreams v = rstreams w" by simp
  let ?v = "v\<lparr>rstreams := (rstreams v)(x := (rstreams v x)\<lparr>rst_stream := None\<rparr>)\<rparr>"
  have run: "rs_close x w = andThen (close a) (\<lambda>_. andThen (updRStream x (rst_stream_update (\<lambda>_. None)))
      (\<lambda>_. setFailureDetectionTimeout x None)) ?w"
    using Some by (simp add: rs_close_def andThen_assoc setStreamCallbacks_def updStream_def)
  have "r = Inr () \<and> snd (rs_close x w) = snd (setFailureDetectionTimeout x None ?v)"
  proof (cases r)
    case (Inl e)
    with assms run c show ?thesis by (simp add: andThen_def [of "close a"])
  next
    case (Inr z)
    then have "rs_close x w = andThen (updRStream x (rst_stream_update (\<lambda>_. None)))
        (\<lambda>_. setFailureDetectionTimeout x None) v"
      using run c by (simp add: andThen_def [of "close a"])
    with Inr show ?thesis by (simp add: updRStream_def)
  qed
  then show ?thesis using setFailureDetectionTimeout_stream [of x None ?v y] rs by simp
qed

lemma rs_close_session: "keeps (\<lambda>w :: 'c srv. localTailSession w = x) (rs_close y)"
proof -
  have "keeps (\<lambda>w :: 'c srv. localTailSession w = x) (close a)" for a
    by (rule keepsI) (simp add: keeps_extD [OF ext_close])
  moreover have "keeps (\<lambda>w :: 'c srv. localTailSession w = x) (setStreamCallbacks a h)"
    "keeps (\<lambda>w :: 'c srv. localTailSession w = x) (updRStream z f)"
    "keeps (\<lambda>w :: 'c srv. localTailSession w = x) (setFailureDetectionTimeout z t)" for a h z f t
    by (auto simp: keeps_def setStreamCallbacks_def updStream_def updRStream_def setFailureDetectionTimeout_def
        clearTimeout_def split: option.split)
  ultimately show ?thesis
    unfolding rs_close_def
    by (intro keeps_andThen keeps_reads_any) (auto split: option.split intro!: keeps_andThen)
qed

lemma rs_close_all:
  fixes w :: "'c srv"
  assumes "forEach xs rs_close w = (Inr (), w')"
  shows "rst_stream (rstreams w' y) = (if y \<in> set xs then None else rst_stream (rstreams w y))"
  using assms
proof (induction xs arbitrary: w)
  case (Cons x xs)
  then obtain v where v: "rs_close x w = (Inr (), v)" "forEach xs rs_close v = (Inr (), w')"
    by (auto simp: andThen_def split: prod.splits sum.splits)
  with Cons.IH [OF v(2)] rs_close_streams [of x w y] show ?case by auto
qed simp

text \<open>
  Mirroring replaces: when it gets past its first part without an exception, the previous
  local subscription is gone, no stream of the previous mirror is attached any more, and no table
  is mirrored; and it refuses an empty list of tables without touching anything.
\<close>

theorem mirror_tears_down:
  fixes w :: "'c srv"
  assumes "mirror_begin m (d # defs) w = (Inr (), w')"
  shows "localTailSession w' = None \<and> mirrorStreams w' = [] \<and> mirroredTables w' = []
    \<and> (\<forall>x \<in> set (mirrorStreams w). rst_stream (rstreams w' x) = None)
    \<and> mirror_begin m [] w = (Inl (err ''Must specify at least one table to mirror''), w)"
proof -
  define v where "v = (case localTailSession w of None \<Rightarrow> w
    | Some s \<Rightarrow> w\<lparr>mech_state := unsubscribe m s (mech_state w), localTailSession := None\<rparr>)"
  have v: "localTailSession v = None" "mirrorStreams v = mirrorStreams w"
    by (simp_all add: v_def split: option.split)
  have "andThen (forEach (mirrorStreams v) rs_close) (\<lambda>_. modifies (\<lambda>w. w\<lparr>mirrorStreams := [], mirroredTables := []\<rparr>)) v
      = (Inr (), w')"
    using assms by (cases "localTailSession w") (simp_all add: mirror_begin_def onMech_def andThen_assoc v_def)
  then obtain u where u: "forEach (mirrorStreams v) rs_close v = (Inr (), u)"
    and w': "w' = u\<lparr>mirrorStreams := [], mirroredTables := []\<rparr>"
    by (auto simp: andThen_def split: prod.splits sum.splits)
  have "keeps (\<lambda>w :: 'c srv. localTailSession w = None) (forEach (mirrorStreams v) rs_close)"
    by (intro keeps_forEach rs_close_session)
  from keepsD [OF this, of v] u v have "localTailSession u = None" by simp
  with v w' rs_close_all [OF u] show ?thesis by (simp add: mirror_begin_def)
qed

theorem mirror_tears_down_witness:
  "\<exists>w'. mirror_begin undefined [\<lparr>def_table = js ''t'', def_expectedColumns = js ''*'', def_filterExpr = None,
      def_filterParams = None\<rparr>] (init_server () [] []) = (Inr (), w') \<and> mirroredTables w' = []"
proof -
  obtain w' where "mirror_begin undefined [\<lparr>def_table = js ''t'', def_expectedColumns = js ''*'', def_filterExpr = None,
      def_filterParams = None\<rparr>] (init_server () [] []) = (Inr (), w')"
    by (simp add: mirror_begin_def init_server_def)
  from mirror_tears_down [OF this] this show ?thesis by auto
qed

text \<open>
  A table is reported as awaiting synchronisation exactly when there is a local subscription,
  the table is mirrored and the subscription has changes of it beyond those the server has
  acknowledged; each such table is reported once.
\<close>

theorem tablesAwaitingSync_exact:
  "distinct (tablesAwaitingSync m w) \<and>
   set (tablesAwaitingSync m w) = {t. \<exists>session. localTailSession w = Some session \<and> t \<in> fst ` set (mirroredTables w)
     \<and> diff m session [(t, watermark m (replicationUid w) (serverResponseTable t) (mech_state w))] (mech_state w) \<noteq> None}"
  by (auto simp: tablesAwaitingSync_def responseMarks_def split: option.splits)

end
