(* ===== verification/Permanent_Failure.thy ===== *)
theory Permanent_Failure
  imports Client_System
begin

text \<open>
  Errors of a socket that are not worth a retry: \<open>ResilientMuxedSocket\<close> of \<open>sql/ts/src/skdb_orchestration.ts\<close> records a reason and never asks for
  a socket again. No operation of the client takes a reason back; only the error callback of a socket sets
  one. Both are shown by going through every operation with a condition \<open>reason_is\<close> on the reason.
\<close>

section \<open>What the reason depends on\<close>

definition reason_is :: "(jsstring option \<Rightarrow> bool) \<Rightarrow> nat \<Rightarrow> 'c srv \<Rightarrow> bool" where
  "reason_is Q r w \<longleftrightarrow> Q (permanentFailureReason (rsockets w r)) \<and> r < nextRSocket w"

lemma reason_same:
  "rsockets w' = rsockets w \<Longrightarrow> nextRSocket w' = nextRSocket w \<Longrightarrow> reason_is Q r w \<Longrightarrow> reason_is Q r w'"
  by (simp add: reason_is_def)

lemma reason_ext:
  fixes m :: "('c srv, 'b) js"
  assumes "\<And>x. keeps_ext x m"
  shows "keeps (reason_is Q r) m"
proof
  fix w :: "'c srv" assume w: "reason_is Q r w"
  have "mux_world.more (snd (m w)) = mux_world.more w" using assms by (auto simp: keeps_def)
  then have "rsockets (snd (m w)) = rsockets w" "nextRSocket (snd (m w)) = nextRSocket w"
    by (cases "snd (m w)"; cases w; simp)+
  then show "reason_is Q r (snd (m w))" using w by (rule reason_same)
qed

lemma keeps_case_result:
  assumes "keeps P m" "\<And>e. keeps P (f e)" "\<And>x. keeps P (g x)"
  shows "keeps P (\<lambda>w. case m w of (Inl e, w') \<Rightarrow> f e w' | (Inr x, w') \<Rightarrow> g x w')"
proof
  fix w assume "P w"
  with assms(1) have "P (snd (m w))" by (rule keepsD)
  with assms(2,3) show "P (snd (case m w of (Inl e, w') \<Rightarrow> f e w' | (Inr x, w') \<Rightarrow> g x w'))"
    by (auto simp: keeps_def split: prod.splits sum.splits)
qed

lemma keeps_callIf: "(\<And>h. keeps P (f h)) \<Longrightarrow> keeps P (callIf x f)"
  by (simp add: callIf_def split: option.split)

section \<open>Sockets and streams without callbacks\<close>

lemma ext_world:
  "keeps_ext x (modifies (\<lambda>w. w\<lparr>jobs := f w\<rparr>))" "keeps_ext x (modifies (\<lambda>w. w\<lparr>conns := g w\<rparr>))"
  "keeps_ext x (modifies (\<lambda>w. w\<lparr>nextConn := h w\<rparr>))" "keeps_ext x newSocket"
  by (simp_all add: keeps_def newSocket_def andThen_def)

lemma ext_setTimeout: "(\<And>t. keeps_ext x (k t)) \<Longrightarrow> keeps_ext x (setTimeout t k)"
  unfolding setTimeout_def by (intro keeps_reads_any keeps_andThen) (auto simp: keeps_def)

lemma ext_newStream: "keeps_ext x (newStream s sid)"
  unfolding newStream_def by (intro keeps_reads_any keeps_andThen) (auto simp: keeps_def updSocket_def)

lemmas ext_rules = keeps_reads_any keeps_andThen keeps_forEach ext_prims ext_world ext_setTimeout ext_newStream ext_streamClose ext_close

lemma ext_stream_ops: "keeps_ext x (error a code msg)" "keeps_ext x (send a data)"
  unfolding error_def send_def streamError_def streamSend_def Let_def
  by (auto intro!: ext_rules split: MuxedSocketState.split)

lemma ext_open: "keeps_ext x (openStream_fn s p)" "keeps_ext x (openStream s)"
  unfolding openStream_def openStream_fn_def Let_def by (auto intro!: ext_rules split: MuxedSocketState.split)

lemma ext_shutSocket: "keeps_ext x (shutSocket s)"
  unfolding shutSocket_def by (auto intro!: ext_rules)

lemma ext_pingSocket: "keeps_ext x (pingSocket s)"
  unfolding pingSocket_def by (auto intro!: ext_rules split: MuxedSocketState.split)

lemma ext_auth: "keeps_ext x (sendAuth s k)" "keeps_ext x (sendAuth_resume s k b)"
  unfolding sendAuth_def sendAuth_resume_def authDone_def authFailed_def
  by (auto intro!: ext_rules split: MuxedSocketState.split sum.split option.split)

lemma ext_connect: "keeps_ext x connect" "keeps_ext x (connect_timeout c)" "keeps_ext x (connect_open c)"
  unfolding connect_def connect_timeout_def connect_open_def Let_def by (auto intro!: ext_rules ext_auth)

lemma ext_decode: "keeps_ext x (decode s m)"
  unfolding decode_def by (auto intro!: ext_rules split: frame.split)

lemma ext_fireTimer: "keeps_ext x (fireTimer i t)"
  unfolding fireTimer_def runTask_def by (auto intro!: ext_rules ext_auth ext_open ext_connect split: task.split)

lemma ext_setCallbacks: "keeps_ext x (setStreamCallbacks a h)" "keeps_ext x (setSocketCallbacks s k)"
  by (simp_all add: setStreamCallbacks_def setSocketCallbacks_def ext_prims)

section \<open>The resilient layer\<close>

lemma reason_local:
  "keeps (reason_is Q r) (updRStream x f)" "keeps (reason_is Q r) (addJob j)"
  "keeps (reason_is Q r) (modifies (\<lambda>w. w\<lparr>rjobs := h w\<rparr>))"
  "keeps (reason_is Q r) (updRSocket q (rs_socket_update g1))" "keeps (reason_is Q r) (updRSocket q (socketQueue_update g2))"
  "keeps (reason_is Q r) (updRSocket q (\<lambda>rs. rs\<lparr>rs_socket := s, socketQueue := ps\<rparr>))"
  by (auto simp: keeps_def updRStream_def addJob_def updRSocket_def reason_is_def)

lemmas reason_rules = keeps_reads_any keeps_andThen keeps_forEach keeps_case_result keeps_callIf reason_local
  ext_prims [THEN reason_ext] ext_close [THEN reason_ext] ext_stream_ops [THEN reason_ext] ext_open [THEN reason_ext]
  ext_shutSocket [THEN reason_ext] ext_closeSocket [THEN reason_ext] ext_setCallbacks [THEN reason_ext]
  ext_pingSocket [THEN reason_ext] ext_connect [THEN reason_ext]

lemma reason_setTimeout: "(\<And>t. keeps (reason_is Q r) (k t)) \<Longrightarrow> keeps (reason_is Q r) (setTimeout t k)"
  unfolding setTimeout_def by (intro keeps_reads_any keeps_andThen) (auto simp: keeps_def reason_is_def)

lemma reason_catchLog: "keeps (reason_is Q r) m \<Longrightarrow> keeps (reason_is Q r) (catchLog m)"
  using keepsD [OF ext_prims(3) [THEN reason_ext]]
  by (fastforce simp: keeps_def catchLog_def split: prod.split sum.split)

lemma reason_settleWith: "keeps (reason_is Q r) m \<Longrightarrow> keeps (reason_is Q r) (settleWith p m)"
  using keepsD [OF ext_prims(5) [THEN reason_ext]]
  by (fastforce simp: keeps_def settleWith_def split: prod.split sum.split)

lemma reason_streams:
  "keeps (reason_is Q r) (setFailureDetectionTimeout x t)" "keeps (reason_is Q r) (rs_close x)" "keeps (reason_is Q r) (rs_send x data)"
  "keeps (reason_is Q r) (expectingData x)" "keeps (reason_is Q r) (attachStream x a)"
  unfolding setFailureDetectionTimeout_def rs_close_def rs_send_def expectingData_def attachStream_def
  by (auto intro!: reason_rules reason_setTimeout split: option.split)

lemma reason_replaceDone: "keeps (reason_is Q r) (replaceDone q k)"
  by (auto simp: replaceDone_def intro: reason_local split: option.split)

lemma reason_getSocket: "keeps (reason_is Q r) (getSocket q)"
  unfolding getSocket_def by (auto intro!: reason_rules split: option.split)

lemma reason_attachSocket: "keeps (reason_is Q r) (attachSocket q s)"
  unfolding attachSocket_def by (auto intro!: reason_rules)

lemma reason_new: "keeps (reason_is Q r) (newResilientSocket s)" "keeps (reason_is Q r) (newResilientStream q a)"
proof -
  show "keeps (reason_is Q r) (newResilientSocket s)"
  proof
    fix w assume w: "reason_is Q r w"
    let ?w = "w\<lparr>rsockets := (rsockets w)(nextRSocket w := \<lparr>rs_socket = None, socketQueue = [],
        permanentFailureReason = None, rs_onStream = None\<rparr>), nextRSocket := nextRSocket w + 1\<rparr>"
    have eq: "newResilientSocket s w = andThen (attachSocket (nextRSocket w) s) (\<lambda>_. ret (nextRSocket w)) ?w"
      by (simp add: newResilientSocket_def Let_def)
    have "reason_is Q r ?w" using w by (auto simp: reason_is_def)
    then show "reason_is Q r (snd (newResilientSocket s w))"
      unfolding eq by (rule keepsD [OF keeps_andThen [OF reason_attachSocket keeps_ret]])
  qed
  show "keeps (reason_is Q r) (newResilientStream q a)"
    unfolding newResilientStream_def Let_def
    by (intro keeps_reads_any keeps_andThen keeps_ret reason_streams) (auto simp: keeps_def reason_is_def)
qed

lemma reason_users:
  "keeps (reason_is Q r) (r_open b q)" "keeps (reason_is Q r) (r_closeSocket q)" "keeps (reason_is Q r) (isSocketResponsive q)"
  "keeps (reason_is Q r) (r_closeWith q s)"
proof -
  show c: "keeps (reason_is Q r) (r_closeWith q s)" for s
    unfolding r_closeWith_def by (auto intro!: reason_rules)
  show "keeps (reason_is Q r) (r_open b q)"
    unfolding r_open_def by (auto intro!: reason_rules reason_getSocket)
  show "keeps (reason_is Q r) (isSocketResponsive q)"
    unfolding isSocketResponsive_def by (auto intro!: reason_rules split: option.split)
  have "keeps (reason_is Q r) (case rs_socket (rsockets v q) of
       Some s \<Rightarrow> andThen (settleWith u (r_closeWith q s)) (\<lambda>_. ret u)
     | None \<Rightarrow> (\<lambda>w. case getSocket q w of
           (Inl e, w') \<Rightarrow> andThen (settle u (Rejected e)) (\<lambda>_. ret u) w'
         | (Inr p, w') \<Rightarrow> andThen (addJob (JCloseSocket q p u)) (\<lambda>_. ret u) w'))" for u v
    by (auto intro!: reason_rules reason_getSocket reason_settleWith c split: option.split)
  from keeps_diag [OF this] show "keeps (reason_is Q r) (r_closeSocket q)"
    unfolding r_closeSocket_def
    by (intro keeps_andThen ext_prims [THEN reason_ext]) (simp add: option.case_distrib [of "\<lambda>f. f _"] cong: option.case_cong)
qed

section \<open>The callbacks\<close>

lemma reason_server_local:
  "keeps (reason_is Q r) (onMech f)" "keeps (reason_is Q r) (notice n)" "keeps (reason_is Q r) (updRequest i g)"
  "keeps (reason_is Q r) (updTail t h)" "keeps (reason_is Q r) (answer i v)" "keeps (reason_is Q r) (addMirrorStream x)"
  "keeps (reason_is Q r) newRequest" "keeps (reason_is Q r) (newTail t0)"
  "keeps (reason_is Q r) (modifies (\<lambda>w. w\<lparr>localTailSession := s\<rparr>))"
  "keeps (reason_is Q r) (modifies (\<lambda>w. w\<lparr>mirrorStreams := xs, mirroredTables := ys\<rparr>))"
  "keeps (reason_is Q r) (modifies (\<lambda>w. w\<lparr>mirroredTables := q w\<rparr>))"
  by (simp_all add: keeps_def onMech_def notice_def updRequest_def updTail_def answer_def addMirrorStream_def newRequest_def
      newTail_def Let_def reason_is_def)

lemmas server_reason_rules = reason_rules reason_server_local reason_streams reason_users

lemma reason_requests:
  "keeps (reason_is Q r) (request_onData i data)" "keeps (reason_is Q r) (request_onClose i)" "keeps (reason_is Q r) (request_onError i msg)"
  "keeps (reason_is Q r) (makeRequest a req)"
  unfolding request_onData_def request_onClose_def request_onError_def makeRequest_def
  by (auto intro!: server_reason_rules split: prod.split)

lemma reason_deliver:
  "(\<And>txt. keeps (reason_is Q r) (k txt)) \<Longrightarrow> keeps (reason_is Q r) (deliverDataTransferProtoMsg env msg k)"
  unfolding deliverDataTransferProtoMsg_def Let_def srv_close_def callOnReboot_def
  by (auto intro!: server_reason_rules)

lemma reason_tails:
  "keeps (reason_is Q r) (sendTailRequest m t)" "keeps (reason_is Q r) (serverTail_onData m env t data)"
  "keeps (reason_is Q r) (localTail_onData m env t data)" "keeps (reason_is Q r) (localTail_onReconnect m t)"
  "keeps (reason_is Q r) (localTail_onFile t p)"
  unfolding sendTailRequest_def serverTail_onData_def serverTail_deliver_def localTail_onData_def localTail_deliver_def
    localTail_onReconnect_def localTail_onFile_def Let_def
  by (auto intro!: server_reason_rules reason_deliver split: prod.split option.split)

lemma reason_establish:
  "keeps (reason_is Q r) (establishServerTail m defs x)" "keeps (reason_is Q r) (establishLocalTail m scs x)"
  "keeps (reason_is Q r) (mirror_begin m defs)" "keeps (reason_is Q r) (setupTable m rem d)"
  unfolding establishServerTail_def establishLocalTail_def mirror_begin_def setupTable_def Let_def
  by (auto intro!: server_reason_rules reason_tails split: prod.split option.split sum.split)

lemma reason_replaceFailedStream: "keeps (reason_is Q r) (replaceFailedStream (server_handlers m env) x)"
  "keeps (reason_is Q r) (r_replaceFailedStream (server_handlers m env) q x)"
proof -
  show *: "keeps (reason_is Q r) (r_replaceFailedStream (server_handlers m env) q x)" for q
    by (auto simp: r_replaceFailedStream_def server_handlers_def intro!: reason_rules)
  show "keeps (reason_is Q r) (replaceFailedStream (server_handlers m env) x)"
    unfolding replaceFailedStream_def by (auto intro!: reason_rules reason_streams * split: option.split)
qed

lemma reason_app:
  "keeps (reason_is Q r) (aClose (server_handlers m env) p)" "keeps (reason_is Q r) (aError (server_handlers m env) p code msg)"
  "keeps (reason_is Q r) (aData (server_handlers m env) p data)" "keeps (reason_is Q r) (aStream (server_handlers m env) p a)"
  "keeps (reason_is Q r) (aReconnect (server_handlers m env) p)"
  by (auto simp: server_handlers_def intro!: reason_requests reason_tails split: callback.split)

lemma reason_stream_callbacks:
  "keeps (reason_is Q r) (hClose (streamCallbacks (server_handlers m env)) h)"
  "keeps (reason_is Q r) (hError (streamCallbacks (server_handlers m env)) h code msg)"
  "keeps (reason_is Q r) (hData (streamCallbacks (server_handlers m env)) h data)"
  by (auto simp: streamCallbacks_def intro!: reason_catchLog reason_replaceFailedStream reason_app reason_rules reason_streams
      split: handler.split)

lemma reason_stream_events:
  "keeps (reason_is Q r) (onStreamClose (streamCallbacks (server_handlers m env)) a)"
  "keeps (reason_is Q r) (onStreamError (streamCallbacks (server_handlers m env)) a code msg)"
  "keeps (reason_is Q r) (onStreamData (streamCallbacks (server_handlers m env)) a data)"
  unfolding onStreamClose_def onStreamError_def onStreamData_def Let_def
  by (auto intro!: reason_rules reason_stream_callbacks split: StreamState.split)

lemma reason_errorSocket: "keeps (reason_is Q r) (errorSocket (streamCallbacks (server_handlers m env)) s code msg)"
  unfolding errorSocket_def Let_def
  by (auto intro!: reason_rules keeps_forActive reason_stream_events split: MuxedSocketState.split)

lemma reason_replaceFailedSocket: "keeps (reason_is Q r) (replaceFailedSocket (server_handlers m env) q k)"
  unfolding replaceFailedSocket_def
  by (auto intro!: reason_rules reason_errorSocket reason_replaceDone reason_setTimeout split: option.split)

text \<open>Only the error callback of a socket sets a reason, for two codes.\<close>

lemma reason_socket_callbacks:
  "keeps (reason_is Q r) (kStream (socketCallbacks (server_handlers m env)) h a)"
  "keeps (reason_is Q r) (kClose (socketCallbacks (server_handlers m env)) h)"
  "code \<noteq> 1002 \<and> code \<noteq> 1004 \<or> (\<forall>msg. Q (Some msg)) \<Longrightarrow>
     keeps (reason_is Q r) (kError (socketCallbacks (server_handlers m env)) h code msg)"
proof -
  show "keeps (reason_is Q r) (kStream (socketCallbacks (server_handlers m env)) h a)"
    "keeps (reason_is Q r) (kClose (socketCallbacks (server_handlers m env)) h)"
    by (auto simp: socketCallbacks_def intro!: reason_rules reason_catchLog reason_replaceFailedSocket reason_app split: handler.split)
  assume "code \<noteq> 1002 \<and> code \<noteq> 1004 \<or> (\<forall>msg. Q (Some msg))"
  moreover have "keeps (reason_is Q r) (updRSocket q (\<lambda>rs. rs\<lparr>permanentFailureReason := Some msg, rs_socket := None\<rparr>))"
    if "\<forall>msg. Q (Some msg)" for q
    using that by (auto simp: keeps_def updRSocket_def reason_is_def)
  ultimately show "keeps (reason_is Q r) (kError (socketCallbacks (server_handlers m env)) h code msg)"
    by (auto simp: socketCallbacks_def isSocketErrorRetryable_def intro!: reason_catchLog reason_replaceFailedSocket split: handler.split)
qed

section \<open>Events\<close>

text \<open>A reason that is there stays: it may only be replaced by another.\<close>

definition given :: "jsstring option \<Rightarrow> bool" where
  "given x \<longleftrightarrow> x \<noteq> None"

lemma given_Some [simp]: "given (Some x)"
  by (simp add: given_def)

abbreviation failed_for_good :: "nat \<Rightarrow> 'c srv \<Rightarrow> bool" where
  "failed_for_good \<equiv> reason_is given"

lemmas good_rules = reason_rules reason_stream_events reason_socket_callbacks keeps_forActive

lemma failed_socket_events:
  "keeps (failed_for_good r) (onSocketClose (streamCallbacks (server_handlers m env)) (socketCallbacks (server_handlers m env)) s)"
  "keeps (failed_for_good r) (onSocketError (streamCallbacks (server_handlers m env)) (socketCallbacks (server_handlers m env)) s code msg)"
  "keeps (failed_for_good r) (onMuxMessage (streamCallbacks (server_handlers m env)) (socketCallbacks (server_handlers m env)) s received)"
proof -
  show e: "keeps (failed_for_good r) (onSocketError (streamCallbacks (server_handlers m env)) (socketCallbacks (server_handlers m env)) s code msg)"
    for code msg
    unfolding onSocketError_def by (auto intro!: good_rules)
  have d: "keeps (failed_for_good r) (onData (streamCallbacks (server_handlers m env)) (socketCallbacks (server_handlers m env)) s sid data)"
    for sid data
    unfolding onData_def Let_def
    by (auto intro!: good_rules ext_newStream [THEN reason_ext] split: option.split)
  show "keeps (failed_for_good r) (onSocketClose (streamCallbacks (server_handlers m env)) (socketCallbacks (server_handlers m env)) s)"
    unfolding onSocketClose_def Let_def by (auto intro!: good_rules split: MuxedSocketState.split)
  show "keeps (failed_for_good r) (onMuxMessage (streamCallbacks (server_handlers m env)) (socketCallbacks (server_handlers m env)) s received)"
    unfolding onMuxMessage_def by (auto intro!: good_rules e d split: option.split MuxMessage.split)
qed

lemma failed_web_socket:
  "keeps (failed_for_good r) (ws_close (streamCallbacks (server_handlers m env)) (socketCallbacks (server_handlers m env)) c)"
  "keeps (failed_for_good r) (ws_error (streamCallbacks (server_handlers m env)) (socketCallbacks (server_handlers m env)) c txt)"
  "keeps (failed_for_good r) (ws_message (streamCallbacks (server_handlers m env)) (socketCallbacks (server_handlers m env)) c ev)"
  unfolding ws_close_def ws_error_def ws_message_def onSocketMessage_def
  by (auto intro!: reason_rules failed_socket_events ext_decode [THEN reason_ext] split: option.split event_data.split)

lemma failed_mux_event:
  assumes "mux_event (streamCallbacks (server_handlers m env)) (socketCallbacks (server_handlers m env)) w w'" "failed_for_good r w"
  shows "failed_for_good r w'"
  using assms(1)
proof cases
  case (signed s k creds rnd now sign)
  have "failed_for_good r (w\<lparr>jobs := remove1 (AuthJob s k) (jobs w)\<rparr>)" using assms(2) by (simp add: reason_is_def)
  then show ?thesis unfolding signed(1) by (rule keepsD [OF ext_auth(2) [THEN reason_ext]])
qed (use assms(2) in \<open>auto intro!: keepsD [OF ext_fireTimer [THEN reason_ext]] keepsD [OF ext_connect(1) [THEN reason_ext]]
    keepsD [OF ext_connect(3) [THEN reason_ext]] keepsD [OF failed_web_socket(1)] keepsD [OF failed_web_socket(2)]
    keepsD [OF failed_web_socket(3)] keepsD [OF ext_open(2) [THEN reason_ext]] keepsD [OF ext_closeSocket [THEN reason_ext]]
    keepsD [OF reason_errorSocket] keepsD [OF ext_pingSocket [THEN reason_ext]] keepsD [OF ext_close [THEN reason_ext]]
    keepsD [OF ext_stream_ops(1) [THEN reason_ext]] keepsD [OF ext_stream_ops(2) [THEN reason_ext]]
    keepsD [OF ext_prims(1) [THEN reason_ext]] keepsD [OF ext_prims(2) [THEN reason_ext]]\<close>)

lemma reason_errorWith: "keeps (reason_is Q r) (r_errorWith (server_handlers m env) q s code msg)"
  unfolding r_errorWith_def by (auto intro!: reason_rules reason_errorSocket)

lemma reason_r_errorSocket: "keeps (reason_is Q r) (r_errorSocket (server_handlers m env) q code msg)"
proof -
  have "keeps (reason_is Q r) (case rs_socket (rsockets v q) of
       Some s \<Rightarrow> andThen (settleWith u (r_errorWith (server_handlers m env) q s code msg)) (\<lambda>_. ret u)
     | None \<Rightarrow> (\<lambda>w. case getSocket q w of
           (Inl e, w') \<Rightarrow> andThen (settle u (Rejected e)) (\<lambda>_. ret u) w'
         | (Inr p, w') \<Rightarrow> andThen (addJob (JErrorSocket q code msg p u)) (\<lambda>_. ret u) w'))" for u v
    by (auto intro!: reason_rules reason_getSocket reason_settleWith reason_errorWith split: option.split)
  from keeps_diag [OF this] show ?thesis
    unfolding r_errorSocket_def
    by (intro keeps_andThen ext_prims [THEN reason_ext]) (simp add: option.case_distrib [of "\<lambda>f. f _"] cong: option.case_cong)
qed

lemma reason_runJob: "keeps (reason_is Q r) (runJob (server_handlers m env) b j)"
  unfolding runJob_def resume_def
  by (auto intro!: reason_rules reason_catchLog reason_replaceFailedSocket reason_getSocket reason_streams reason_app
      reason_replaceFailedStream reason_attachSocket reason_replaceDone reason_setTimeout reason_new reason_settleWith
      reason_users reason_errorWith split: rjob.split promise.split pvalue.split)

lemma reason_task: "keeps (reason_is Q r) (runResilientTask (server_handlers m env) i t)"
  unfolding runResilientTask_def
  by (auto intro!: reason_rules reason_catchLog reason_replaceFailedStream ext_fireTimer [THEN reason_ext] split: task.split)

lemma failed_event:
  assumes "srv_event m env w w'" "failed_for_good r w"
  shows "failed_for_good r w'"
  using assms(1)
proof cases
  case mux
  then show ?thesis using assms(2) by (rule failed_mux_event)
qed (use assms(2) in \<open>auto intro!: keepsD [OF reason_task] keepsD [OF reason_runJob] keepsD [OF reason_new(1)]
    keepsD [OF reason_users(1)] keepsD [OF reason_users(2)] keepsD [OF reason_users(3)] keepsD [OF reason_r_errorSocket]
    keepsD [OF reason_requests(4)] keepsD [OF reason_establish(1)] keepsD [OF reason_establish(2)]
    keepsD [OF reason_establish(3)] keepsD [OF reason_establish(4)] keepsD [OF reason_tails(5)]\<close>)

lemma failed_events: "(srv_event m env)\<^sup>*\<^sup>* w w' \<Longrightarrow> failed_for_good r w \<Longrightarrow> failed_for_good r w'"
  by (induction rule: rtranclp_induct) (auto intro: failed_event)

text \<open>
  C40: the errors with codes 1002 and 1004 (authentication or the request for the connection failed) are final. They are recorded
  with their message and there is no current socket; from then on, whatever happens to
  the client, a request for a socket fails with the recorded reason (of this or of a later such
  error), opening a stream gives a promise that is rejected with it, and replacing a failed socket does nothing. An error
  with any other code records no reason.
\<close>

theorem fatal_error_is_final:
  assumes "r < nextRSocket w" and "w1 = snd (kError (socketCallbacks (server_handlers m env)) (HSock r) code msg w)"
  shows "(code \<in> {1002, 1004} \<longrightarrow> permanentFailureReason (rsockets w1 r) = Some msg \<and> rs_socket (rsockets w1 r) = None
      \<and> (\<forall>w'. (srv_event m env)\<^sup>*\<^sup>* w1 w' \<longrightarrow> (\<exists>reason. permanentFailureReason (rsockets w' r) = Some reason
          \<and> getSocket r w' = (Inl (JSError reason), w')
          \<and> (\<exists>u v. r_open b r w' = (Inr u, v) \<and> promises v u = Rejected (JSError reason) \<and> out v = out w' \<and> rjobs v = rjobs w')
          \<and> replaceFailedSocket (server_handlers m env) r None w' = (Inr (), w'))))
    \<and> (code \<notin> {1002, 1004} \<longrightarrow> permanentFailureReason (rsockets w1 r) = permanentFailureReason (rsockets w r))"
proof -
  have run: "getSocket r w' = (Inl (JSError reason), w')
      \<and> (\<exists>u v. r_open b r w' = (Inr u, v) \<and> promises v u = Rejected (JSError reason) \<and> out v = out w' \<and> rjobs v = rjobs w')
      \<and> replaceFailedSocket (server_handlers m env) r None w' = (Inr (), w')"
    if "permanentFailureReason (rsockets w' r) = Some reason" for w' reason
    using that by (simp add: getSocket_def r_open_def replaceFailedSocket_def replaceDone_def newPromise_def settle_def andThen_def)
  have "permanentFailureReason (rsockets w1 r) = Some msg \<and> rs_socket (rsockets w1 r) = None \<and> nextRSocket w1 = nextRSocket w"
    if "code \<in> {1002, 1004}"
    using assms that by (auto simp: socketCallbacks_def isSocketErrorRetryable_def updRSocket_def)
  moreover have "\<exists>reason. permanentFailureReason (rsockets w' r) = Some reason"
    if "(srv_event m env)\<^sup>*\<^sup>* w1 w'" "permanentFailureReason (rsockets w1 r) = Some msg" "nextRSocket w1 = nextRSocket w" for w'
    using failed_events [OF that(1), of r] that(2,3) assms(1) by (auto simp: reason_is_def given_def)
  moreover have "permanentFailureReason (rsockets w1 r) = permanentFailureReason (rsockets w r)" if "code \<notin> {1002, 1004}"
    using keepsD [OF reason_socket_callbacks(3) [of code "\<lambda>x. x = permanentFailureReason (rsockets w r)" r m env "HSock r" msg], of w]
      that assms by (simp add: reason_is_def)
  ultimately show ?thesis using run by blast
qed

text \<open>A client that has connected; its socket reports that the authentication failed, and it tries to open a stream later.\<close>

definition connected_client :: "unit srv" where
  "connected_client = snd (newResilientSocket 0 (init_server () [] []))"

definition refused_client :: "unit srv" where
  "refused_client = snd (kError (socketCallbacks (server_handlers undefined undefined)) (HSock 0) 1002 (js ''auth'') connected_client)"

theorem fatal_error_is_final_witness:
  "fst (getSocket 0 (snd (r_open True 0 refused_client))) = Inl (JSError (js ''auth''))"
proof -
  have n: "0 < nextRSocket connected_client"
    by (simp add: connected_client_def newResilientSocket_def attachSocket_def setSocketCallbacks_def updSocket_def updRSocket_def
        init_server_def Let_def andThen_assoc)
  have "(srv_event undefined undefined)\<^sup>*\<^sup>* refused_client (snd (r_open True 0 refused_client))"
    by (rule r_into_rtranclp) (rule srv_event.open_stream)
  with fatal_error_is_final [OF n refused_client_def, of True]
  obtain reason where "fst (getSocket 0 (snd (r_open True 0 refused_client))) = Inl (JSError reason)"
    "permanentFailureReason (rsockets (snd (r_open True 0 refused_client)) 0) = Some reason"
    "permanentFailureReason (rsockets refused_client 0) = Some (js ''auth'')"
    by fastforce
  moreover from this(3) have "permanentFailureReason (rsockets (snd (r_open True 0 refused_client)) 0) = Some (js ''auth'')"
    by (simp add: r_open_def getSocket_def newPromise_def settle_def andThen_def)
  ultimately show ?thesis by simp
qed

end
