(* ===== verification/Wasm_Utils.thy ===== *)
theory Wasm_Utils
  imports JS_Strings JS_Buffer
begin

text \<open>
  The host side of a compiled Skip program: the class \<open>Utils\<close> of
  \<open>skiplang/prelude/ts/wasm/src/sk_types.ts\<close>, with its standard streams, the strings and byte
  arrays it exchanges with WebAssembly memory, the exceptions it carries across the boundary, and
  the allocation scope \<open>runWithGc\<close>.

  The compiled program is not TypeScript: its exports are the record \<open>Exported\<close>, an argument of the
  definitions. They act on the whole state of the host, because the compiled program calls back.
  The linear memory is the byte list \<open>memory\<close>; growing it replaces the buffer, which is the number
  \<open>generation\<close>: a view taken before no longer writes to it. Error objects have an identity and
  fields (\<open>errors\<close>), because the code compares them and sets their causes.
\<close>

unbundle bit_operations_syntax

section \<open>State\<close>

datatype StreamKind = OUT | ERR | DEBUG

datatype err_class = PlainError | SkError | SkRuntimeExit int

record err_object =
  e_class :: err_class
  e_message :: jsstring
  e_stack :: "jsstring option"
  e_cause :: "nat option"

text \<open>
  \<open>'x\<close> is the part of the compiled program's state the host does not see, \<open>'v\<close> the values kept by
  \<open>getState\<close>. \<open>console\<close> is what has been written to the console.
\<close>

record ('x, 'v) utils =
  memory :: bytes
  generation :: nat
  native :: 'x
  errors :: "nat \<Rightarrow> err_object"
  nextError :: nat
  exceptionId :: nat
  exceptions :: "(nat \<times> nat) list"
  states :: "(jsstring \<times> 'v) list"
  u_args :: "jsstring list"
  current_stdin :: nat
  stdin :: bytes
  stdout :: "jsstring list"
  stderr :: "jsstring list"
  stddebug :: "jsstring list"
  mainFn :: "jsstring option"
  u_exception :: "nat option"
  stacks :: "(nat \<times> jsstring) list"
  console :: "jsstring list"

record 'w Exported =
  SKIP_throw_EndOfFile :: "'w \<Rightarrow> js_error \<times> 'w"
  SKIP_String_byteSize :: "nat \<Rightarrow> ('w, nat) js"
  SKIP_Obstack_alloc :: "nat \<Rightarrow> ('w, nat) js"
  SKIP_new_Obstack :: "('w, nat) js"
  SKIP_destroy_Obstack :: "nat \<Rightarrow> ('w, unit) js"
  sk_string_create :: "nat \<Rightarrow> nat \<Rightarrow> ('w, nat) js"
  SKIP_createByteArray :: "nat \<Rightarrow> ('w, nat) js"
  SKIP_createUInt32Array :: "nat \<Rightarrow> ('w, nat) js"
  SKIP_getArraySize :: "nat \<Rightarrow> ('w, nat) js"
  SKIP_call0 :: "nat \<Rightarrow> ('w, nat) js"
  SKIP_skstore_init :: "nat \<Rightarrow> ('w, unit) js"
  SKIP_initializeSkip :: "('w, unit) js"
  SKIP_skstore_end_of_init :: "('w, unit) js"
  SKIP_callWithException :: "nat \<Rightarrow> nat \<Rightarrow> ('w, nat) js"
  SKIP_getExceptionMessage :: "nat \<Rightarrow> ('w, nat) js"
  SKIP_get_persistent_size :: "('w, nat) js"
  SKIP_get_version :: "('w, nat) js"
  skip_main :: "('w, unit) js"
  exported_main :: "jsstring \<Rightarrow> ('w, unit) js"
  heap_base :: nat

text \<open>What the platform gives: the stack trace of the \<open>n\<close>-th error object, and the exception hook.\<close>

record 'w Environment =
  traceOf :: "nat \<Rightarrow> jsstring option"
  onException :: "('w, unit) js"

section \<open>Errors\<close>

definition newError :: "'w Environment \<Rightarrow> err_class \<Rightarrow> jsstring \<Rightarrow> (('x, 'v, 'm) utils_scheme, nat) js" where
  "newError env c m = reads (\<lambda>w.
     andThen (modifies (\<lambda>w. w\<lparr>errors := (errors w)(nextError w :=
                \<lparr>e_class = c, e_message = m, e_stack = traceOf env (nextError w), e_cause = None\<rparr>),
              nextError := nextError w + 1\<rparr>)) (\<lambda>_. ret (nextError w)))"

definition throwError :: "'w Environment \<Rightarrow> err_class \<Rightarrow> jsstring \<Rightarrow> (('x, 'v, 'm) utils_scheme, 'a) js" where
  "throwError env c m = andThen (newError env c m) (\<lambda>r. throw (ErrorRef r))"

text \<open>The object a \<open>catch\<close> clause sees: an error known only by its message is an object of its own.\<close>

definition caught :: "'w Environment \<Rightarrow> js_error \<Rightarrow> (('x, 'v, 'm) utils_scheme, nat) js" where
  "caught env e = (case e of ErrorRef r \<Rightarrow> ret r | JSError m \<Rightarrow> newError env PlainError m
     | RangeError \<Rightarrow> newError env PlainError [])"

definition setCause :: "nat \<Rightarrow> nat option \<Rightarrow> (('x, 'v, 'm) utils_scheme, unit) js" where
  "setCause r c = modifies (\<lambda>w. w\<lparr>errors := (errors w)(r := (errors w r)\<lparr>e_cause := c\<rparr>)\<rparr>)"

text \<open>\<open>new Exception(err, state)\<close>\<close>

definition newException :: "nat \<Rightarrow> (('x, 'v, 'm) utils_scheme, nat) js" where
  "newException r = reads (\<lambda>w.
     andThen (modifies (\<lambda>w. w\<lparr>exceptionId := exceptionId w + 1,
                exceptions := amap_set (exceptionId w + 1) r (exceptions w)\<rparr>)) (\<lambda>_. ret (exceptionId w + 1)))"

definition deleteException :: "nat \<Rightarrow> (('x, 'v, 'm) utils_scheme, unit) js" where
  "deleteException exc = modifies (\<lambda>w. w\<lparr>exceptions := amap_del exc (exceptions w)\<rparr>)"

definition getExceptionMessage :: "nat \<Rightarrow> ('x, 'v, 'm) utils_scheme \<Rightarrow> jsstring" where
  "getExceptionMessage exc w =
     (case map_of (exceptions w) exc of Some r \<Rightarrow> e_message (errors w r) | None \<Rightarrow> js ''Unknown'')"

definition getExceptionStack :: "nat \<Rightarrow> ('x, 'v, 'm) utils_scheme \<Rightarrow> jsstring" where
  "getExceptionStack exc w =
     (case map_of (exceptions w) exc of
        Some r \<Rightarrow> (case e_stack (errors w r) of Some s \<Rightarrow> s | None \<Rightarrow> []) | None \<Rightarrow> [])"

section \<open>Standard streams\<close>

definition exit :: "'w Environment \<Rightarrow> int \<Rightarrow> (('x, 'v, 'm) utils_scheme, 'a) js" where
  "exit env code = reads (\<lambda>w.
     throwError env (SkRuntimeExit code)
       (if code \<noteq> 0 \<and> stderr w \<noteq> [] then concat (stderr w)
        else js ''Runtime exit with code: '' @ int_text code))"

text \<open>The text up to the last newline, and the text after it.\<close>

definition after_last_newline :: "jsstring \<Rightarrow> jsstring" where
  "after_last_newline s = rev (takeWhile (\<lambda>c. c \<noteq> 0x0A) (rev s))"

definition before_last_newline :: "jsstring \<Rightarrow> jsstring" where
  "before_last_newline s = rev (drop 1 (dropWhile (\<lambda>c. c \<noteq> 0x0A) (rev s)))"

definition log :: "jsstring \<Rightarrow> StreamKind \<Rightarrow> bool \<Rightarrow> (('x, 'v, 'm) utils_scheme, unit) js" where
  "log s kind newLine =
     (let s = (if newLine then s @ [0x0A] else s) in
      case kind of
        DEBUG \<Rightarrow>
          if 0x0A \<notin> set s then modifies (\<lambda>w. w\<lparr>stddebug := stddebug w @ [s]\<rparr>)
          else modifies (\<lambda>w. w\<lparr>console := console w @ [concat (stddebug w) @ before_last_newline s],
                               stddebug := [after_last_newline s]\<rparr>)
      | ERR \<Rightarrow> modifies (\<lambda>w. w\<lparr>stderr := stderr w @ [s]\<rparr>)
      | OUT \<Rightarrow> modifies (\<lambda>w. w\<lparr>stdout := stdout w @ [s]\<rparr>))"

definition clearMainEnvironment :: "jsstring list \<Rightarrow> jsstring \<Rightarrow> (('x, 'v, 'm) utils_scheme, unit) js" where
  "clearMainEnvironment new_args new_stdin = modifies (\<lambda>w. w\<lparr>
     u_args := (case mainFn w of Some m \<Rightarrow> m | None \<Rightarrow> js ''main'') # new_args,
     u_exception := None, stacks := [], current_stdin := 0, stdin := utf8_encode new_stdin,
     stdout := [], stderr := [], stddebug := []\<rparr>)"

text \<open>The console output of what is left in the debug stream.\<close>

definition flushDebug :: "(('x, 'v, 'm) utils_scheme, unit) js" where
  "flushDebug = modifies (\<lambda>w. if stddebug w \<noteq> [] then w\<lparr>console := console w @ [concat (stddebug w)]\<rparr> else w)"

definition runCheckError :: "'w Environment \<Rightarrow> (('x, 'v, 'm) utils_scheme, 'a) js \<Rightarrow> (('x, 'v, 'm) utils_scheme, 'a) js" where
  "runCheckError env fn =
     andThen (clearMainEnvironment [] []) (\<lambda>_.
     andThen fn (\<lambda>res.
     andThen flushDebug (\<lambda>_. reads (\<lambda>w.
     if stderr w = [] then ret res
     else andThen (newError env PlainError (concat (stderr w))) (\<lambda>r.
          andThen (setCause r (u_exception w)) (\<lambda>_. throw (ErrorRef r)))))))"

section \<open>Reading the input\<close>

text \<open>
  The loop of \<open>readStdInLine\<close> over the bytes left: the line and the number of bytes consumed, or
  \<open>None\<close> at the end of the input with nothing read.
\<close>

fun readLine_loop :: "bytes \<Rightarrow> bytes \<Rightarrow> nat \<Rightarrow> (bytes \<times> nat) option" where
  "readLine_loop [] lineBuffer cur = (if lineBuffer = [] then None else Some (lineBuffer, cur))"
| "readLine_loop (b # rest) lineBuffer cur =
     (if b = 10 then Some (lineBuffer, cur + 1) else readLine_loop rest (lineBuffer @ [b]) (cur + 1))"

definition eof :: "'w Exported \<Rightarrow> ('w, 'a) js" where
  "eof ex w = (case SKIP_throw_EndOfFile ex w of (e, w') \<Rightarrow> (Inl e, w'))"

definition readStdInLine :: "('x, 'v, 'm) utils_scheme Exported \<Rightarrow> (('x, 'v, 'm) utils_scheme, bytes) js" where
  "readStdInLine ex = reads (\<lambda>w.
     if length (stdin w) \<le> current_stdin w then eof ex
     else (case readLine_loop (drop (current_stdin w) (stdin w)) [] (current_stdin w) of
             None \<Rightarrow> eof ex
           | Some (line, cur) \<Rightarrow> andThen (modifies (\<lambda>w. w\<lparr>current_stdin := cur\<rparr>)) (\<lambda>_. ret line)))"

fun readToEnd_loop :: "bytes \<Rightarrow> bytes \<Rightarrow> nat \<Rightarrow> bytes \<times> nat" where
  "readToEnd_loop [] lineBuffer cur = (lineBuffer, cur)"
| "readToEnd_loop (b # rest) lineBuffer cur = readToEnd_loop rest (lineBuffer @ [b]) (cur + 1)"

definition readStdInToEnd :: "(('x, 'v, 'm) utils_scheme, bytes) js" where
  "readStdInToEnd = reads (\<lambda>w.
     case readToEnd_loop (drop (current_stdin w) (stdin w)) [] (current_stdin w) of
       (line, cur) \<Rightarrow> andThen (modifies (\<lambda>w. w\<lparr>current_stdin := cur\<rparr>)) (\<lambda>_. ret line))"

section \<open>Strings and bytes across the boundary\<close>

definition importString :: "('x, 'v, 'm) utils_scheme Exported \<Rightarrow> nat \<Rightarrow> (('x, 'v, 'm) utils_scheme, jsstring) js" where
  "importString ex strPtr =
     andThen (SKIP_String_byteSize ex strPtr) (\<lambda>size. reads (\<lambda>w.
     andThen (lift (view strPtr size (memory w))) (\<lambda>utf8. ret (utf8_decode utf8))))"

definition importOptString :: "('x, 'v, 'm) utils_scheme Exported \<Rightarrow> nat \<Rightarrow> (('x, 'v, 'm) utils_scheme, jsstring option) js" where
  "importOptString ex strPtr =
     (if 0 < strPtr then andThen (importString ex strPtr) (\<lambda>s. ret (Some s)) else ret None)"

text \<open>
  \<open>data[k] = v\<close> through a \<open>Uint8Array\<close> taken when the memory had generation \<open>g\<close>: the value is
  reduced to a byte, and a write outside the array or through a detached one does nothing.
\<close>

definition putByte :: "nat \<Rightarrow> nat \<Rightarrow> nat \<Rightarrow> (('x, 'v, 'm) utils_scheme, unit) js" where
  "putByte g k v = modifies (\<lambda>w. if generation w = g then w\<lparr>memory := (memory w)[k := of_nat v]\<rparr> else w)"

text \<open>The loop of \<open>exportString\<close>: \<open>i\<close> bytes are written, \<open>ci\<close> is the index of the next code unit.\<close>

fun exportString_loop :: "nat \<Rightarrow> nat \<Rightarrow> nat \<Rightarrow> nat \<Rightarrow> jsstring \<Rightarrow> (('x, 'v, 'm) utils_scheme, nat) js" where
  "exportString_loop g addr i ci [] = ret i"
| "exportString_loop g addr i ci (u # s) =
     (let c = unat u in
      if c < 128 then andThen (putByte g (addr + i) c) (\<lambda>_. exportString_loop g addr (i + 1) (ci + 1) s)
      else if c < 2048 then
        andThen (putByte g (addr + i) (drop_bit 6 c OR 192)) (\<lambda>_.
        andThen (putByte g (addr + i + 1) ((c AND 63) OR 128)) (\<lambda>_. exportString_loop g addr (i + 2) (ci + 1) s))
      else if 0xD7FF < c \<and> c < 0xDC00 then
        (case s of
           [] \<Rightarrow> throw (err ''UTF-8 encode: incomplete surrogate pair'')
         | u2 # s2 \<Rightarrow>
             if unat u2 < 0xDC00 \<or> 0xDFFF < unat u2
             then throw (JSError (js ''UTF-8 encode: second surrogate character 0x'' @ hex_text (unat u2)
                    @ js '' at index '' @ nat_text (ci + 1) @ js '' out of range''))
             else (let c = 0x10000 + push_bit 10 (c AND 0x03FF) + (unat u2 AND 0x03FF) in
               andThen (putByte g (addr + i) (drop_bit 18 c OR 240)) (\<lambda>_.
               andThen (putByte g (addr + i + 1) ((drop_bit 12 c AND 63) OR 128)) (\<lambda>_.
               andThen (putByte g (addr + i + 2) ((drop_bit 6 c AND 63) OR 128)) (\<lambda>_.
               andThen (putByte g (addr + i + 3) ((c AND 63) OR 128)) (\<lambda>_.
               exportString_loop g addr (i + 4) (ci + 2) s2))))))
      else
        andThen (putByte g (addr + i) (drop_bit 12 c OR 224)) (\<lambda>_.
        andThen (putByte g (addr + i + 1) ((drop_bit 6 c AND 63) OR 128)) (\<lambda>_.
        andThen (putByte g (addr + i + 2) ((c AND 63) OR 128)) (\<lambda>_.
        exportString_loop g addr (i + 3) (ci + 1) s))))"

definition exportString :: "('x, 'v, 'm) utils_scheme Exported \<Rightarrow> jsstring \<Rightarrow> (('x, 'v, 'm) utils_scheme, nat) js" where
  "exportString ex s = reads (\<lambda>w.
     andThen (SKIP_Obstack_alloc ex (length s * 4)) (\<lambda>addr.
     andThen (exportString_loop (generation w) addr 0 0 s) (\<lambda>i.
     sk_string_create ex addr i)))"

text \<open>\<open>new Uint8Array(buffer, ptr, n).set(bs)\<close> with \<open>n\<close> the length of \<open>bs\<close>\<close>

definition putBytes :: "nat \<Rightarrow> bytes \<Rightarrow> (('x, 'v, 'm) utils_scheme, unit) js" where
  "putBytes p bs = reads (\<lambda>w. andThen (lift (write_at p bs (memory w))) (\<lambda>m. modifies (\<lambda>w. w\<lparr>memory := m\<rparr>)))"

definition importBytes :: "('x, 'v, 'm) utils_scheme Exported \<Rightarrow> nat \<Rightarrow> nat \<Rightarrow> (('x, 'v, 'm) utils_scheme, bytes) js" where
  "importBytes ex skArray sizeof =
     andThen (SKIP_getArraySize ex skArray) (\<lambda>n. reads (\<lambda>w. lift (view skArray (n * sizeof) (memory w))))"

definition importBytes2 :: "nat \<Rightarrow> nat \<Rightarrow> (('x, 'v, 'm) utils_scheme, bytes) js" where
  "importBytes2 skBytes n = reads (\<lambda>w. lift (view skBytes n (memory w)))"

definition exportBytes :: "('x, 'v, 'm) utils_scheme Exported \<Rightarrow> bytes \<Rightarrow> (('x, 'v, 'm) utils_scheme, nat) js" where
  "exportBytes ex bs =
     andThen (SKIP_createByteArray ex (length bs)) (\<lambda>skArray.
     andThen (putBytes skArray bs) (\<lambda>_. ret skArray))"

definition exportBytes2 :: "bytes \<Rightarrow> nat \<Rightarrow> (('x, 'v, 'm) utils_scheme, unit) js" where
  "exportBytes2 bs skBytes = putBytes skBytes bs"

text \<open>\<open>Uint32Array\<close> is little-endian here, and a view must start at a multiple of four.\<close>

primrec le32s :: "(32 word) list \<Rightarrow> bytes" where
  "le32s [] = []"
| "le32s (x # xs) = rev (be 4 (unat x)) @ le32s xs"

fun unle32s :: "bytes \<Rightarrow> (32 word) list" where
  "unle32s (a # b # c # d # bs) = of_nat (unbe [d, c, b, a]) # unle32s bs"
| "unle32s _ = []"

definition importUInt32s :: "('x, 'v, 'm) utils_scheme Exported \<Rightarrow> nat \<Rightarrow> (('x, 'v, 'm) utils_scheme, (32 word) list) js" where
  "importUInt32s ex skArray =
     andThen (SKIP_getArraySize ex skArray) (\<lambda>n. reads (\<lambda>w.
     if skArray mod 4 \<noteq> 0 then throw RangeError
     else andThen (lift (view skArray (4 * n) (memory w))) (\<lambda>bs. ret (unle32s bs))))"

definition exportUInt32s :: "('x, 'v, 'm) utils_scheme Exported \<Rightarrow> (32 word) list \<Rightarrow> (('x, 'v, 'm) utils_scheme, nat) js" where
  "exportUInt32s ex xs =
     andThen (SKIP_createUInt32Array ex (length xs)) (\<lambda>skArray.
     if skArray mod 4 \<noteq> 0 then throw RangeError
     else andThen (putBytes skArray (le32s xs)) (\<lambda>_. ret skArray))"

section \<open>Calls and exceptions across the boundary\<close>

definition sklog :: "('x, 'v, 'm) utils_scheme Exported \<Rightarrow> nat \<Rightarrow> StreamKind \<Rightarrow> bool \<Rightarrow> (('x, 'v, 'm) utils_scheme, unit) js" where
  "sklog ex strPtr kind newLine = andThen (importString ex strPtr) (\<lambda>s. log s kind newLine)"

definition call :: "('x, 'v, 'm) utils_scheme Exported \<Rightarrow> nat \<Rightarrow> (('x, 'v, 'm) utils_scheme, nat) js" where
  "call ex fnId = SKIP_call0 ex fnId"

definition callWithException :: "('x, 'v, 'm) utils_scheme Exported \<Rightarrow> nat \<Rightarrow> nat option \<Rightarrow> (('x, 'v, 'm) utils_scheme, nat) js" where
  "callWithException ex fnId exc = SKIP_callWithException ex fnId (case exc of Some i \<Rightarrow> i | None \<Rightarrow> 0)"

definition u_init :: "('x, 'v, 'm) utils_scheme Exported \<Rightarrow> (('x, 'v, 'm) utils_scheme, unit) js" where
  "u_init ex = reads (\<lambda>w.
     andThen (SKIP_skstore_init ex (length (memory w) - heap_base ex)) (\<lambda>_.
     andThen (SKIP_initializeSkip ex) (\<lambda>_. SKIP_skstore_end_of_init ex)))"

text \<open>The \<open>catch\<close> clause of \<open>etry\<close>, and its \<open>finally\<close> clause, which sees the local variable \<open>err\<close>.\<close>

definition etry_catch ::
  "('x, 'v, 'm) utils_scheme Environment \<Rightarrow> ('x, 'v, 'm) utils_scheme Exported \<Rightarrow> nat \<Rightarrow> nat \<Rightarrow> (('x, 'v, 'm) utils_scheme, nat) js" where
  "etry_catch env ex exn_handler exn = reads (\<lambda>w.
     andThen (if u_exception w \<noteq> None \<and> u_exception w \<noteq> Some exn then setCause exn (u_exception w) else skip) (\<lambda>_.
     andThen (modifies (\<lambda>w. w\<lparr>u_exception := Some exn\<rparr>)) (\<lambda>_.
     andThen (if e_class (errors w exn) \<noteq> SkError then andThen (newException exn) (\<lambda>i. ret (Some i)) else ret None) (\<lambda>exc.
     callWithException ex exn_handler exc))))"

definition etry_finally :: "nat option \<Rightarrow> (('x, 'v, 'm) utils_scheme, unit) js" where
  "etry_finally e = modifies (\<lambda>w. if u_exception w = e then w\<lparr>u_exception := None\<rparr> else w)"

definition etry ::
  "('x, 'v, 'm) utils_scheme Environment \<Rightarrow> ('x, 'v, 'm) utils_scheme Exported \<Rightarrow> nat \<Rightarrow> nat \<Rightarrow> (('x, 'v, 'm) utils_scheme, nat) js" where
  "etry env ex f exn_handler w =
     (case call ex f w of
        (Inr r, w') \<Rightarrow> tryFinally (ret r) (etry_finally None) w'
      | (Inl e, w') \<Rightarrow>
          andThen (caught env e) (\<lambda>exn. tryFinally (etry_catch env ex exn_handler exn) (etry_finally (Some exn))) w')"

text \<open>\<open>lines[0].startsWith("external:")\<close>: the number that follows, and the lines after the first.\<close>

definition external_prefix :: jsstring where "external_prefix = js ''external:''"

definition is_external :: "jsstring \<Rightarrow> bool" where
  "is_external line \<longleftrightarrow> take 9 line = external_prefix"

definition externalId :: "jsstring \<Rightarrow> int option" where
  "externalId line = parseInt (drop 9 line)"

definition lookupException :: "int option \<Rightarrow> ('x, 'v, 'm) utils_scheme \<Rightarrow> nat option" where
  "lookupException i w = (case i of Some n \<Rightarrow> if n < 0 then None else map_of (exceptions w) (nat n) | None \<Rightarrow> None)"

definition internal_error :: jsstring where "internal_error = js ''SKStore Internal error''"

text \<open>The message of a Skip exception: the error it stands for, or the text it is reported with.\<close>

definition ethrow ::
  "('x, 'v, 'm) utils_scheme Environment \<Rightarrow> ('x, 'v, 'm) utils_scheme Exported \<Rightarrow> nat \<Rightarrow> bool \<Rightarrow> (('x, 'v, 'm) utils_scheme, 'a) js" where
  "ethrow env ex skExc rethrow =
     andThen (onException env) (\<lambda>_. reads (\<lambda>w.
     if rethrow \<and> u_exception w \<noteq> None then throw (ErrorRef (the (u_exception w)))
     else
       andThen (if skExc \<noteq> 0 then SKIP_getExceptionMessage ex skExc else ret 0) (\<lambda>skMessage.
       andThen (if skMessage \<noteq> 0 then importString ex skMessage else ret internal_error) (\<lambda>message.
       let lines = lines_of message;
           raise = (\<lambda>m. andThen (newError env SkError m) (\<lambda>r. andThen (modifies (\<lambda>w.
             case e_stack (errors w r) of Some st \<Rightarrow> if st = [] then w else w\<lparr>stacks := amap_set skExc st (stacks w)\<rparr> | None \<Rightarrow> w))
             (\<lambda>_. throw (ErrorRef r))))
       in if is_external (hd lines) then
            (let message = join [newline] (tl lines) in
             reads (\<lambda>w. case lookupException (externalId (hd lines)) w of
               Some r \<Rightarrow> throw (ErrorRef r)
             | None \<Rightarrow> raise (if trim message = [] then internal_error else message)))
          else raise message))))"

definition replace_exn :: "nat \<Rightarrow> nat \<Rightarrow> (('x, 'v, 'm) utils_scheme, unit) js" where
  "replace_exn oldex newex = modifies (\<lambda>w.
     case map_of (stacks w) oldex of
       Some st \<Rightarrow> if st = [] then w else w\<lparr>stacks := amap_set newex st (amap_del oldex (stacks w))\<rparr>
     | None \<Rightarrow> w)"

definition getErrorObject ::
  "('x, 'v, 'm) utils_scheme Environment \<Rightarrow> ('x, 'v, 'm) utils_scheme Exported \<Rightarrow> nat \<Rightarrow> (('x, 'v, 'm) utils_scheme, nat) js" where
  "getErrorObject env ex skExc =
     (if skExc = 0 then newError env PlainError internal_error
      else
        andThen (SKIP_getExceptionMessage ex skExc) (\<lambda>skMessage.
        andThen (importString ex skMessage) (\<lambda>message. reads (\<lambda>w.
        let errStack = map_of (stacks w) skExc;
            line = hd (lines_of message);
            (message, errStack) =
              (if is_external line then
                 (case lookupException (externalId line) w of
                    Some r \<Rightarrow> (e_message (errors w r), e_stack (errors w r))
                  | None \<Rightarrow> (if trim message = [] then internal_error else message, errStack))
               else (message, errStack))
        in andThen (newError env PlainError message) (\<lambda>r.
           andThen (modifies (\<lambda>w. w\<lparr>errors := (errors w)(r := (errors w r)
              \<lparr>e_stack := (case errStack of Some st \<Rightarrow> if st = [] then e_stack (errors w r) else Some st
                           | None \<Rightarrow> e_stack (errors w r)),
               e_cause := u_exception w\<rparr>)\<rparr>)) (\<lambda>_. ret r))))))"

section \<open>Allocation scopes and shared state\<close>

text \<open>\<open>clone\<close> stands for \<open>cloneIfProxy\<close> of the result.\<close>

definition runWithGc ::
  "('x, 'v, 'm) utils_scheme Exported \<Rightarrow> ('a \<Rightarrow> (('x, 'v, 'm) utils_scheme, 'a) js) \<Rightarrow> (('x, 'v, 'm) utils_scheme, 'a) js \<Rightarrow> (('x, 'v, 'm) utils_scheme, 'a) js" where
  "runWithGc ex clone fn =
     andThen (modifies (\<lambda>w. w\<lparr>stddebug := []\<rparr>)) (\<lambda>_.
     andThen (SKIP_new_Obstack ex) (\<lambda>obsPos.
     tryFinally
       (tryCatch
          (andThen fn (\<lambda>x. andThen (clone x) (\<lambda>res. andThen (SKIP_destroy_Obstack ex obsPos) (\<lambda>_. ret res))))
          (\<lambda>e. andThen (SKIP_destroy_Obstack ex obsPos) (\<lambda>_. throw e)))
       flushDebug))"

definition getState :: "jsstring \<Rightarrow> (('x, 'v, 'm) utils_scheme, 'v) js \<Rightarrow> (('x, 'v, 'm) utils_scheme, 'v) js" where
  "getState name create = reads (\<lambda>w.
     case map_of (states w) name of
       Some v \<Rightarrow> ret v
     | None \<Rightarrow> andThen create (\<lambda>v. andThen (modifies (\<lambda>w. w\<lparr>states := amap_set name v (states w)\<rparr>)) (\<lambda>_. ret v)))"

section \<open>Running the program\<close>

text \<open>\<open>line.matchAll(/external:([0-9]+)/g)\<close>: the texts matched, from left to right.\<close>

fun matchExternals :: "jsstring \<Rightarrow> jsstring list" where
  "matchExternals s =
     (if s = [] then []
      else if is_external s \<and> takeWhile is_digit (drop 9 s) \<noteq> []
      then (let m = external_prefix @ takeWhile is_digit (drop 9 s) in m # matchExternals (drop (length m) s))
      else matchExternals (tl s))"

declare matchExternals.simps [simp del]

text \<open>\<open>line.replace(m, "")\<close> for a string \<open>m\<close>: the first occurrence is removed.\<close>

fun removeFirst :: "jsstring \<Rightarrow> jsstring \<Rightarrow> jsstring" where
  "removeFirst m [] = []"
| "removeFirst m (c # s) = (if take (length m) (c # s) = m then drop (length m) (c # s) else c # removeFirst m s)"

definition sortedExternals :: "jsstring \<Rightarrow> jsstring list" where
  "sortedExternals line = sort_key (\<lambda>m. dec_value (drop 9 m)) (matchExternals line)"

text \<open>The loop over the lines of the error output: the pending prefix and the lines kept.\<close>

definition mainLine :: "jsstring \<Rightarrow> jsstring \<times> jsstring list \<Rightarrow> jsstring \<times> jsstring list" where
  "mainLine line st = (case st of (tmp, lines) \<Rightarrow>
     (let ms = sortedExternals line in
      if ms \<noteq> [] then (foldl (\<lambda>l m. removeFirst m l) line ms, lines) else ([], lines @ [tmp @ line])))"

definition mainMessage :: "jsstring list \<Rightarrow> jsstring" where
  "mainMessage stderrs =
     (case (if stderrs = [] then ([], []) else foldl (\<lambda>st line. mainLine line st) ([], []) (lines_of (concat stderrs))) of
        (tmp, lines) \<Rightarrow> trim (join [newline] (if tmp \<noteq> [] then lines @ [tmp] else lines)))"

text \<open>The calls of \<open>main\<close> up to the exit code: an exit of the program is caught, any other error leaves.\<close>

definition runMain :: "('x, 'v, 'm) utils_scheme Environment \<Rightarrow> ('x, 'v, 'm) utils_scheme Exported \<Rightarrow> (('x, 'v, 'm) utils_scheme, int) js" where
  "runMain env ex = reads (\<lambda>w.
     tryCatch
       (andThen (case mainFn w of None \<Rightarrow> skip_main ex | Some m \<Rightarrow> exported_main ex m) (\<lambda>_. ret 0))
       (\<lambda>e. andThen (caught env e) (\<lambda>exn. reads (\<lambda>w.
          case e_class (errors w exn) of
            SkRuntimeExit code \<Rightarrow> ret code
          | _ \<Rightarrow> andThen (if u_exception w \<noteq> None \<and> u_exception w \<noteq> Some exn
                          then setCause exn (u_exception w) else skip) (\<lambda>_. throw (ErrorRef exn))))))"

definition main ::
  "('x, 'v, 'm) utils_scheme Environment \<Rightarrow> ('x, 'v, 'm) utils_scheme Exported \<Rightarrow> jsstring list \<Rightarrow> jsstring \<Rightarrow> (('x, 'v, 'm) utils_scheme, jsstring) js" where
  "main env ex new_args new_stdin =
     andThen (clearMainEnvironment new_args new_stdin) (\<lambda>_.
     andThen (runMain env ex) (\<lambda>exitCode.
     andThen flushDebug (\<lambda>_. reads (\<lambda>w.
     if exitCode \<noteq> 0 \<or> stderr w \<noteq> [] then
       andThen (newError env (SkRuntimeExit exitCode) (mainMessage (stderr w))) (\<lambda>r.
       andThen (setCause r (u_exception w)) (\<lambda>_. throw (ErrorRef r)))
     else ret (concat (stdout w))))))"

section \<open>Paths\<close>

text \<open>The loop of \<open>resolve\<close>; \<open>url\<close> is \<open>import.meta.url\<close>.\<close>

fun resolve_loop :: "jsstring \<Rightarrow> jsstring list \<Rightarrow> jsstring list \<Rightarrow> js_error + jsstring list" where
  "resolve_loop path elements [] = Inr elements"
| "resolve_loop path elements (e # es) =
     (if e = js ''..'' then
        (if length elements = 1 then Inl (JSError (js ''Invalid path: '' @ path))
         else resolve_loop path (butlast elements) es)
      else if e \<noteq> js ''.'' then resolve_loop path (elements @ [e]) es
      else resolve_loop path elements es)"

definition resolve :: "jsstring \<Rightarrow> jsstring \<Rightarrow> js_error + jsstring" where
  "resolve url path =
     (case resolve_loop path (butlast (split1 0x2F url)) (split1 0x2F path) of
        Inl e \<Rightarrow> Inl e | Inr elements \<Rightarrow> Inr (join [0x2F] elements))"

text \<open>The loop of \<open>trimEndChar\<close> for a single code unit: \<open>end\<close> moves down while the unit before it matches.\<close>

fun trimEnd_loop :: "jsstring \<Rightarrow> code_unit \<Rightarrow> nat \<Rightarrow> nat" where
  "trimEnd_loop s ch 0 = 0"
| "trimEnd_loop s ch (Suc e) = (if s ! e = ch then trimEnd_loop s ch e else Suc e)"

definition trimEndChar :: "jsstring \<Rightarrow> code_unit \<Rightarrow> jsstring" where
  "trimEndChar s ch = (let e = trimEnd_loop s ch (length s) in if e < length s then take e s else s)"

section \<open>Exported strings\<close>

lemma or_high: "(x :: nat) < 2 ^ k \<Longrightarrow> x OR m * 2 ^ k = x + m * 2 ^ k"
proof -
  assume "x < 2 ^ k"
  then have "\<not> bit x n" if "k \<le> n" for n
    using that by (metis bit_take_bit_iff not_less take_bit_nat_eq_self)
  moreover have "\<not> bit (m * 2 ^ k) n" if "n < k" for n
    using that by (simp add: bit_push_bit_iff flip: push_bit_eq_mult)
  ultimately have "x AND m * 2 ^ k = 0" by (intro bit_eqI) (metis bit_0_eq bit_and_iff bot_apply bot_bool_def not_less)
  then show ?thesis by (simp add: disjunctive_add_eq_or)
qed

lemma or_192: "x < 64 \<Longrightarrow> x OR 192 = (192 + x :: nat)"
  using or_high [of x 6 3] by simp

lemma or_224: "x < 32 \<Longrightarrow> x OR 224 = (224 + x :: nat)"
  using or_high [of x 5 7] by simp

lemma or_240: "x < 16 \<Longrightarrow> x OR 240 = (240 + x :: nat)"
  using or_high [of x 4 15] by simp

lemma or_128: "x < 64 \<Longrightarrow> x OR 128 = (128 + x :: nat)"
  using or_high [of x 6 2] by simp

lemma and_63: "x AND 63 = (x mod 64 :: nat)"
  and and_1023: "x AND 1023 = (x mod 1024 :: nat)"
  using take_bit_eq_mask [of 6 x] take_bit_eq_mask [of 10 x]
  by (simp_all add: take_bit_eq_mod mask_eq_exp_minus_1)

lemma shifts: "drop_bit 6 x = (x div 64 :: nat)" "drop_bit 12 x = (x div 4096 :: nat)"
    "drop_bit 18 x = (x div 262144 :: nat)" "push_bit 10 x = (x * 1024 :: nat)"
  by (simp_all add: drop_bit_eq_div push_bit_eq_mult)

lemmas utf8_bits = or_192 or_224 or_240 or_128 and_63 and_1023 shifts


definition overwrite :: "nat \<Rightarrow> bytes \<Rightarrow> bytes \<Rightarrow> bytes" where
  "overwrite k bs m = take k m @ bs @ drop (k + length bs) m"

lemma overwrite_Nil [simp]: "overwrite k [] m = m"
  by (simp add: overwrite_def)

lemma length_overwrite [simp]: "k + length bs \<le> length m \<Longrightarrow> length (overwrite k bs m) = length m"
  by (simp add: overwrite_def)

lemma overwrite_Cons:
  "k < length m \<Longrightarrow> overwrite k (b # bs) m = overwrite (Suc k) bs (m[k := b])"
  by (simp add: overwrite_def take_Suc_conv_app_nth)

lemma overwrite_append:
  "k + length bs + length cs \<le> length m \<Longrightarrow> overwrite (k + length bs) cs (overwrite k bs m) = overwrite k (bs @ cs) m"
proof -
  assume a: "k + length bs + length cs \<le> length m"
  then have t: "length (take k m @ bs) = k + length bs" by simp
  have "overwrite k bs m = (take k m @ bs) @ drop (k + length bs) m" by (simp add: overwrite_def)
  then show ?thesis
    unfolding overwrite_def [of "k + length bs"] using a t by (simp add: overwrite_def drop_drop add.commute add.left_commute)
qed

lemma view_overwrite:
  "k + length bs \<le> length m \<Longrightarrow> view k (length bs) (overwrite k bs m) = Inr bs"
  by (simp add: view_def overwrite_def)

lemma add_3_4: "(i::nat) + 3 = Suc (Suc (Suc i))" "(i::nat) + 4 = Suc (Suc (Suc (Suc i)))"
  by linarith+

lemma exportString_unit:
  assumes "\<not> is_high u" and "generation w = g" and "addr + i + length (encode_cp (unat u)) \<le> length (memory w)"
  shows "exportString_loop g addr i ci (u # s) w = exportString_loop g addr (i + length (encode_cp (unat u))) (ci + 1) s
    (w\<lparr>memory := overwrite (addr + i) (encode_cp (unat u)) (memory w)\<rparr>)"
proof -
  have c: "unat u < 0x10000" "(0xD7FF < unat u \<and> unat u < 0xDC00) = False"
    using unat_unit_less [of u] assms(1) by (auto simp: is_high_def)
  then consider "unat u < 128" | "128 \<le> unat u" "unat u < 2048" | "2048 \<le> unat u" by linarith
  then show ?thesis
  proof cases
    case 1
    with assms c show ?thesis by (simp add: encode_cp_def putByte_def overwrite_Cons)
  next
    case 2
    then have "unat u div 64 < 64" by simp
    with 2 assms c show ?thesis
      by (simp add: encode_cp_def putByte_def overwrite_Cons utf8_bits Let_def)
  next
    case 3
    from c(1) have "unat u div 4096 < 32" by simp
    with 3 assms(2,3) c(1) show ?thesis
      by (simp add: c(2) encode_cp_def putByte_def overwrite_Cons utf8_bits Let_def add_3_4)
  qed
qed

lemma exportString_pair:
  assumes "is_high u" and "is_low v" and "generation w = g"
    and "addr + i + length (encode_cp (pair_cp u v)) \<le> length (memory w)"
  shows "exportString_loop g addr i ci (u # v # s) w = exportString_loop g addr (i + length (encode_cp (pair_cp u v))) (ci + 2) s
    (w\<lparr>memory := overwrite (addr + i) (encode_cp (pair_cp u v)) (memory w)\<rparr>)"
proof -
  have u: "0xD800 \<le> unat u" "unat u < 0xDC00" and v: "0xDC00 \<le> unat v" "unat v < 0xE000"
    using assms(1,2) by (auto simp: is_high_def is_low_def)
  have m: "n mod 1024 = n - k * 1024" if "k * 1024 \<le> n" "n < k * 1024 + 1024" for n k :: nat
    using that by (metis add_diff_inverse_nat add_less_cancel_left mod_less mod_mult_self3 not_less)
  have "unat u mod 1024 = unat u - 0xD800" "unat v mod 1024 = unat v - 0xDC00"
    using m [of 54 "unat u"] m [of 55 "unat v"] u v by simp_all
  then have cp: "65536 + unat u mod 1024 * 1024 + unat v mod 1024 = pair_cp u v" by (simp add: pair_cp_def)
  have r: "65536 \<le> pair_cp u v" "pair_cp u v < 0x110000"
    using u v by (auto simp: pair_cp_def)
  then have "pair_cp u v div 262144 < 16" by simp
  with u v assms(3,4) r show ?thesis
    by (simp add: encode_cp_def putByte_def overwrite_Cons utf8_bits cp Let_def add_3_4)
qed

text \<open>Writing two pieces one after the other.\<close>

lemma loop_writes_append:
  assumes "exportString_loop g addr (i + length b) ci s (w\<lparr>memory := overwrite (addr + i) b (memory w)\<rparr>)
      = (Inr (i + length b + length bs),
         w\<lparr>memory := overwrite (addr + (i + length b)) bs (overwrite (addr + i) b (memory w))\<rparr>)"
    and "addr + i + length (b @ bs) \<le> length (memory w)"
  shows "exportString_loop g addr (i + length b) ci s (w\<lparr>memory := overwrite (addr + i) b (memory w)\<rparr>)
      = (Inr (i + length (b @ bs)), w\<lparr>memory := overwrite (addr + i) (b @ bs) (memory w)\<rparr>)"
proof -
  have "addr + i + length b + length bs \<le> length (memory w)" using assms(2) by simp
  from overwrite_append [OF this] show ?thesis unfolding assms(1) by (simp add: add.assoc)
qed

lemma exportString_loop_writes:
  "skip_utf8 ci s = Inr bs \<Longrightarrow> generation w = g \<Longrightarrow> addr + i + length bs \<le> length (memory w) \<Longrightarrow>
   exportString_loop g addr i ci s w = (Inr (i + length bs), w\<lparr>memory := overwrite (addr + i) bs (memory w)\<rparr>)"
proof (induction ci s arbitrary: i bs w rule: skip_utf8.induct)
  case (2 ci u s)
  show ?case
  proof (cases "is_high u")
    case True
    with "2.prems"(1) obtain v s2 cs where v: "s = v # s2" "is_low v" "skip_utf8 (ci + 2) s2 = Inr cs"
      and bs: "bs = encode_cp (pair_cp u v) @ cs"
      by (auto split: list.splits if_splits simp: bindE_Inr_iff)
    have fit: "addr + i + length (encode_cp (pair_cp u v)) \<le> length (memory w)" using "2.prems"(3) bs by simp
    show ?thesis unfolding bs v(1) exportString_pair [OF True v(2) "2.prems"(2) fit]
      by (rule loop_writes_append) (use "2.prems" fit bs "2.IH"(1) [OF True v] in simp_all)
  next
    case False
    with "2.prems"(1) obtain cs where v: "skip_utf8 (ci + 1) s = Inr cs" and bs: "bs = encode_cp (unat u) @ cs"
      by (auto simp: bindE_Inr_iff)
    have fit: "addr + i + length (encode_cp (unat u)) \<le> length (memory w)" using "2.prems"(3) bs by simp
    show ?thesis unfolding bs exportString_unit [OF False "2.prems"(2) fit]
      by (rule loop_writes_append) (use "2.prems" fit bs "2.IH"(2) [OF False v] in simp_all)
  qed
qed simp

text \<open>A string that cannot be encoded makes the export fail with the error of the encoder.\<close>

lemma exportString_loop_fails:
  "skip_utf8 ci s = Inl e \<Longrightarrow> generation w = g \<Longrightarrow> addr + i + 4 * length s \<le> length (memory w) \<Longrightarrow>
   fst (exportString_loop g addr i ci s w) = Inl e"
proof (induction ci s arbitrary: i w rule: skip_utf8.induct)
  case (2 ci u s)
  show ?case
  proof (cases "is_high u")
    case True
    then have u: "\<not> unat u < 128" "\<not> unat u < 2048" "0xD7FF < unat u \<and> unat u < 0xDC00" by (auto simp: is_high_def)
    show ?thesis
    proof (cases s)
      case Nil
      with "2.prems"(1) True u show ?thesis by simp
    next
      case s: (Cons v s2)
      show ?thesis
      proof (cases "is_low v")
        case False
        then have "unat v < 0xDC00 \<or> 0xDFFF < unat v" by (auto simp: is_low_def)
        with "2.prems"(1) True u s False show ?thesis by (simp add: Let_def)
      next
        case v: True
        with "2.prems"(1) True s have e: "skip_utf8 (ci + 2) s2 = Inl e" by (simp split: sum.splits add: bindE_def)
        have fit: "addr + i + length (encode_cp (pair_cp u v)) \<le> length (memory w)"
          using "2.prems"(3) s length_encode_cp(1) [of "pair_cp u v"] by simp
        show ?thesis unfolding s exportString_pair [OF True v "2.prems"(2) fit]
          by (rule "2.IH"(1) [OF True s v e]) (use "2.prems" fit s length_encode_cp(1) [of "pair_cp u v"] in simp_all)
      qed
    qed
  next
    case False
    with "2.prems"(1) have e: "skip_utf8 (ci + 1) s = Inl e" by (simp split: sum.splits add: bindE_def)
    have fit: "addr + i + length (encode_cp (unat u)) \<le> length (memory w)"
      using "2.prems"(3) length_encode_cp(1) [of "unat u"] by simp
    show ?thesis unfolding exportString_unit [OF False "2.prems"(2) fit]
      by (rule "2.IH"(2) [OF False e]) (use "2.prems" fit length_encode_cp(1) [of "unat u"] in simp_all)
  qed
qed simp

text \<open>
  What the code relies on in the compiled program's string constructor: the string holds the bytes
  it is given, and reports their number.
\<close>

definition strings_ok :: "('x, 'v, 'm) utils_scheme Exported \<Rightarrow> bool" where
  "strings_ok ex \<longleftrightarrow> (\<forall>a n w. 0 < a \<and> a + n \<le> length (memory w) \<longrightarrow>
     (\<exists>p w'. sk_string_create ex a n w = (Inr p, w') \<and> 0 < p \<and> view p n (memory w') = view a n (memory w)
       \<and> SKIP_String_byteSize ex p w' = (Inr n, w')))"

lemma exportString_run:
  assumes "SKIP_Obstack_alloc ex (length s * 4) w = (Inr a, v)" and "generation v = generation w"
    and "a + length s * 4 \<le> length (memory v)" and "utf16_ok s"
  shows "exportString ex s w = sk_string_create ex a (length (utf8_encode s))
      (v\<lparr>memory := overwrite a (utf8_encode s) (memory v)\<rparr>)"
proof -
  have "a + 0 + length (utf8_encode s) \<le> length (memory v)"
    using utf8_encode_length [of s] assms(3) by simp
  from exportString_loop_writes [OF skip_utf8_ok [OF assms(4)] assms(2) this] assms(1) show ?thesis
    by (simp add: exportString_def andThen_def)
qed

text \<open>
  C33: for every well-formed string the hand-written encoder of \<open>exportString\<close> hands the compiled
  program exactly the bytes of the platform's \<open>TextEncoder\<close>, provided the allocation it made does
  not replace the memory buffer under the view it writes through.
\<close>

theorem exportString_is_utf8:
  assumes "SKIP_Obstack_alloc ex (length s * 4) w = (Inr a, v)" and "generation v = generation w"
    and "a + length s * 4 \<le> length (memory v)" and "utf16_ok s"
  shows "\<exists>u. exportString ex s w = sk_string_create ex a (length (utf8_encode s)) u
    \<and> view a (length (utf8_encode s)) (memory u) = Inr (utf8_encode s)
    \<and> take a (memory u) = take a (memory v)"
proof -
  have "a + length (utf8_encode s) \<le> length (memory v)" using utf8_encode_length [of s] assms(3) by simp
  then show ?thesis
    unfolding exportString_run [OF assms]
    by (intro exI [of _ "v\<lparr>memory := overwrite a (utf8_encode s) (memory v)\<rparr>"])
      (simp add: view_overwrite, simp add: overwrite_def)
qed

text \<open>A compiled program whose allocator always answers \<open>8\<close> and that remembers one string.\<close>

definition tiny_exports :: "(nat, nat) utils Exported" where
  "tiny_exports = \<lparr>SKIP_throw_EndOfFile = (\<lambda>w. (JSError [], w)), SKIP_String_byteSize = (\<lambda>p w. (Inr (native w), w)),
     SKIP_Obstack_alloc = (\<lambda>n. ret 8), SKIP_new_Obstack = ret 0, SKIP_destroy_Obstack = (\<lambda>_. skip),
     sk_string_create = (\<lambda>a n w. (Inr a, w\<lparr>native := n\<rparr>)), SKIP_createByteArray = (\<lambda>_. ret 8),
     SKIP_createUInt32Array = (\<lambda>_. ret 8), SKIP_getArraySize = (\<lambda>_. ret 0), SKIP_call0 = (\<lambda>_. throw (ErrorRef 0)),
     SKIP_skstore_init = (\<lambda>_. skip), SKIP_initializeSkip = skip, SKIP_skstore_end_of_init = skip,
     SKIP_callWithException = (\<lambda>_ _. ret 0), SKIP_getExceptionMessage = (\<lambda>_ w. (Inr 8, w)),
     SKIP_get_persistent_size = ret 0, SKIP_get_version = ret 0, skip_main = skip, exported_main = (\<lambda>_. skip), heap_base = 0\<rparr>"

definition tiny_world :: "(nat, nat) utils" where
  "tiny_world = \<lparr>memory = replicate 64 0, generation = 0, native = 0,
     errors = (\<lambda>_. \<lparr>e_class = PlainError, e_message = [], e_stack = None, e_cause = None\<rparr>), nextError = 1,
     exceptionId = 0, exceptions = [], states = [], u_args = [], current_stdin = 0, stdin = [], stdout = [],
     stderr = [], stddebug = [], mainFn = None, u_exception = None, stacks = [], console = []\<rparr>"

lemma strings_ok_tiny: "strings_ok tiny_exports"
  by (simp add: strings_ok_def tiny_exports_def)

theorem exportString_is_utf8_witness:
  "\<exists>u. exportString tiny_exports [0x68, 0xE9, 0xD83D, 0xDE00] tiny_world
       = sk_string_create tiny_exports 8 (length (utf8_encode [0x68, 0xE9, 0xD83D, 0xDE00])) u
    \<and> view 8 (length (utf8_encode [0x68, 0xE9, 0xD83D, 0xDE00])) (memory u) = Inr (utf8_encode [0x68, 0xE9, 0xD83D, 0xDE00])"
  using exportString_is_utf8 [of tiny_exports "[0x68, 0xE9, 0xD83D, 0xDE00]" tiny_world 8 tiny_world]
  by (auto simp: tiny_exports_def tiny_world_def is_high_def is_low_def)

text \<open>
  A string that crosses into the compiled program and back is unchanged, for every well-formed
  string that does not start with a byte order mark.
\<close>

theorem string_crosses_back:
  assumes "strings_ok ex" and "SKIP_Obstack_alloc ex (length s * 4) w = (Inr a, v)" and "generation v = generation w"
    and "0 < a" and "a + length s * 4 \<le> length (memory v)" and "text_ok s"
  shows "fst (andThen (exportString ex s) (importString ex) w) = Inr s
    \<and> fst (andThen (exportString ex s) (importOptString ex) w) = Inr (Some s)"
proof -
  let ?u = "v\<lparr>memory := overwrite a (utf8_encode s) (memory v)\<rparr>" and ?n = "length (utf8_encode s)"
  have fit: "a + ?n \<le> length (memory v)" using utf8_encode_length [of s] assms(5) by simp
  have run: "exportString ex s w = sk_string_create ex a ?n ?u"
    using assms(6) by (intro exportString_run assms) (simp add: text_ok_def)
  have "a + ?n \<le> length (memory ?u)" using fit by simp
  with assms(1,4) obtain p w' where p: "sk_string_create ex a ?n ?u = (Inr p, w')" "0 < p"
    "view p ?n (memory w') = view a ?n (memory ?u)" "SKIP_String_byteSize ex p w' = (Inr ?n, w')"
    unfolding strings_ok_def by blast
  then have "importString ex p w' = (Inr s, w')"
    using fit utf8_roundtrip [OF assms(6)] by (simp add: importString_def view_overwrite andThen_def)
  then show ?thesis using p(2) by (simp add: run p(1) importOptString_def andThen_def)
qed

theorem string_crosses_back_witness:
  "fst (andThen (exportString tiny_exports [0xD83D, 0xDE00, 0x21]) (importString tiny_exports) tiny_world)
     = Inr [0xD83D, 0xDE00, 0x21]"
  using string_crosses_back [of tiny_exports "[0xD83D, 0xDE00, 0x21]" tiny_world 8 tiny_world, OF strings_ok_tiny]
  by (simp add: tiny_exports_def tiny_world_def text_eval)

section \<open>Reading lines\<close>

lemma readLine_loop_rest:
  "10 \<notin> set rest \<Longrightarrow> readLine_loop rest acc cur = (if acc @ rest = [] then None else Some (acc @ rest, cur + length rest))"
  by (induction rest arbitrary: acc cur) auto

lemma readLine_loop_line:
  "10 \<notin> set line \<Longrightarrow> readLine_loop (line @ 10 # rest) acc cur = Some (acc @ line, cur + length line + 1)"
  by (induction line arbitrary: acc cur) auto

text \<open>
  Reading a line returns whenever input is left, always moves forward, and returns the bytes up
  to the next newline, which is consumed and not returned, or all that is left when no newline
  follows; at the end of the input it raises the end-of-file exception of the program. Iterating it
  therefore ends and splits the input into its lines.
\<close>

theorem readStdInLine_spec:
  "if current_stdin w < length (stdin w)
   then \<exists>line w'. readStdInLine ex w = (Inr line, w') \<and> w' = w\<lparr>current_stdin := current_stdin w'\<rparr>
     \<and> current_stdin w < current_stdin w' \<and> current_stdin w' \<le> length (stdin w) \<and> 10 \<notin> set line
     \<and> take (current_stdin w' - current_stdin w) (drop (current_stdin w) (stdin w))
         = line @ (if drop (current_stdin w + length line) (stdin w) = [] then [] else [10])
   else readStdInLine ex w = eof ex w"
proof (cases "current_stdin w < length (stdin w)")
  case True
  let ?r = "drop (current_stdin w) (stdin w)"
  have ne: "?r \<noteq> []" and len: "length ?r = length (stdin w) - current_stdin w" using True by auto
  show ?thesis
  proof (cases "10 \<in> set ?r")
    case False
    then have "readStdInLine ex w = (Inr ?r, w\<lparr>current_stdin := current_stdin w + length ?r\<rparr>)"
      using True ne by (simp add: readStdInLine_def readLine_loop_rest)
    with True False len show ?thesis by simp
  next
    case l: True
    then obtain line rest where r: "?r = line @ 10 # rest" "10 \<notin> set line" by (auto dest: split_list_first)
    then have "readStdInLine ex w = (Inr line, w\<lparr>current_stdin := current_stdin w + length line + 1\<rparr>)"
      using True by (simp add: readStdInLine_def readLine_loop_line)
    moreover have "drop (current_stdin w + length line) (stdin w) = 10 # rest"
      using r(1) by (metis add.commute append_eq_conv_conj drop_drop)
    moreover have "current_stdin w + length line + 1 \<le> length (stdin w)" using arg_cong [OF r(1), of length] True by simp
    ultimately show ?thesis using True r by simp
  qed
qed (simp add: readStdInLine_def)

section \<open>Trimming\<close>

lemma trimEnd_loop_spec:
  "n \<le> length s \<Longrightarrow> take (trimEnd_loop s ch n) s = rev (dropWhile (\<lambda>c. c = ch) (rev (take n s)))"
  by (induction s ch n rule: trimEnd_loop.induct) (auto simp: take_Suc_conv_app_nth)

lemma trimEndChar_spec: "trimEndChar s ch = rev (dropWhile (\<lambda>c. c = ch) (rev s))"
  using trimEnd_loop_spec [of "length s" s ch] by (auto simp: trimEndChar_def Let_def)

section \<open>Exceptions that cross the boundary\<close>

lemma split1_no: "sep \<notin> set a \<Longrightarrow> split1 sep a = [a]"
  by (induction a) auto

lemma split1_at: "sep \<notin> set a \<Longrightarrow> split1 sep (a @ sep # r) = a # split1 sep r"
  by (induction a) auto

lemma external_line:
  assumes "rest = [] \<or> hd rest = newline"
  shows "hd (lines_of (external_prefix @ nat_text i @ rest)) = external_prefix @ nat_text i"
proof -
  have "newline \<notin> set (external_prefix @ nat_text i)"
    using nat_text_digits [of i] by (auto simp: external_prefix_def list_all_iff is_digit_def)
  from split1_no [OF this] split1_at [OF this, of "tl rest"] assms show ?thesis
    by (cases rest) (auto simp: lines_of_def)
qed

lemma is_external_prefix [simp]: "is_external (external_prefix @ s)"
  by (simp add: is_external_def external_prefix_def)

lemma externalId_prefix [simp]: "externalId (external_prefix @ nat_text i) = Some (int i)"
  using parseInt_nat_text [of "[]" i] by (simp add: externalId_def external_prefix_def)

text \<open>
  C34: a JavaScript error survives the trip through the compiled program. When a call throws an
  error object that is not one of the program's own, \<open>etry\<close> makes it the current exception,
  registers it under a new number and gives that number to the handler; and when the program later
  throws an exception whose message starts with that number, \<open>ethrow\<close> throws the very same object.
\<close>

theorem error_crosses_boundary:
  assumes "call ex f w = (Inl (ErrorRef r), w1)" and "e_class (errors w1 r) \<noteq> SkError" and "i = exceptionId w1 + 1"
    and "onException env v = (Inr (), v)" and "skExc \<noteq> 0" and "SKIP_getExceptionMessage ex skExc v = (Inr p, v1)"
    and "p \<noteq> 0" and "importString ex p v1 = (Inr (external_prefix @ nat_text i @ rest), v2)"
    and "rest = [] \<or> hd rest = newline" and "map_of (exceptions v2) i = Some r"
  shows "(\<exists>w2. etry env ex f h w = tryFinally (SKIP_callWithException ex h i) (etry_finally (Some r)) w2
      \<and> u_exception w2 = Some r \<and> map_of (exceptions w2) i = Some r \<and> exceptionId w2 = i)
    \<and> ethrow env ex skExc False v = (Inl (ErrorRef r), v2)"
proof
  let ?w2 = "(if u_exception w1 \<noteq> None \<and> u_exception w1 \<noteq> Some r
      then w1\<lparr>errors := (errors w1)(r := (errors w1 r)\<lparr>e_cause := u_exception w1\<rparr>)\<rparr> else w1)"
  let ?w2 = "?w2\<lparr>u_exception := Some r, exceptionId := i, exceptions := amap_set i r (exceptions w1)\<rparr>"
  have "etry_catch env ex h r w1 = SKIP_callWithException ex h i ?w2"
    using assms(2,3) by (simp add: etry_catch_def setCause_def newException_def callWithException_def andThen_assoc)
  then have "etry env ex f h w = tryFinally (SKIP_callWithException ex h i) (etry_finally (Some r)) ?w2"
    using assms(1) by (simp add: etry_def caught_def tryFinally_def)
  then show "\<exists>w2. etry env ex f h w = tryFinally (SKIP_callWithException ex h i) (etry_finally (Some r)) w2
      \<and> u_exception w2 = Some r \<and> map_of (exceptions w2) i = Some r \<and> exceptionId w2 = i" by force
  have "hd (lines_of (external_prefix @ nat_text i @ rest)) = external_prefix @ nat_text i"
    by (rule external_line [OF assms(9)])
  with assms(4-8,10) show "ethrow env ex skExc False v = (Inl (ErrorRef r), v2)"
    by (simp add: ethrow_def andThen_def Let_def lookupException_def)
qed

text \<open>A world in which the program's last exception has the message \<open>external:1\<close>.\<close>

definition external_world :: "(nat, nat) utils" where
  "external_world = tiny_world\<lparr>memory := overwrite 8 (utf8_encode (js ''external:1'')) (replicate 64 0), native := 10,
     exceptions := [(1, 0)]\<rparr>"

theorem error_crosses_boundary_witness:
  "ethrow \<lparr>traceOf = (\<lambda>_. None), onException = skip\<rparr> tiny_exports 5 False external_world = (Inl (ErrorRef 0), external_world)"
proof -
  have one: "nat_text (Suc 0) = js ''1''" by (simp add: nat_text.simps)
  have ext: "external_prefix @ nat_text (Suc 0) = js ''external:1''" unfolding one by (simp add: external_prefix_def)
  have "length (utf8_encode (js ''external:1'')) = 10" by (simp add: text_eval)
  then have "view 8 10 (overwrite 8 (utf8_encode (js ''external:1'')) (replicate 64 0)) = Inr (utf8_encode (js ''external:1''))"
    using view_overwrite [of 8 "utf8_encode (js ''external:1'')" "replicate 64 0"] by simp
  moreover have "text_ok (js ''external:1'')" by (simp add: text_eval)
  ultimately have imp: "importString tiny_exports 8 external_world = (Inr (js ''external:1''), external_world)"
    by (simp add: importString_def tiny_exports_def external_world_def utf8_roundtrip andThen_def del: js_simps)
  have "call tiny_exports 0 tiny_world = (Inl (ErrorRef 0), tiny_world)"
    "SKIP_getExceptionMessage tiny_exports 5 external_world = (Inr 8, external_world)"
    by (simp_all add: call_def tiny_exports_def)
  moreover have "e_class (errors tiny_world 0) \<noteq> SkError" "Suc 0 = exceptionId tiny_world + 1"
    "map_of (exceptions external_world) (Suc 0) = Some 0"
    by (simp_all add: tiny_world_def external_world_def)
  moreover have "importString tiny_exports 8 external_world = (Inr (external_prefix @ nat_text (Suc 0) @ []), external_world)"
    using imp ext by (simp del: js_simps)
  ultimately show ?thesis
    by (intro error_crosses_boundary [of tiny_exports 0 tiny_world 0 tiny_world "Suc 0" _ external_world 5 8
        external_world "[]" external_world, THEN conjunct2]) simp_all
qed

section \<open>Allocation scopes\<close>

text \<open>
  C35: the allocation scope is closed on every path. Whether the function inside it returns or
  throws, the scope opened before it is the one destroyed after it, the result has
  been cloned before that, and the outcome of the function is the outcome of the whole; the scope is destroyed exactly once
  if the program destroys it without an error. If destroying it throws, that error is the outcome; after a
  function that returned, the code then destroys the same scope a second time, whose error, if there is
  one, is the outcome. If no scope could be opened, the function does not run.
\<close>

theorem runWithGc_closes_scope:
  assumes "SKIP_new_Obstack ex (w\<lparr>stddebug := []\<rparr>) = (q, w1)"
    and "\<forall>p. q = Inr p \<longrightarrow> andThen fn clone w1 = (r, w2) \<and> SKIP_destroy_Obstack ex p w2 = (d, w3) \<and> SKIP_destroy_Obstack ex p w3 = (d', w4)"
  shows "runWithGc ex clone fn w = (case (q, d, r) of
      (Inl e, _, _) \<Rightarrow> (Inl e, w1)
    | (_, Inr _, _) \<Rightarrow> (r, snd (flushDebug w3))
    | (_, Inl e, Inl _) \<Rightarrow> (Inl e, snd (flushDebug w3))
    | (_, Inl e, Inr _) \<Rightarrow> (Inl (case d' of Inl e' \<Rightarrow> e' | Inr _ \<Rightarrow> e), snd (flushDebug w4)))"
proof (cases q)
  case (Inl e)
  then show ?thesis using assms(1) by (simp add: runWithGc_def andThen_def [of "SKIP_new_Obstack ex"])
next
  case (Inr p)
  have "runWithGc ex clone fn w = tryFinally (tryCatch
          (andThen (andThen fn clone) (\<lambda>res. andThen (SKIP_destroy_Obstack ex p) (\<lambda>_. ret res)))
          (\<lambda>e. andThen (SKIP_destroy_Obstack ex p) (\<lambda>_. throw e))) flushDebug w1"
    using assms(1) Inr by (simp add: runWithGc_def andThen_assoc andThen_def [of "SKIP_new_Obstack ex"])
  then show ?thesis
    using assms(2) Inr by (cases r; cases d; cases d') (simp_all add: tryFinally_def tryCatch_def andThen_def [of "andThen fn clone"]
        andThen_def [of "SKIP_destroy_Obstack ex p"] flushDebug_def)
qed

theorem runWithGc_closes_scope_witness:
  "runWithGc tiny_exports ret (throw RangeError) (tiny_world\<lparr>stddebug := [[0x21]]\<rparr>) = (Inl RangeError, tiny_world)
   \<and> runWithGc (tiny_exports\<lparr>SKIP_destroy_Obstack := \<lambda>_. throw RangeError\<rparr>) ret (ret 5) tiny_world = (Inl RangeError, tiny_world)"
  using runWithGc_closes_scope [of tiny_exports "tiny_world\<lparr>stddebug := [[0x21]]\<rparr>" "Inr 0" tiny_world
      "throw RangeError" ret "Inl RangeError" tiny_world "Inr ()" tiny_world "Inr ()" tiny_world]
    runWithGc_closes_scope [of "tiny_exports\<lparr>SKIP_destroy_Obstack := \<lambda>_. throw RangeError\<rparr>" tiny_world "Inr 0" tiny_world
      "ret 5" ret "Inr 5" tiny_world "Inl RangeError" tiny_world "Inl RangeError" tiny_world]
  by (simp add: tiny_exports_def tiny_world_def flushDebug_def)

end
