(* ===== verification/Mem_FS.thy ===== *)
theory Mem_FS
  imports Prelude
begin

text \<open>
  The in-memory file system and environment of the WebAssembly host
  (\<open>skiplang/prelude/ts/wasm/src/sk_mem_utils.ts\<close>) and the open flags it shares with the compiled
  program (\<open>Options\<close> of \<open>sk_types.ts\<close>).

  A \<open>File\<close> object is identified with its descriptor, which is its index in \<open>files\<close>; the callback of
  a watched file is an application handler \<open>h\<close> that may itself use the file system. The lemmas show
  the invariant the source states of \<open>MemFS\<close>, what a written file reads back as, and how the open
  flags behave when they are packed into an integer and unpacked again.
\<close>

unbundle bit_operations_syntax

section \<open>Open flags\<close>

definition O_RDONLY :: int where "O_RDONLY = 0"
definition O_WRONLY :: int where "O_WRONLY = 1"
definition O_RDWR :: int where "O_RDWR = 2"
definition O_CREAT :: int where "O_CREAT = 100"
definition O_EXCL :: int where "O_EXCL = 200"
definition O_TRUNC :: int where "O_TRUNC = 1000"
definition O_APPEND :: int where "O_APPEND = 4000"

lemmas flag_values = O_RDONLY_def O_WRONLY_def O_RDWR_def O_CREAT_def O_EXCL_def O_TRUNC_def O_APPEND_def

record Options =
  o_read :: bool
  o_write :: bool
  o_append :: bool
  o_truncate :: bool
  o_create :: bool
  o_create_new :: bool

text \<open>\<open>new Options(read, write, append)\<close> with the defaults of the other parameters\<close>

definition newOptions :: "bool \<Rightarrow> bool \<Rightarrow> bool \<Rightarrow> Options" where
  "newOptions r w a = \<lparr>o_read = r, o_write = w, o_append = a, o_truncate = False, o_create = True,
     o_create_new = False\<rparr>"

definition Options_w :: Options where
  "Options_w = newOptions False True False"

definition toFlags :: "Options \<Rightarrow> int" where
  "toFlags p =
     (if \<not> o_read p \<and> \<not> o_write p then - 1
      else (let res = (if o_read p \<and> o_write p then O_RDWR else if o_read p then O_RDONLY else O_WRONLY);
                res = (if o_append p then res OR O_APPEND else res);
                res = (if o_truncate p then res OR O_TRUNC else res);
                res = (if o_create p then res OR O_CREAT else res)
            in (if o_create_new p then res OR O_EXCL else res)))"

definition is_flag :: "int \<Rightarrow> int \<Rightarrow> bool" where
  "is_flag flags v \<longleftrightarrow> flags AND v = v"

definition fromFlags :: "int \<Rightarrow> Options" where
  "fromFlags flags = \<lparr>o_read = \<not> is_flag flags O_WRONLY,
     o_write = is_flag flags O_WRONLY \<or> is_flag flags O_RDWR, o_append = is_flag flags O_APPEND,
     o_truncate = is_flag flags O_TRUNC, o_create = is_flag flags O_CREAT,
     o_create_new = is_flag flags O_EXCL\<rparr>"

section \<open>Files and the file system\<close>

text \<open>\<open>File\<close>; a missing optional field is \<open>None\<close>. \<open>'cb\<close> are the callbacks of watched files.\<close>

record 'cb File =
  contents :: "jsstring option"
  changes :: "jsstring option"
  f_options :: "Options option"
  cursor :: nat
  onChange :: "'cb option"
  withChange :: bool

record 'cb MemFS =
  fileDescrs :: "(jsstring \<times> nat) list"
  fileDescrNbr :: nat
  files :: "nat \<Rightarrow> 'cb File option"

definition newFile :: "Options option \<Rightarrow> 'cb File" where
  "newFile p = \<lparr>contents = None, changes = None, f_options = p, cursor = 0, onChange = None, withChange = False\<rparr>"

definition newMemFS :: "'cb MemFS" where
  "newMemFS = \<lparr>fileDescrs = [], fileDescrNbr = 2, files = (\<lambda>_. None)\<rparr>"

definition file_open :: "Options \<Rightarrow> 'cb File \<Rightarrow> 'cb File" where
  "file_open p f = f\<lparr>f_options := Some p, cursor := 0, withChange := False, changes := Some []\<rparr>"

definition file_watch :: "'cb \<Rightarrow> 'cb File \<Rightarrow> 'cb File" where
  "file_watch cb f = f\<lparr>onChange := Some cb\<rparr>"

definition file_isOpen :: "'cb File \<Rightarrow> bool" where
  "file_isOpen f \<longleftrightarrow> f_options f \<noteq> None"

definition file_write :: "jsstring \<Rightarrow> bool \<Rightarrow> 'cb File \<Rightarrow> js_error + nat \<times> 'cb File" where
  "file_write s app f =
     (case f_options f of
        None \<Rightarrow> Inl (err ''The file cannot be written'')
      | Some p \<Rightarrow>
          if \<not> o_write p then Inl (err ''The file cannot be written'')
          else (let c = (if (contents f \<noteq> None \<and> contents f \<noteq> Some [] \<and> o_append p) \<or> app
                         then (case contents f of None \<Rightarrow> s | Some c \<Rightarrow> c @ s) else s);
                    ch = (case changes f of None \<Rightarrow> s | Some d \<Rightarrow> d @ s)
                in Inr (length s, f\<lparr>contents := Some c, changes := Some ch, withChange := (Some ch \<noteq> changes f)\<rparr>)))"

definition file_read :: "nat \<Rightarrow> 'cb File \<Rightarrow> js_error + jsstring option \<times> 'cb File" where
  "file_read len f =
     (case f_options f of
        None \<Rightarrow> Inl (err ''The file cannot be read'')
      | Some p \<Rightarrow>
          if \<not> o_read p then Inl (err ''The file cannot be read'')
          else (let c = (case contents f of None \<Rightarrow> [] | Some c \<Rightarrow> c) in
                if length c \<le> cursor f then Inr (None, f)
                else (let e = min (length c) (cursor f + len)
                      in Inr (Some (drop (cursor f) (take e c)), f\<lparr>cursor := e\<rparr>))))"

text \<open>The operations of \<open>MemFS\<close>; a file object is read and written through its descriptor.\<close>

definition fileAt :: "nat \<Rightarrow> ('cb MemFS, 'cb File) js" where
  "fileAt fd = reads (\<lambda>w. case files w fd of
     None \<Rightarrow> throw (JSError (js ''Invalid file descriptor '' @ nat_text fd)) | Some f \<Rightarrow> ret f)"

definition setFile :: "nat \<Rightarrow> 'cb File \<Rightarrow> ('cb MemFS, unit) js" where
  "setFile fd f = modifies (\<lambda>w. w\<lparr>files := (files w)(fd := Some f)\<rparr>)"

definition file_close :: "('cb \<Rightarrow> jsstring \<Rightarrow> ('cb MemFS, unit) js) \<Rightarrow> nat \<Rightarrow> ('cb MemFS, unit) js" where
  "file_close h fd =
     andThen (fileAt fd) (\<lambda>f.
     andThen (case onChange f of
                Some cb \<Rightarrow> if withChange f then h cb (case changes f of None \<Rightarrow> [] | Some d \<Rightarrow> d) else skip
              | None \<Rightarrow> skip) (\<lambda>_.
     andThen (fileAt fd) (\<lambda>f. setFile fd (f\<lparr>f_options := None, changes := Some []\<rparr>))))"

definition exists_file :: "jsstring \<Rightarrow> 'cb MemFS \<Rightarrow> bool" where
  "exists_file name w \<longleftrightarrow> map_of (fileDescrs w) name \<noteq> None"

text \<open>A new file object under the next descriptor.\<close>

definition addFile :: "jsstring \<Rightarrow> 'cb File \<Rightarrow> ('cb MemFS, nat) js" where
  "addFile name f = reads (\<lambda>w.
     andThen (modifies (\<lambda>w. w\<lparr>files := (files w)(fileDescrNbr w := Some f),
                fileDescrs := amap_set name (fileDescrNbr w) (fileDescrs w),
                fileDescrNbr := fileDescrNbr w + 1\<rparr>)) (\<lambda>_. ret (fileDescrNbr w)))"

definition openFile :: "jsstring \<Rightarrow> Options \<Rightarrow> ('cb MemFS, nat) js" where
  "openFile name p = reads (\<lambda>w.
     case map_of (fileDescrs w) name of
       Some fd \<Rightarrow>
         if o_create p \<and> o_create_new p
         then throw (JSError (js ''The file '' @ [0x27] @ name @ [0x27] @ js '' already exists''))
         else andThen (fileAt fd) (\<lambda>f. andThen (setFile fd (file_open p f)) (\<lambda>_. ret fd))
     | None \<Rightarrow> addFile name (newFile (Some p)))"

definition watchFile :: "jsstring \<Rightarrow> 'cb \<Rightarrow> ('cb MemFS, unit) js" where
  "watchFile name cb =
     andThen (addFile name (newFile None)) (\<lambda>fd.
     andThen (fileAt fd) (\<lambda>f. setFile fd (file_watch cb f)))"

definition fs_write :: "nat \<Rightarrow> jsstring \<Rightarrow> ('cb MemFS, nat) js" where
  "fs_write fd s =
     andThen (fileAt fd) (\<lambda>f.
     andThen (lift (file_write s False f)) (\<lambda>(n, f).
     andThen (setFile fd f) (\<lambda>_. ret n)))"

definition writeToFile :: "nat \<Rightarrow> jsstring \<Rightarrow> ('cb MemFS, unit) js" where
  "writeToFile fd s = andThen (fs_write fd s) (\<lambda>_. skip)"

definition appendToFile ::
  "('cb \<Rightarrow> jsstring \<Rightarrow> ('cb MemFS, unit) js) \<Rightarrow> jsstring \<Rightarrow> jsstring \<Rightarrow> ('cb MemFS, unit) js" where
  "appendToFile h name s =
     andThen (reads (\<lambda>w. case map_of (fileDescrs w) name of
                Some fd \<Rightarrow> ret fd | None \<Rightarrow> addFile name (newFile None))) (\<lambda>fd.
     andThen (fileAt fd) (\<lambda>f.
     andThen (setFile fd (file_open (newOptions False True True) f)) (\<lambda>_.
     andThen (fs_write fd s) (\<lambda>_. file_close h fd))))"

definition closeFile :: "('cb \<Rightarrow> jsstring \<Rightarrow> ('cb MemFS, unit) js) \<Rightarrow> nat \<Rightarrow> ('cb MemFS, unit) js" where
  "closeFile h fd = file_close h fd"

definition fs_read :: "nat \<Rightarrow> nat \<Rightarrow> ('cb MemFS, jsstring option) js" where
  "fs_read fd len =
     andThen (fileAt fd) (\<lambda>f.
     andThen (lift (file_read len f)) (\<lambda>(r, f).
     andThen (setFile fd f) (\<lambda>_. ret r)))"

section \<open>Environment variables\<close>

type_synonym MemSys = "(jsstring \<times> jsstring) list"

definition setenv :: "jsstring \<Rightarrow> jsstring \<Rightarrow> MemSys \<Rightarrow> MemSys" where
  "setenv name v env = amap_set name v env"

definition getenv :: "jsstring \<Rightarrow> MemSys \<Rightarrow> jsstring option" where
  "getenv name env = map_of env name"

definition unsetenv :: "jsstring \<Rightarrow> MemSys \<Rightarrow> MemSys" where
  "unsetenv name env = amap_del name env"

section \<open>Flags packed and unpacked\<close>

text \<open>
  Packing open flags into an integer and unpacking them keeps the access mode, append and
  create exactly, but the decimal flag constants overlap: truncate reads back as exclusive
  creation too, and append with exclusive creation as truncate.
\<close>

theorem flags_roundtrip:
  assumes "o_read p \<or> o_write p"
  shows "fromFlags (toFlags p) = p\<lparr>o_truncate := o_truncate p \<or> o_append p \<and> o_create_new p,
           o_create_new := o_create_new p \<or> o_truncate p\<rparr>"
  using assms
  by (cases p; cases "o_read p"; cases "o_write p"; cases "o_append p"; cases "o_truncate p";
      cases "o_create p"; cases "o_create_new p")
    (simp_all add: toFlags_def fromFlags_def is_flag_def flag_values)

theorem flags_roundtrip_witness:
  "fromFlags (toFlags Options_w) = Options_w
   \<and> o_create_new (fromFlags (toFlags (Options_w\<lparr>o_truncate := True\<rparr>)))"
  using flags_roundtrip [of Options_w] flags_roundtrip [of "Options_w\<lparr>o_truncate := True\<rparr>"]
  by (simp add: Options_w_def newOptions_def)

section \<open>Running the operations\<close>

named_theorems fs_run \<open>what the operations of the file system do\<close>

lemma setFile_run [fs_run]: "setFile fd f w = (Inr (), w\<lparr>files := (files w)(fd := Some f)\<rparr>)"
  by (simp add: setFile_def)

lemma fileAt_run [fs_run]:
  "fileAt fd w = (case files w fd of None \<Rightarrow> Inl (JSError (js ''Invalid file descriptor '' @ nat_text fd)) | Some f \<Rightarrow> Inr f, w)"
  by (simp add: fileAt_def split: option.split)

lemma addFile_run [fs_run]:
  "addFile name f w = (Inr (fileDescrNbr w), w\<lparr>files := (files w)(fileDescrNbr w := Some f),
     fileDescrs := amap_set name (fileDescrNbr w) (fileDescrs w), fileDescrNbr := fileDescrNbr w + 1\<rparr>)"
  by (simp add: addFile_def)

section \<open>The invariant of the file system\<close>

text \<open>
  The invariant stated in the source, that every descriptor of a file name has a file object,
  together with what keeps it: descriptors are handed out once.
\<close>

definition memfs_inv :: "'cb MemFS \<Rightarrow> bool" where
  "memfs_inv w \<longleftrightarrow> snd ` set (fileDescrs w) \<subseteq> dom (files w) \<and> (\<forall>fd \<in> dom (files w). fd < fileDescrNbr w)
     \<and> distinct (map fst (fileDescrs w)) \<and> distinct (map snd (fileDescrs w))"

lemma memfs_invD:
  assumes "memfs_inv w" and "map_of (fileDescrs w) name = Some fd"
  shows "files w fd \<noteq> None" and "fd < fileDescrNbr w"
proof -
  from assms(2) have "fd \<in> snd ` set (fileDescrs w)" by (metis map_of_SomeD imageI snd_conv)
  with assms(1) have "fd \<in> dom (files w)" by (auto simp: memfs_inv_def)
  with assms(1) show "files w fd \<noteq> None" "fd < fileDescrNbr w" by (auto simp: memfs_inv_def)
qed

lemma distinct_vals_amap_set:
  "distinct (map snd m) \<Longrightarrow> v \<notin> snd ` set m \<Longrightarrow> distinct (map snd (amap_set k v m))"
proof (induction k v m rule: amap_set.induct)
  case (2 k v k' v' m)
  then show ?case using vals_amap_set_subset [of k v m] by auto
qed simp

lemma memfs_inv_upd [simp]:
  "memfs_inv w \<Longrightarrow> files w fd \<noteq> None \<Longrightarrow> memfs_inv (w\<lparr>files := (files w)(fd \<mapsto> f)\<rparr>)"
  by (auto simp: memfs_inv_def)

lemma addFile_keeps: "keeps memfs_inv (addFile name f)"
proof (rule keepsI)
  fix w :: "'a MemFS" assume w: "memfs_inv w"
  moreover from w have "fileDescrNbr w \<notin> snd ` set (fileDescrs w)" unfolding memfs_inv_def by blast
  moreover have "snd ` set (amap_set name (fileDescrNbr w) (fileDescrs w)) \<subseteq> insert (fileDescrNbr w) (dom (files w))"
    by (rule subset_trans [OF vals_amap_set_subset]) (use w in \<open>auto simp: memfs_inv_def\<close>)
  ultimately show "memfs_inv (snd (addFile name f w))"
    unfolding memfs_inv_def by (auto simp: addFile_run less_Suc_eq intro: distinct_vals_amap_set)
qed

text \<open>Every operation that reads a file, computes and writes it back.\<close>

lemma keeps_file_update:
  "keeps memfs_inv (andThen (fileAt fd) (\<lambda>f. andThen (lift (g f)) (\<lambda>r. andThen (setFile fd (u f r)) (\<lambda>_. ret (x r)))))"
  by (rule keepsI) (auto simp: fs_run andThen_def split: option.splits sum.splits)

lemma keeps_file_set: "keeps memfs_inv (andThen (fileAt fd) (\<lambda>f. setFile fd (u f)))"
  by (rule keepsI) (auto simp: fs_run andThen_def split: option.splits sum.splits)

lemma file_close_keeps:
  assumes "\<And>cb d. keeps memfs_inv (h cb d)"
  shows "keeps memfs_inv (file_close h fd)"
proof -
  have "keeps memfs_inv (fileAt fd)" by (rule keepsI) (simp add: fs_run)
  moreover have "keeps memfs_inv (case x of Some cb \<Rightarrow> if b then h cb d else skip | None \<Rightarrow> skip)" for x b d
    using assms by (simp split: option.split)
  ultimately show ?thesis unfolding file_close_def by (intro keeps_andThen [OF _ keeps_andThen] keeps_file_set)
qed

lemma fs_write_keeps: "keeps memfs_inv (fs_write fd s)"
  using keeps_file_update [of fd "file_write s False" "\<lambda>_. snd" fst] by (simp add: fs_write_def split_def)

lemma appendToFile_keeps:
  assumes "\<And>cb d. keeps memfs_inv (h cb d)"
  shows "keeps memfs_inv (appendToFile h name s)"
proof -
  have "keeps memfs_inv (andThen (fileAt fd) (\<lambda>f. andThen (setFile fd (u f)) (\<lambda>_. k)))"
    if "keeps memfs_inv k" for fd u and k :: "('a MemFS, unit) js"
    using keeps_andThen [OF keeps_file_set [of fd u], of "\<lambda>_. k"] that by (simp add: andThen_assoc)
  moreover have "keeps memfs_inv (andThen (fs_write fd s) (\<lambda>_. file_close h fd))" for fd
    by (intro keeps_andThen fs_write_keeps file_close_keeps assms)
  ultimately show ?thesis
    unfolding appendToFile_def
    by (intro keeps_andThen [OF keeps_reads_any]) (simp_all add: addFile_keeps split: option.split)
qed

text \<open>
  C31: the invariant the source states of \<open>MemFS\<close> (every descriptor a file name is bound to has a
  file object), with descriptors distinct and all below the next one, holds of a new file system
  and is kept by every operation on every path, whatever the callbacks of watched files do to the
  file system through these operations.
\<close>

theorem memfs_invariant:
  fixes h :: "'cb \<Rightarrow> jsstring \<Rightarrow> ('cb MemFS, unit) js"
  assumes "\<And>cb d. keeps memfs_inv (h cb d)"
  shows "memfs_inv (newMemFS :: 'cb MemFS) \<and> keeps memfs_inv (openFile name p :: ('cb MemFS, nat) js) \<and> keeps memfs_inv (watchFile name (cb :: 'cb))
    \<and> keeps memfs_inv (fs_write fd s :: ('cb MemFS, nat) js) \<and> keeps memfs_inv (writeToFile fd s :: ('cb MemFS, unit) js)
    \<and> keeps memfs_inv (appendToFile h name s) \<and> keeps memfs_inv (closeFile h fd)
    \<and> keeps memfs_inv (fs_read fd len :: ('cb MemFS, jsstring option) js)"
proof (intro conjI)
  show "memfs_inv (newMemFS :: 'cb MemFS)" by (simp add: memfs_inv_def newMemFS_def)
  show "keeps memfs_inv (openFile name p :: ('cb MemFS, nat) js)"
    using keeps_file_update [of _ "\<lambda>f. Inr ()" "\<lambda>f _. file_open p f"] addFile_keeps
    by (auto simp: openFile_def intro!: keeps_reads_any split: option.split)
  show "keeps memfs_inv (watchFile name cb)"
    unfolding watchFile_def by (intro keeps_andThen addFile_keeps keeps_file_set)
  show "keeps memfs_inv (fs_write fd s :: ('cb MemFS, nat) js)" "keeps memfs_inv (writeToFile fd s :: ('cb MemFS, unit) js)"
    unfolding writeToFile_def by (auto intro: fs_write_keeps)
  show "keeps memfs_inv (appendToFile h name s)" "keeps memfs_inv (closeFile h fd)"
    unfolding closeFile_def using appendToFile_keeps file_close_keeps assms by blast+
  show "keeps memfs_inv (fs_read fd len :: ('cb MemFS, jsstring option) js)"
    using keeps_file_update [of fd "file_read len" "\<lambda>_. snd" fst] by (simp add: fs_read_def split_def)
qed

theorem memfs_invariant_witness:
  "memfs_inv (newMemFS :: nat MemFS) \<and> keeps memfs_inv (appendToFile (\<lambda>cb :: nat. \<lambda>d. watchFile (js ''log'') cb) (js ''a'') (js ''b''))"
proof -
  have "keeps memfs_inv (watchFile (js ''log'') cb)" for cb :: nat
    unfolding watchFile_def by (intro keeps_andThen addFile_keeps keeps_file_set)
  from memfs_invariant [of "\<lambda>cb d. watchFile (js ''log'') cb" "js ''a''" Options_w 0 0 "js ''b''" 0, OF this] show ?thesis by blast
qed

section \<open>What a file reads back as\<close>

definition text_of :: "jsstring option \<Rightarrow> jsstring" where
  "text_of r = (case r of None \<Rightarrow> [] | Some s \<Rightarrow> s)"

lemma file_read_ok:
  assumes "f_options f = Some p" and "o_read p" and "contents f = Some c" and "cursor f \<le> length c"
  shows "\<exists>r. file_read n f = Inr (r, f\<lparr>cursor := min (length c) (cursor f + n)\<rparr>)
           \<and> text_of r = take n (drop (cursor f) c)"
  using assms by (cases f) (auto simp: file_read_def text_of_def Let_def drop_take min_def)

lemma reads_consecutive:
  assumes "files w fd = Some f" and "f_options f = Some p" and "o_read p" and "contents f = Some c"
    and "cursor f \<le> length c"
  shows "\<exists>rs. fst (mapM ls (fs_read fd) w) = Inr rs
    \<and> concat (map text_of rs) = take (sum_list ls) (drop (cursor f) c)"
  using assms
proof (induction ls arbitrary: w f)
  case (Cons n ls)
  let ?f = "f\<lparr>cursor := min (length c) (cursor f + n)\<rparr>" and ?w = "w\<lparr>files := (files w)(fd \<mapsto> f\<lparr>cursor := min (length c) (cursor f + n)\<rparr>)\<rparr>"
  from Cons.prems file_read_ok obtain r where
    r: "file_read n f = Inr (r, ?f)" "text_of r = take n (drop (cursor f) c)" by blast
  then have run: "fs_read fd n w = (Inr r, ?w)"
    using Cons.prems by (simp add: fs_read_def fs_run andThen_def)
  from Cons.IH [of ?w ?f] Cons.prems obtain rs where
    rs: "fst (mapM ls (fs_read fd) ?w) = Inr rs" "concat (map text_of rs) = take (sum_list ls) (drop (min (length c) (cursor f + n)) c)"
    by auto
  from rs(1) have "fst (mapM (n # ls) (fs_read fd) w) = Inr (r # rs)"
    by (cases "mapM ls (fs_read fd) ?w") (simp add: run andThen_def)
  moreover have "take n (drop k c) @ take m (drop (min (length c) (k + n)) c) = take (n + m) (drop k c)" for k m
    using take_add [of n m "drop k c"] by (cases "k + n \<le> length c") (simp_all add: add.commute)
  ultimately show ?case using r(2) rs(2) by auto
qed simp

lemma openFile_opens:
  assumes "memfs_inv w" and "\<not> o_create_new p"
  obtains fd f v where "openFile name p w = (Inr fd, v)" and "files v fd = Some f"
    and "map_of (fileDescrs v) name = Some fd"
    and "case map_of (fileDescrs w) name of None \<Rightarrow> f = newFile (Some p)
         | Some d \<Rightarrow> d = fd \<and> (\<exists>g. files w d = Some g \<and> f = file_open p g)"
proof (cases "map_of (fileDescrs w) name")
  case None
  show thesis
    by (rule that [of "fileDescrNbr w" "snd (openFile name p w)" "newFile (Some p)"]) (simp_all add: openFile_def None fs_run)
next
  case (Some fd)
  with memfs_invD [OF assms(1) Some] obtain f where f: "files w fd = Some f" by auto
  with assms(2) Some show thesis
    by (intro that [of fd "snd (openFile name p w)" "file_open p f"]) (simp_all add: openFile_def fs_run andThen_def)
qed

text \<open>Opening for writing, writing and closing a file that nobody watches.\<close>

definition write_file :: "('cb \<Rightarrow> jsstring \<Rightarrow> ('cb MemFS, unit) js) \<Rightarrow> jsstring \<Rightarrow> jsstring \<Rightarrow> ('cb MemFS, unit) js" where
  "write_file h name s = andThen (openFile name Options_w) (\<lambda>fd. andThen (writeToFile fd s) (\<lambda>_. closeFile h fd))"

definition unwatched :: "jsstring \<Rightarrow> 'cb MemFS \<Rightarrow> bool" where
  "unwatched name w \<longleftrightarrow> (\<forall>fd f. map_of (fileDescrs w) name = Some fd \<longrightarrow> files w fd = Some f \<longrightarrow> onChange f = None)"

lemma write_file_run:
  assumes "memfs_inv w" and "unwatched name w"
  obtains fd f w' where "write_file h name s w = (Inr (), w')" and "map_of (fileDescrs w') name = Some fd"
    and "files w' fd = Some f" and "contents f = Some s"
proof -
  have "\<not> o_create_new Options_w" by (simp add: Options_w_def newOptions_def)
  from openFile_opens [OF assms(1) this, of name] obtain fd f v where
    v: "openFile name Options_w w = (Inr fd, v)" "files v fd = Some f" "map_of (fileDescrs v) name = Some fd"
    and f: "case map_of (fileDescrs w) name of None \<Rightarrow> f = newFile (Some Options_w)
         | Some d \<Rightarrow> d = fd \<and> (\<exists>g. files w d = Some g \<and> f = file_open Options_w g)" .
  from f assms(2) have "f_options f = Some Options_w" "onChange f = None"
    by (auto simp: newFile_def file_open_def unwatched_def split: option.splits)
  with v show thesis
    by (intro that [of "snd (write_file h name s w)" fd "the (files (snd (write_file h name s w)) fd)"])
      (simp_all add: write_file_def writeToFile_def closeFile_def fs_write_def file_write_def file_close_def
        fs_run andThen_def Options_w_def newOptions_def Let_def)
qed

text \<open>
  C32: what is written to a file is what is read back: after opening a file for writing, writing
  \<open>s\<close> and closing it, opening it for reading succeeds, and reads of any sizes return consecutive
  pieces of \<open>s\<close> starting at its first character, nothing after its end.
\<close>

theorem file_roundtrip:
  assumes "memfs_inv w" and "unwatched name w"
  shows "\<exists>fd w' rs. andThen (write_file h name s) (\<lambda>_. openFile name (newOptions True False False)) w = (Inr fd, w')
    \<and> fst (mapM ls (fs_read fd) w') = Inr rs \<and> concat (map text_of rs) = take (sum_list ls) s"
proof -
  let ?p = "newOptions True False False"
  from write_file_run [OF assms, where h = h and s = s] obtain fd f v where
    v: "write_file h name s w = (Inr (), v)" "map_of (fileDescrs v) name = Some fd" "files v fd = Some f" "contents f = Some s" .
  let ?w = "v\<lparr>files := (files v)(fd \<mapsto> file_open ?p f)\<rparr>"
  have "openFile name ?p v = (Inr fd, ?w)"
    using v by (simp add: openFile_def fs_run andThen_def newOptions_def)
  moreover obtain rs where "fst (mapM ls (fs_read fd) ?w) = Inr rs" "concat (map text_of rs) = take (sum_list ls) s"
    using reads_consecutive [of ?w fd "file_open ?p f" ?p s ls] v(4) by (auto simp: file_open_def newOptions_def)
  ultimately show ?thesis using v(1) by (auto simp: andThen_def)
qed

theorem file_roundtrip_witness:
  "\<exists>fd w' rs. andThen (write_file (\<lambda>_ _. skip) (js ''f'') (js ''hello'')) (\<lambda>_. openFile (js ''f'') (newOptions True False False))
      (newMemFS :: nat MemFS) = (Inr fd, w')
    \<and> fst (mapM [2, 9] (fs_read fd) w') = Inr rs \<and> concat (map text_of rs) = take 11 (js ''hello'')"
  using file_roundtrip [of "newMemFS :: nat MemFS" "js ''f''" "\<lambda>_ _. skip" "js ''hello''" "[2, 9]"]
  by (simp add: memfs_inv_def newMemFS_def unwatched_def)

text \<open>
  Appending to a file keeps what it holds: whether the file exists or not, afterwards its
  contents are the old contents followed by the text, it is closed, and its watcher, if there is
  one and the text is not empty, has been called with exactly the appended text (the watcher here
  records its call by replacing itself).
\<close>

theorem appendToFile_appends:
  assumes "memfs_inv w" and "map_of (fileDescrs w) name = Some fd" and "files w fd = Some f"
    and "\<And>cb d v. h cb d v = (Inr (), v\<lparr>files := (files v)(fd := map_option (\<lambda>f. f\<lparr>onChange := log cb d\<rparr>) (files v fd))\<rparr>)"
  shows "\<exists>w' f'. appendToFile h name s w = (Inr (), w') \<and> files w' fd = Some f' \<and> \<not> file_isOpen f'
    \<and> contents f' = Some (text_of (contents f) @ s)
    \<and> onChange f' = (case onChange f of Some cb \<Rightarrow> if s \<noteq> [] then log cb s else Some cb | None \<Rightarrow> None)"
  using assms
  by (cases "onChange f"; cases "contents f"; cases s)
    (simp_all add: appendToFile_def fs_write_def file_write_def file_close_def file_open_def file_isOpen_def
      fs_run andThen_def newOptions_def Let_def text_of_def)

theorem appendToFile_appends_witness:
  "\<exists>w' f'. appendToFile (\<lambda>cb d v. (Inr (), v\<lparr>files := (files v)(2 := map_option (\<lambda>f. f\<lparr>onChange := Some (cb @ d)\<rparr>) (files v 2))\<rparr>))
      (js ''f'') (js ''x'') (snd (watchFile (js ''f'') (js ''log:'') newMemFS)) = (Inr (), w') \<and> files w' 2 = Some f'
    \<and> contents f' = Some (js ''x'') \<and> onChange f' = Some (js ''log:x'')"
  using appendToFile_appends [of "snd (watchFile (js ''f'') (js ''log:'') newMemFS)" "js ''f''" 2
      "file_watch (js ''log:'') (newFile None)"
      "\<lambda>cb d v. (Inr (), v\<lparr>files := (files v)(2 := map_option (\<lambda>f. f\<lparr>onChange := Some (cb @ d)\<rparr>) (files v 2))\<rparr>)"
      "\<lambda>cb d. Some (cb @ d)" "js ''x''"]
  by (auto simp: watchFile_def fs_run andThen_def newMemFS_def memfs_inv_def file_watch_def newFile_def text_of_def)

end
