(* ===== verification/Wasm_Runtime.thy ===== *)
theory Wasm_Runtime
  imports Wasm_Utils Mem_FS
begin

text \<open>
  The functions the host gives to a compiled Skip program: \<open>sk_runtime.ts\<close> (streams, exceptions,
  time, entropy, arguments, environment) and \<open>sk_posix.ts\<close> (files) of \<open>skiplang/prelude/ts/wasm/src\<close>.
  The state is that of \<open>Utils\<close> with the file system, the environment and the fields of the two
  \<open>LinksImpl\<close> objects. Random bytes and the clock are arguments.
\<close>

unbundle bit_operations_syntax

section \<open>State\<close>

record ('x, 'v, 'cb) host = "('x, 'v) utils" +
  hasEnv :: bool
  fs :: "'cb MemFS"
  sys :: MemSys
  environ :: "jsstring list"
  lineBuffer :: "bytes option"
  lastTime :: "nat option"

definition onFS :: "('cb MemFS, 'a) js \<Rightarrow> (('x, 'v, 'cb) host, 'a) js" where
  "onFS m w = (case m (fs w) of (r, f) \<Rightarrow> (r, w\<lparr>fs := f\<rparr>))"

section \<open>Streams, exceptions, time and entropy\<close>

definition SKIP_print_error :: "('x, 'v, 'cb) host Exported \<Rightarrow> nat \<Rightarrow> (('x, 'v, 'cb) host, unit) js" where
  "SKIP_print_error ex msg = sklog ex msg ERR True"

definition SKIP_print_error_raw :: "('x, 'v, 'cb) host Exported \<Rightarrow> nat \<Rightarrow> (('x, 'v, 'cb) host, unit) js" where
  "SKIP_print_error_raw ex msg = sklog ex msg ERR False"

definition SKIP_print_debug :: "('x, 'v, 'cb) host Exported \<Rightarrow> nat \<Rightarrow> (('x, 'v, 'cb) host, unit) js" where
  "SKIP_print_debug ex msg = sklog ex msg DEBUG True"

definition SKIP_print_debug_raw :: "('x, 'v, 'cb) host Exported \<Rightarrow> nat \<Rightarrow> (('x, 'v, 'cb) host, unit) js" where
  "SKIP_print_debug_raw ex msg = sklog ex msg DEBUG False"

definition SKIP_print_raw :: "('x, 'v, 'cb) host Exported \<Rightarrow> nat \<Rightarrow> (('x, 'v, 'cb) host, unit) js" where
  "SKIP_print_raw ex msg = sklog ex msg OUT False"

definition SKIP_print_string :: "('x, 'v, 'cb) host Exported \<Rightarrow> nat \<Rightarrow> (('x, 'v, 'cb) host, unit) js" where
  "SKIP_print_string ex msg = sklog ex msg OUT True"

definition SKIP_print_char :: "nat \<Rightarrow> (('x, 'v, 'cb) host, unit) js" where
  "SKIP_print_char c = log [of_nat c] OUT False"

definition js_throw ::
  "('x, 'v, 'cb) host Environment \<Rightarrow> ('x, 'v, 'cb) host Exported \<Rightarrow> nat \<Rightarrow> nat \<Rightarrow> (('x, 'v, 'cb) host, unit) js" where
  "js_throw env ex exc rethrow = ethrow env ex exc (rethrow \<noteq> 0)"

definition SKIP_external_exception_message ::
  "('x, 'v, 'cb) host Exported \<Rightarrow> nat \<Rightarrow> (('x, 'v, 'cb) host, nat) js" where
  "SKIP_external_exception_message ex exc = reads (\<lambda>w. exportString ex (getExceptionMessage exc w))"

text \<open>\<open>this.lastTime >>> 0\<close> is the value modulo \<open>2 ^ 32\<close>; an undefined time becomes 0 in the program.\<close>

definition SKIP_js_time_ms_lo :: "nat \<Rightarrow> (('x, 'v, 'cb) host, nat) js" where
  "SKIP_js_time_ms_lo now = andThen (modifies (\<lambda>w. w\<lparr>lastTime := Some now\<rparr>)) (\<lambda>_. ret (now mod 2 ^ 32))"

definition SKIP_js_time_ms_hi :: "(('x, 'v, 'cb) host, nat) js" where
  "SKIP_js_time_ms_hi = reads (\<lambda>w. ret (case lastTime w of Some t \<Rightarrow> t div 2 ^ 32 | None \<Rightarrow> 0))"

text \<open>\<open>new Uint32Array(buf)\<close> of a \<open>Uint8Array\<close> has one element per byte of \<open>buf\<close>.\<close>

definition Uint32Array_of_bytes :: "bytes \<Rightarrow> nat list" where
  "Uint32Array_of_bytes buf = map unat buf"

definition SKIP_js_get_entropy :: "bytes \<Rightarrow> nat" where
  "SKIP_js_get_entropy buf = Uint32Array_of_bytes buf ! 0"

section \<open>Arguments, input and environment\<close>

definition SKIP_js_get_argc :: "('x, 'v, 'cb) host \<Rightarrow> nat" where
  "SKIP_js_get_argc w = length (u_args w)"

definition SKIP_js_get_argn :: "('x, 'v, 'cb) host Exported \<Rightarrow> nat \<Rightarrow> (('x, 'v, 'cb) host, nat) js" where
  "SKIP_js_get_argn ex index = reads (\<lambda>w.
     if index < length (u_args w) then exportString ex (u_args w ! index)
     else throw (JSError (js ''Invalid arg index: '' @ nat_text index)))"

definition SKIP_js_get_envc :: "('x, 'v, 'cb) host \<Rightarrow> nat" where
  "SKIP_js_get_envc w = (if hasEnv w then length (environ w) else 0)"

definition SKIP_js_get_envn :: "('x, 'v, 'cb) host Exported \<Rightarrow> nat \<Rightarrow> (('x, 'v, 'cb) host, nat) js" where
  "SKIP_js_get_envn ex index = reads (\<lambda>w.
     if hasEnv w \<and> index < length (environ w) then exportString ex (environ w ! index)
     else throw (JSError (js ''Environment entry not found: '' @ nat_text index)))"

definition SKIP_read_line_fill :: "('x, 'v, 'cb) host Exported \<Rightarrow> (('x, 'v, 'cb) host, nat) js" where
  "SKIP_read_line_fill ex =
     andThen (readStdInLine ex) (\<lambda>l. andThen (modifies (\<lambda>w. w\<lparr>lineBuffer := Some l\<rparr>)) (\<lambda>_. ret (length l)))"

definition SKIP_read_to_end_fill :: "(('x, 'v, 'cb) host, nat) js" where
  "SKIP_read_to_end_fill =
     andThen readStdInToEnd (\<lambda>l. andThen (modifies (\<lambda>w. w\<lparr>lineBuffer := Some l\<rparr>)) (\<lambda>_. ret (length l)))"

text \<open>Before a line is read the buffer is undefined and indexing it throws.\<close>

definition SKIP_read_line_get :: "nat \<Rightarrow> (('x, 'v, 'cb) host, byte) js" where
  "SKIP_read_line_get i = reads (\<lambda>w.
     case lineBuffer w of
       None \<Rightarrow> throw (err ''Cannot read properties of undefined'')
     | Some l \<Rightarrow> if i < length l then ret (l ! i)
                 else throw (JSError (js ''Invalid read_line buffer index: '' @ nat_text i)))"

definition SKIP_FileSystem_appendTextFile ::
  "('cb \<Rightarrow> jsstring \<Rightarrow> ('cb MemFS, unit) js) \<Rightarrow> ('x, 'v, 'cb) host Exported \<Rightarrow> nat \<Rightarrow> nat
     \<Rightarrow> (('x, 'v, 'cb) host, unit) js" where
  "SKIP_FileSystem_appendTextFile h ex path conts =
     andThen (importString ex path) (\<lambda>strPath.
     andThen (importString ex conts) (\<lambda>strContents. reads (\<lambda>w.
     if hasEnv w then onFS (appendToFile h strPath strContents) else skip)))"

definition SKIP_setenv :: "('x, 'v, 'cb) host Exported \<Rightarrow> nat \<Rightarrow> nat \<Rightarrow> (('x, 'v, 'cb) host, unit) js" where
  "SKIP_setenv ex skName skValue = reads (\<lambda>w.
     if hasEnv w then
       andThen (importString ex skName) (\<lambda>name.
       andThen (importString ex skValue) (\<lambda>v. modifies (\<lambda>w. w\<lparr>sys := setenv name v (sys w)\<rparr>)))
     else skip)"

text \<open>The pointer 0 is \<open>null\<close>; an empty value is falsy and so is reported as absent.\<close>

definition SKIP_getenv :: "('x, 'v, 'cb) host Exported \<Rightarrow> nat \<Rightarrow> (('x, 'v, 'cb) host, nat option) js" where
  "SKIP_getenv ex skName = reads (\<lambda>w.
     if hasEnv w then
       andThen (importString ex skName) (\<lambda>name. reads (\<lambda>w.
       case getenv name (sys w) of
         Some v \<Rightarrow> if v = [] then ret None else andThen (exportString ex v) (\<lambda>p. ret (Some p))
       | None \<Rightarrow> ret None))
     else ret None)"

definition SKIP_unsetenv :: "('x, 'v, 'cb) host Exported \<Rightarrow> nat \<Rightarrow> (('x, 'v, 'cb) host, unit) js" where
  "SKIP_unsetenv ex skName = reads (\<lambda>w.
     if hasEnv w then
       andThen (importString ex skName) (\<lambda>name. modifies (\<lambda>w. w\<lparr>sys := unsetenv name (sys w)\<rparr>))
     else skip)"

section \<open>Files\<close>

definition SKIP_check_if_file_exists :: "('x, 'v, 'cb) host Exported \<Rightarrow> nat \<Rightarrow> (('x, 'v, 'cb) host, bool) js" where
  "SKIP_check_if_file_exists ex skPath =
     andThen (importString ex skPath) (\<lambda>p. reads (\<lambda>w. ret (exists_file p (fs w))))"

definition SKIP_js_open :: "('x, 'v, 'cb) host Exported \<Rightarrow> nat \<Rightarrow> int \<Rightarrow> (('x, 'v, 'cb) host, nat) js" where
  "SKIP_js_open ex skPath flags =
     andThen (importString ex skPath) (\<lambda>p. onFS (openFile p (fromFlags flags)))"

definition SKIP_js_close ::
  "('cb \<Rightarrow> jsstring \<Rightarrow> ('cb MemFS, unit) js) \<Rightarrow> nat \<Rightarrow> (('x, 'v, 'cb) host, unit) js" where
  "SKIP_js_close h fd = onFS (closeFile h fd)"

definition SKIP_js_write :: "nat \<Rightarrow> nat \<Rightarrow> nat \<Rightarrow> (('x, 'v, 'cb) host, nat) js" where
  "SKIP_js_write fd skContents len =
     andThen (importBytes2 skContents len) (\<lambda>bs.
     andThen (onFS (fs_write fd (utf8_decode bs))) (\<lambda>_. ret len))"

definition SKIP_js_read :: "nat \<Rightarrow> nat \<Rightarrow> nat \<Rightarrow> (('x, 'v, 'cb) host, nat) js" where
  "SKIP_js_read fd skContents len =
     andThen (onFS (fs_read fd len)) (\<lambda>res.
     andThen (case res of Some s \<Rightarrow> exportBytes2 (utf8_encode s) skContents | None \<Rightarrow> skip) (\<lambda>_. ret len))"

definition SKIP_js_open_flags :: "bool \<Rightarrow> bool \<Rightarrow> bool \<Rightarrow> bool \<Rightarrow> bool \<Rightarrow> bool \<Rightarrow> int" where
  "SKIP_js_open_flags r w a t c n = toFlags \<lparr>o_read = r, o_write = w, o_append = a, o_truncate = t,
     o_create = c, o_create_new = n\<rparr>"

definition SKIP_js_invalid :: "(('x, 'v, 'cb) host, 'a) js" where
  "SKIP_js_invalid = throw (err ''Cannot be called within JS'')"

section \<open>What they do\<close>

text \<open>
  The time the program reads in two halves is the time of the first call, without loss: the
  low half is below \<open>2 ^ 32\<close> and both together are the clock's value.
\<close>

theorem time_halves:
  "\<exists>lo hi w'. SKIP_js_time_ms_lo now w = (Inr lo, w') \<and> SKIP_js_time_ms_hi w' = (Inr hi, w')
     \<and> lo < 2 ^ 32 \<and> hi * 2 ^ 32 + lo = now"
  by (simp add: SKIP_js_time_ms_lo_def SKIP_js_time_ms_hi_def)

text \<open>
  Of the four random bytes it asks for, the entropy function returns the first one only: its
  result is below 256 and does not depend on the other three.
\<close>

theorem entropy_is_one_byte:
  "SKIP_js_get_entropy [a, b, c, d] < 256 \<and> SKIP_js_get_entropy [a, b, c, d] = SKIP_js_get_entropy [a, b', c', d']"
  using unsigned_less [of a] by (simp add: SKIP_js_get_entropy_def Uint32Array_of_bytes_def)

text \<open>
  A program cannot open an existing file for writing with truncation and creation: the flags it
  gets from \<open>SKIP_js_open_flags\<close> are read back by \<open>SKIP_js_open\<close> as exclusive creation, and the call
  throws that the file exists, leaving the file system as it was.
\<close>

theorem open_truncate_fails:
  assumes "importString ex skPath w = (Inr name, v)" and "exists_file name (fs v)"
  shows "\<exists>e. SKIP_js_open ex skPath (SKIP_js_open_flags False True False True True False) w = (Inl e, v)"
proof -
  have "fromFlags (SKIP_js_open_flags False True False True True False) = \<lparr>o_read = False, o_write = True,
      o_append = False, o_truncate = True, o_create = True, o_create_new = True\<rparr>"
    by (simp add: SKIP_js_open_flags_def toFlags_def fromFlags_def is_flag_def flag_values)
  with assms show ?thesis
    by (auto simp: SKIP_js_open_def exists_file_def openFile_def onFS_def andThen_def split: option.split)
qed

text \<open>
  A read always reports the full length it was asked for, also at the end of the file, and the
  bytes it stores are the UTF-8 encoding of up to that many characters, which can be longer than
  the buffer of that length.
\<close>

theorem js_read_spec:
  assumes "files (fs w) fd = Some f" and "f_options f = Some p" and "o_read p" and "contents f = Some c"
    and "skContents + length (utf8_encode (take len (drop (cursor f) c))) \<le> length (memory w)"
  shows "\<exists>w'. SKIP_js_read fd skContents len w = (Inr len, w')
    \<and> memory w' = (if cursor f < length c then overwrite skContents (utf8_encode (take len (drop (cursor f) c))) (memory w)
                   else memory w)"
proof (cases "cursor f < length c")
  case True
  let ?s = "take len (drop (cursor f) c)" and ?f = "f\<lparr>cursor := min (length c) (cursor f + len)\<rparr>"
  let ?v = "w\<lparr>fs := (fs w)\<lparr>files := (files (fs w))(fd \<mapsto> ?f)\<rparr>\<rparr>"
  have "drop (cursor f) (take (min (length c) (cursor f + len)) c) = ?s"
    by (simp add: drop_take min_def)
  then have "onFS (fs_read fd len) w = (Inr (Some ?s), ?v)"
    using True assms(1-4) by (simp add: onFS_def fs_read_def file_read_def fs_run andThen_def Let_def)
  moreover have "write_at skContents (utf8_encode ?s) (memory w) = Inr (overwrite skContents (utf8_encode ?s) (memory w))"
    using assms(5) by (simp add: write_at_def overwrite_def)
  ultimately have "SKIP_js_read fd skContents len w
      = (Inr len, ?v\<lparr>memory := overwrite skContents (utf8_encode ?s) (memory w)\<rparr>)"
    by (simp add: SKIP_js_read_def exportBytes2_def putBytes_def andThen_def)
  with True show ?thesis by simp
next
  case False
  then have "onFS (fs_read fd len) w = (Inr None, w\<lparr>fs := (fs w)\<lparr>files := (files (fs w))(fd \<mapsto> f)\<rparr>\<rparr>)"
    using assms(1-4) by (simp add: onFS_def fs_read_def file_read_def fs_run andThen_def Let_def)
  with False show ?thesis by (simp add: SKIP_js_read_def andThen_def)
qed

text \<open>A host whose file \<open>x\<close>, descriptor 2, holds one accented letter and is open for reading.\<close>

definition tiny_host :: "(nat, nat, nat) host" where
  "tiny_host = utils.extend tiny_world \<lparr>hasEnv = True,
     fs = \<lparr>fileDescrs = [(js ''x'', 2)], fileDescrNbr = 3,
       files = [2 \<mapsto> (newFile (Some (newOptions True False False)))\<lparr>contents := Some [0xE9]\<rparr>]\<rparr>,
     sys = [], environ = [], lineBuffer = None, lastTime = None\<rparr>"

definition path_exports :: "(nat, nat, nat) host Exported" where
  "path_exports = \<lparr>SKIP_throw_EndOfFile = (\<lambda>w. (JSError [], w)), SKIP_String_byteSize = (\<lambda>p. ret 1),
     SKIP_Obstack_alloc = (\<lambda>n. ret 8), SKIP_new_Obstack = ret 0, SKIP_destroy_Obstack = (\<lambda>_. skip),
     sk_string_create = (\<lambda>a n. ret a), SKIP_createByteArray = (\<lambda>_. ret 8),
     SKIP_createUInt32Array = (\<lambda>_. ret 8), SKIP_getArraySize = (\<lambda>_. ret 0), SKIP_call0 = (\<lambda>_. ret 0),
     SKIP_skstore_init = (\<lambda>_. skip), SKIP_initializeSkip = skip, SKIP_skstore_end_of_init = skip,
     SKIP_callWithException = (\<lambda>_ _. ret 0), SKIP_getExceptionMessage = (\<lambda>_. ret 0),
     SKIP_get_persistent_size = ret 0, SKIP_get_version = ret 0, skip_main = skip, exported_main = (\<lambda>_. skip), heap_base = 0\<rparr>"

lemmas tiny_host_simps = tiny_host_def tiny_world_def utils.defs newFile_def newOptions_def

theorem open_truncate_fails_witness:
  "\<exists>e. SKIP_js_open path_exports 0 (SKIP_js_open_flags False True False True True False)
      (tiny_host\<lparr>memory := 0x78 # replicate 7 0\<rparr>) = (Inl e, tiny_host\<lparr>memory := 0x78 # replicate 7 0\<rparr>)"
proof -
  have "view 0 1 (0x78 # replicate 7 0) = Inr (utf8_encode (js ''x''))" "text_ok (js ''x'')"
    by (simp_all add: view_def text_eval)
  then have "importString path_exports 0 (tiny_host\<lparr>memory := 0x78 # replicate 7 0\<rparr>)
      = (Inr (js ''x''), tiny_host\<lparr>memory := 0x78 # replicate 7 0\<rparr>)"
    by (simp add: importString_def path_exports_def utf8_roundtrip del: js_simps)
  from open_truncate_fails [OF this] show ?thesis by (simp add: exists_file_def tiny_host_simps)
qed

theorem js_read_spec_witness:
  "\<exists>w'. SKIP_js_read 2 10 1 tiny_host = (Inr 1, w') \<and> memory w' = replicate 10 0 @ [0xC3, 0xA9] @ replicate 52 0"
proof -
  have e: "utf8_encode [0xE9] = [0xC3, 0xA9]" by (simp add: text_eval)
  show ?thesis
    using js_read_spec [of tiny_host 2 "(newFile (Some (newOptions True False False)))\<lparr>contents := Some [0xE9]\<rparr>"
        "newOptions True False False" "[0xE9]" 10 1]
    by (simp add: e tiny_host_simps overwrite_def)
qed

end
