(* ===== verification/Skjson.thy ===== *)
theory Skjson
  imports JS_Strings "HOL-Library.List_Lexorder" "HOL-Library.Multiset"
begin

text \<open>
  JSON values on both sides of the WebAssembly boundary and the conversion between them:
  \<open>skiplang/skjson/ts/binding/src/index.ts\<close> (freezing, cloning, proxies, import and export) over the
  binding of \<open>skiplang/skjson/ts/wasm/src/skjson.ts\<close> and the Skip functions it calls
  (\<open>skiplang/skjson/src/Extern.sk\<close>, \<open>JSON.sk\<close>).

  JavaScript values are \<open>jval\<close>; objects live in a heap, because they are shared, frozen in place
  and possibly cyclic. A Skip value is immutable, so the pointer to one is the value itself
  (\<open>cjson\<close>), its strings being their UTF-8 bytes. Recursive JavaScript functions take the stack depth
  they may still use and throw a \<open>RangeError\<close> when it is exhausted, as the engine does.
\<close>

section \<open>JavaScript values and objects\<close>

text \<open>
  Double precision numbers, as far as this code looks at them: the integral ones, the other finite
  ones (known by their bits), and the special values.
\<close>

datatype jsnum = NInt int | NFrac "64 word" | NegZero | PosInf | NegInf | NaN

datatype jval = VUndef | VNull | VBool bool | VNum jsnum | VBig int | VStr jsstring | VSym nat | VFun nat | VRef nat

text \<open>Values of the Skip side.\<close>

datatype cjson = CJNull | CJBool bool | CJInt int | CJFloat jsnum | CJString bytes
  | CJArray "cjson list" | CJObject "(bytes \<times> cjson) list"

datatype jsclass = ObjectClass | EagerCollectionClass | LazyCollectionClass | OtherClass nat

text \<open>
  An object: an array, an object of some class with its own properties, or a proxy of a Skip object. It may be frozen, or sealed or
  not extensible without being frozen.
\<close>

datatype okind = OArray "jval list" | OPlain jsclass "(jsstring \<times> jval) list" | OProxy cjson

record obj =
  kind :: okind
  tagged :: bool
  frozen :: bool
  extensible :: bool

record heap =
  objs :: "nat \<Rightarrow> obj"
  nextObj :: nat

definition typeof :: "jval \<Rightarrow> jsstring" where
  "typeof v = (case v of VUndef \<Rightarrow> js ''undefined'' | VNull \<Rightarrow> js ''object'' | VBool _ \<Rightarrow> js ''boolean''
     | VNum _ \<Rightarrow> js ''number'' | VBig _ \<Rightarrow> js ''bigint'' | VStr _ \<Rightarrow> js ''string'' | VSym _ \<Rightarrow> js ''symbol''
     | VFun _ \<Rightarrow> js ''function'' | VRef _ \<Rightarrow> js ''object'')"

definition newObj :: "obj \<Rightarrow> ('a heap_scheme, jval) js" where
  "newObj x = reads (\<lambda>h. andThen (modifies (\<lambda>h. h\<lparr>objs := (objs h)(nextObj h := x), nextObj := nextObj h + 1\<rparr>))
     (\<lambda>_. ret (VRef (nextObj h))))"

section \<open>Managed and frozen objects\<close>

text \<open>\<open>Object.defineProperty\<close> of the tag throws on an object that is not extensible and does not have it.\<close>

definition tagSkManaged :: "nat \<Rightarrow> ('a heap_scheme, unit) js" where
  "tagSkManaged a = reads (\<lambda>h.
     if extensible (objs h a) \<or> tagged (objs h a) then modifies (\<lambda>h. h\<lparr>objs := (objs h)(a := (objs h a)\<lparr>tagged := True\<rparr>)\<rparr>)
     else throw (err ''Cannot define property, object is not extensible''))"

text \<open>\<open>Object.freeze\<close> and \<open>Object.isFrozen\<close>, which also holds of an object that is not extensible and has no properties\<close>

definition freeze :: "nat \<Rightarrow> ('a heap_scheme, unit) js" where
  "freeze a = modifies (\<lambda>h. h\<lparr>objs := (objs h)(a := (objs h a)\<lparr>frozen := True, extensible := False\<rparr>)\<rparr>)"

definition isFrozen :: "obj \<Rightarrow> bool" where
  "isFrozen x \<longleftrightarrow> frozen x \<or> \<not> extensible x \<and> (case kind x of OPlain _ ps \<Rightarrow> ps = [] | _ \<Rightarrow> False)"

text \<open>The traps of a proxy answer that it is an object proxy and managed.\<close>

definition isObjectProxy :: "nat \<Rightarrow> 'a heap_scheme \<Rightarrow> bool" where
  "isObjectProxy a h \<longleftrightarrow> (case kind (objs h a) of OProxy _ \<Rightarrow> True | _ \<Rightarrow> False)"

definition isSkManaged :: "nat \<Rightarrow> 'a heap_scheme \<Rightarrow> bool" where
  "isSkManaged a h \<longleftrightarrow> isObjectProxy a h \<or> tagged (objs h a)"

text \<open>The values \<open>Object.values\<close> or an array iteration yields.\<close>

definition children :: "okind \<Rightarrow> jval list" where
  "children k = (case k of OArray vs \<Rightarrow> vs | OPlain _ ps \<Rightarrow> map snd ps | OProxy _ \<Rightarrow> [])"

fun deepFreeze :: "nat \<Rightarrow> jval \<Rightarrow> ('a heap_scheme, jval) js" where
  "deepFreeze 0 v = throw RangeError"
| "deepFreeze (Suc d) v =
     (case v of
        VBool _ \<Rightarrow> ret v | VNum _ \<Rightarrow> ret v | VBig _ \<Rightarrow> ret v | VStr _ \<Rightarrow> ret v | VSym _ \<Rightarrow> ret v
      | VNull \<Rightarrow> ret v
      | VRef a \<Rightarrow> reads (\<lambda>h.
          if isSkManaged a h then ret v
          else if isFrozen (objs h a) then throw (err ''Cannot deep-freeze an Object.frozen value.'')
          else andThen (forEach (children (kind (objs h a))) (\<lambda>x. andThen (deepFreeze d x) (\<lambda>_. skip))) (\<lambda>_.
               andThen (tagSkManaged a) (\<lambda>_. andThen (freeze a) (\<lambda>_. ret v))))
      | _ \<Rightarrow> throw (JSError ([0x27] @ typeof v @ [0x27] @ js '' values cannot be deep-frozen.'')))"

section \<open>The Skip side\<close>

text \<open>
  Parameters: the conversion of a double to a Skip integer, and the address of a Skip value, which
  is the number a proxy shows as its \<open>__pointer\<close>.
\<close>

record json_env =
  floatToInt :: "jsnum \<Rightarrow> int"
  addressOf :: "cjson \<Rightarrow> int"

text \<open>\<open>Int.toFloat\<close>: the nearest double, ties to even.\<close>

fun shift53 :: "nat \<Rightarrow> nat" where
  "shift53 n = (if n < 2 ^ 53 then 0 else Suc (shift53 (n div 2)))"

declare shift53.simps [simp del]

definition round53 :: "nat \<Rightarrow> nat" where
  "round53 n = (if n < 2 ^ 53 then n
     else (let s = shift53 n; q = n div 2 ^ s; r = n mod 2 ^ s in
           if 2 * r < 2 ^ s \<or> (2 * r = 2 ^ s \<and> even q) then q * 2 ^ s else (q + 1) * 2 ^ s))"

definition toFloat :: "int \<Rightarrow> jsnum" where
  "toFloat i = NInt (if i < 0 then - int (round53 (nat (- i))) else int (round53 (nat i)))"

datatype json_type = T_Undefined | T_Null | T_Int | T_Float | T_Boolean | T_String | T_Array | T_Object

definition SKIP_SKJSON_typeOf :: "cjson \<Rightarrow> json_type" where
  "SKIP_SKJSON_typeOf c = (case c of CJNull \<Rightarrow> T_Null | CJBool _ \<Rightarrow> T_Boolean | CJInt _ \<Rightarrow> T_Int | CJFloat _ \<Rightarrow> T_Float
     | CJString _ \<Rightarrow> T_String | CJArray _ \<Rightarrow> T_Array | CJObject _ \<Rightarrow> T_Object)"

definition SKIP_SKJSON_asNumber :: "cjson \<Rightarrow> jsnum" where
  "SKIP_SKJSON_asNumber c = (case c of CJInt i \<Rightarrow> toFloat i | CJFloat f \<Rightarrow> f | CJBool b \<Rightarrow> NInt (if b then 1 else 0)
     | _ \<Rightarrow> NInt 0)"

definition SKIP_SKJSON_asString :: "cjson \<Rightarrow> jsstring" where
  "SKIP_SKJSON_asString c = (case c of CJString bs \<Rightarrow> utf8_decode bs | _ \<Rightarrow> [])"

definition SKIP_SKJSON_fieldAt :: "cjson \<Rightarrow> nat \<Rightarrow> jsstring option" where
  "SKIP_SKJSON_fieldAt c i = (case c of CJObject fs \<Rightarrow> if i < length fs then Some (utf8_decode (fst (fs ! i))) else None
     | _ \<Rightarrow> None)"

definition SKIP_SKJSON_get :: "cjson \<Rightarrow> nat \<Rightarrow> cjson option" where
  "SKIP_SKJSON_get c i = (case c of CJObject fs \<Rightarrow> if i < length fs then Some (snd (fs ! i)) else None | _ \<Rightarrow> None)"

definition SKIP_SKJSON_objectSize :: "cjson \<Rightarrow> nat" where
  "SKIP_SKJSON_objectSize c = (case c of CJObject fs \<Rightarrow> length fs | _ \<Rightarrow> 0)"

text \<open>The fields of an object under construction, and its end: they are sorted by name, and a name that
  occurs twice violates the invariant of \<open>CJFields\<close>.\<close>

definition SKIP_SKJSON_addToCJObject ::
  "(bytes \<times> cjson) list \<Rightarrow> jsstring \<Rightarrow> cjson \<Rightarrow> js_error + (bytes \<times> cjson) list" where
  "SKIP_SKJSON_addToCJObject fs name c = bindE (skip_utf8 0 name) (\<lambda>bs. Inr (fs @ [(bs, c)]))"

definition SKIP_SKJSON_endCJObject :: "(bytes \<times> cjson) list \<Rightarrow> js_error + cjson" where
  "SKIP_SKJSON_endCJObject fs =
     (let sorted_fs = sort_key fst fs in
      if distinct (map fst sorted_fs) then Inr (CJObject sorted_fs) else Inl (err ''Invariant violation''))"

definition SKIP_SKJSON_createCJString :: "jsstring \<Rightarrow> js_error + cjson" where
  "SKIP_SKJSON_createCJString s = bindE (skip_utf8 0 s) (\<lambda>bs. Inr (CJString bs))"

section \<open>Importing\<close>

fun interpretPointer :: "cjson \<Rightarrow> ('a heap_scheme, jval) js" where
  "interpretPointer CJNull = ret VNull"
| "interpretPointer (CJBool b) = ret (VBool (SKIP_SKJSON_asNumber (CJBool b) \<noteq> NInt 0))"
| "interpretPointer (CJInt i) = ret (VNum (SKIP_SKJSON_asNumber (CJInt i)))"
| "interpretPointer (CJFloat f) = ret (VNum (SKIP_SKJSON_asNumber (CJFloat f)))"
| "interpretPointer (CJString bs) = ret (VStr (SKIP_SKJSON_asString (CJString bs)))"
| "interpretPointer (CJArray cs) =
     andThen (mapM cs interpretPointer) (\<lambda>vs. newObj \<lparr>kind = OArray vs, tagged = True, frozen = False, extensible = True\<rparr>)"
| "interpretPointer (CJObject fs) = newObj \<lparr>kind = OProxy (CJObject fs), tagged = False, frozen = False, extensible = True\<rparr>"

definition interpretOptPointer :: "cjson option \<Rightarrow> ('a heap_scheme, jval) js" where
  "interpretOptPointer c = (case c of None \<Rightarrow> ret VNull | Some c \<Rightarrow> interpretPointer c)"

text \<open>The class \<open>ObjectHandle\<close>: the loop of \<open>objectFields\<close> stops at the first falsy field name.\<close>

fun objectFields_loop :: "jsstring option list \<Rightarrow> nat \<Rightarrow> (jsstring \<times> nat) list \<Rightarrow> (jsstring \<times> nat) list" where
  "objectFields_loop [] i m = m"
| "objectFields_loop (field # rest) i m =
     (case field of
        None \<Rightarrow> m
      | Some f \<Rightarrow> if f = [] then m else objectFields_loop rest (i + 1) (amap_set f i m))"

definition objectFields :: "cjson \<Rightarrow> (jsstring \<times> nat) list" where
  "objectFields c = objectFields_loop (map (SKIP_SKJSON_fieldAt c) [0..<SKIP_SKJSON_objectSize c]) 0 []"

definition getFieldAt :: "cjson \<Rightarrow> nat \<Rightarrow> ('a heap_scheme, jval) js" where
  "getFieldAt c i = interpretOptPointer (SKIP_SKJSON_get c i)"

definition oh_toJSON :: "cjson \<Rightarrow> ('a heap_scheme, jval) js" where
  "oh_toJSON c =
     andThen (mapM (objectFields c) (\<lambda>(k, i). andThen (getFieldAt c i) (\<lambda>v. ret (k, v)))) (\<lambda>kvs.
     newObj \<lparr>kind = OPlain ObjectClass (fromEntries kvs), tagged = False, frozen = False, extensible = True\<rparr>)"

definition oh_keys :: "cjson \<Rightarrow> jsstring list" where
  "oh_keys c = map fst (objectFields c)"

definition oh_get :: "cjson \<Rightarrow> jsstring \<Rightarrow> ('a heap_scheme, jval) js" where
  "oh_get c p = (case map_of (objectFields c) p of None \<Rightarrow> ret VUndef | Some i \<Rightarrow> getFieldAt c i)"

definition oh_has :: "cjson \<Rightarrow> jsstring \<Rightarrow> bool" where
  "oh_has c p \<longleftrightarrow> map_of (objectFields c) p \<noteq> None"

text \<open>
  The traps of \<open>reactiveObject\<close>. Property keys are strings or symbols; both this module and the
  standard module of the runtime create a symbol named \<open>sk_isObjectProxy\<close>, and they are different.
\<close>

datatype symbol = Json_isObjectProxy | Std_isObjectProxy | Sk_managed | OtherSymbol nat

datatype propkey = PStr jsstring | PSym symbol

definition reserved :: "jsstring \<Rightarrow> bool" where
  "reserved p \<longleftrightarrow> p \<in> {js ''__pointer'', js ''clone'', js ''toJSON'', js ''toString'', js ''keys''}"

definition reactive_get :: "json_env \<Rightarrow> cjson \<Rightarrow> propkey \<Rightarrow> ('a heap_scheme, jval) js" where
  "reactive_get env c p =
     (case p of
        PSym Json_isObjectProxy \<Rightarrow> ret (VBool True)
      | PSym Sk_managed \<Rightarrow> ret (VBool True)
      | PSym _ \<Rightarrow> ret VUndef
      | PStr s \<Rightarrow>
          if s = js ''__pointer'' then ret (VNum (NInt (addressOf env c)))
          else if s = js ''clone'' then ret (VFun 0)
          else if s = js ''toJSON'' then ret (VFun 1)
          else if s = js ''toString'' then ret (VFun 2)
          else if s = js ''keys'' then newObj \<lparr>kind = OPlain (OtherClass 0) [], tagged = False, frozen = False, extensible = True\<rparr>
          else oh_get c s)"

definition reactive_has :: "cjson \<Rightarrow> propkey \<Rightarrow> bool" where
  "reactive_has c p \<longleftrightarrow>
     (case p of
        PSym Json_isObjectProxy \<Rightarrow> True | PSym Sk_managed \<Rightarrow> True | PSym _ \<Rightarrow> False
      | PStr s \<Rightarrow> reserved s \<or> oh_has c s)"

section \<open>Cloning and exporting\<close>

fun clone :: "json_env \<Rightarrow> nat \<Rightarrow> jval \<Rightarrow> ('a heap_scheme, jval) js" where
  "clone env 0 v = throw RangeError"
| "clone env (Suc d) v =
     (case v of
        VRef a \<Rightarrow> reads (\<lambda>h.
          case kind (objs h a) of
            OArray vs \<Rightarrow>
              andThen (mapM vs (clone env d)) (\<lambda>vs. newObj \<lparr>kind = OArray vs, tagged = False, frozen = False, extensible = True\<rparr>)
          | OProxy c \<Rightarrow>
              andThen (mapM (oh_keys c) (\<lambda>k.
                 andThen (reactive_get env c (PStr k)) (\<lambda>v. andThen (clone env d v) (\<lambda>v. ret (k, v))))) (\<lambda>kvs.
              newObj \<lparr>kind = OPlain ObjectClass (fromEntries kvs), tagged = False, frozen = False, extensible = True\<rparr>)
          | OPlain _ ps \<Rightarrow>
              andThen (mapM ps (\<lambda>(k, v). andThen (clone env d v) (\<lambda>v. ret (k, v)))) (\<lambda>kvs.
              newObj \<lparr>kind = OPlain ObjectClass (fromEntries kvs), tagged = False, frozen = False, extensible = True\<rparr>))
      | _ \<Rightarrow> ret v)"

definition checkOrCloneParam :: "json_env \<Rightarrow> nat \<Rightarrow> jval \<Rightarrow> ('a heap_scheme, jval) js" where
  "checkOrCloneParam env d v =
     (case v of
        VBool _ \<Rightarrow> ret v | VNum _ \<Rightarrow> ret v | VStr _ \<Rightarrow> ret v | VNull \<Rightarrow> ret v
      | VRef a \<Rightarrow> reads (\<lambda>h.
          if isObjectProxy a h then clone env d v
          else if isSkManaged a h then ret v
          else throw (err ''Invalid object: must be deep-frozen.''))
      | _ \<Rightarrow> throw (JSError ([0x27] @ typeof v @ [0x27] @ js '' cannot be deep-frozen.'')))"

text \<open>\<open>value === Math.trunc(value)\<close>\<close>

definition is_integral :: "jsnum \<Rightarrow> bool" where
  "is_integral n \<longleftrightarrow> (case n of NInt _ \<Rightarrow> True | NFrac _ \<Rightarrow> False | NegZero \<Rightarrow> True | PosInf \<Rightarrow> True | NegInf \<Rightarrow> True | NaN \<Rightarrow> False)"

text \<open>Adding the entries of a plain object to a Skip object under construction, one after the other.\<close>

fun addEntries :: "('w, (bytes \<times> cjson) list) js \<Rightarrow> (jsstring \<times> ('w, cjson) js) list \<Rightarrow> ('w, (bytes \<times> cjson) list) js" where
  "addEntries acc [] = acc"
| "addEntries acc ((k, m) # es) =
     addEntries (andThen acc (\<lambda>fs. andThen m (\<lambda>c. lift (SKIP_SKJSON_addToCJObject fs k c)))) es"

fun exportJSON :: "json_env \<Rightarrow> nat \<Rightarrow> jval \<Rightarrow> ('a heap_scheme, cjson) js" where
  "exportJSON env 0 v = throw RangeError"
| "exportJSON env (Suc d) v =
     (case v of
        VNull \<Rightarrow> ret CJNull | VUndef \<Rightarrow> ret CJNull
      | VBool b \<Rightarrow> ret (CJBool b)
      | VNum n \<Rightarrow> ret (if is_integral n then CJInt (floatToInt env n) else CJFloat n)
      | VStr s \<Rightarrow> lift (SKIP_SKJSON_createCJString s)
      | VRef a \<Rightarrow> reads (\<lambda>h.
          case kind (objs h a) of
            OArray vs \<Rightarrow> andThen (mapM vs (exportJSON env d)) (\<lambda>cs. ret (CJArray cs))
          | OProxy c \<Rightarrow> ret c
          | OPlain _ ps \<Rightarrow>
              andThen (addEntries (ret []) (map (\<lambda>(k, v). (k, exportJSON env d v)) ps)) (\<lambda>fs.
              lift (SKIP_SKJSON_endCJObject fs)))
      | _ \<Rightarrow> throw (JSError ([0x27] @ typeof v @ [0x27] @ js '' cannot be exported to wasm.'')))"

definition importJSON :: "json_env \<Rightarrow> nat \<Rightarrow> cjson \<Rightarrow> bool \<Rightarrow> ('a heap_scheme, jval) js" where
  "importJSON env d c copy =
     andThen (interpretPointer c) (\<lambda>v. if copy \<and> v \<noteq> VNull then clone env d v else ret v)"

definition importOptJSON :: "json_env \<Rightarrow> nat \<Rightarrow> cjson option \<Rightarrow> bool \<Rightarrow> ('a heap_scheme, jval) js" where
  "importOptJSON env d c copy = (case c of None \<Rightarrow> ret VNull | Some c \<Rightarrow> importJSON env d c copy)"

text \<open>\<open>cloneIfProxy\<close> of \<open>skiplang/prelude/ts/binding/src/index.ts\<close>, which asks for the symbol of its own module.\<close>

definition has_prop :: "nat \<Rightarrow> propkey \<Rightarrow> 'a heap_scheme \<Rightarrow> bool" where
  "has_prop a p h \<longleftrightarrow>
     (case kind (objs h a) of
        OProxy c \<Rightarrow> reactive_has c p
      | OPlain _ ps \<Rightarrow> (case p of PStr s \<Rightarrow> s \<in> fst ` set ps | PSym Sk_managed \<Rightarrow> tagged (objs h a) | _ \<Rightarrow> False)
      | OArray _ \<Rightarrow> (case p of PSym Sk_managed \<Rightarrow> tagged (objs h a) | _ \<Rightarrow> False))"

definition cloneIfProxy :: "json_env \<Rightarrow> nat \<Rightarrow> jval \<Rightarrow> ('a heap_scheme, jval) js" where
  "cloneIfProxy env d v =
     (case v of
        VRef a \<Rightarrow> reads (\<lambda>h. if has_prop a (PSym Std_isObjectProxy) h \<and> has_prop a (PStr (js ''clone'')) h
          then clone env d v else ret v)
      | _ \<Rightarrow> ret v)"

section \<open>Deep freezing\<close>

text \<open>A value that reactive computations may depend on: a primitive value, or a managed object.\<close>

definition depsafe :: "'a heap_scheme \<Rightarrow> jval \<Rightarrow> bool" where
  "depsafe h v \<longleftrightarrow> (case v of VRef a \<Rightarrow> isSkManaged a h | VUndef \<Rightarrow> False | VFun _ \<Rightarrow> False | _ \<Rightarrow> True)"

text \<open>
  The values an object holds as data. The two classes of collections are managed by the runtime and hold a reference to the
  runtime itself, which is neither managed nor data.
\<close>

definition contents :: "okind \<Rightarrow> jval list" where
  "contents k = (case k of OPlain EagerCollectionClass _ \<Rightarrow> [] | OPlain LazyCollectionClass _ \<Rightarrow> [] | _ \<Rightarrow> children k)"

text \<open>Managed objects that are no collections refer to dependency-safe values only.\<close>

definition managed_closed :: "'a heap_scheme \<Rightarrow> bool" where
  "managed_closed h \<longleftrightarrow> (\<forall>a. tagged (objs h a) \<longrightarrow> (\<forall>c \<in> set (contents (kind (objs h a))). depsafe h c))"

inductive reachable_from :: "'a heap_scheme \<Rightarrow> jval \<Rightarrow> jval \<Rightarrow> bool" for h v where
  here: "reachable_from h v v"
| step: "reachable_from h v (VRef a) \<Longrightarrow> c \<in> set (contents (kind (objs h a))) \<Longrightarrow> reachable_from h v c"

lemma contents_children: "set (contents k) \<subseteq> set (children k)"
  by (auto simp: contents_def split: okind.splits jsclass.splits)

text \<open>What freezing may change: objects become managed, and those that do are frozen.\<close>

definition freezes :: "'a heap_scheme \<Rightarrow> 'a heap_scheme \<Rightarrow> bool" where
  "freezes h h' \<longleftrightarrow> (\<forall>a. objs h' a = objs h a
     \<or> \<not> tagged (objs h a) \<and> objs h' a = (objs h a)\<lparr>tagged := True, frozen := True, extensible := False\<rparr>)"

lemma freezes_pre: "preorder_rel freezes"
  unfolding preorder_rel_def
proof (intro conjI allI impI)
  fix u v w :: "'a heap_scheme" assume uv: "freezes u v" and vw: "freezes v w"
  show "freezes u w" unfolding freezes_def
  proof
    fix a
    from uv vw show "objs w a = objs u a \<or> \<not> tagged (objs u a) \<and> objs w a = (objs u a)\<lparr>tagged := True, frozen := True, extensible := False\<rparr>"
      unfolding freezes_def by (elim allE [of _ a]) auto
  qed
qed (simp add: freezes_def)

lemma freezes_kind: "freezes h h' \<Longrightarrow> kind (objs h' a) = kind (objs h a)"
  unfolding freezes_def by (elim allE [of _ a]) auto

lemma freezes_tagged: "freezes h h' \<Longrightarrow> tagged (objs h a) \<Longrightarrow> objs h' a = objs h a"
  unfolding freezes_def by (elim allE [of _ a]) auto

lemma freezes_refl [simp]: "freezes h h"
  and freezes_trans: "freezes h h' \<Longrightarrow> freezes h' h'' \<Longrightarrow> freezes h h''"
  using freezes_pre unfolding preorder_rel_def by blast+

lemma freezes_managed: "freezes h h' \<Longrightarrow> isSkManaged a h \<Longrightarrow> isSkManaged a h'"
  using freezes_kind [of h h' a] freezes_tagged [of h h' a] by (auto simp: isSkManaged_def isObjectProxy_def)

lemma freezes_depsafe: "freezes h h' \<Longrightarrow> depsafe h v \<Longrightarrow> depsafe h' v"
  by (auto simp: depsafe_def freezes_managed split: jval.splits)

lemma tag_freeze:
  assumes "managed_closed h" and "\<not> tagged (objs h a)" and "\<forall>c \<in> set (children (kind (objs h a))). depsafe h c"
    and "h' = h\<lparr>objs := (objs h)(a := (objs h a)\<lparr>tagged := True, frozen := True, extensible := False\<rparr>)\<rparr>"
  shows "managed_closed h' \<and> freezes h h' \<and> isSkManaged a h'"
proof -
  have f: "freezes h h'" using assms(2,4) by (auto simp: freezes_def)
  moreover have "managed_closed h'"
    using assms(1,3) freezes_depsafe [OF f] contents_children [of "kind (objs h a)"] unfolding managed_closed_def
    by (auto simp: assms(4) split: if_splits)
  ultimately show ?thesis using assms(4) by (simp add: isSkManaged_def)
qed

lemma deepFreeze_spec:
  "managed_closed h \<Longrightarrow> deepFreeze d v h = (r, h') \<Longrightarrow>
   managed_closed h' \<and> freezes h h' \<and> (\<forall>x. r = Inr x \<longrightarrow> x = v \<and> depsafe h' v)"
proof (induction d arbitrary: v h r h')
  case (Suc d)
  have children: "managed_closed k' \<and> freezes k k' \<and> (\<forall>x. q = Inr x \<longrightarrow> (\<forall>v \<in> set vs. depsafe k' v))"
    if "managed_closed k" "forEach vs (\<lambda>x. andThen (deepFreeze d x) (\<lambda>_. skip)) k = (q, k')" for vs q and k k' :: "'a heap_scheme"
    using that
  proof (induction vs arbitrary: k)
    case (Cons v vs)
    obtain p k1 where p: "deepFreeze d v k = (p, k1)" by (cases "deepFreeze d v k")
    from Suc.IH [OF Cons.prems(1) p] have k1: "managed_closed k1" "freezes k k1" "\<forall>x. p = Inr x \<longrightarrow> x = v \<and> depsafe k1 v"
      by auto
    show ?case
    proof (cases p)
      case (Inl e)
      with Cons.prems(2) p k1 show ?thesis by (auto simp: andThen_def)
    next
      case (Inr x)
      then have "andThen (deepFreeze d v) (\<lambda>_. skip) k = (Inr (), k1)" using p by (simp add: andThen_def)
      from forEach_step [of "\<lambda>x. andThen (deepFreeze d x) (\<lambda>_. skip)", OF this]
      have "forEach vs (\<lambda>x. andThen (deepFreeze d x) (\<lambda>_. skip)) k1 = (q, k')" using Cons.prems(2) by metis
      from Cons.IH [OF k1(1) this] k1 Inr show ?thesis
        using freezes_trans freezes_depsafe by fastforce
    qed
  qed simp
  show ?case
  proof (cases v)
    case (VRef a)
    consider "isSkManaged a h" | "\<not> isSkManaged a h" "isFrozen (objs h a)" | "\<not> isSkManaged a h" "\<not> isFrozen (objs h a)" by blast
    then show ?thesis
    proof cases
      case 3
      let ?vs = "children (kind (objs h a))"
      obtain q k where q: "forEach ?vs (\<lambda>x. andThen (deepFreeze d x) (\<lambda>_. skip)) h = (q, k)" by fastforce
      from children [OF Suc.prems(1) q] have k: "managed_closed k" "freezes h k"
        "\<forall>x. q = Inr x \<longrightarrow> (\<forall>v \<in> set ?vs. depsafe k v)" by auto
      show ?thesis
      proof (cases q)
        case (Inl e)
        with Suc.prems(2) VRef 3 q k show ?thesis by (auto simp: andThen_def)
      next
        case (Inr u)
        let ?k = "k\<lparr>objs := (objs k)(a := (objs k a)\<lparr>tagged := True, frozen := True, extensible := False\<rparr>)\<rparr>"
        consider "extensible (objs k a) \<or> tagged (objs k a)" | "\<not> extensible (objs k a)" "\<not> tagged (objs k a)" by blast
        then show ?thesis
        proof cases
          case 2
          with Suc.prems(2) VRef 3 q Inr have "h' = k" "\<exists>e. r = Inl e" by (auto simp: andThen_def tagSkManaged_def)
          with k show ?thesis by auto
        next
          case 1
        with Suc.prems(2) VRef 3 q Inr have r: "r = Inr v" "h' = ?k"
          by (auto simp: andThen_def tagSkManaged_def freeze_def)
        have same: "kind (objs k a) = kind (objs h a)" using k(2) by (rule freezes_kind)
        show ?thesis
        proof (cases "tagged (objs k a)")
          case False
          from tag_freeze [OF k(1) this _ refl] k Inr same r VRef show ?thesis
            using freezes_trans [OF k(2)] by (auto simp: depsafe_def)
        next
          case True
          have "\<not> tagged (objs h a)" using 3 by (simp add: isSkManaged_def)
          with k(2) True have "objs k a = (objs h a)\<lparr>tagged := True, frozen := True, extensible := False\<rparr>"
            unfolding freezes_def by (elim allE [of _ a]) auto
          then have "?k = k" by (cases k) (simp add: fun_upd_idem_iff)
          with r k True VRef show ?thesis by (auto simp: depsafe_def isSkManaged_def)
        qed
        qed
      qed
    qed (use Suc.prems VRef in \<open>auto simp: depsafe_def\<close>)
  qed (use Suc.prems in \<open>auto simp: depsafe_def\<close>)
qed auto


text \<open>
  C16: deep freezing makes a value safe to depend on, all the way down, in a heap whose managed objects, the
  collections of the runtime apart, hold primitive values and managed objects only: if \<open>deepFreeze\<close> returns, it
  returns the value it was given, every value reachable from it as data, that is without looking into
  a collection of the runtime, is primitive or managed, the shape of every object is unchanged, objects that were
  managed before are untouched and those that became managed are frozen; and also when it throws, managed
  objects other than collections hold primitive values and managed objects only.
\<close>

theorem deepFreeze_is_deep:
  assumes "managed_closed h" and "deepFreeze d v h = (r, h')"
  shows "managed_closed h' \<and> (\<forall>a. kind (objs h' a) = kind (objs h a) \<and> (tagged (objs h a) \<longrightarrow> objs h' a = objs h a)
      \<and> (tagged (objs h' a) \<and> \<not> tagged (objs h a) \<longrightarrow> frozen (objs h' a)))
    \<and> (\<forall>x. r = Inr x \<longrightarrow> x = v \<and> (\<forall>u. reachable_from h' v u \<longrightarrow> depsafe h' u))"
proof -
  have s: "managed_closed h'" "freezes h h'" "\<forall>x. r = Inr x \<longrightarrow> x = v \<and> depsafe h' v"
    using deepFreeze_spec [OF assms] by auto
  have "depsafe h' u" if "reachable_from h' v u" "depsafe h' v" for u
    using that
  proof (induction rule: reachable_from.induct)
    case (step a c)
    then have "tagged (objs h' a) \<or> contents (kind (objs h' a)) = []"
      by (auto simp: depsafe_def isSkManaged_def isObjectProxy_def contents_def children_def split: okind.splits)
    with step s(1) show ?case by (auto simp: managed_closed_def)
  qed
  moreover have "frozen (objs h' a)" if "tagged (objs h' a)" "\<not> tagged (objs h a)" for a
    using s(2) that unfolding freezes_def by (elim allE [of _ a]) auto
  ultimately show ?thesis using s freezes_kind [OF s(2)] freezes_tagged [OF s(2)] by blast
qed

text \<open>
  A value of height below \<open>n\<close> that can be frozen: no functions or undefined values, and every object
  is managed or extensible and not frozen. A cyclic structure of unmanaged objects has no height.
\<close>

fun freezable :: "'a heap_scheme \<Rightarrow> nat \<Rightarrow> jval \<Rightarrow> bool" where
  "freezable h 0 v = False"
| "freezable h (Suc n) v = (case v of
     VRef a \<Rightarrow> isSkManaged a h \<or> extensible (objs h a) \<and> \<not> frozen (objs h a) \<and> list_all (freezable h n) (children (kind (objs h a)))
   | VUndef \<Rightarrow> False | VFun _ \<Rightarrow> False | _ \<Rightarrow> True)"

lemma freezable_mono: "freezes h h' \<Longrightarrow> freezable h n v \<Longrightarrow> freezable h' n v"
proof (induction n arbitrary: v)
  case (Suc n)
  show ?case
  proof (cases v)
    case (VRef a)
    have "frozen (objs h' a) \<or> \<not> extensible (objs h' a) \<Longrightarrow> \<not> frozen (objs h a) \<Longrightarrow> extensible (objs h a) \<Longrightarrow> tagged (objs h' a)"
      using Suc.prems(1) unfolding freezes_def by (elim allE [of _ a]) auto
    with Suc VRef show ?thesis
      using freezes_managed [OF Suc.prems(1), of a] freezes_kind [OF Suc.prems(1), of a]
      by (auto simp: list_all_iff isSkManaged_def)
  qed (use Suc in auto)
qed simp

lemma deepFreeze_returns_run:
  assumes "managed_closed h" and "freezable h d v"
  shows "\<exists>h'. deepFreeze d v h = (Inr v, h')"
  using assms
proof (induction d arbitrary: v h)
  case (Suc d)
  have children: "\<exists>k'. forEach vs (\<lambda>x. andThen (deepFreeze d x) (\<lambda>_. skip)) k = (Inr (), k') \<and> freezes k k'"
    if "managed_closed k" "list_all (freezable k d) vs" for vs and k :: "'a heap_scheme"
    using that
  proof (induction vs arbitrary: k)
    case (Cons v vs)
    then obtain k1 where k1: "deepFreeze d v k = (Inr v, k1)" using Suc.IH [of k v] by auto
    from deepFreeze_spec [OF Cons.prems(1) k1] have "managed_closed k1" "freezes k k1" by auto
    moreover have "list_all (freezable k1 d) vs"
      using Cons.prems(2) freezable_mono [OF \<open>freezes k k1\<close>] by (auto simp: list_all_iff)
    moreover have "andThen (deepFreeze d v) (\<lambda>_. skip) k = (Inr (), k1)" using k1 by (simp add: andThen_def)
    from forEach_step [of "\<lambda>x. andThen (deepFreeze d x) (\<lambda>_. skip)", OF this]
    have "forEach (v # vs) (\<lambda>x. andThen (deepFreeze d x) (\<lambda>_. skip)) k = forEach vs (\<lambda>x. andThen (deepFreeze d x) (\<lambda>_. skip)) k1" .
    ultimately obtain k' where "forEach (v # vs) (\<lambda>x. andThen (deepFreeze d x) (\<lambda>_. skip)) k = (Inr (), k')" "freezes k1 k'"
      using Cons.IH [of k1] by metis
    with freezes_trans [OF \<open>freezes k k1\<close>] show ?case by blast
  qed simp
  show ?case
  proof (cases v)
    case (VRef a)
    show ?thesis
    proof (cases "isSkManaged a h")
      case False
      with Suc.prems(2) VRef have f: "\<not> isFrozen (objs h a)" "extensible (objs h a)" "list_all (freezable h d) (children (kind (objs h a)))"
        by (auto simp: isFrozen_def)
      from children [OF Suc.prems(1) f(3)] obtain k where
        k: "forEach (children (kind (objs h a))) (\<lambda>x. andThen (deepFreeze d x) (\<lambda>_. skip)) h = (Inr (), k)" "freezes h k" by blast
      from k(2) f(2) have "extensible (objs k a) \<or> tagged (objs k a)" unfolding freezes_def by (elim allE [of _ a]) auto
      with False f(1) VRef k(1) show ?thesis by (simp add: andThen_step tagSkManaged_def freeze_def)
    qed (simp add: VRef)
  qed (use Suc.prems(2) in auto)
qed simp

text \<open>
  C17: deep freezing returns: on every value of finite height, shared parts included, that holds no
  function, no undefined value and no unmanaged object that is frozen, sealed or otherwise not
  extensible, with a stack deeper than the height and managed objects that hold safe values, it
  returns that value and throws no exception.
\<close>

theorem deepFreeze_returns:
  assumes "managed_closed h" and "freezable h d v"
  shows "\<exists>h'. deepFreeze d v h = (Inr v, h')"
  using assms by (rule deepFreeze_returns_run)

text \<open>An array that holds the same object twice, and an object that holds itself.\<close>

definition shared_heap :: heap where
  "shared_heap = \<lparr>objs = (\<lambda>a. \<lparr>kind = (if a = 0 then OArray [VRef 1, VRef 1] else if a = 1 then OPlain ObjectClass [(js ''x'', VNum (NInt 1))]
     else OPlain ObjectClass [(js ''self'', VRef a)]), tagged = False, frozen = False, extensible = True\<rparr>), nextObj = 3\<rparr>"

lemma shared_heap_closed: "managed_closed shared_heap"
  by (simp add: managed_closed_def shared_heap_def)

lemma shared_heap_freezable: "freezable shared_heap 3 (VRef 0)"
  by (simp add: shared_heap_def isSkManaged_def isObjectProxy_def children_def numeral_3_eq_3)

theorem deepFreeze_returns_witness: "\<exists>h'. deepFreeze 3 (VRef 0) shared_heap = (Inr (VRef 0), h')"
  by (rule deepFreeze_returns [OF shared_heap_closed shared_heap_freezable])

theorem deepFreeze_is_deep_witness:
  "managed_closed (snd (deepFreeze 3 (VRef 0) shared_heap)) \<and> depsafe (snd (deepFreeze 3 (VRef 0) shared_heap)) (VRef 0)
   \<and> depsafe (snd (deepFreeze 3 (VRef 0) shared_heap)) (VRef 1)"
proof -
  obtain h' where h': "deepFreeze 3 (VRef 0) shared_heap = (Inr (VRef 0), h')"
    using deepFreeze_returns_run [OF shared_heap_closed shared_heap_freezable] by blast
  note d = deepFreeze_is_deep [OF shared_heap_closed h']
  have "VRef 1 \<in> set (contents (kind (objs h' 0)))" using d by (simp add: shared_heap_def contents_def children_def)
  then have "reachable_from h' (VRef 0) (VRef 1)" by (rule reachable_from.step [OF reachable_from.here])
  with d reachable_from.here [of h' "VRef 0"] show ?thesis unfolding h' by simp
qed

section \<open>Imported values\<close>

text \<open>The heap only grows: objects that exist keep their contents.\<close>

definition grows :: "'a heap_scheme \<Rightarrow> 'a heap_scheme \<Rightarrow> bool" where
  "grows h h' \<longleftrightarrow> nextObj h \<le> nextObj h' \<and> (\<forall>a < nextObj h. objs h' a = objs h a)"

lemma grows_pre: "preorder_rel grows"
  by (auto simp: preorder_rel_def grows_def)

lemma grows_refl [simp]: "grows h h"
  and grows_trans: "grows h h' \<Longrightarrow> grows h' h'' \<Longrightarrow> grows h h''"
  using grows_pre unfolding preorder_rel_def by blast+

lemma newObj_run:
  "newObj x h = (Inr (VRef (nextObj h)), h\<lparr>objs := (objs h)(nextObj h := x), nextObj := Suc (nextObj h)\<rparr>)"
  by (simp add: newObj_def)

lemma grows_newObj [simp]: "grows h (h\<lparr>objs := (objs h)(nextObj h := x), nextObj := Suc (nextObj h)\<rparr>)"
  by (simp add: grows_def)

text \<open>The JavaScript value of a Skip value: arrays are copied, objects stay behind a proxy.\<close>

inductive shows_cj :: "'a heap_scheme \<Rightarrow> jval \<Rightarrow> cjson \<Rightarrow> bool" for h where
  "shows_cj h VNull CJNull"
| "shows_cj h (VBool b) (CJBool b)"
| "shows_cj h (VNum (toFloat i)) (CJInt i)"
| "shows_cj h (VNum f) (CJFloat f)"
| "shows_cj h (VStr (utf8_decode bs)) (CJString bs)"
| "a < nextObj h \<Longrightarrow> kind (objs h a) = OArray vs \<Longrightarrow> list_all2 (shows_cj h) vs cs \<Longrightarrow> shows_cj h (VRef a) (CJArray cs)"
| "a < nextObj h \<Longrightarrow> kind (objs h a) = OProxy (CJObject fs) \<Longrightarrow> shows_cj h (VRef a) (CJObject fs)"

inductive_cases shows_cj_cases:
  "shows_cj h v CJNull" "shows_cj h v (CJBool b)" "shows_cj h v (CJInt i)" "shows_cj h v (CJFloat f)"
  "shows_cj h v (CJString bs)" "shows_cj h v (CJArray cs)" "shows_cj h v (CJObject fs)"

lemma shows_cj_grows: "shows_cj h v c \<Longrightarrow> grows h h' \<Longrightarrow> shows_cj h' v c"
proof (induction rule: shows_cj.induct)
  case (6 a vs cs)
  then show ?case by (intro shows_cj.intros(6)) (auto simp: grows_def elim: list_all2_mono)
qed (auto intro: shows_cj.intros simp: grows_def)

lemma interpret_shows: "\<exists>v h'. interpretPointer c h = (Inr v, h') \<and> grows h h' \<and> shows_cj h' v c"
proof (induction c arbitrary: h)
  case (CJBool b)
  then show ?case by (auto simp: SKIP_SKJSON_asNumber_def intro: shows_cj.intros)
next
  case (CJArray cs)
  have "\<exists>vs h'. mapM cs interpretPointer h = (Inr vs, h') \<and> grows h h' \<and> list_all2 (\<lambda>c v. shows_cj h' v c) cs vs"
    by (rule mapM_rel [OF grows_pre]) (use shows_cj_grows CJArray in blast)+
  then obtain vs h1 where m: "mapM cs interpretPointer h = (Inr vs, h1)" "grows h h1" "list_all2 (\<lambda>c v. shows_cj h1 v c) cs vs"
    by blast
  let ?h = "h1\<lparr>objs := (objs h1)(nextObj h1 := \<lparr>kind = OArray vs, tagged = True, frozen = False, extensible = True\<rparr>), nextObj := Suc (nextObj h1)\<rparr>"
  have "list_all2 (\<lambda>v c. shows_cj h1 v c) vs cs" using m(3) by (simp add: list_all2_conv_all_nth)
  then have "list_all2 (shows_cj ?h) vs cs" by (rule list_all2_mono) (erule shows_cj_grows, rule grows_newObj)
  then have "shows_cj ?h (VRef (nextObj h1)) (CJArray cs)" by (intro shows_cj.intros(6)) simp_all
  moreover have "grows h ?h" using grows_trans [OF m(2) grows_newObj] .
  ultimately show ?case using m(1) by (simp add: andThen_def newObj_run)
next
  case (CJObject fs)
  then show ?case by (auto simp: newObj_run intro: shows_cj.intros(7))
qed (auto simp: SKIP_SKJSON_asNumber_def SKIP_SKJSON_asString_def intro: shows_cj.intros)

section \<open>The round trip through JavaScript\<close>

fun cj_height :: "cjson \<Rightarrow> nat" where
  "cj_height (CJArray cs) = Suc (Max (insert 0 (set (map cj_height cs))))"
| "cj_height (CJObject fs) = Suc (Max (insert 0 (set (map (cj_height \<circ> snd) fs))))"
| "cj_height _ = 0"

text \<open>
  Values JavaScript can hold exactly: integers below \<open>2 ^ 53\<close>, floats that are not integral, text that
  is valid UTF-8 and does not start with a byte order mark.
\<close>

definition exact_text :: "bytes \<Rightarrow> bool" where
  "exact_text bs \<longleftrightarrow> text_ok (utf8_decode bs) \<and> utf8_encode (utf8_decode bs) = bs"

fun exact :: "cjson \<Rightarrow> bool" where
  "exact (CJInt i) = (\<bar>i\<bar> < 2 ^ 53)"
| "exact (CJFloat f) = (\<not> is_integral f)"
| "exact (CJString bs) = exact_text bs"
| "exact (CJArray cs) = list_all exact cs"
| "exact _ = True"

definition exact_env :: "json_env \<Rightarrow> bool" where
  "exact_env env \<longleftrightarrow> (\<forall>i. \<bar>i\<bar> < 2 ^ 53 \<longrightarrow> floatToInt env (NInt i) = i)"

lemma toFloat_exact: "\<bar>i\<bar> < 2 ^ 53 \<Longrightarrow> toFloat i = NInt i"
  by (auto simp: toFloat_def round53_def)

lemma exact_text_export: "exact_text bs \<Longrightarrow> skip_utf8 0 (utf8_decode bs) = Inr bs"
  using skip_utf8_ok [of "utf8_decode bs" 0] by (simp add: exact_text_def text_ok_def)

lemma height_elem: "c \<in> set cs \<Longrightarrow> cj_height (CJArray cs) < Suc d \<Longrightarrow> cj_height c < d"
  using Max_ge [of "insert 0 (set (map cj_height cs))" "cj_height c"] by auto

lemma height_field: "f \<in> set fs \<Longrightarrow> cj_height (CJObject fs) < Suc d \<Longrightarrow> cj_height (snd f) < d"
  using Max_ge [of "insert 0 (set (map (cj_height \<circ> snd) fs))" "cj_height (snd f)"] by auto

lemma mapM_pure:
  "list_all2 (\<lambda>x y. f x w = (Inr y, w)) xs ys \<Longrightarrow> mapM xs f w = (Inr ys, w)"
  by (induction rule: list_all2_induct) (auto simp: andThen_def)

lemma export_shows:
  assumes "exact_env env"
  shows "shows_cj h v c \<Longrightarrow> exact c \<Longrightarrow> cj_height c < d \<Longrightarrow> exportJSON env d v h = (Inr c, h)"
proof (induction c arbitrary: v d)
  case (CJArray cs)
  then obtain d' where d: "d = Suc d'" by (cases d) auto
  from CJArray.prems(1) obtain a vs where v: "v = VRef a" "kind (objs h a) = OArray vs" "list_all2 (shows_cj h) vs cs"
    by (auto elim: shows_cj_cases)
  have "list_all2 (\<lambda>v c. exportJSON env d' v h = (Inr c, h)) vs cs"
    using v(3) by (rule list.rel_mono_strong) (use CJArray height_elem d in \<open>auto simp: list_all_iff\<close>)
  then show ?case using v d by (simp add: andThen_def mapM_pure)
next
  case (CJInt i)
  then show ?case using assms by (cases d) (auto simp: exact_env_def toFloat_exact is_integral_def elim: shows_cj_cases)
next
  case (CJString bs)
  then show ?case by (cases d) (auto simp: SKIP_SKJSON_createCJString_def exact_text_export elim: shows_cj_cases)
next
  case (CJFloat f)
  then show ?case by (cases d) (auto elim: shows_cj_cases)
next
  case (CJObject fs)
  then show ?case by (cases d) (auto elim: shows_cj_cases)
qed (case_tac d; auto elim: shows_cj_cases)+

text \<open>
  C18: a Skip value that JavaScript can hold exactly comes back unchanged: importing it and exporting
  the result, with a stack deeper than the nesting of its arrays, gives the same value again.
\<close>

theorem export_import_roundtrip:
  assumes "exact_env env" and "exact c" and "cj_height c < d"
  shows "fst (andThen (\<lambda>h. importJSON env d c False h) (exportJSON env d) h) = Inr c"
proof -
  obtain v h' where v: "interpretPointer c h = (Inr v, h')" "shows_cj h' v c" using interpret_shows by blast
  from export_shows [OF assms(1) v(2) assms(2,3)] show ?thesis
    by (simp add: importJSON_def andThen_def v(1))
qed

definition identity_env :: json_env where
  "identity_env = \<lparr>floatToInt = (\<lambda>n. case n of NInt i \<Rightarrow> i | _ \<Rightarrow> 0), addressOf = (\<lambda>_. 0)\<rparr>"

lemma exact_identity_env: "exact_env identity_env"
  by (simp add: exact_env_def identity_env_def)

definition empty_heap :: heap where
  "empty_heap = \<lparr>objs = (\<lambda>_. \<lparr>kind = OArray [], tagged = False, frozen = False, extensible = True\<rparr>), nextObj = 0\<rparr>"

theorem export_import_roundtrip_witness:
  "fst (andThen (\<lambda>h. importJSON identity_env 5 (CJArray [CJInt 1, CJArray [CJBool True], CJObject [([0x61], CJNull)]]) False h)
     (exportJSON identity_env 5) empty_heap) = Inr (CJArray [CJInt 1, CJArray [CJBool True], CJObject [([0x61], CJNull)]])"
  by (rule export_import_roundtrip [OF exact_identity_env]) simp_all

section \<open>Copies\<close>

text \<open>A structure of ordinary arrays and objects that denotes a Skip value.\<close>

inductive plain_cj :: "'a heap_scheme \<Rightarrow> jval \<Rightarrow> cjson \<Rightarrow> bool" for h where
  "plain_cj h VNull CJNull"
| "plain_cj h (VBool b) (CJBool b)"
| "plain_cj h (VNum (toFloat i)) (CJInt i)"
| "plain_cj h (VNum f) (CJFloat f)"
| "plain_cj h (VStr (utf8_decode bs)) (CJString bs)"
| "a < nextObj h \<Longrightarrow> kind (objs h a) = OArray vs \<Longrightarrow> list_all2 (plain_cj h) vs cs \<Longrightarrow> plain_cj h (VRef a) (CJArray cs)"
| "a < nextObj h \<Longrightarrow> kind (objs h a) = OPlain ObjectClass ps \<Longrightarrow> mset gs = mset fs
   \<Longrightarrow> list_all2 (\<lambda>p g. fst p = utf8_decode (fst g) \<and> plain_cj h (snd p) (snd g)) ps gs \<Longrightarrow> plain_cj h (VRef a) (CJObject fs)"

inductive_cases plain_cj_cases:
  "plain_cj h v CJNull" "plain_cj h v (CJBool b)" "plain_cj h v (CJInt i)" "plain_cj h v (CJFloat f)"
  "plain_cj h v (CJString bs)" "plain_cj h v (CJArray cs)" "plain_cj h v (CJObject fs)"

lemma plain_cj_grows: "plain_cj h v c \<Longrightarrow> grows h h' \<Longrightarrow> plain_cj h' v c"
proof (induction rule: plain_cj.induct)
  case (6 a vs cs)
  then show ?case by (intro plain_cj.intros(6)) (auto simp: grows_def elim: list_all2_mono)
next
  case (7 a ps gs fs)
  then show ?case by (intro plain_cj.intros(7) [of a h' ps gs]) (auto simp: grows_def elim: list_all2_mono)
qed (auto intro: plain_cj.intros)

text \<open>
  Skip values all of whose parts JavaScript can hold: as \<open>exact\<close>, also below objects, and the field
  names are exact text, not empty, sorted, distinct, and none of those the proxies reserve.
\<close>

fun exact_deep :: "cjson \<Rightarrow> bool" where
  "exact_deep (CJInt i) = (\<bar>i\<bar> < 2 ^ 53)"
| "exact_deep (CJFloat f) = (\<not> is_integral f)"
| "exact_deep (CJString bs) = exact_text bs"
| "exact_deep (CJArray cs) = list_all exact_deep cs"
| "exact_deep (CJObject fs) = (sorted (map fst fs) \<and> distinct (map fst fs)
     \<and> list_all (\<lambda>f. exact_text (fst f) \<and> utf8_decode (fst f) \<noteq> [] \<and> \<not> reserved (utf8_decode (fst f)) \<and> exact_deep (snd f)) fs)"
| "exact_deep _ = True"

lemma addEntries_run:
  "acc h = (Inr fs0, h) \<Longrightarrow> list_all2 (\<lambda>e g. snd e h = (Inr (snd g), h) \<and> skip_utf8 0 (fst e) = Inr (fst g)) es gs
   \<Longrightarrow> addEntries acc es h = (Inr (fs0 @ gs), h)"
proof (induction acc es arbitrary: fs0 gs rule: addEntries.induct)
  case (2 acc k m es)
  then obtain b c gs' where gs: "gs = (b, c) # gs'" "m h = (Inr c, h)" "skip_utf8 0 k = Inr b"
    "list_all2 (\<lambda>e g. snd e h = (Inr (snd g), h) \<and> skip_utf8 0 (fst e) = Inr (fst g)) es gs'"
    by (auto simp: list_all2_Cons1)
  have "andThen acc (\<lambda>fs. andThen m (\<lambda>c. lift (SKIP_SKJSON_addToCJObject fs k c))) h = (Inr (fs0 @ [(b, c)]), h)"
    using "2.prems"(1) gs by (simp add: andThen_def SKIP_SKJSON_addToCJObject_def)
  from "2.IH" [OF this gs(4)] gs(1) show ?case by simp
qed simp

lemma sort_fields:
  assumes "mset gs = mset fs" and "sorted (map fst fs)" and "distinct (map fst fs)"
  shows "sort_key fst gs = fs" and "distinct (map fst gs)"
proof -
  have m: "mset (map fst gs) = mset (map fst fs)" using assms(1) by (metis mset_map)
  show d: "distinct (map fst gs)" using assms(3) m by (metis mset_eq_imp_distinct_iff)
  have s: "set (sort_key fst gs) = set fs" using assms(1) by (metis set_mset_mset set_sort)
  have "mset (map fst (sort_key fst gs)) = mset (map fst gs)" by (metis mset_map mset_sort)
  with d have "distinct (map fst (sort_key fst gs))" by (metis mset_eq_imp_distinct_iff)
  moreover have "inj_on fst (set fs)" using assms(3) by (simp add: distinct_map)
  ultimately show "sort_key fst gs = fs"
    using assms(2,3) s by (intro map_sorted_distinct_set_unique [of fst]) simp_all
qed

lemma export_plain:
  assumes "exact_env env"
  shows "plain_cj h v c \<Longrightarrow> exact_deep c \<Longrightarrow> cj_height c < d \<Longrightarrow> exportJSON env d v h = (Inr c, h)"
proof (induction c arbitrary: v d)
  case (CJArray cs)
  then obtain d' where d: "d = Suc d'" by (cases d) auto
  from CJArray.prems(1) obtain a vs where v: "v = VRef a" "kind (objs h a) = OArray vs" "list_all2 (plain_cj h) vs cs"
    by (auto elim: plain_cj_cases)
  have "list_all2 (\<lambda>v c. exportJSON env d' v h = (Inr c, h)) vs cs"
    using v(3) by (rule list.rel_mono_strong) (use CJArray height_elem d in \<open>auto simp: list_all_iff\<close>)
  then show ?case using v d by (simp add: andThen_def mapM_pure)
next
  case (CJObject fs)
  then obtain d' where d: "d = Suc d'" by (cases d) auto
  from CJObject.prems(1) obtain a ps gs where v: "v = VRef a" "kind (objs h a) = OPlain ObjectClass ps" "mset gs = mset fs"
    and ps: "list_all2 (\<lambda>p g. fst p = utf8_decode (fst g) \<and> plain_cj h (snd p) (snd g)) ps gs"
    by (auto elim: plain_cj_cases)
  from v(3) have set: "set gs = set fs" by (metis set_mset_mset)
  have "list_all2 (\<lambda>p g. exportJSON env d' (snd p) h = (Inr (snd g), h) \<and> skip_utf8 0 (fst p) = Inr (fst g)) ps gs"
    using ps
  proof (rule list.rel_mono_strong)
    fix p g assume "p \<in> set ps" "g \<in> set gs" and pg: "fst p = utf8_decode (fst g) \<and> plain_cj h (snd p) (snd g)"
    then have g: "g \<in> set fs" using set by simp
    then have "exact_text (fst g)" "exact_deep (snd g)" using CJObject.prems(2) by (auto simp: list_all_iff)
    moreover have "cj_height (snd g) < d'" using height_field [OF g] CJObject.prems(3) d by simp
    moreover have "snd g \<in> Basic_BNFs.snds g" by (cases g) simp
    ultimately show "exportJSON env d' (snd p) h = (Inr (snd g), h) \<and> skip_utf8 0 (fst p) = Inr (fst g)"
      using CJObject.IH [OF g] pg by (simp add: exact_text_export)
  qed
  then have "list_all2 (\<lambda>e g. snd e h = (Inr (snd g), h) \<and> skip_utf8 0 (fst e) = Inr (fst g))
      (map (\<lambda>(k, v). (k, exportJSON env d' v)) ps) gs"
    by (simp add: list_all2_map1 split_def)
  from addEntries_run [of "ret []" h "[]", OF _ this]
  have "addEntries (ret []) (map (\<lambda>(k, v). (k, exportJSON env d' v)) ps) h = (Inr gs, h)" by simp
  moreover have "SKIP_SKJSON_endCJObject gs = Inr (CJObject fs)"
    using sort_fields [OF v(3)] CJObject.prems(2) by (simp add: SKIP_SKJSON_endCJObject_def)
  ultimately show ?case using v(1,2) d by (simp add: andThen_def)
next
  case (CJInt i)
  then show ?case using assms by (cases d) (auto simp: exact_env_def toFloat_exact is_integral_def elim: plain_cj_cases)
next
  case (CJString bs)
  then show ?case by (cases d) (auto simp: SKIP_SKJSON_createCJString_def exact_text_export elim: plain_cj_cases)
next
  case (CJFloat f)
  then show ?case by (cases d) (auto elim: plain_cj_cases)
qed (case_tac d; auto elim: plain_cj_cases)+

lemma mapM_map: "mapM (map g xs) f = mapM xs (\<lambda>x. f (g x))"
  by (induction xs) simp_all

lemma mapM_rel2:
  assumes "preorder_rel G" and "\<And>w w' c y. R w c y \<Longrightarrow> G w w' \<Longrightarrow> R w' c y" and "length xs = length cs"
    and "\<And>x c w. (x, c) \<in> set (zip xs cs) \<Longrightarrow> G w0 w \<Longrightarrow> \<exists>y w'. f x w = (Inr y, w') \<and> G w w' \<and> R w' c y"
  shows "\<exists>ys w'. mapM xs f w0 = (Inr ys, w') \<and> G w0 w' \<and> list_all2 (R w') cs ys"
proof -
  have "\<exists>ys w'. mapM (zip xs cs) (\<lambda>z. f (fst z)) w0 = (Inr ys, w') \<and> G w0 w' \<and> list_all2 (\<lambda>z. R w' (snd z)) (zip xs cs) ys"
    by (rule mapM_rel [OF assms(1)]) (use assms(2,4) in \<open>auto\<close>)
  moreover have "mapM (zip xs cs) (\<lambda>z. f (fst z)) = mapM xs f"
    using mapM_map [of fst "zip xs cs" f] assms(3) by simp
  moreover have "list_all2 (\<lambda>z. R w' (snd z)) (zip xs cs) ys \<Longrightarrow> list_all2 (R w') cs ys" for w' ys
    using list_all2_map1 [of "R w'" snd "zip xs cs" ys] assms(3) by simp
  ultimately show ?thesis by auto
qed

lemma objectFields_loop_all:
  "list_all (\<lambda>n. n \<noteq> []) names \<Longrightarrow> distinct names \<Longrightarrow> set names \<inter> fst ` set m = {} \<Longrightarrow>
   objectFields_loop (map Some names) i m = m @ zip names [i..<i + length names]"
proof (induction names arbitrary: i m)
  case (Cons n names)
  have "objectFields_loop (map Some names) (i + 1) (m @ [(n, i)]) = (m @ [(n, i)]) @ zip names [i + 1..<i + 1 + length names]"
    by (rule Cons.IH) (use Cons.prems in auto)
  moreover have "[i..<i + length (n # names)] = i # [i + 1..<i + 1 + length names]"
    by (subst upt_conv_Cons) simp_all
  ultimately show ?case using Cons.prems by (simp add: amap_set_new del: upt_Suc)
qed simp

definition field_names :: "(bytes \<times> cjson) list \<Rightarrow> jsstring list" where
  "field_names fs = map (\<lambda>f. utf8_decode (fst f)) fs"

lemma objectFields_all:
  assumes "exact_deep (CJObject fs)"
  shows "objectFields (CJObject fs) = zip (field_names fs) [0..<length fs]" and "distinct (field_names fs)"
proof -
  have names: "map (SKIP_SKJSON_fieldAt (CJObject fs)) [0..<SKIP_SKJSON_objectSize (CJObject fs)] = map Some (field_names fs)"
    by (rule nth_equalityI) (simp_all add: SKIP_SKJSON_fieldAt_def SKIP_SKJSON_objectSize_def field_names_def)
  have inj: "inj_on utf8_decode (set (map fst fs))"
  proof (rule inj_onI)
    fix x y assume xy: "x \<in> set (map fst fs)" "y \<in> set (map fst fs)" "utf8_decode x = utf8_decode y"
    have "utf8_encode (utf8_decode b) = b" if "b \<in> set (map fst fs)" for b
    proof -
      from that obtain f where "f \<in> set fs" "b = fst f" by auto
      moreover from assms have "\<forall>f \<in> set fs. exact_text (fst f)" by (simp add: list_all_iff)
      ultimately show ?thesis by (simp add: exact_text_def)
    qed
    from this [OF xy(1)] this [OF xy(2)] show "x = y" unfolding xy(3) by simp
  qed
  have "field_names fs = map utf8_decode (map fst fs)" by (simp add: field_names_def)
  moreover have "distinct (map utf8_decode (map fst fs))" using inj assms by (subst distinct_map) simp
  ultimately show d: "distinct (field_names fs)" by metis
  have "list_all (\<lambda>n. n \<noteq> []) (field_names fs)" using assms by (auto simp: field_names_def list_all_iff)
  from objectFields_loop_all [OF this d, of "[]" 0] show "objectFields (CJObject fs) = zip (field_names fs) [0..<length fs]"
    unfolding objectFields_def names by (simp add: field_names_def)
qed

lemma fromEntries_perm: "distinct (map fst kvs) \<Longrightarrow> mset (fromEntries kvs) = mset kvs"
proof -
  assume d: "distinct (map fst kvs)"
  have "distinct (map fst (m @ kvs)) \<Longrightarrow> foldl (\<lambda>m (k, v). amap_set k v m) m kvs = m @ kvs" for m :: "(jsstring \<times> 'a) list"
  proof (induction kvs arbitrary: m)
    case (Cons kv kvs)
    then have "foldl (\<lambda>m (k, v). amap_set k v m) (m @ [kv]) kvs = (m @ [kv]) @ kvs" by (intro Cons.IH) auto
    moreover have "amap_set (fst kv) (snd kv) m = m @ [kv]" using Cons.prems by (intro amap_set_new [of "fst kv" m "snd kv", simplified]) auto
    ultimately show ?case by (simp add: split_def)
  qed simp
  from this [of "[]"] d show ?thesis by (simp add: fromEntries_def own_order_def union_code multiset_partition [symmetric])
qed


lemma reactive_get_field:
  assumes "exact_deep (CJObject fs)" and "i < length fs"
  shows "reactive_get env (CJObject fs) (PStr (utf8_decode (fst (fs ! i)))) = interpretPointer (snd (fs ! i))"
proof -
  let ?k = "utf8_decode (fst (fs ! i))"
  have "fs ! i \<in> set fs" using assms(2) by simp
  with assms(1) have "\<not> reserved ?k" by (auto simp: list_all_iff)
  moreover have "map_of (objectFields (CJObject fs)) ?k = Some i"
    using map_of_zip_nth [of "field_names fs" "[0..<length fs]" i] objectFields_all [OF assms(1)] assms(2)
    by (simp add: field_names_def)
  ultimately show ?thesis using assms(2)
    by (auto simp: reactive_get_def reserved_def oh_get_def getFieldAt_def SKIP_SKJSON_get_def interpretOptPointer_def
        simp del: js_simps)
qed

lemma clone_shows:
  "shows_cj h v c \<Longrightarrow> exact_deep c \<Longrightarrow> cj_height c < d \<Longrightarrow>
   \<exists>v' h'. clone env d v h = (Inr v', h') \<and> grows h h' \<and> plain_cj h' v' c"
proof (induction c arbitrary: v h d)
  case (CJArray cs)
  then obtain d' where d: "d = Suc d'" by (cases d) auto
  from CJArray.prems(1) obtain a vs where v: "v = VRef a" "kind (objs h a) = OArray vs" "list_all2 (shows_cj h) vs cs"
    by (auto elim: shows_cj_cases)
  have "\<exists>us h'. mapM vs (clone env d') h = (Inr us, h') \<and> grows h h' \<and> list_all2 (\<lambda>c u. plain_cj h' u c) cs us"
  proof (rule mapM_rel2 [OF grows_pre])
    show "length vs = length cs" using v(3) by (rule list_all2_lengthD)
    fix x c and k :: "'a heap_scheme" assume xc: "(x, c) \<in> set (zip vs cs)" and k: "grows h k"
    then have "c \<in> set cs" "shows_cj h x c" using v(3) by (auto simp: list_all2_iff dest: set_zip_rightD)
    then show "\<exists>u h'. clone env d' x k = (Inr u, h') \<and> grows k h' \<and> plain_cj h' u c"
      using CJArray.IH [of c k x d'] CJArray.prems(2,3) shows_cj_grows [OF _ k] height_elem d by (auto simp: list_all_iff)
  qed (rule plain_cj_grows)
  then obtain us h1 where us: "mapM vs (clone env d') h = (Inr us, h1)" "grows h h1" "list_all2 (\<lambda>c u. plain_cj h1 u c) cs us" by blast
  let ?h = "h1\<lparr>objs := (objs h1)(nextObj h1 := \<lparr>kind = OArray us, tagged = False, frozen = False, extensible = True\<rparr>), nextObj := Suc (nextObj h1)\<rparr>"
  have "list_all2 (\<lambda>u c. plain_cj h1 u c) us cs" using us(3) by (simp add: list_all2_conv_all_nth)
  then have "list_all2 (plain_cj ?h) us cs" by (rule list_all2_mono) (erule plain_cj_grows, rule grows_newObj)
  then have "plain_cj ?h (VRef (nextObj h1)) (CJArray cs)" by (intro plain_cj.intros(6)) simp_all
  with us(1) grows_trans [OF us(2) grows_newObj] v d show ?case by (simp add: andThen_def newObj_run)
next
  case (CJObject fs)
  then obtain d' where d: "d = Suc d'" by (cases d) auto
  from CJObject.prems(1) obtain a where v: "v = VRef a" "kind (objs h a) = OProxy (CJObject fs)" by (auto elim: shows_cj_cases)
  let ?R = "\<lambda>h' f p. fst p = utf8_decode (fst f) \<and> plain_cj h' (snd p) (snd f)"
  let ?f = "\<lambda>k. andThen (reactive_get env (CJObject fs) (PStr k)) (\<lambda>v. andThen (clone env d' v) (\<lambda>v. ret (k, v)))"
  have "\<exists>kvs h'. mapM (field_names fs) ?f h = (Inr kvs, h') \<and> grows h h' \<and> list_all2 (?R h') fs kvs"
  proof (rule mapM_rel2 [OF grows_pre])
    show "length (field_names fs) = length fs" by (simp add: field_names_def)
    fix x f and k :: "'a heap_scheme" assume "(x, f) \<in> set (zip (field_names fs) fs)" and k: "grows h k"
    then obtain i where i: "i < length fs" "x = utf8_decode (fst (fs ! i))" "f = fs ! i"
      by (auto simp: in_set_zip field_names_def)
    obtain u k1 where u: "interpretPointer (snd f) k = (Inr u, k1)" "grows k k1" "shows_cj k1 u (snd f)"
      using interpret_shows by blast
    have f: "f \<in> set fs" using i by simp
    then have "exact_deep (snd f)" "cj_height (snd f) < d'"
      using CJObject.prems(2,3) d height_field [OF f] by (auto simp: list_all_iff)
    moreover have "snd f \<in> Basic_BNFs.snds f" by (cases f) simp
    ultimately obtain u' k2 where u': "clone env d' u k1 = (Inr u', k2)" "grows k1 k2" "plain_cj k2 u' (snd f)"
      using CJObject.IH [OF f _ u(3)] by blast
    have "reactive_get env (CJObject fs) (PStr x) k = (Inr u, k1)"
      unfolding i(2) reactive_get_field [OF CJObject.prems(2) i(1)] using u(1) i(3) by simp
    then have "?f x k = (Inr (x, u'), k2)" using u'(1) by (simp add: andThen_def)
    with grows_trans [OF u(2) u'(2)] u'(3) i show "\<exists>y w'. ?f x k = (Inr y, w') \<and> grows k w' \<and> ?R w' f y" by auto
  qed (use plain_cj_grows in blast)
  then obtain kvs h1 where kvs: "mapM (field_names fs) ?f h = (Inr kvs, h1)" "grows h h1" "list_all2 (?R h1) fs kvs" by blast
  have keys: "oh_keys (CJObject fs) = field_names fs"
    by (simp add: oh_keys_def objectFields_all [OF CJObject.prems(2)] field_names_def)
  have "map fst kvs = field_names fs" unfolding field_names_def
    using kvs(3) by (induction rule: list_all2_induct) auto
  then have perm: "mset (fromEntries kvs) = mset kvs"
    using objectFields_all(2) [OF CJObject.prems(2)] by (intro fromEntries_perm) simp
  have "list_all2 (\<lambda>p g. ?R h1 g p) kvs fs" using kvs(3) by (simp add: list_all2_conv_all_nth)
  from list_all2_reorder_left_invariance [OF this perm] obtain gs where
    gs: "list_all2 (\<lambda>p g. ?R h1 g p) (fromEntries kvs) gs" "mset gs = mset fs" by blast
  let ?h = "h1\<lparr>objs := (objs h1)(nextObj h1 := \<lparr>kind = OPlain ObjectClass (fromEntries kvs), tagged = False, frozen = False, extensible = True\<rparr>),
      nextObj := Suc (nextObj h1)\<rparr>"
  have "list_all2 (\<lambda>p g. ?R ?h g p) (fromEntries kvs) gs"
    using gs(1) by (rule list_all2_mono) (use plain_cj_grows [OF _ grows_newObj] in auto)
  then have "plain_cj ?h (VRef (nextObj h1)) (CJObject fs)" using gs(2) by (intro plain_cj.intros(7) [where gs = gs]) simp_all
  with kvs(1) grows_trans [OF kvs(2) grows_newObj] v d keys show ?case by (simp add: andThen_def newObj_run)
qed (case_tac d; auto elim!: shows_cj_cases intro: plain_cj.intros)+

text \<open>
  C19: a deep copy of a Skip value is faithful: importing it with a copy, which replaces every proxy
  by an ordinary object, and exporting the copy gives the same value again, whatever order
  JavaScript gives to the properties of the copies. This is for the values that JavaScript holds exactly in
  an object (\<open>exact_deep\<close>), at any depth below the stack's: integers below \<open>2 ^ 53\<close>, floating point numbers that are not integral, text that is
  well-formed UTF-8, and objects whose fields are sorted and distinct and have names that are neither empty nor
  reserved by the proxies; \<open>empty_name_hides_object\<close> and \<open>reserved_name_loses_value\<close> show what happens to others.
\<close>

theorem copy_roundtrip:
  assumes "exact_env env" and "exact_deep c" and "cj_height c < d"
  shows "fst (andThen (\<lambda>h. importJSON env d c True h) (exportJSON env d) h) = Inr c"
proof -
  obtain v h1 where v: "interpretPointer c h = (Inr v, h1)" "shows_cj h1 v c" using interpret_shows by blast
  obtain v' h2 where v': "clone env d v h1 = (Inr v', h2)" "plain_cj h2 v' c"
    using clone_shows [OF v(2) assms(2,3)] by blast
  have "\<exists>u k. importJSON env d c True h = (Inr u, k) \<and> plain_cj k u c"
  proof (cases "v = VNull")
    case True
    with v(2) have "c = CJNull" by (cases rule: shows_cj.cases) auto
    with True v(1) show ?thesis by (auto simp: importJSON_def intro: plain_cj.intros)
  next
    case False
    with v(1) v' show ?thesis by (simp add: importJSON_def andThen_def)
  qed
  then obtain u k where u: "importJSON env d c True h = (Inr u, k)" "plain_cj k u c" by blast
  have "exportJSON env d u k = (Inr c, k)" by (rule export_plain [OF assms(1) u(2) assms(2,3)])
  with u(1) show ?thesis by (simp add: andThen_def)
qed

definition sample_object :: cjson where
  "sample_object = CJObject [(utf8_encode (js ''10''), CJInt 1), (utf8_encode (js ''9''), CJArray [CJNull])]"

theorem copy_roundtrip_witness:
  "fst (andThen (\<lambda>h. importJSON identity_env 5 sample_object True h) (exportJSON identity_env 5) empty_heap) = Inr sample_object"
proof (rule copy_roundtrip [OF exact_identity_env])
  have t: "text_ok (js ''10'')" "text_ok (js ''9'')" "utf8_encode (js ''10'') = [0x31, 0x30]" "utf8_encode (js ''9'') = [0x39]"
    by (simp_all add: text_eval)
  have "utf8_decode (utf8_encode (js ''10'')) = js ''10''" "utf8_decode (utf8_encode (js ''9'')) = js ''9''"
    using utf8_roundtrip t(1,2) by blast+
  then have "exact_text (utf8_encode (js ''10''))" "exact_text (utf8_encode (js ''9''))"
    "utf8_decode (utf8_encode (js ''10'')) \<noteq> []" "utf8_decode (utf8_encode (js ''9'')) \<noteq> []"
    "\<not> reserved (utf8_decode (utf8_encode (js ''10'')))" "\<not> reserved (utf8_decode (utf8_encode (js ''9'')))"
    using t(1,2) by (simp_all add: exact_text_def reserved_def)
  then show "exact_deep sample_object" by (simp add: sample_object_def t(3,4) del: js_simps)
qed (simp add: sample_object_def)

section \<open>Names the proxies cannot show\<close>

lemma utf8_decode_Nil [simp]: "utf8_decode [] = []"
  by (simp add: utf8_decode_def utf8_decode_cps_def strip_bom_def string_of_cps_def)

text \<open>
  A field with an empty name hides the whole object: the scan of the fields stops at the first
  empty name, and as the fields are sorted that is the first field, so the object shows no key,
  and a copy of it is the empty object.
\<close>

theorem empty_name_hides_object:
  "oh_keys (CJObject (([], c) # fs)) = [] \<and>
   fst (andThen (\<lambda>h. importJSON env 2 (CJObject (([], c) # fs)) True h) (exportJSON env 1) h) = Inr (CJObject [])"
proof -
  have "SKIP_SKJSON_fieldAt (CJObject (([], c) # fs)) 0 = Some []" by (simp add: SKIP_SKJSON_fieldAt_def)
  then have f: "objectFields (CJObject (([], c) # fs)) = []"
    by (simp add: objectFields_def SKIP_SKJSON_objectSize_def upt_conv_Cons del: upt_Suc)
  then show ?thesis
    by (simp add: oh_keys_def importJSON_def andThen_def newObj_run numeral_2_eq_2 fromEntries_def own_order_def
        SKIP_SKJSON_endCJObject_def)
qed

lemma reactive_get_keys:
  "reactive_get env c (PStr (js ''keys'')) = newObj \<lparr>kind = OPlain (OtherClass 0) [], tagged = False, frozen = False, extensible = True\<rparr>"
  by (simp add: reactive_get_def)

lemma fromEntries_keys: "fromEntries [(js ''keys'', v)] = [(js ''keys'', v)]"
  by (simp add: fromEntries_def own_order_def is_index_def is_digit_def)

lemma fromEntries_Nil [simp]: "fromEntries [] = []"
  by (simp add: fromEntries_def own_order_def)

text \<open>
  A field named \<open>keys\<close> loses its value in a copy: the proxy answers its own iterator for that
  name, and the copy of the iterator is an empty object.
\<close>

theorem reserved_name_loses_value:
  "fst (andThen (\<lambda>h. importJSON env 3 (CJObject [(utf8_encode (js ''keys''), c)]) True h) (exportJSON env 2) h)
     = Inr (CJObject [(utf8_encode (js ''keys''), CJObject [])])"
proof -
  let ?k = "js ''keys''"
  have ok: "text_ok ?k" by (simp add: text_eval)
  then have "utf8_decode (utf8_encode ?k) = ?k" by (rule utf8_roundtrip)
  then have f: "objectFields (CJObject [(utf8_encode ?k, c)]) = [(?k, 0)]"
    by (simp add: objectFields_def SKIP_SKJSON_objectSize_def SKIP_SKJSON_fieldAt_def)
  moreover have "skip_utf8 0 ?k = Inr (utf8_encode ?k)" using ok by (intro skip_utf8_ok) (simp add: text_ok_def)
  ultimately show ?thesis
    by (simp add: reactive_get_keys fromEntries_keys oh_keys_def importJSON_def andThen_def newObj_run numeral_3_eq_3 numeral_2_eq_2
        SKIP_SKJSON_endCJObject_def SKIP_SKJSON_addToCJObject_def del: js_simps)
qed

section \<open>Results of an allocation scope\<close>

text \<open>
  The clone of a result before its allocation scope is closed never happens: \<open>cloneIfProxy\<close>
  returns every value as it is, object proxies included, because the symbol it asks for is not the
  one the proxies answer to.
\<close>

theorem cloneIfProxy_never_clones: "cloneIfProxy env d v h = (Inr v, h)"
proof -
  have "\<not> has_prop a (PSym Std_isObjectProxy) h" for a
    by (simp add: has_prop_def reactive_has_def split: okind.split)
  then show ?thesis by (simp add: cloneIfProxy_def split: jval.split)
qed

text \<open>An imported array is managed but not frozen.\<close>

lemma imported_array_not_frozen:
  "\<exists>a h'. interpretPointer (CJArray cs) h = (Inr (VRef a), h') \<and> isSkManaged a h' \<and> \<not> frozen (objs h' a)"
proof -
  have "\<exists>vs h'. mapM cs interpretPointer h = (Inr vs, h') \<and> grows h h' \<and> list_all2 (\<lambda>c v. shows_cj h' v c) cs vs"
    by (rule mapM_rel [OF grows_pre]) (use shows_cj_grows interpret_shows in blast)+
  then show ?thesis by (auto simp: andThen_def newObj_run isSkManaged_def)
qed

end
