(* ===== verification/Handles.thy ===== *)
theory Handles
  imports Prelude
begin

text \<open>
  The table through which JavaScript objects are known to the compiled runtime by number: the class
  \<open>Handles\<close> of \<open>skipruntime-ts/core/src/index.ts\<close>, and the class \<open>Stack\<close> of contexts beside it.

  The locale \<open>handle_table\<close> states what the users of the table rely on, with what follows for
  sequences of registrations and releases; it is interpreted on the model of the class.
\<close>

section \<open>The table\<close>

text \<open>An array element is missing (undefined), released (null) or an object.\<close>

datatype 'h slot = Absent | Released | Live 'h

record 'h Handles =
  nextID :: nat
  objects :: "nat \<Rightarrow> 'h slot"
  freeIDs :: "nat list"

definition newHandles :: "'h Handles" where
  "newHandles = \<lparr>nextID = 1, objects = (\<lambda>_. Absent), freeIDs = []\<rparr>"

text \<open>\<open>freeIDs\<close> is an array used as a stack; its last element is popped.\<close>

definition register :: "'h \<Rightarrow> 'h Handles \<Rightarrow> nat \<times> 'h Handles" where
  "register v t =
     (if freeIDs t = [] then (nextID t, t\<lparr>nextID := nextID t + 1, objects := (objects t)(nextID t := Live v)\<rparr>)
      else (last (freeIDs t), t\<lparr>freeIDs := butlast (freeIDs t), objects := (objects t)(last (freeIDs t) := Live v)\<rparr>))"

definition handle_get :: "nat \<Rightarrow> 'h Handles \<Rightarrow> 'h slot" where
  "handle_get i t = objects t i"

definition deleteHandle :: "nat \<Rightarrow> 'h Handles \<Rightarrow> 'h slot \<times> 'h Handles" where
  "deleteHandle i t = (handle_get i t, t\<lparr>objects := (objects t)(i := Released), freeIDs := freeIDs t @ [i]\<rparr>)"

definition live :: "'h Handles \<Rightarrow> nat \<Rightarrow> 'h option" where
  "live t i = (case handle_get i t of Live v \<Rightarrow> Some v | _ \<Rightarrow> None)"

section \<open>The contract\<close>

locale handle_table =
  fixes good :: "'t \<Rightarrow> bool"
    and add :: "'h \<Rightarrow> 't \<Rightarrow> nat \<times> 't"
    and holds :: "'t \<Rightarrow> nat \<Rightarrow> 'h option"
    and release :: "nat \<Rightarrow> 't \<Rightarrow> 't"
  assumes add_good: "good t \<Longrightarrow> good (snd (add v t))"
    and add_fresh: "good t \<Longrightarrow> holds t (fst (add v t)) = None"
    and add_holds: "good t \<Longrightarrow> holds (snd (add v t)) = (holds t)(fst (add v t) \<mapsto> v)"
    and release_good: "good t \<Longrightarrow> holds t i \<noteq> None \<Longrightarrow> good (release i t)"
    and release_holds: "good t \<Longrightarrow> holds t i \<noteq> None \<Longrightarrow> holds (release i t) = (holds t)(i := None)"
begin

text \<open>Registering a list of objects: the handles they get and the table after it.\<close>

primrec add_all :: "'h list \<Rightarrow> 't \<Rightarrow> nat list \<times> 't" where
  "add_all [] t = ([], t)"
| "add_all (v # vs) t = (let (i, t1) = add v t; (is, t2) = add_all vs t1 in (i # is, t2))"

lemma add_all_spec:
  "good t \<Longrightarrow> add_all vs t = (is, t') \<Longrightarrow>
   good t' \<and> distinct is \<and> length is = length vs \<and> (\<forall>i \<in> set is. holds t i = None)
   \<and> (\<forall>j. holds t' j = (if j \<in> set is then map_of (zip is vs) j else holds t j))"
proof (induction vs arbitrary: t "is")
  case (Cons v vs)
  obtain i t1 where a: "add v t = (i, t1)" by (cases "add v t")
  obtain js where js: "add_all vs t1 = (js, t')" "is = i # js"
    using Cons.prems(2) a by (auto split: prod.splits)
  have t1: "good t1" "holds t i = None" "holds t1 = (holds t)(i \<mapsto> v)"
    using add_good [OF Cons.prems(1), of v] add_fresh [OF Cons.prems(1), of v] add_holds [OF Cons.prems(1), of v] a by simp_all
  from Cons.IH [OF t1(1) js(1)] t1 js(2) show ?case by (auto split: if_splits)
qed simp

lemma release_other: "good t \<Longrightarrow> holds t i \<noteq> None \<Longrightarrow> i \<noteq> j \<Longrightarrow> holds (release i t) j = holds t j"
  by (simp add: release_holds)

lemma release_all:
  "good t \<Longrightarrow> distinct is \<Longrightarrow> \<forall>i \<in> set is. holds t i \<noteq> None \<Longrightarrow>
   good (fold release is t) \<and> (\<forall>j. holds (fold release is t) j = (if j \<in> set is then None else holds t j))"
proof (induction "is" arbitrary: t)
  case (Cons i "is")
  from Cons.prems have i: "holds t i \<noteq> None" "i \<notin> set is" by auto
  have "good (release i t)" "holds (release i t) = (holds t)(i := None)"
    using release_good release_holds Cons.prems(1) i(1) by blast+
  moreover from this i Cons.prems(3) have "\<forall>k \<in> set is. holds (release i t) k \<noteq> None"
    by (metis fun_upd_other list.set_intros(2))
  ultimately have "good (fold release is (release i t))"
    "\<forall>j. holds (fold release is (release i t)) j = (if j \<in> set is then None else ((holds t)(i := None)) j)"
    using Cons.IH [of "release i t"] Cons.prems(2) by auto
  then show ?case by auto
qed simp

text \<open>Registering objects and releasing their handles, in any order, gives the table back.\<close>

lemma add_release_all:
  assumes "good t" and "add_all vs t = (is, t')" and "set ks = set is" and "distinct ks"
  shows "good (fold release ks t') \<and> holds (fold release ks t') = holds t"
proof -
  note s = add_all_spec [OF assms(1,2)]
  have "\<forall>i \<in> set ks. holds t' i \<noteq> None"
    using s assms(3) by (metis map_of_zip_is_None)
  with s assms(3,4) release_all [of t' ks] show ?thesis by (auto simp: fun_eq_iff)
qed

end

section \<open>The class keeps the contract\<close>

text \<open>Every number below the next one, except 0, is live or on the free list, which has no duplicates.\<close>

definition handles_inv :: "'h Handles \<Rightarrow> bool" where
  "handles_inv t \<longleftrightarrow> 1 \<le> nextID t \<and> distinct (freeIDs t)
     \<and> (\<forall>i. objects t i = Released \<longleftrightarrow> i \<in> set (freeIDs t))
     \<and> (\<forall>i. objects t i = Absent \<longleftrightarrow> i = 0 \<or> nextID t \<le> i)"

lemma register_inv: "handles_inv t \<Longrightarrow> handles_inv (snd (register v t))"
proof -
  assume t: "handles_inv t"
  show ?thesis
  proof (cases "freeIDs t" rule: rev_cases)
    case Nil
    with t show ?thesis by (auto simp: handles_inv_def register_def)
  next
    case (snoc xs x)
    then have "x \<in> set (freeIDs t)" by simp
    with t have "objects t x = Released" by (simp add: handles_inv_def)
    then have "x \<noteq> 0 \<and> x < nextID t" using t unfolding handles_inv_def by (metis leI slot.distinct(1))
    with t snoc show ?thesis by (auto simp: handles_inv_def register_def)
  qed
qed

lemma register_free: "handles_inv t \<Longrightarrow> live t (fst (register v t)) = None"
proof -
  assume t: "handles_inv t"
  have "objects t (fst (register v t)) \<in> {Absent, Released}"
    using t last_in_set [of "freeIDs t"] by (auto simp: register_def handles_inv_def)
  then show ?thesis by (auto simp: live_def handle_get_def)
qed

lemma register_live: "live (snd (register v t)) = (live t)(fst (register v t) \<mapsto> v)"
  by (auto simp: register_def live_def handle_get_def)

lemma deleteHandle_inv: "handles_inv t \<Longrightarrow> live t i \<noteq> None \<Longrightarrow> handles_inv (snd (deleteHandle i t))"
proof -
  assume t: "handles_inv t" and "live t i \<noteq> None"
  then have "objects t i \<noteq> Released" "objects t i \<noteq> Absent" by (auto simp: live_def handle_get_def split: slot.splits)
  moreover from t have eq: "objects t j = Released \<longleftrightarrow> j \<in> set (freeIDs t)" "objects t j = Absent \<longleftrightarrow> j = 0 \<or> nextID t \<le> j"
    "1 \<le> nextID t" "distinct (freeIDs t)" for j by (simp_all add: handles_inv_def)
  ultimately have "i \<notin> set (freeIDs t)" "i \<noteq> 0" "\<not> nextID t \<le> i" by simp_all
  with eq show ?thesis by (auto simp: handles_inv_def deleteHandle_def)
qed

lemma deleteHandle_live: "live (snd (deleteHandle i t)) = (live t)(i := None)"
  by (auto simp: deleteHandle_def live_def handle_get_def)

interpretation table: handle_table handles_inv register live "\<lambda>i t. snd (deleteHandle i t)"
  by unfold_locales (simp_all add: register_inv register_free register_live deleteHandle_inv deleteHandle_live)

text \<open>Registering several objects, as the code does one call after the other.\<close>

primrec registerAll :: "'h list \<Rightarrow> 'h Handles \<Rightarrow> nat list \<times> 'h Handles" where
  "registerAll [] t = ([], t)"
| "registerAll (v # vs) t = (let (i, t1) = register v t; (is, t2) = registerAll vs t1 in (i # is, t2))"

lemma registerAll_add_all: "registerAll vs t = table.add_all vs t"
  by (induction vs arbitrary: t) simp_all

text \<open>
  C8: handles are never shared: registering any list of objects in a table that keeps its invariant
  gives pairwise different handles, none of them in use before, through which exactly these objects
  are found and every object registered before is still found; and releasing these handles, in any
  order, gives every handle the meaning it had before.
\<close>

theorem handles_are_unique:
  assumes "handles_inv t" and "registerAll vs t = (is, t')"
  shows "handles_inv t' \<and> distinct is \<and> length is = length vs \<and> (\<forall>i \<in> set is. live t i = None)
    \<and> (\<forall>j. live t' j = (if j \<in> set is then map_of (zip is vs) j else live t j))
    \<and> (\<forall>ks. distinct ks \<and> set ks = set is \<longrightarrow>
         live (fold (\<lambda>i t. snd (deleteHandle i t)) ks t') = live t)"
  using table.add_all_spec [OF assms(1)] table.add_release_all [OF assms(1)] assms(2)
  unfolding registerAll_add_all by blast

theorem handles_are_unique_witness:
  "registerAll [7, 8, 9 :: nat] newHandles = ([1, 2, 3], snd (registerAll [7, 8, 9] newHandles))
   \<and> distinct [1, 2, 3 :: nat] \<and> live (snd (registerAll [7, 8, 9 :: nat] newHandles)) 2 = Some 8"
proof -
  let ?t = "snd (registerAll [7, 8, 9 :: nat] newHandles)"
  have r: "registerAll [7, 8, 9 :: nat] newHandles = ([1, 2, 3], ?t)"
    by (simp add: newHandles_def register_def)
  have "handles_inv (newHandles :: nat Handles)" by (auto simp: handles_inv_def newHandles_def)
  from handles_are_unique [OF this r] r show ?thesis by simp
qed

text \<open>
  Releasing a handle twice puts its number on the free list twice, and the next two objects
  registered share it.
\<close>

lemma double_release_shares:
  "fst (register v (snd (register u (snd (deleteHandle i (snd (deleteHandle i t)))))))
     = fst (register u (snd (deleteHandle i (snd (deleteHandle i t)))))"
  by (simp add: register_def deleteHandle_def butlast_append)

section \<open>The stack of contexts\<close>

definition stack_push :: "'c \<Rightarrow> 'c list \<Rightarrow> 'c list" where
  "stack_push p s = s @ [p]"

definition stack_get :: "'c list \<Rightarrow> 'c option" where
  "stack_get s = (if length s = 0 then None else Some (last s))"

definition stack_pop :: "'c list \<Rightarrow> 'c list" where
  "stack_pop s = butlast s"

lemma stack_push_pop: "stack_pop (stack_push p s) = s" "stack_get (stack_push p s) = Some p"
  by (simp_all add: stack_pop_def stack_push_def stack_get_def)

end
