(* ===== verification/Core_Runtime.thy ===== *)
theory Core_Runtime
  imports Skjson Handles
begin

text \<open>
  The running service: \<open>ToBinding\<close>, \<open>ServiceInstance\<close>, \<open>CollectionWriter\<close> and \<open>ServiceDefinition\<close> of
  \<open>skipruntime-ts/core/src/index.ts\<close>.

  The reactive engine is compiled Skip code, reached through the interface \<open>FromBinding\<close>: its functions
  are the fields of a record that the definitions take as an argument. They act on the whole state,
  because the engine calls back into JavaScript. Application code (suppliers, resources) is an
  argument in the same way. An \<open>async\<close> method is split at its \<open>await\<close>: the part before it returns the
  promises it waits for or the error its promise is rejected with, and the part after it takes the
  outcome; anything may happen in between. Names from \<open>crypto.randomUUID()\<close> are arguments.
\<close>

section \<open>State\<close>

text \<open>\<open>HandlerInfo\<close>: the class of the object, the stub it carries if it is native, its name and parameters.\<close>

record operator =
  op_object :: nat
  op_class :: nat
  op_native :: "jsstring option"
  op_name :: jsstring
  op_params :: "jval list"

datatype hobj = HOperator operator | HService nat | HNotifier nat | HResource nat | HError js_error
  | HPromise nat | HChanges nat

text \<open>\<open>AnySkipService\<close>: the initial data of the inputs, the resource classes, the external services.\<close>

record service =
  s_inputs :: "(jsstring \<times> jval) list"
  s_resources :: "(jsstring \<times> nat) list"
  s_externalServices :: "(jsstring \<times> nat) list option"

record ServiceDefinition =
  sd_service :: service
  sd_externals :: "(jsstring \<times> nat) list"

record CollectionWriter =
  cw_collection :: jsstring
  cw_fork :: "jsstring option"

text \<open>A call \<open>supplier.subscribe(...)\<close> that waits in a timer.\<close>

record SupplierCall =
  sc_supplier :: nat
  sc_instance :: jsstring
  sc_resource :: jsstring
  sc_params :: jval
  sc_writer :: nat

record ServiceInstance =
  si_fork :: "jsstring option"
  si_definition :: nat

record 'n core = heap +
  handles :: "hobj Handles"
  ctxStack :: "nat list"
  forkName :: "jsstring option"
  initializing :: bool
  changes :: "nat option"
  definitions :: "nat \<Rightarrow> ServiceDefinition"
  nextDefinition :: nat
  writers :: "nat \<Rightarrow> CollectionWriter"
  nextWriter :: nat
  deferred :: "(nat \<times> SupplierCall) list"
  nextPromise :: nat
  engine :: 'n

text \<open>The engine's functions. Handles of errors are 0 when there is no error.\<close>

record 'w FromBinding =
  b_json :: json_env
  b_depth :: nat
  b_refs :: nat
  b_openScope :: "('w, nat) js"
  b_closeScope :: "nat \<Rightarrow> ('w, unit) js"
  b_fork :: "jsstring \<Rightarrow> ('w, nat) js"
  b_merge :: "cjson \<Rightarrow> ('w, nat) js"
  b_abortFork :: "('w, nat) js"
  b_forkExists :: "jsstring \<Rightarrow> ('w, bool) js"
  b_createService :: "nat \<Rightarrow> ('w, nat) js"
  b_initService :: "nat \<Rightarrow> ('w, cjson) js"
  b_closeService :: "('w, int) js"
  b_createResource :: "jsstring \<Rightarrow> jsstring \<Rightarrow> cjson \<Rightarrow> ('w, cjson) js"
  b_getAll :: "jsstring \<Rightarrow> cjson \<Rightarrow> ('w, cjson) js"
  b_getForKey :: "jsstring \<Rightarrow> cjson \<Rightarrow> cjson \<Rightarrow> ('w, cjson) js"
  b_closeResource :: "jsstring \<Rightarrow> ('w, nat) js"
  b_createNotifier :: "nat \<Rightarrow> ('w, nat) js"
  b_subscribe :: "jsstring \<Rightarrow> nat \<Rightarrow> jsstring option \<Rightarrow> ('w, int) js"
  b_unsubscribe :: "jsstring \<Rightarrow> ('w, nat) js"
  b_update :: "jsstring \<Rightarrow> cjson \<Rightarrow> ('w, cjson) js"
  b_reload :: "nat \<Rightarrow> ('w, cjson) js"
  b_closeResourceStreams :: "cjson \<Rightarrow> ('w, nat) js"
  b_writerUpdate :: "jsstring \<Rightarrow> cjson \<Rightarrow> bool \<Rightarrow> ('w, cjson) js"
  b_next :: "nat \<Rightarrow> ('w, cjson option) js"
  b_createMapper :: "nat \<Rightarrow> ('w, nat) js"
  b_createLazyCompute :: "nat \<Rightarrow> ('w, nat) js"
  b_createReducer :: "nat \<Rightarrow> ('w, nat) js"
  b_createResourceObject :: "nat \<Rightarrow> ('w, nat) js"
  b_collGetArray :: "jsstring \<Rightarrow> cjson \<Rightarrow> ('w, cjson) js"
  b_collMap :: "jsstring \<Rightarrow> nat \<Rightarrow> ('w, jsstring) js"
  b_collMapReduce :: "jsstring \<Rightarrow> nat \<Rightarrow> nat \<Rightarrow> ('w, jsstring) js"
  b_collNativeMapReduce :: "jsstring \<Rightarrow> nat \<Rightarrow> jsstring \<Rightarrow> ('w, jsstring) js"
  b_collReduce :: "jsstring \<Rightarrow> nat \<Rightarrow> ('w, jsstring) js"
  b_collNativeReduce :: "jsstring \<Rightarrow> jsstring \<Rightarrow> ('w, jsstring) js"
  b_collSlice :: "jsstring \<Rightarrow> cjson \<Rightarrow> ('w, jsstring) js"
  b_collTake :: "jsstring \<Rightarrow> int \<Rightarrow> ('w, jsstring) js"
  b_collMerge :: "jsstring \<Rightarrow> cjson \<Rightarrow> ('w, jsstring) js"
  b_collSize :: "jsstring \<Rightarrow> ('w, int) js"
  b_lazyGetArray :: "jsstring \<Rightarrow> cjson \<Rightarrow> ('w, cjson) js"
  b_createLazyCollection :: "nat \<Rightarrow> ('w, jsstring) js"
  b_jsonExtract :: "cjson \<Rightarrow> jsstring \<Rightarrow> ('w, cjson) js"
  b_useExternalResource :: "jsstring \<Rightarrow> jsstring \<Rightarrow> cjson \<Rightarrow> ('w, jsstring) js"

section \<open>Handles, forks and scopes\<close>

definition registerH :: "hobj \<Rightarrow> ('n core, nat) js" where
  "registerH v = reads (\<lambda>w. case register v (handles w) of (i, t) \<Rightarrow>
     andThen (modifies (\<lambda>w. w\<lparr>handles := t\<rparr>)) (\<lambda>_. ret i))"

definition deleteH :: "nat \<Rightarrow> ('n core, hobj slot) js" where
  "deleteH i = reads (\<lambda>w. case deleteHandle i (handles w) of (s, t) \<Rightarrow>
     andThen (modifies (\<lambda>w. w\<lparr>handles := t\<rparr>)) (\<lambda>_. ret s))"

text \<open>\<open>throw this.handles.deleteHandle(i)\<close>; a slot that holds no error is thrown as \<open>undefined\<close> would be.\<close>

definition throwDeleted :: "nat \<Rightarrow> ('n core, 'a) js" where
  "throwDeleted i = andThen (deleteH i) (\<lambda>s. throw (case s of Live (HError e) \<Rightarrow> e | _ \<Rightarrow> JSError []))"

definition throwIfError :: "nat \<Rightarrow> ('n core, unit) js" where
  "throwIfError i = (if i \<noteq> 0 then throwDeleted i else skip)"

definition setFork :: "jsstring option \<Rightarrow> ('n core, unit) js" where
  "setFork name = modifies (\<lambda>w. w\<lparr>forkName := name\<rparr>)"

definition runWithGC :: "('n core) FromBinding \<Rightarrow> ('n core, 'a) js \<Rightarrow> ('n core, 'a) js" where
  "runWithGC b fn =
     andThen (b_openScope b) (\<lambda>p.
     tryCatch (andThen fn (\<lambda>r. andThen (b_closeScope b p) (\<lambda>_. ret r)))
              (\<lambda>e. andThen (b_closeScope b p) (\<lambda>_. throw e)))"

definition SkipRuntime_pushContext :: "nat \<Rightarrow> ('n core, unit) js" where
  "SkipRuntime_pushContext p = modifies (\<lambda>w. w\<lparr>ctxStack := stack_push p (ctxStack w)\<rparr>)"

definition SkipRuntime_popContext :: "('n core, unit) js" where
  "SkipRuntime_popContext = modifies (\<lambda>w. w\<lparr>ctxStack := stack_pop (ctxStack w)\<rparr>)"

definition SkipRuntime_getContext :: "'n core \<Rightarrow> nat option" where
  "SkipRuntime_getContext w = stack_get (ctxStack w)"

definition SkipRuntime_getFork :: "'n core \<Rightarrow> jsstring option" where
  "SkipRuntime_getFork w = forkName w"

definition SkipRuntime_getChangeManager :: "'n core \<Rightarrow> nat" where
  "SkipRuntime_getChangeManager w = (case changes w of Some i \<Rightarrow> i | None \<Rightarrow> 0)"

definition SkipRuntime_getErrorHdl :: "(nat \<Rightarrow> ('n core, js_error) js) \<Rightarrow> nat \<Rightarrow> ('n core, nat) js" where
  "SkipRuntime_getErrorHdl getError exn = andThen (getError exn) (\<lambda>e. registerH (HError e))"

definition needGC :: "'n core \<Rightarrow> bool" where
  "needGC w \<longleftrightarrow> SkipRuntime_getContext w = None"

definition export :: "('n core) FromBinding \<Rightarrow> jval \<Rightarrow> ('n core, cjson) js" where
  "export b v = exportJSON (b_json b) (b_depth b) v"

definition importCopy :: "('n core) FromBinding \<Rightarrow> cjson \<Rightarrow> ('n core, jval) js" where
  "importCopy b c = importJSON (b_json b) (b_depth b) c True"

text \<open>\<open>exportJSON\<close> of an array of strings\<close>

definition exportStrings :: "('n core) FromBinding \<Rightarrow> jsstring list \<Rightarrow> ('n core, cjson) js" where
  "exportStrings b ss =
     andThen (newObj \<lparr>kind = OArray (map VStr ss), tagged = False, frozen = False, extensible = True\<rparr>) (export b)"

definition tb_fork :: "('n core) FromBinding \<Rightarrow> jsstring \<Rightarrow> ('n core, unit) js" where
  "tb_fork b name = andThen (runWithGC b (b_fork b name)) throwIfError"

definition tb_merge :: "('n core) FromBinding \<Rightarrow> jsstring list \<Rightarrow> ('n core, unit) js" where
  "tb_merge b ignore = andThen (runWithGC b (andThen (exportStrings b ignore) (b_merge b))) throwIfError"

definition tb_abortFork :: "('n core) FromBinding \<Rightarrow> ('n core, unit) js" where
  "tb_abortFork b = andThen (runWithGC b (b_abortFork b)) throwIfError"

text \<open>A number that crossed as JSON, read as a handle.\<close>

definition handleOf :: "jval \<Rightarrow> nat" where
  "handleOf v = (case v of VNum (NInt i) \<Rightarrow> nat i | _ \<Rightarrow> 0)"

definition promiseOf :: "hobj slot \<Rightarrow> nat option" where
  "promiseOf s = (case s of Live (HPromise p) \<Rightarrow> Some p | _ \<Rightarrow> None)"

text \<open>
  The promises behind an array of handles, each released; any other result is the handle of an error.
  What is awaited is the list of these promises.
\<close>

definition takePromises :: "jval list \<Rightarrow> ('n core, nat list) js" where
  "takePromises vs = andThen (mapM vs (\<lambda>v. deleteH (handleOf v))) (\<lambda>ss. ret (List.map_filter promiseOf ss))"

definition awaitResult :: "jval \<Rightarrow> ('n core, nat list) js" where
  "awaitResult r = reads (\<lambda>w.
     case r of
       VRef a \<Rightarrow> (case kind (objs w a) of OArray vs \<Rightarrow> takePromises vs | _ \<Rightarrow> throwDeleted (handleOf r))
     | _ \<Rightarrow> throwDeleted (handleOf r))"

definition runAsync :: "('n core) FromBinding \<Rightarrow> ('n core, cjson) js \<Rightarrow> ('n core, nat list) js" where
  "runAsync b fn = andThen (runWithGC b (andThen fn (importCopy b))) awaitResult"

text \<open>What an \<open>async\<close> call gives its caller: an exception is the outcome of the promise, not of the call.\<close>

definition attempt :: "('w, 'a) js \<Rightarrow> ('w, js_error + 'a) js" where
  "attempt m w = (case m w of (r, w') \<Rightarrow> (Inr r, w'))"

definition truthy :: "jsstring option \<Rightarrow> bool" where
  "truthy s \<longleftrightarrow> (case s of Some n \<Rightarrow> n \<noteq> [] | None \<Rightarrow> False)"

section \<open>Service instances\<close>

definition si_fork_op :: "('n core) FromBinding \<Rightarrow> ServiceInstance \<Rightarrow> jsstring \<Rightarrow> ('n core, ServiceInstance) js" where
  "si_fork_op b si name =
     (if truthy (si_fork si) then throw (JSError (js ''Unable to fork '' @ the (si_fork si) @ js ''.''))
      else andThen (setFork (si_fork si)) (\<lambda>_. andThen (tb_fork b name) (\<lambda>_. ret (si\<lparr>si_fork := Some name\<rparr>))))"

definition si_merge :: "('n core) FromBinding \<Rightarrow> ServiceInstance \<Rightarrow> jsstring list \<Rightarrow> ('n core, unit) js" where
  "si_merge b si ignore =
     (if \<not> truthy (si_fork si) then throw (err ''Unable to merge fork on main.'')
      else andThen (setFork (si_fork si)) (\<lambda>_. tb_merge b ignore))"

definition si_abortFork :: "('n core) FromBinding \<Rightarrow> ServiceInstance \<Rightarrow> ('n core, unit) js" where
  "si_abortFork b si =
     (if \<not> truthy (si_fork si) then throw (err ''Unable to abord fork on main.'')
      else andThen (setFork (si_fork si)) (\<lambda>_. tb_abortFork b))"

definition update_inner :: "('n core) FromBinding \<Rightarrow> ServiceInstance \<Rightarrow> jsstring \<Rightarrow> jval \<Rightarrow> ('n core, nat list) js" where
  "update_inner b si collection entries =
     andThen (setFork (si_fork si)) (\<lambda>_.
     andThen (runWithGC b (andThen (andThen (export b entries) (b_update b collection)) (importCopy b))) awaitResult)"

definition update_begin ::
  "('n core) FromBinding \<Rightarrow> ServiceInstance \<Rightarrow> jsstring \<Rightarrow> jsstring \<Rightarrow> jval
     \<Rightarrow> ('n core, ServiceInstance \<times> (js_error + nat list)) js" where
  "update_begin b si uuid collection entries =
     andThen (setFork (si_fork si)) (\<lambda>_.
     andThen (si_fork_op b si uuid) (\<lambda>fork.
     andThen (attempt (update_inner b fork collection entries)) (\<lambda>r. ret (fork, r))))"

text \<open>After the promises of the update have settled, with success or with an error.\<close>

definition update_resume ::
  "('n core) FromBinding \<Rightarrow> ServiceInstance \<Rightarrow> js_error + unit \<Rightarrow> ('n core, unit) js" where
  "update_resume b fork outcome =
     tryCatch (andThen (lift outcome) (\<lambda>_. si_merge b fork []))
              (\<lambda>ex. andThen (si_abortFork b fork) (\<lambda>_. throw ex))"

definition instantiateResource ::
  "('n core) FromBinding \<Rightarrow> ServiceInstance \<Rightarrow> jsstring \<Rightarrow> jsstring \<Rightarrow> jval \<Rightarrow> ('n core, nat list) js" where
  "instantiateResource b si identifier resource params =
     andThen (setFork (si_fork si)) (\<lambda>_.
     runAsync b (andThen (export b params) (b_createResource b identifier resource)))"

definition closeResourceInstance :: "('n core) FromBinding \<Rightarrow> ServiceInstance \<Rightarrow> jsstring \<Rightarrow> ('n core, unit) js" where
  "closeResourceInstance b si identifier =
     andThen (setFork (si_fork si)) (\<lambda>_. andThen (runWithGC b (b_closeResource b identifier)) throwIfError)"

text \<open>The part of \<open>getAll\<close> and \<open>getArray\<close> after the resource is there: \<open>read\<close> is the engine's answer.\<close>

definition readResource ::
  "('n core) FromBinding \<Rightarrow> ServiceInstance \<Rightarrow> jsstring \<Rightarrow> ('n core, cjson) js \<Rightarrow> ('n core, jval) js" where
  "readResource b si uuid read =
     tryFinally
       (andThen (setFork (si_fork si)) (\<lambda>_.
        andThen (runWithGC b (andThen read (importCopy b))) (\<lambda>result.
        case result of VNum _ \<Rightarrow> throwDeleted (handleOf result) | _ \<Rightarrow> ret result)))
       (closeResourceInstance b si uuid)"

definition getAll_resume ::
  "('n core) FromBinding \<Rightarrow> ServiceInstance \<Rightarrow> jsstring \<Rightarrow> jsstring \<Rightarrow> jval \<Rightarrow> ('n core, jval) js" where
  "getAll_resume b si uuid resource params =
     readResource b si uuid (andThen (export b params) (b_getAll b resource))"

definition getArray_resume ::
  "('n core) FromBinding \<Rightarrow> ServiceInstance \<Rightarrow> jsstring \<Rightarrow> jsstring \<Rightarrow> jval \<Rightarrow> jval \<Rightarrow> ('n core, jval) js" where
  "getArray_resume b si uuid resource key params =
     readResource b si uuid (andThen (export b params) (\<lambda>p. andThen (export b key) (b_getForKey b resource p)))"

definition si_subscribe ::
  "('n core) FromBinding \<Rightarrow> ServiceInstance \<Rightarrow> jsstring \<Rightarrow> nat \<Rightarrow> jsstring option \<Rightarrow> ('n core, jsstring) js" where
  "si_subscribe b si instanceId notifier watermark =
     andThen (setFork (si_fork si)) (\<lambda>_.
     andThen (runWithGC b (andThen (andThen (registerH (HNotifier notifier)) (b_createNotifier b)) (\<lambda>n.
        b_subscribe b instanceId n watermark))) (\<lambda>session.
     if session = - 1 then throw (JSError (js ''Unknown resource instance '' @ [0x27] @ instanceId @ [0x27]))
     else if session = - 2 then throw (JSError (js ''Resource instance '' @ [0x27] @ instanceId @ [0x27] @ js '' cannot be subscribed twice.''))
     else if session < 0 then throwDeleted (nat (- session))
     else ret instanceId))"

definition si_unsubscribe :: "('n core) FromBinding \<Rightarrow> ServiceInstance \<Rightarrow> jsstring \<Rightarrow> ('n core, unit) js" where
  "si_unsubscribe b si i =
     andThen (setFork (si_fork si)) (\<lambda>_. andThen (runWithGC b (b_unsubscribe b i)) throwIfError)"

text \<open>\<open>close\<close>: the promise of the shutdown, or a rejected promise with the error behind the negated handle.\<close>

definition si_close :: "('n core) FromBinding \<Rightarrow> ServiceInstance \<Rightarrow> ('n core, hobj slot) js" where
  "si_close b si =
     andThen (setFork (si_fork si)) (\<lambda>_.
     andThen (runWithGC b (b_closeService b)) (\<lambda>result.
     deleteH (nat (if 0 \<le> result then result else - result))))"

definition closeResourceStreams :: "('n core) FromBinding \<Rightarrow> ServiceInstance \<Rightarrow> jsstring list \<Rightarrow> ('n core, unit) js" where
  "closeResourceStreams b si streams =
     andThen (setFork (si_fork si)) (\<lambda>_.
     andThen (runWithGC b (andThen (exportStrings b streams) (b_closeResourceStreams b))) throwIfError)"

section \<open>Reloading\<close>

definition newDefinition :: "ServiceDefinition \<Rightarrow> ('n core, nat) js" where
  "newDefinition x = reads (\<lambda>w. andThen (modifies (\<lambda>w. w\<lparr>definitions := (definitions w)(nextDefinition w := x),
      nextDefinition := nextDefinition w + 1\<rparr>)) (\<lambda>_. ret (nextDefinition w)))"

definition derive :: "nat \<Rightarrow> service \<Rightarrow> ('n core, nat) js" where
  "derive sd svc = reads (\<lambda>w. newDefinition \<lparr>sd_service = svc, sd_externals = sd_externals (definitions w sd)\<rparr>)"

text \<open>The result of the engine's reload is an array of promise handles and an array of stream names.\<close>

definition reloadResult :: "jval \<Rightarrow> ('n core, nat list \<times> jsstring list) js" where
  "reloadResult r = reads (\<lambda>w.
     case r of
       VRef a \<Rightarrow> (case kind (objs w a) of
           OArray (VRef p # VRef q # _) \<Rightarrow>
             (case (kind (objs w p), kind (objs w q)) of
                (OArray ps, OArray qs) \<Rightarrow>
                  andThen (takePromises ps) (\<lambda>prs. ret (prs, List.map_filter (\<lambda>v. case v of VStr s \<Rightarrow> Some s | _ \<Rightarrow> None) qs))
              | _ \<Rightarrow> throw (err ''handles.map is not a function''))
         | OArray _ \<Rightarrow> throw (err ''handles.map is not a function'')
         | _ \<Rightarrow> throwDeleted (handleOf r))
     | _ \<Rightarrow> throwDeleted (handleOf r))"

definition si_reload_inner :: "('n core) FromBinding \<Rightarrow> ServiceInstance \<Rightarrow> nat \<Rightarrow> nat \<Rightarrow> ('n core, nat list \<times> jsstring list) js" where
  "si_reload_inner b si sd mgr =
     andThen (setFork (si_fork si)) (\<lambda>_.
     andThen (runWithGC b (
        andThen (registerH (HChanges mgr)) (\<lambda>h.
        andThen (modifies (\<lambda>w. w\<lparr>changes := Some h\<rparr>)) (\<lambda>_.
        andThen (registerH (HService sd)) (\<lambda>hdl.
        andThen (b_createService b hdl) (\<lambda>sk.
        andThen (b_reload b sk) (\<lambda>res. reads (\<lambda>w.
        andThen (deleteH (case changes w of Some h \<Rightarrow> h | None \<Rightarrow> 0)) (\<lambda>_.
        andThen (modifies (\<lambda>w. w\<lparr>changes := None\<rparr>)) (\<lambda>_. importCopy b res))))))))))
      reloadResult)"

definition reload_begin ::
  "('n core) FromBinding \<Rightarrow> ServiceInstance \<Rightarrow> jsstring \<Rightarrow> service \<Rightarrow> nat
     \<Rightarrow> ('n core, ServiceInstance \<times> nat \<times> (js_error + nat list \<times> jsstring list)) js" where
  "reload_begin b si uuid svc mgr =
     (if truthy (si_fork si) then throw (err ''Reload cannot be called in transaction.'')
      else
        andThen (derive (si_definition si) svc) (\<lambda>sd.
        andThen (setFork (si_fork si)) (\<lambda>_.
        andThen (si_fork_op b si uuid) (\<lambda>fork.
        andThen (attempt (si_reload_inner b fork sd mgr)) (\<lambda>r. ret (fork, sd, r))))))"

text \<open>After the reload's promises: the fork is merged and the streams closed; once merged it is not aborted.\<close>

definition reload_resume ::
  "('n core) FromBinding \<Rightarrow> ServiceInstance \<Rightarrow> ServiceInstance \<Rightarrow> nat \<Rightarrow> js_error + jsstring list
     \<Rightarrow> ('n core, ServiceInstance) js" where
  "reload_resume b si fork sd outcome =
     andThen (tryCatch (andThen (lift outcome) (\<lambda>streams. andThen (si_merge b fork streams) (\<lambda>_. ret streams)))
                       (\<lambda>ex. andThen (si_abortFork b fork) (\<lambda>_. throw ex))) (\<lambda>streams.
     andThen (closeResourceStreams b si streams) (\<lambda>_. ret (si\<lparr>si_definition := sd\<rparr>)))"

section \<open>Starting a service\<close>

definition SkipRuntime_deleteService :: "nat \<Rightarrow> ('n core, unit) js" where
  "SkipRuntime_deleteService h = reads (\<lambda>w. if initializing w then skip else andThen (deleteH h) (\<lambda>_. skip))"

definition initService_begin ::
  "('n core) FromBinding \<Rightarrow> jsstring \<Rightarrow> service \<Rightarrow> ('n core, nat \<times> nat \<times> (js_error + nat list)) js" where
  "initService_begin b uuid svc =
     andThen (setFork None) (\<lambda>_.
     andThen (tb_fork b uuid) (\<lambda>_.
     andThen (newDefinition \<lparr>sd_service = svc, sd_externals = []\<rparr>) (\<lambda>sd.
     andThen (registerH (HService sd)) (\<lambda>hdl.
     andThen (modifies (\<lambda>w. w\<lparr>initializing := True\<rparr>)) (\<lambda>_.
     andThen (setFork (Some uuid)) (\<lambda>_.
     andThen (attempt (runAsync b (andThen (b_createService b hdl) (b_initService b)))) (\<lambda>r. ret (sd, hdl, r))))))))"

definition initService_resume ::
  "('n core) FromBinding \<Rightarrow> jsstring \<Rightarrow> nat \<Rightarrow> nat \<Rightarrow> js_error + unit \<Rightarrow> ('n core, ServiceInstance) js" where
  "initService_resume b uuid sd hdl outcome =
     tryFinally
       (tryCatch
          (andThen (lift outcome) (\<lambda>_.
           andThen (setFork (Some uuid)) (\<lambda>_.
           andThen (tb_merge b []) (\<lambda>_. ret \<lparr>si_fork = None, si_definition = sd\<rparr>))))
          (\<lambda>ex. andThen (setFork (Some uuid)) (\<lambda>_.
            andThen (tb_abortFork b) (\<lambda>_. andThen (deleteH hdl) (\<lambda>_. throw ex)))))
       (modifies (\<lambda>w. w\<lparr>initializing := False\<rparr>))"

section \<open>Collection writers\<close>

definition newWriter :: "jsstring \<Rightarrow> jsstring option \<Rightarrow> ('n core, nat) js" where
  "newWriter coll f = reads (\<lambda>w. andThen (modifies (\<lambda>w. w\<lparr>writers := (writers w)(nextWriter w :=
      \<lparr>cw_collection = coll, cw_fork = f\<rparr>), nextWriter := nextWriter w + 1\<rparr>)) (\<lambda>_. ret (nextWriter w)))"

text \<open>The fork of a writer, forgotten when the engine no longer has it.\<close>

definition getForkName :: "('n core) FromBinding \<Rightarrow> nat \<Rightarrow> ('n core, jsstring option) js" where
  "getForkName b x = reads (\<lambda>w.
     if \<not> truthy (cw_fork (writers w x)) then ret None
     else
       andThen (runWithGC b (b_forkExists b (the (cw_fork (writers w x))))) (\<lambda>ex.
       andThen (if ex then skip else modifies (\<lambda>w. w\<lparr>writers := (writers w)(x := (writers w x)\<lparr>cw_fork := None\<rparr>)\<rparr>)) (\<lambda>_.
       reads (\<lambda>w. ret (cw_fork (writers w x))))))"

definition cw_fork_op :: "('n core) FromBinding \<Rightarrow> nat \<Rightarrow> jsstring \<Rightarrow> ('n core, nat) js" where
  "cw_fork_op b x name = reads (\<lambda>w.
     andThen (setFork (cw_fork (writers w x))) (\<lambda>_.
     andThen (tb_fork b name) (\<lambda>_. newWriter (cw_collection (writers w x)) (Some name))))"

definition cw_merge :: "('n core) FromBinding \<Rightarrow> nat \<Rightarrow> ('n core, unit) js" where
  "cw_merge b x = reads (\<lambda>w.
     if \<not> truthy (cw_fork (writers w x)) then throw (err ''Unable to merge fork on main.'')
     else andThen (setFork (cw_fork (writers w x))) (\<lambda>_. tb_merge b []))"

definition cw_abortFork :: "('n core) FromBinding \<Rightarrow> nat \<Rightarrow> ('n core, unit) js" where
  "cw_abortFork b x = reads (\<lambda>w.
     if \<not> truthy (cw_fork (writers w x)) then throw (err ''Unable to abord fork on main.'')
     else andThen (setFork (cw_fork (writers w x))) (\<lambda>_. tb_abortFork b))"

definition cw_update_inner :: "('n core) FromBinding \<Rightarrow> nat \<Rightarrow> jval \<Rightarrow> bool \<Rightarrow> ('n core, nat list) js" where
  "cw_update_inner b x values isInit = reads (\<lambda>w.
     andThen (setFork (cw_fork (writers w x))) (\<lambda>_. reads (\<lambda>w.
     if \<not> needGC w then throw (err ''CollectionWriter.update cannot be performed.'')
     else runAsync b (andThen (export b values) (\<lambda>c. b_writerUpdate b (cw_collection (writers w x)) c isInit)))))"

definition cw_update_begin ::
  "('n core) FromBinding \<Rightarrow> nat \<Rightarrow> jsstring \<Rightarrow> jval \<Rightarrow> bool \<Rightarrow> ('n core, nat \<times> (js_error + nat list)) js" where
  "cw_update_begin b x uuid values isInit =
     andThen (getForkName b x) (\<lambda>f.
     andThen (setFork f) (\<lambda>_.
     andThen (cw_fork_op b x uuid) (\<lambda>fork.
     andThen (attempt (cw_update_inner b fork values isInit)) (\<lambda>r. ret (fork, r)))))"

definition cw_update_resume :: "('n core) FromBinding \<Rightarrow> nat \<Rightarrow> js_error + unit \<Rightarrow> ('n core, unit) js" where
  "cw_update_resume b fork outcome =
     tryCatch (andThen (lift outcome) (\<lambda>_. cw_merge b fork))
              (\<lambda>ex. andThen (cw_abortFork b fork) (\<lambda>_. throw ex))"

section \<open>Converting JSON leaves the rest of the state alone\<close>

abbreviation same_rest :: "'a \<Rightarrow> 'a heap_scheme \<Rightarrow> bool" where
  "same_rest m h \<equiv> heap.more h = m"

named_theorems rest \<open>computations on the JavaScript heap only\<close>

lemma rest_newObj [rest]: "keeps (same_rest m) (newObj x)"
  by (rule keepsI) (simp add: newObj_run)

lemma rest_interpretPointer [rest]: "keeps (same_rest m) (interpretPointer c)"
  by (induction c) (auto intro!: rest_newObj keeps_andThen keeps_mapM)

lemma rest_reactive_get [rest]: "keeps (same_rest m) (reactive_get env c p)"
  by (auto simp: reactive_get_def oh_get_def getFieldAt_def interpretOptPointer_def
      intro!: rest_newObj rest_interpretPointer split: propkey.split symbol.split option.split)

lemma keeps_okind:
  "(\<And>vs. keeps P (f vs)) \<Longrightarrow> (\<And>c ps. keeps P (g c ps)) \<Longrightarrow> (\<And>c. keeps P (k c)) \<Longrightarrow>
   keeps P (case x of OArray vs \<Rightarrow> f vs | OPlain c ps \<Rightarrow> g c ps | OProxy c \<Rightarrow> k c)"
  by (cases x) simp_all

lemma keeps_pair: "(\<And>x y. keeps P (f x y)) \<Longrightarrow> keeps P (case z of (x, y) \<Rightarrow> f x y)"
  by (cases z) simp

lemma rest_clone [rest]: "keeps (same_rest m) (clone env d v)"
proof (induction d arbitrary: v)
  case (Suc d)
  show ?case
  proof (cases v)
    case (VRef a)
    show ?thesis unfolding VRef clone.simps jval.case
      by (intro keeps_reads_any keeps_okind keeps_andThen keeps_mapM keeps_pair Suc.IH rest_newObj rest_reactive_get keeps_ret)
  qed simp_all
qed simp

lemma rest_addEntries:
  "keeps P acc \<Longrightarrow> (\<And>k m. (k, m) \<in> set es \<Longrightarrow> keeps P m) \<Longrightarrow> keeps P (addEntries acc es)"
proof (induction acc es rule: addEntries.induct)
  case (2 acc k m es)
  have "keeps P (andThen acc (\<lambda>fs. andThen m (\<lambda>c. lift (SKIP_SKJSON_addToCJObject fs k c))))"
    using 2 by (intro keeps_andThen) auto
  with 2 show ?case by auto
qed simp

lemma rest_exportJSON [rest]: "keeps (same_rest m) (exportJSON env d v)"
proof (induction d arbitrary: v)
  case (Suc d)
  show ?case
  proof (cases v)
    case (VRef a)
    show ?thesis unfolding VRef exportJSON.simps jval.case
      by (intro keeps_reads_any keeps_okind keeps_andThen keeps_mapM Suc.IH rest_addEntries keeps_ret keeps_lift)
        (auto intro: Suc.IH)
  qed simp_all
qed simp

lemma rest_importJSON [rest]: "keeps (same_rest m) (importJSON env d c copy)"
  by (auto simp: importJSON_def intro!: keeps_andThen rest_interpretPointer rest_clone)

lemma rest_exportStrings [rest]: "keeps (same_rest m) (exportStrings b ss)"
  by (auto simp: exportStrings_def export_def intro!: keeps_andThen rest_newObj rest_exportJSON)

lemma rest_more:
  assumes "\<And>m. keeps (same_rest m) f" and "f w = (r, w')"
  shows "engine w' = engine w" "forkName w' = forkName w" "handles w' = handles w"
proof -
  have "heap.more w' = heap.more w" using keepsD [OF assms(1), of w "heap.more w"] assms(2) by simp
  then show "engine w' = engine w" "forkName w' = forkName w" "handles w' = handles w"
    by (cases w; cases w'; simp)+
qed

end
