(* ===== verification/Transactions.thy ===== *)
theory Transactions
  imports Core_Runtime
begin

text \<open>
  Updates and the start of a service are transactions on the data of the engine: the contract of the
  engine's forks (\<open>transactional\<close>), what the operations of \<open>Core_Runtime\<close> do under it, and a binding that
  satisfies it.
\<close>

section \<open>Updates are transactions\<close>

text \<open>
  What the code relies on in the engine: scopes open and close without touching the data; a fork
  starts with the data of the current one; an update changes the data of the current fork only.

  A merge replaces the data first and then notifies the subscribers (\<open>mergeForkNoGc\<close> of
  \<open>skiplang/prelude/src/skstore/Context.sk\<close>): it combines the data of the fork with those of the main
  one and ends the fork, or fails before and changes nothing, or fails in a notification when the
  data have been replaced already. Failures are reported by a handle.

  An abort ends the fork; what it runs afterwards may fail, and the abort of a fork that is not there
  does fail (\<open>removeForkNoGc\<close>), which is again reported by a handle.

  \<open>store\<close> is the data of the main fork (\<open>None\<close>) and of every named fork that exists.
\<close>

definition scopes_ok :: "('n core) FromBinding \<Rightarrow> bool" where
  "scopes_ok b \<longleftrightarrow> (\<forall>w. \<exists>p w'. b_openScope b w = (Inr p, w') \<and> engine w' = engine w \<and> forkName w' = forkName w)
     \<and> (\<forall>p w. \<exists>w'. b_closeScope b p w = (Inr (), w') \<and> engine w' = engine w \<and> forkName w' = forkName w \<and> handles w' = handles w)"

definition transactional ::
  "('n core) FromBinding \<Rightarrow> ('n \<Rightarrow> jsstring option \<Rightarrow> 'd option) \<Rightarrow> ('d \<Rightarrow> 'd \<Rightarrow> 'd) \<Rightarrow> bool" where
  "transactional b store mg \<longleftrightarrow> scopes_ok b
     \<and> (\<forall>w n d. store (engine w) (forkName w) = Some d \<and> store (engine w) (Some n) = None \<longrightarrow>
          (\<exists>w'. b_fork b n w = (Inr 0, w') \<and> store (engine w') = (store (engine w))(Some n \<mapsto> d)))
     \<and> (\<forall>w x c r w'. b_update b x c w = (r, w') \<longrightarrow>
          (\<forall>f. f \<noteq> forkName w \<longrightarrow> store (engine w') f = store (engine w) f)
          \<and> (store (engine w) (forkName w) \<noteq> None \<longrightarrow> store (engine w') (forkName w) \<noteq> None))
     \<and> (\<forall>w c n d dm. forkName w = Some n \<and> store (engine w) (Some n) = Some d \<and> store (engine w) None = Some dm \<longrightarrow>
          (\<exists>i w'. b_merge b c w = (Inr i, w') \<and> (store (engine w') = (store (engine w))(Some n := None, None \<mapsto> mg dm d)
             \<or> i \<noteq> 0 \<and> store (engine w') = store (engine w))))
     \<and> (\<forall>w n. forkName w = Some n \<longrightarrow>
          (\<exists>i w'. b_abortFork b w = (Inr i, w') \<and> store (engine w') = (store (engine w))(Some n := None)
             \<and> (store (engine w) (Some n) = None \<longrightarrow> i \<noteq> 0)))"

text \<open>An engine in which the abort of a fork that exists does not fail.\<close>

definition aborts_quietly :: "('n core) FromBinding \<Rightarrow> ('n \<Rightarrow> jsstring option \<Rightarrow> 'd option) \<Rightarrow> bool" where
  "aborts_quietly b store \<longleftrightarrow> (\<forall>w n. forkName w = Some n \<and> store (engine w) (Some n) \<noteq> None \<longrightarrow> fst (b_abortFork b w) = Inr 0)"

lemma runWithGC_run:
  assumes "scopes_ok b"
  obtains w1 r w2 w3 where "engine w1 = engine w" "forkName w1 = forkName w" "m w1 = (r, w2)"
    "runWithGC b m w = (r, w3)" "engine w3 = engine w2" "forkName w3 = forkName w2" "handles w3 = handles w2"
proof -
  from assms obtain p w1 where o: "b_openScope b w = (Inr p, w1)" "engine w1 = engine w" "forkName w1 = forkName w"
    unfolding scopes_ok_def by blast
  obtain r w2 where m: "m w1 = (r, w2)" by (cases "m w1")
  from assms obtain w3 where c: "b_closeScope b p w2 = (Inr (), w3)" "engine w3 = engine w2" "forkName w3 = forkName w2"
    "handles w3 = handles w2" unfolding scopes_ok_def by blast
  have "runWithGC b m w = (r, w3)"
    using o(1) m c(1) by (cases r) (simp_all add: runWithGC_def andThen_def tryCatch_def)
  with o m c that show thesis by blast
qed

lemma deleteH_run: "deleteH i w = (Inr (handle_get i (handles w)), w\<lparr>handles := snd (deleteHandle i (handles w))\<rparr>)"
  by (simp add: deleteH_def deleteHandle_def)

lemma throwDeleted_run:
  "\<exists>e. throwDeleted i w = (Inl e, w\<lparr>handles := snd (deleteHandle i (handles w))\<rparr>)"
  by (auto simp: throwDeleted_def deleteH_run andThen_def)

lemma keeps_engine_await: "keeps (\<lambda>w. engine w = x) (awaitResult r)"
proof -
  have d: "keeps (\<lambda>w. engine w = x) (deleteH i)" for i by (rule keepsI) (simp add: deleteH_run)
  have t: "keeps (\<lambda>w. engine w = x) (throwDeleted i :: ('a core, nat list) js)" for i
    unfolding throwDeleted_def by (intro keeps_andThen d keeps_throw)
  have p: "keeps (\<lambda>w. engine w = x) (takePromises vs)" for vs
    unfolding takePromises_def by (intro keeps_andThen keeps_mapM d keeps_ret)
  show ?thesis unfolding awaitResult_def
    by (intro keeps_reads_any) (auto split: jval.split okind.split intro: t p)
qed


lemma transactional_mergeD:
  assumes "transactional b store mg" "forkName w = Some n" "store (engine w) (Some n) = Some d" "store (engine w) None = Some dm"
  shows "\<exists>i w'. b_merge b c w = (Inr i, w') \<and> (store (engine w') = (store (engine w))(Some n := None, None \<mapsto> mg dm d)
       \<or> i \<noteq> 0 \<and> store (engine w') = store (engine w))"
  using assms unfolding transactional_def by presburger

lemma transactional_abortD:
  assumes "transactional b store mg" "forkName w = Some n"
  obtains i w' where "b_abortFork b w = (Inr i, w')" "store (engine w') = (store (engine w))(Some n := None)"
    "store (engine w) (Some n) = None \<Longrightarrow> i \<noteq> 0"
proof -
  have "\<forall>w n. forkName w = Some n \<longrightarrow> (\<exists>i w'. b_abortFork b w = (Inr i, w')
      \<and> store (engine w') = (store (engine w))(Some n := None) \<and> (store (engine w) (Some n) = None \<longrightarrow> i \<noteq> 0))"
    using assms(1) unfolding transactional_def by (elim conjE)
  with assms(2) that show thesis by blast
qed

lemma transactional_updateD:
  assumes "transactional b store mg" "b_update b x c w = (r, w')"
  shows "f \<noteq> forkName w \<Longrightarrow> store (engine w') f = store (engine w) f"
    "store (engine w) (forkName w) \<noteq> None \<Longrightarrow> store (engine w') (forkName w) \<noteq> None"
  using assms unfolding transactional_def by presburger+

lemma transactional_scopes: "transactional b store mg \<Longrightarrow> scopes_ok b"
  by (simp add: transactional_def)

lemma throwIfError_run: "throwIfError 0 w = (Inr (), w)"
  "i \<noteq> 0 \<Longrightarrow> \<exists>e w'. throwIfError i w = (Inl e, w') \<and> engine w' = engine w"
  using throwDeleted_run [of i w] by (force simp: throwIfError_def)+

lemma setFork_run: "setFork f w = (Inr (), w\<lparr>forkName := f\<rparr>)"
  by (simp add: setFork_def)

lemma tb_fork_run:
  assumes tr: "transactional b store mg"
    and d: "store (engine w) (forkName w) = Some d" "store (engine w) (Some n) = None"
  obtains w' where "tb_fork b n w = (Inr (), w')" "store (engine w') = (store (engine w))(Some n \<mapsto> d)"
proof -
  obtain w1 r w2 w3 where g: "engine w1 = engine w" "forkName w1 = forkName w" "b_fork b n w1 = (r, w2)"
    "runWithGC b (b_fork b n) w = (r, w3)" "engine w3 = engine w2"
    using runWithGC_run [OF transactional_scopes [OF tr]] by metis
  from tr d g(1,2) obtain w2' where "b_fork b n w1 = (Inr 0, w2')" "store (engine w2') = (store (engine w1))(Some n \<mapsto> d)"
    unfolding transactional_def by metis
  with g show thesis by (intro that [of w3]) (auto simp: tb_fork_def throwIfError_run andThen_def)
qed

text \<open>What an abort leaves, whether its handle reports an error or not.\<close>

lemma tb_abortFork_run:
  assumes tr: "transactional b store mg" and f: "forkName w = Some n"
  obtains r w' where "tb_abortFork b w = (r, w')" "store (engine w') = (store (engine w))(Some n := None)"
    "aborts_quietly b store \<Longrightarrow> store (engine w) (Some n) \<noteq> None \<Longrightarrow> r = Inr ()"
    "store (engine w) (Some n) = None \<Longrightarrow> r \<noteq> Inr ()"
proof -
  obtain w1 r w2 w3 where g: "engine w1 = engine w" "forkName w1 = Some n" "b_abortFork b w1 = (r, w2)"
    "runWithGC b (b_abortFork b) w = (r, w3)" "engine w3 = engine w2"
    using runWithGC_run [OF transactional_scopes [OF tr]] f by metis
  obtain i where i: "r = Inr i" "store (engine w2) = (store (engine w))(Some n := None)"
    "store (engine w) (Some n) = None \<Longrightarrow> i \<noteq> 0"
    using transactional_abortD [OF tr g(2)] g(1,3) by (metis Pair_inject)
  have q: "i = 0" if "aborts_quietly b store" "store (engine w) (Some n) \<noteq> None"
  proof -
    have "fst (b_abortFork b w1) = Inr 0" using that g(1,2) unfolding aborts_quietly_def by metis
    with g(3) i(1) show ?thesis by simp
  qed
  show thesis
  proof (cases "i = 0")
    case True
    with g i show thesis by (intro that [of "Inr ()" w3]) (auto simp: tb_abortFork_def throwIfError_run andThen_def)
  next
    case False
    then obtain e w4 where "throwIfError i w3 = (Inl e, w4)" "engine w4 = engine w3" using throwIfError_run(2) by blast
    with g i q False show thesis by (intro that [of "Inl e" w4]) (auto simp: tb_abortFork_def andThen_def)
  qed
qed

text \<open>A merge: whether the data were replaced is not the same as whether it reports an error.\<close>

lemma tb_merge_run:
  assumes tr: "transactional b store mg"
    and d: "forkName w = Some n" "store (engine w) (Some n) = Some d" "store (engine w) None = Some dm"
  obtains r m w' where "tb_merge b ig w = (r, w')"
    "store (engine w') = (if m then (store (engine w))(Some n := None, None \<mapsto> mg dm d) else store (engine w))"
    "r = Inr () \<Longrightarrow> m"
proof -
  obtain w1 r w2 w3 where g: "engine w1 = engine w" "forkName w1 = forkName w"
    "andThen (exportStrings b ig) (b_merge b) w1 = (r, w2)"
    "runWithGC b (andThen (exportStrings b ig) (b_merge b)) w = (r, w3)" "engine w3 = engine w2"
    using runWithGC_run [OF transactional_scopes [OF tr]] by metis
  obtain x w0 where x: "exportStrings b ig w1 = (x, w0)" by (cases "exportStrings b ig w1")
  note e0 = rest_more [OF rest_exportStrings x]
  show thesis
  proof (cases x)
    case (Inl e)
    with x g e0 show thesis by (intro that [of "Inl e" w3 False]) (auto simp: tb_merge_def andThen_def)
  next
    case (Inr c)
    have "forkName w0 = Some n" "store (engine w0) (Some n) = Some d" "store (engine w0) None = Some dm"
      using d g(1,2) e0 by simp_all
    from transactional_mergeD [OF tr this, where c = c] obtain i w' where
      m: "b_merge b c w0 = (Inr i, w')" "store (engine w') = (store (engine w0))(Some n := None, None \<mapsto> mg dm d)
       \<or> i \<noteq> 0 \<and> store (engine w') = store (engine w0)" by blast
    then have r: "r = Inr i" "store (engine w3) = (store (engine w))(Some n := None, None \<mapsto> mg dm d)
       \<or> i \<noteq> 0 \<and> store (engine w3) = store (engine w)" using Inr x g e0 by (auto simp: andThen_def)
    show thesis
    proof (cases "i = 0")
      case True
      with r g show thesis by (intro that [of "Inr ()" w3 True]) (auto simp: tb_merge_def andThen_def throwIfError_run)
    next
      case False
      then obtain e w4 where "throwIfError i w3 = (Inl e, w4)" "engine w4 = engine w3" using throwIfError_run(2) by blast
      with r g show thesis by (auto simp: tb_merge_def andThen_def intro: that [of "Inl e" w4 True] that [of "Inl e" w4 False])
    qed
  qed
qed

lemma update_inner_run:
  assumes tr: "transactional b store mg" and f: "si_fork si = f" and d: "store (engine w) f \<noteq> None"
  obtains r w' where "update_inner b si c es w = (r, w')" "store (engine w') f \<noteq> None"
    "\<And>g. g \<noteq> f \<Longrightarrow> store (engine w') g = store (engine w) g"
proof -
  define m where "m = andThen (andThen (export b es) (b_update b c)) (importCopy b)"
  obtain w1 r w2 w3 where g: "engine w1 = engine w" "forkName w1 = f" "m w1 = (r, w2)"
    "runWithGC b m (w\<lparr>forkName := f\<rparr>) = (r, w3)" "engine w3 = engine w2"
    by (rule runWithGC_run [OF transactional_scopes [OF tr], of "w\<lparr>forkName := f\<rparr>" m]) simp
  have a: "engine (snd (awaitResult v w3)) = engine w3" for v
    by (rule keepsD [OF keeps_engine_await]) simp
  obtain x w0 where x: "export b es w1 = (x, w0)" by (cases "export b es w1")
  note e0 = rest_more [OF rest_exportJSON x [unfolded export_def]]
  have s: "store (engine w2) f \<noteq> None \<and> (\<forall>g. g \<noteq> f \<longrightarrow> store (engine w2) g = store (engine w) g)"
  proof (cases x)
    case (Inl e)
    with x g(1,3) e0 d show ?thesis by (auto simp: m_def andThen_def)
  next
    case (Inr j)
    obtain y wu where u: "b_update b c j w0 = (y, wu)" by (cases "b_update b c j w0")
    have su: "store (engine wu) f \<noteq> None \<and> (\<forall>g. g \<noteq> f \<longrightarrow> store (engine wu) g = store (engine w) g)"
      using transactional_updateD [OF tr u] e0 g(1,2) d by auto
    show ?thesis
    proof (cases y)
      case (Inl e)
      with x Inr u g(3) su show ?thesis by (auto simp: m_def andThen_def)
    next
      case (Inr k)
      then have "importCopy b k wu = (r, w2)" using x \<open>x = Inr j\<close> u g(3) by (simp add: m_def andThen_def)
      from rest_more [OF rest_importJSON this [unfolded importCopy_def]] su show ?thesis by simp
    qed
  qed
  have "update_inner b si c es w = andThen (runWithGC b m) awaitResult (w\<lparr>forkName := f\<rparr>)"
    by (simp add: update_inner_def m_def f setFork_run andThen_def)
  also have "\<dots> = (case r of Inl e \<Rightarrow> (Inl e, w3) | Inr v \<Rightarrow> awaitResult v w3)"
    using g(4) by (simp add: andThen_def split: sum.split)
  finally show thesis using s a g(5)
    by (cases r; cases "awaitResult (projr r) w3") (auto intro!: that, (metis snd_conv)+)
qed


text \<open>
  The end of both: merge, or abort and clean up with \<open>tidy\<close>. \<open>m\<close> says whether the data were merged.
\<close>

lemma settle_run:
  fixes b :: "('n core) FromBinding" and v :: 'v
  assumes tr: "transactional b store mg"
    and d: "store (engine w) (Some n) = Some d" "store (engine w) None = Some dm"
    and tidy: "\<And>u. \<exists>y u'. tidy u = (Inr y, u') \<and> engine u' = engine u \<and> Q u'"
  obtains x m w' where
    "tryCatch (andThen (lift outcome) (\<lambda>_::unit. andThen (setFork (Some n)) (\<lambda>_. andThen (tb_merge b ig) (\<lambda>_. ret v))))
       (\<lambda>ex. andThen (setFork (Some n)) (\<lambda>_. andThen (tb_abortFork b) (\<lambda>_. andThen tidy (\<lambda>_. throw ex)))) w = (x, w')"
    "store (engine w') = (store (engine w))(Some n := None, None \<mapsto> (if m then mg dm d else dm))"
    "\<And>v'. x = Inr v' \<Longrightarrow> m \<and> v' = v"
    "\<And>e. outcome = Inl e \<Longrightarrow> \<not> m \<and> (\<forall>v'. x \<noteq> Inr v') \<and> (aborts_quietly b store \<longrightarrow> x = Inl e)"
    "\<And>e. aborts_quietly b store \<Longrightarrow> \<not> m \<Longrightarrow> Q w'"
proof -
  let ?bad = "\<lambda>ex. andThen (setFork (Some n)) (\<lambda>_. andThen (tb_abortFork b) (\<lambda>_. andThen tidy (\<lambda>_. throw ex :: ('n core, 'v) js)))"
  have bad: "\<exists>e w'. ?bad ex u = (Inl e, w') \<and> store (engine w') = (store (engine u))(Some n := None)
      \<and> (aborts_quietly b store \<longrightarrow> store (engine u) (Some n) \<noteq> None \<longrightarrow> e = ex \<and> Q w')" for ex u
  proof (rule tb_abortFork_run [OF tr, of "u\<lparr>forkName := Some n\<rparr>" n])
    fix r w1 assume r: "tb_abortFork b (u\<lparr>forkName := Some n\<rparr>) = (r, w1)"
      "store (engine w1) = (store (engine (u\<lparr>forkName := Some n\<rparr>)))(Some n := None)"
      "aborts_quietly b store \<Longrightarrow> store (engine (u\<lparr>forkName := Some n\<rparr>)) (Some n) \<noteq> None \<Longrightarrow> r = Inr ()"
    obtain y w2 where "tidy w1 = (Inr y, w2)" "engine w2 = engine w1" "Q w2" using tidy by blast
    with r show ?thesis by (cases r) (auto simp: setFork_run andThen_def)
  qed simp
  show thesis
  proof (cases outcome)
    case (Inl e)
    obtain e' w' where "?bad e w = (Inl e', w')" "store (engine w') = (store (engine w))(Some n := None)"
      "aborts_quietly b store \<longrightarrow> store (engine w) (Some n) \<noteq> None \<longrightarrow> e' = e \<and> Q w'" using bad by blast
    then show thesis using Inl d by (intro that [of "Inl e'" w' False]) auto
  next
    case (Inr u)
    have f: "forkName (w\<lparr>forkName := Some n\<rparr>) = Some n" "store (engine (w\<lparr>forkName := Some n\<rparr>)) (Some n) = Some d"
      "store (engine (w\<lparr>forkName := Some n\<rparr>)) None = Some dm" using d by simp_all
    show thesis
    proof (rule tb_merge_run [OF tr f, where ig = ig])
      fix r m w1 assume r: "tb_merge b ig (w\<lparr>forkName := Some n\<rparr>) = (r, w1)"
        "store (engine w1) = (if m then (store (engine (w\<lparr>forkName := Some n\<rparr>)))(Some n := None, None \<mapsto> mg dm d)
           else store (engine (w\<lparr>forkName := Some n\<rparr>)))" "r = Inr () \<Longrightarrow> m"
      have run: "andThen (lift outcome) (\<lambda>_::unit. andThen (setFork (Some n)) (\<lambda>_. andThen (tb_merge b ig) (\<lambda>_. ret v))) w
          = (case r of Inl e \<Rightarrow> (Inl e, w1) | Inr _ \<Rightarrow> (Inr v, w1))"
        using r(1) Inr by (auto simp: andThen_def setFork_run split: sum.split)
      show thesis
      proof (cases r)
        case (Inr z)
        with r run show thesis by (intro that [of "Inr v" w1 True]) (auto simp: tryCatch_def \<open>outcome = Inr u\<close>)
      next
        case (Inl e)
        obtain e' w' where "?bad e w1 = (Inl e', w')" "store (engine w') = (store (engine w1))(Some n := None)"
          "aborts_quietly b store \<longrightarrow> store (engine w1) (Some n) \<noteq> None \<longrightarrow> e' = e \<and> Q w'" using bad by blast
        with r Inl run d show thesis
          by (intro that [of "Inl e'" w' m]) (auto simp: tryCatch_def \<open>outcome = Inr u\<close>)
      qed
    qed
  qed
qed

lemma update_resume_shape:
  assumes "si_fork si = Some n" "n \<noteq> []"
  shows "update_resume b si outcome = tryCatch (andThen (lift outcome) (\<lambda>_::unit. andThen (setFork (Some n)) (\<lambda>_. andThen (tb_merge b []) (\<lambda>_. ret ()))))
       (\<lambda>ex. andThen (setFork (Some n)) (\<lambda>_. andThen (tb_abortFork b) (\<lambda>_. andThen skip (\<lambda>_. throw ex))))"
proof -
  have r: "andThen m (\<lambda>_. ret ()) = m" for m :: "('a core, unit) js"
    by (auto simp: andThen_def fun_eq_iff split: prod.split sum.split)
  have t: "andThen skip (\<lambda>_. throw ex) = (throw ex :: ('a core, unit) js)" for ex by (simp add: fun_eq_iff)
  show ?thesis unfolding r t using assms by (simp add: update_resume_def si_merge_def si_abortFork_def truthy_def andThen_assoc)
qed

text \<open>C5: \<open>ServiceInstance.update\<close> is a transaction. The first part runs in a fork of its own: the data of the
main fork and of every other fork are what they were. When the promises of the update have settled,
with other work done in between, the data of the fork are merged into the main ones as a whole or the
main data are untouched, and the fork is gone. An update that succeeds was merged. One whose promises
failed was not, and throws, with their error when the abort of its fork does not fail.\<close>

theorem update_is_atomic:
  assumes tr: "transactional b store mg"
    and si: "si_fork si = None" and n: "uuid \<noteq> []"
    and st: "store (engine w) None = Some dm" "store (engine w) (Some uuid) = None"
  shows "(\<exists>r w1. update_begin b si uuid c es w = (Inr (si\<lparr>si_fork := Some uuid\<rparr>, r), w1)
            \<and> store (engine w1) (Some uuid) \<noteq> None
            \<and> (\<forall>f. f \<noteq> Some uuid \<longrightarrow> store (engine w1) f = store (engine w) f))
       \<and> (\<forall>w2 d0 d outcome. store (engine w2) None = Some d0 \<and> store (engine w2) (Some uuid) = Some d \<longrightarrow>
            (\<exists>x m w3. update_resume b (si\<lparr>si_fork := Some uuid\<rparr>) outcome w2 = (x, w3)
               \<and> store (engine w3) = (store (engine w2))(Some uuid := None, None \<mapsto> (if m then mg d0 d else d0))
               \<and> (x = Inr () \<longrightarrow> m)
               \<and> (\<forall>e. outcome = Inl e \<longrightarrow> \<not> m \<and> x \<noteq> Inr () \<and> (aborts_quietly b store \<longrightarrow> x = Inl e))))"
proof (intro conjI allI impI)
  have "store (engine (w\<lparr>forkName := None\<rparr>)) (forkName (w\<lparr>forkName := None\<rparr>)) = Some dm"
    "store (engine (w\<lparr>forkName := None\<rparr>)) (Some uuid) = None" using st by simp_all
  then obtain w1 where f: "tb_fork b uuid (w\<lparr>forkName := None\<rparr>) = (Inr (), w1)"
      "store (engine w1) = (store (engine w))(Some uuid \<mapsto> dm)"
    using tb_fork_run [OF tr] by (metis (no_types, lifting) core.select_convs(12) core.surjective core.update_convs(3))
  obtain r w2 where u: "update_inner b (si\<lparr>si_fork := Some uuid\<rparr>) c es w1 = (r, w2)" "store (engine w2) (Some uuid) \<noteq> None"
    "\<And>g. g \<noteq> Some uuid \<Longrightarrow> store (engine w2) g = store (engine w1) g"
    by (rule update_inner_run [OF tr, of "si\<lparr>si_fork := Some uuid\<rparr>" "Some uuid" w1 c es]) (auto simp: f)
  have "update_begin b si uuid c es w = (Inr (si\<lparr>si_fork := Some uuid\<rparr>, r), w2)"
    using f(1) u(1) by (simp add: update_begin_def si_fork_op_def si truthy_def setFork_run attempt_def andThen_def)
  with u f(2) show "\<exists>r w1. update_begin b si uuid c es w = (Inr (si\<lparr>si_fork := Some uuid\<rparr>, r), w1)
            \<and> store (engine w1) (Some uuid) \<noteq> None
            \<and> (\<forall>f. f \<noteq> Some uuid \<longrightarrow> store (engine w1) f = store (engine w) f)" by auto
next
  fix w2 :: "'a core" and d0 d outcome
  assume "store (engine w2) None = Some d0 \<and> store (engine w2) (Some uuid) = Some d"
  then have s: "store (engine w2) (Some uuid) = Some d" "store (engine w2) None = Some d0" by simp_all
  have t: "\<And>u. \<exists>y u'. skip u = (Inr y, u') \<and> engine u' = engine u \<and> True" by simp
  have h: "update_resume b (si\<lparr>si_fork := Some uuid\<rparr>) outcome = tryCatch (andThen (lift outcome) (\<lambda>_::unit. andThen (setFork (Some uuid)) (\<lambda>_. andThen (tb_merge b []) (\<lambda>_. ret ()))))
       (\<lambda>ex. andThen (setFork (Some uuid)) (\<lambda>_. andThen (tb_abortFork b) (\<lambda>_. andThen skip (\<lambda>_. throw ex))))"
    using n by (intro update_resume_shape) simp_all
  show "\<exists>x m w3. update_resume b (si\<lparr>si_fork := Some uuid\<rparr>) outcome w2 = (x, w3)
               \<and> store (engine w3) = (store (engine w2))(Some uuid := None, None \<mapsto> (if m then mg d0 d else d0))
               \<and> (x = Inr () \<longrightarrow> m)
               \<and> (\<forall>e. outcome = Inl e \<longrightarrow> \<not> m \<and> x \<noteq> Inr () \<and> (aborts_quietly b store \<longrightarrow> x = Inl e))"
    unfolding h by (rule settle_run [OF tr s t, where outcome = outcome and ig = "[]" and v = "()"]) blast
qed

section \<open>A binding that satisfies the contract\<close>

text \<open>Data are one number per fork; an update adds one to that of the current fork, a merge takes it.
  An iterator counts down.\<close>

definition ram_binding :: "((jsstring option \<Rightarrow> nat option) core) FromBinding" where
  "ram_binding = \<lparr>b_json = identity_env, b_depth = 3, b_refs = 0, b_openScope = ret 0, b_closeScope = (\<lambda>_. skip),
     b_fork = (\<lambda>n w. (Inr 0, w\<lparr>engine := (engine w)(Some n := engine w (forkName w))\<rparr>)),
     b_merge = (\<lambda>_ w. (Inr 0, w\<lparr>engine := (engine w)(forkName w := None, None := engine w (forkName w))\<rparr>)),
     b_abortFork = (\<lambda>w. (Inr (if engine w (forkName w) = None then 1 else 0), w\<lparr>engine := (engine w)(forkName w := None)\<rparr>)),
     b_forkExists = (\<lambda>n w. (Inr (engine w (Some n) \<noteq> None), w)),
     b_createService = ret, b_initService = (\<lambda>_. ret (CJArray [])), b_closeService = ret 0,
     b_createResource = (\<lambda>_ _ _. ret (CJArray [])), b_getAll = (\<lambda>_ _. ret CJNull), b_getForKey = (\<lambda>_ _ _. ret CJNull),
     b_closeResource = (\<lambda>_. ret 0), b_createNotifier = ret, b_subscribe = (\<lambda>_ _ _. ret 0), b_unsubscribe = (\<lambda>_. ret 0),
     b_update = (\<lambda>_ _ w. (Inr (CJArray []), w\<lparr>engine := (engine w)(forkName w := map_option Suc (engine w (forkName w)))\<rparr>)),
     b_reload = (\<lambda>_. ret (CJArray [])), b_closeResourceStreams = (\<lambda>_. ret 0),
     b_writerUpdate = (\<lambda>_ _ _. ret (CJArray [])),
     b_next = (\<lambda>p w. case engine w (Some [0x69]) of
         None \<Rightarrow> (Inr None, w)
       | Some n \<Rightarrow> (Inr (if n = 0 then None else Some (CJInt (int n))), w\<lparr>engine := (engine w)(Some [0x69] \<mapsto> n - 1)\<rparr>)),
     b_createMapper = ret, b_createLazyCompute = ret, b_createReducer = ret, b_createResourceObject = ret,
     b_collGetArray = (\<lambda>_ _. ret (CJArray [])), b_collMap = (\<lambda>c _. ret c), b_collMapReduce = (\<lambda>c _ _. ret c),
     b_collNativeMapReduce = (\<lambda>c _ _. ret c), b_collReduce = (\<lambda>c _. ret c), b_collNativeReduce = (\<lambda>c _. ret c),
     b_collSlice = (\<lambda>c _. ret c), b_collTake = (\<lambda>c _. ret c), b_collMerge = (\<lambda>c _. ret c), b_collSize = (\<lambda>_. ret 0),
     b_lazyGetArray = (\<lambda>_ _. ret (CJArray [])), b_createLazyCollection = (\<lambda>_. ret []),
     b_jsonExtract = (\<lambda>_ _. ret (CJArray [])), b_useExternalResource = (\<lambda>_ c _. ret c)\<rparr>"

definition ram_state :: "(jsstring option \<Rightarrow> nat option) core" where
  "ram_state = \<lparr>objs = (\<lambda>_. \<lparr>kind = OArray [], tagged = False, frozen = False, extensible = True\<rparr>), nextObj = 0, handles = newHandles,
     ctxStack = [], forkName = None, initializing = False, changes = None,
     definitions = (\<lambda>_. \<lparr>sd_service = \<lparr>s_inputs = [], s_resources = [], s_externalServices = None\<rparr>, sd_externals = []\<rparr>),
     nextDefinition = 0, writers = (\<lambda>_. \<lparr>cw_collection = [], cw_fork = None\<rparr>), nextWriter = 0, deferred = [], nextPromise = 0, engine = [None \<mapsto> 1]\<rparr>"

lemma ram_transactional: "transactional ram_binding (\<lambda>s. s) (\<lambda>_ d. d)"
  unfolding transactional_def scopes_ok_def by (auto simp: ram_binding_def)

lemma ram_aborts_quietly: "aborts_quietly ram_binding (\<lambda>s. s)"
  by (auto simp: aborts_quietly_def ram_binding_def)

theorem update_is_atomic_witness:
  "(\<exists>r w1. update_begin ram_binding \<lparr>si_fork = None, si_definition = 0\<rparr> [0x66] [0x63] VNull ram_state
        = (Inr (\<lparr>si_fork = Some [0x66], si_definition = 0\<rparr>, r), w1)
      \<and> engine w1 (Some [0x66]) \<noteq> None \<and> (\<forall>f. f \<noteq> Some [0x66] \<longrightarrow> engine w1 f = engine ram_state f))
   \<and> (\<exists>w3. update_resume ram_binding \<lparr>si_fork = Some [0x66], si_definition = 0\<rparr> (Inl RangeError)
          (ram_state\<lparr>engine := [None \<mapsto> 1, Some [0x66] \<mapsto> 2]\<rparr>) = (Inl RangeError, w3)
        \<and> engine w3 = [None \<mapsto> 1, Some [0x66] \<mapsto> 2](Some [0x66] := None, None \<mapsto> 1))"
proof -
  let ?si = "\<lparr>si_fork = None, si_definition = 0\<rparr>"
  have h: "engine ram_state None = Some 1" "engine ram_state (Some [0x66]) = None" by (simp_all add: ram_state_def)
  note u = update_is_atomic [OF ram_transactional, of ?si "[0x66]" ram_state 1 "[0x63]" VNull, simplified h, simplified]
  from u [THEN conjunct2, rule_format, of "ram_state\<lparr>engine := [None \<mapsto> 1, Some [0x66] \<mapsto> 2]\<rparr>" 1 2 "Inl RangeError"]
  show ?thesis using u [THEN conjunct1] ram_aborts_quietly by auto
qed

text \<open>
  An engine whose merge replaces the data and then fails in a notification satisfies the contract.
  With it an update fails although its data are the main ones now, and the error it throws is that of
  the abort of a fork that is not there any more.
\<close>

definition late_binding :: "((jsstring option \<Rightarrow> nat option) core) FromBinding" where
  "late_binding = ram_binding\<lparr>b_merge := (\<lambda>_ w. (Inr 1, w\<lparr>engine := (engine w)(forkName w := None, None := engine w (forkName w))\<rparr>)),
     b_abortFork := (\<lambda>w. (Inr (if engine w (forkName w) = None then 2 else 0), w\<lparr>engine := (engine w)(forkName w := None)\<rparr>))\<rparr>"

theorem committed_update_fails:
  "transactional late_binding (\<lambda>s. s) (\<lambda>_ d. d)
   \<and> (\<exists>w'. update_resume late_binding \<lparr>si_fork = Some [0x66], si_definition = 0\<rparr> (Inr ()) (ram_state\<lparr>engine := [None \<mapsto> 1, Some [0x66] \<mapsto> 2],
          handles := \<lparr>nextID = 3, objects = (\<lambda>_. Absent)(1 := Live (HError (err ''subscriber'')), 2 := Live (HError (err ''no fork''))), freeIDs = []\<rparr>\<rparr>)
        = (Inl (err ''no fork''), w') \<and> engine w' None = Some 2 \<and> engine w' (Some [0x66]) = None)"
proof
  show "transactional late_binding (\<lambda>s. s) (\<lambda>_ d. d)"
    unfolding transactional_def scopes_ok_def by (auto simp: late_binding_def ram_binding_def)
qed (simp add: update_resume_shape late_binding_def ram_binding_def ram_state_def tb_merge_def tb_abortFork_def runWithGC_def exportStrings_def export_def newObj_def numeral_3_eq_3
    setFork_run throwIfError_def throwDeleted_def deleteH_run deleteHandle_def handle_get_def andThen_def tryCatch_def del: js_simps)

section \<open>Starting a service\<close>

text \<open>C6: the start of a service settles like an update: whatever its promises gave, afterwards no service is being
initialised, the fork is gone, and its data are merged into the main ones as a whole or the main data
are untouched. A start that succeeds was merged; one whose promises failed was not, and throws. When
the abort of the fork does not fail, a start that was not merged releases the handle the service was
registered under.\<close>

theorem initService_settles:
  assumes tr: "transactional b store mg"
    and d: "store (engine w) (Some uuid) = Some d" "store (engine w) None = Some dm"
  shows "\<exists>x m w'. initService_resume b uuid sd hdl outcome w = (x, w') \<and> \<not> initializing w'
     \<and> store (engine w') = (store (engine w))(Some uuid := None, None \<mapsto> (if m then mg dm d else dm))
     \<and> (\<forall>si. x = Inr si \<longrightarrow> m \<and> si = \<lparr>si_fork = None, si_definition = sd\<rparr>)
     \<and> (\<forall>e. outcome = Inl e \<longrightarrow> \<not> m \<and> (\<forall>si. x \<noteq> Inr si) \<and> (aborts_quietly b store \<longrightarrow> x = Inl e))
     \<and> (aborts_quietly b store \<and> \<not> m \<longrightarrow> handle_get hdl (handles w') = Released)"
proof -
  let ?si = "\<lparr>si_fork = None, si_definition = sd\<rparr>"
  have t: "\<exists>y u'. deleteH hdl u = (Inr y, u') \<and> engine u' = engine u \<and> handle_get hdl (handles u') = Released" for u :: "'a core"
    by (simp add: deleteH_run deleteHandle_def handle_get_def)
  show ?thesis
  proof (rule settle_run [OF tr d t, where outcome = outcome and ig = "[]" and v = ?si])
    fix x m w'
    assume run: "tryCatch (andThen (lift outcome) (\<lambda>_. andThen (setFork (Some uuid)) (\<lambda>_. andThen (tb_merge b []) (\<lambda>_. ret ?si))))
       (\<lambda>ex. andThen (setFork (Some uuid)) (\<lambda>_. andThen (tb_abortFork b) (\<lambda>_. andThen (deleteH hdl) (\<lambda>_. throw ex)))) w = (x, w')"
      and r: "store (engine w') = (store (engine w))(Some uuid := None, None \<mapsto> (if m then mg dm d else dm))"
        "\<And>v'. x = Inr v' \<Longrightarrow> m \<and> v' = ?si"
        "\<And>e. outcome = Inl e \<Longrightarrow> \<not> m \<and> (\<forall>v'. x \<noteq> Inr v') \<and> (aborts_quietly b store \<longrightarrow> x = Inl e)"
        "\<And>e. aborts_quietly b store \<Longrightarrow> \<not> m \<Longrightarrow> handle_get hdl (handles w') = Released"
    have "initService_resume b uuid sd hdl outcome w = (x, w'\<lparr>initializing := False\<rparr>)"
      using run by (cases x) (simp_all add: initService_resume_def tryFinally_def)
    with r show ?thesis by (intro exI [of _ x] exI [of _ m] exI [of _ "w'\<lparr>initializing := False\<rparr>"]) auto
  qed
qed

theorem initService_settles_witness:
  "\<exists>w'. initService_resume ram_binding [0x66] 0 1 (Inl (JSError [0x6e])) (ram_state\<lparr>engine := [None \<mapsto> 1, Some [0x66] \<mapsto> 2]\<rparr>) = (Inl (JSError [0x6e]), w')
     \<and> \<not> initializing w' \<and> engine w' None = Some 1 \<and> engine w' (Some [0x66]) = None \<and> handle_get 1 (handles w') = Released"
  using initService_settles [OF ram_transactional, of "ram_state\<lparr>engine := [None \<mapsto> 1, Some [0x66] \<mapsto> 2]\<rparr>" "[0x66]" 2 1 0 1 "Inl (JSError [0x6e])"]
    ram_aborts_quietly by auto

end
