(* ===== verification/Values_Impl.thy ===== *)
theory Values_Impl
  imports Transactions
begin

text \<open>
  The values a mapper receives for a key: the class \<open>ValuesImpl\<close> of \<open>skipruntime-ts/core/src/index.ts\<close>.
  They are read from an iterator of the engine on demand and kept in an array that every reader
  shares. The mutable object is a second component of the state.
\<close>

section \<open>Reading on demand\<close>

record ValuesImpl =
  materialized :: "jval list"
  pointer :: "nat option"

type_synonym 'n vworld = "'n core \<times> ValuesImpl"

definition inCore :: "('w, 'a) js \<Rightarrow> ('w \<times> 'v, 'a) js" where
  "inCore m wv = (case m (fst wv) of (r, w') \<Rightarrow> (r, (w', snd wv)))"

definition newValues :: "nat \<Rightarrow> ValuesImpl" where
  "newValues p = \<lparr>materialized = [], pointer = Some p\<rparr>"

definition values_next :: "('n core) FromBinding \<Rightarrow> ('n vworld, jval) js" where
  "values_next b = reads (\<lambda>(w, vs).
     case pointer vs of
       None \<Rightarrow> ret VNull
     | Some p \<Rightarrow>
         andThen (inCore (andThen (b_next b p) (\<lambda>c. importOptJSON (b_json b) (b_depth b) c False))) (\<lambda>v.
         andThen (if v = VNull then modifies (\<lambda>(w, vs). (w, vs\<lparr>pointer := None\<rparr>))
                  else modifies (\<lambda>(w, vs). (w, vs\<lparr>materialized := materialized vs @ [v]\<rparr>))) (\<lambda>_. ret v)))"

text \<open>An element of an array, or \<open>undefined\<close>; errors without a message are named by their class.\<close>

definition elementAt :: "jval list \<Rightarrow> nat \<Rightarrow> jval" where
  "elementAt xs i = (if i < length xs then xs ! i else VUndef)"

definition SkipNonUniqueValueError :: js_error where
  "SkipNonUniqueValueError = err ''SkipNonUniqueValueError''"

definition defaultOr :: "nat \<Rightarrow> jval \<Rightarrow> ('a heap_scheme, jval) js" where
  "defaultOr d dflt = (if dflt \<noteq> VUndef then deepFreeze d dflt else throw SkipNonUniqueValueError)"

definition values_getUnique :: "('n core) FromBinding \<Rightarrow> jval \<Rightarrow> ('n vworld, jval) js" where
  "values_getUnique b ifMany =
     andThen (reads (\<lambda>(w, vs). if length (materialized vs) < 1 then andThen (values_next b) (\<lambda>_. skip) else skip)) (\<lambda>_.
     reads (\<lambda>(w, vs).
       let first = elementAt (materialized vs) 0 in
       andThen (if first = VUndef \<or> 2 \<le> length (materialized vs) then ret True
                else andThen (values_next b) (\<lambda>v. ret (v \<noteq> VNull))) (\<lambda>many.
       if many then inCore (defaultOr (b_depth b) ifMany) else ret first)))"

text \<open>The loop of \<open>toArray\<close>, with the number of rounds it may take: \<open>None\<close> is a loop that still runs.\<close>

fun toArray_loop :: "('n core) FromBinding \<Rightarrow> nat \<Rightarrow> 'n vworld \<Rightarrow> ((js_error + jval list) \<times> 'n vworld) option" where
  "toArray_loop b 0 s = None"
| "toArray_loop b (Suc n) s =
     (case values_next b s of
        (Inl e, s') \<Rightarrow> Some (Inl e, s')
      | (Inr v, s') \<Rightarrow> if v \<noteq> VNull then toArray_loop b n s' else Some (Inr (materialized (snd s')), s'))"

text \<open>A call of an iterator that has returned \<open>i\<close> values: the next one, or the end.\<close>

definition iterator_next :: "('n core) FromBinding \<Rightarrow> nat \<Rightarrow> ('n vworld, jval option) js" where
  "iterator_next b i = reads (\<lambda>(w, vs).
     if elementAt (materialized vs) i = VUndef then andThen (values_next b) (\<lambda>v. ret (if v = VNull then None else Some v))
     else ret (Some (elementAt (materialized vs) i)))"

section \<open>What is read\<close>

text \<open>
  An iterator of the engine: \<open>rem\<close> is the list of the values it still has. The values the object
  shows are those before the first null.
\<close>

definition iterates :: "('n core) FromBinding \<Rightarrow> ('n \<Rightarrow> cjson list) \<Rightarrow> nat \<Rightarrow> bool" where
  "iterates b rem p \<longleftrightarrow> (\<forall>w. \<exists>w'. b_next b p w = (Inr (case rem (engine w) of [] \<Rightarrow> None | c # _ \<Rightarrow> Some c), w')
     \<and> rem (engine w') = tl (rem (engine w)) \<and> grows w w')"

definition shown :: "cjson list \<Rightarrow> cjson list" where
  "shown cs = takeWhile (\<lambda>c. c \<noteq> CJNull) cs"

definition values_inv :: "nat \<Rightarrow> ('n \<Rightarrow> cjson list) \<Rightarrow> cjson list \<Rightarrow> 'n vworld \<Rightarrow> bool" where
  "values_inv p rem cs = (\<lambda>(w, vs). length (materialized vs) \<le> length (shown cs)
     \<and> list_all2 (shows_cj w) (materialized vs) (take (length (materialized vs)) (shown cs))
     \<and> (case pointer vs of None \<Rightarrow> length (materialized vs) = length (shown cs)
        | Some q \<Rightarrow> q = p \<and> rem (engine w) = drop (length (materialized vs)) cs))"

lemma shows_not_undef: "shows_cj h v c \<Longrightarrow> v \<noteq> VUndef"
  by (auto elim: shows_cj.cases)

lemma shows_null_iff: "shows_cj h v c \<Longrightarrow> v = VNull \<longleftrightarrow> c = CJNull"
  by (auto elim: shows_cj.cases)

lemma shown_nth: "n < length (shown cs) \<Longrightarrow> n < length cs \<and> shown cs ! n = cs ! n \<and> cs ! n \<noteq> CJNull"
  unfolding shown_def using length_takeWhile_le [of "\<lambda>c. c \<noteq> CJNull" cs] nth_mem [of n "takeWhile (\<lambda>c. c \<noteq> CJNull) cs"]
  by (auto simp: takeWhile_nth dest: set_takeWhileD)

lemma shown_end: "n = length (shown cs) \<Longrightarrow> n < length cs \<Longrightarrow> cs ! n = CJNull"
  unfolding shown_def using nth_length_takeWhile by blast

lemma import_uncopied: "\<exists>v h'. importJSON env d c False h = (Inr v, h') \<and> grows h h' \<and> shows_cj h' v c"
  using interpret_shows [of c h] by (auto simp: importJSON_def andThen_def)

lemma values_next_step:
  assumes it: "iterates b rem p" and inv: "values_inv p rem cs (w, vs)"
  obtains v w' vs' where "values_next b (w, vs) = (Inr v, (w', vs'))" "values_inv p rem cs (w', vs')" "grows w w'"
    "if length (materialized vs) < length (shown cs) then v \<noteq> VNull \<and> materialized vs' = materialized vs @ [v]
     else v = VNull \<and> materialized vs' = materialized vs"
proof (cases "pointer vs")
  case None
  with inv show thesis by (intro that [of VNull w vs]) (auto simp: values_next_def values_inv_def)
next
  case (Some q)
  define n where "n = length (materialized vs)"
  have q: "q = p" and r: "rem (engine w) = drop n cs" and le: "n \<le> length (shown cs)"
    and l2: "list_all2 (shows_cj w) (materialized vs) (take n (shown cs))"
    using inv Some by (auto simp: values_inv_def n_def)
  from it obtain w1 where nx: "b_next b p w = (Inr (case drop n cs of [] \<Rightarrow> None | c # _ \<Rightarrow> Some c), w1)"
    and r1: "rem (engine w1) = tl (drop n cs)" and g1: "grows w w1" unfolding iterates_def r by (metis r)
  have tl_drop: "tl (drop n cs) = drop (Suc n) cs" by (simp add: drop_Suc tl_drop)
  show thesis
  proof (cases "n < length cs")
    case False
    then have "length (shown cs) \<le> n" unfolding shown_def using length_takeWhile_le [of "\<lambda>c. c \<noteq> CJNull" cs] by linarith
    with le have e: "n = length (shown cs)" by simp
    have "values_next b (w, vs) = (Inr VNull, (w1, vs\<lparr>pointer := None\<rparr>))"
      using nx False Some q by (simp add: values_next_def inCore_def andThen_def importOptJSON_def)
    moreover have "list_all2 (shows_cj w1) (materialized vs) (take n (shown cs))"
      using l2 by (rule list_all2_mono) (rule shows_cj_grows [OF _ g1])
    ultimately show thesis using e g1 by (intro that [of VNull w1 "vs\<lparr>pointer := None\<rparr>"]) (auto simp: values_inv_def n_def)
  next
    case True
    obtain v w2 where im: "importJSON (b_json b) (b_depth b) (cs ! n) False w1 = (Inr v, w2)" "grows w1 w2" "shows_cj w2 v (cs ! n)"
      using import_uncopied by blast
    have g2: "grows w w2" using grows_trans [OF g1 im(2)] .
    have e2: "engine w2 = engine w1" using rest_more(1) [OF rest_importJSON im(1)] .
    have d: "drop n cs = cs ! n # drop (Suc n) cs" using True by (simp add: Cons_nth_drop_Suc)
    have l2': "list_all2 (shows_cj w2) (materialized vs) (take n (shown cs))"
      using l2 by (rule list_all2_mono) (rule shows_cj_grows [OF _ g2])
    have run: "values_next b (w, vs) = (Inr v, (w2, if v = VNull then vs\<lparr>pointer := None\<rparr> else vs\<lparr>materialized := materialized vs @ [v]\<rparr>))"
      using nx d Some q im(1) by (simp add: values_next_def inCore_def andThen_def importOptJSON_def)
    show thesis
    proof (cases "n < length (shown cs)")
      case True
      then have c: "shown cs ! n = cs ! n" "cs ! n \<noteq> CJNull" using shown_nth by blast+
      then have nn: "v \<noteq> VNull" using shows_null_iff [OF im(3)] by simp
      have "list_all2 (shows_cj w2) (materialized vs @ [v]) (take (Suc n) (shown cs))"
        using l2' im(3) c(1) True by (simp add: take_Suc_conv_app_nth list_all2_appendI)
      then have "values_inv p rem cs (w2, vs\<lparr>materialized := materialized vs @ [v]\<rparr>)"
        using True Some q r1 e2 tl_drop by (simp add: values_inv_def n_def)
      then show thesis using run nn g2 True by (intro that) (auto simp: n_def)
    next
      case False
      with le have e: "n = length (shown cs)" by simp
      have nv: "v = VNull" using shown_end [OF e True] shows_null_iff [OF im(3)] by simp
      have "values_inv p rem cs (w2, vs\<lparr>pointer := None\<rparr>)" using l2' e by (simp add: values_inv_def n_def)
      then show thesis using run nv g2 e by (intro that [of v w2 "vs\<lparr>pointer := None\<rparr>"]) (auto simp: n_def)
    qed
  qed
qed


lemma toArray_loop_run:
  assumes it: "iterates b rem p"
  shows "values_inv p rem cs (w, vs) \<Longrightarrow> length (shown cs) - length (materialized vs) < n \<Longrightarrow>
    \<exists>s'. toArray_loop b n (w, vs) = Some (Inr (materialized (snd s')), s') \<and> values_inv p rem cs s'
      \<and> length (materialized (snd s')) = length (shown cs)"
proof (induction n arbitrary: w vs)
  case (Suc n)
  obtain v w' vs' where st: "values_next b (w, vs) = (Inr v, (w', vs'))" "values_inv p rem cs (w', vs')"
    and c: "if length (materialized vs) < length (shown cs) then v \<noteq> VNull \<and> materialized vs' = materialized vs @ [v]
       else v = VNull \<and> materialized vs' = materialized vs"
    using values_next_step [OF it Suc.prems(1)] by blast
  show ?case
  proof (cases "length (materialized vs) < length (shown cs)")
    case True
    then have "length (shown cs) - length (materialized vs') < n" using c Suc.prems(2) by simp
    from Suc.IH [OF st(2) this] st(1) c True show ?thesis by simp
  next
    case False
    moreover have "length (materialized vs) \<le> length (shown cs)" using Suc.prems(1) by (simp add: values_inv_def)
    ultimately show ?thesis using st c by (intro exI [of _ "(w', vs')"]) simp
  qed
qed simp

lemma values_inv_new: "rem (engine w) = cs \<Longrightarrow> values_inv p rem cs (w, newValues p)"
  by (simp add: values_inv_def newValues_def)

text \<open>C22: \<open>ValuesImpl.toArray\<close> comes back, after at most one round more than there are values, with the values of
the iterator up to the first null, in order, whatever was read before; a null ends the list
although the iterator may have more.\<close>

theorem toArray_returns:
  assumes it: "iterates b rem p" and inv: "values_inv p rem cs (w, vs)" and n: "length (shown cs) < n"
  shows "\<exists>xs w' vs'. toArray_loop b n (w, vs) = Some (Inr xs, (w', vs'))
     \<and> list_all2 (shows_cj w') xs (takeWhile (\<lambda>c. c \<noteq> CJNull) cs) \<and> values_inv p rem cs (w', vs')"
proof -
  have "length (shown cs) - length (materialized vs) < n" using n by simp
  from toArray_loop_run [OF it inv this] obtain w' vs' where
    "toArray_loop b n (w, vs) = Some (Inr (materialized vs'), (w', vs'))" "values_inv p rem cs (w', vs')"
    "length (materialized vs') = length (shown cs)" by auto
  then show ?thesis by (auto simp: values_inv_def shown_def)
qed

text \<open>An iterator over the values that has returned \<open>i\<close> of them gives the next, and the readers of one
object do not disturb each other.\<close>

lemma iterator_next_spec:
  assumes it: "iterates b rem p" and inv: "values_inv p rem cs (w, vs)" and i: "i \<le> length (materialized vs)"
  shows "\<exists>r w' vs'. iterator_next b i (w, vs) = (Inr r, (w', vs')) \<and> values_inv p rem cs (w', vs')
     \<and> (if i < length (shown cs) then (\<exists>v. r = Some v \<and> shows_cj w' v (shown cs ! i)) \<and> i < length (materialized vs')
        else r = None)"
proof (cases "i < length (materialized vs)")
  case True
  have le: "length (materialized vs) \<le> length (shown cs)"
    and l2: "list_all2 (shows_cj w) (materialized vs) (take (length (materialized vs)) (shown cs))"
    using inv by (simp_all add: values_inv_def)
  have s: "shows_cj w (materialized vs ! i) (shown cs ! i)" using list_all2_nthD [OF l2 True] True by simp
  then have "iterator_next b i (w, vs) = (Inr (Some (materialized vs ! i)), (w, vs))"
    using shows_not_undef [OF s] True by (simp add: iterator_next_def elementAt_def)
  then show ?thesis using inv s True le by auto
next
  case False
  with i have e: "i = length (materialized vs)" by simp
  obtain v w' vs' where st: "values_next b (w, vs) = (Inr v, (w', vs'))" "values_inv p rem cs (w', vs')"
    and c: "if length (materialized vs) < length (shown cs) then v \<noteq> VNull \<and> materialized vs' = materialized vs @ [v]
       else v = VNull \<and> materialized vs' = materialized vs"
    using values_next_step [OF it inv] by blast
  have "iterator_next b i (w, vs) = (Inr (if v = VNull then None else Some v), (w', vs'))"
    using st(1) e by (simp add: iterator_next_def elementAt_def andThen_def)
  moreover have "shows_cj w' v (shown cs ! i)" if "i < length (shown cs)"
  proof -
    have m: "materialized vs' = materialized vs @ [v]" using c that e by simp
    have "list_all2 (shows_cj w') (materialized vs') (take (Suc i) (shown cs))"
      using st(2) m e by (simp add: values_inv_def)
    from list_all2_nthD [OF this, of i] m e that show ?thesis by (simp add: nth_append)
  qed
  ultimately show ?thesis using st(2) c e by auto
qed

text \<open>\<open>ValuesImpl.getUnique\<close> returns the value when there is exactly one before the first null; with none or
more it returns the default, deep-frozen, or throws \<open>SkipNonUniqueValueError\<close> without one.\<close>

theorem getUnique_spec:
  assumes it: "iterates b rem p" and inv: "values_inv p rem cs (w, vs)"
  shows "\<exists>w' vs'. values_inv p rem cs (w', vs')
     \<and> (if length (takeWhile (\<lambda>c. c \<noteq> CJNull) cs) = 1
        then \<exists>v. values_getUnique b ifMany (w, vs) = (Inr v, (w', vs')) \<and> shows_cj w' v (hd cs)
        else values_getUnique b ifMany (w, vs) =
          (if ifMany = VUndef then (Inl SkipNonUniqueValueError, (w', vs')) else inCore (deepFreeze (b_depth b) ifMany) (w', vs')))"
proof -
  have "\<exists>w1 vs1. reads (\<lambda>(w, vs). if length (materialized vs) < 1 then andThen (values_next b) (\<lambda>_. skip) else skip) (w, vs)
      = (Inr (), (w1, vs1)) \<and> values_inv p rem cs (w1, vs1) \<and> (materialized vs1 = [] \<longrightarrow> shown cs = [])"
  proof (cases "materialized vs")
    case Nil
    then show ?thesis using values_next_step [OF it inv] by (fastforce simp: andThen_def split: if_splits)
  qed (use inv in auto)
  then obtain w1 vs1 where r: "reads (\<lambda>(w, vs). if length (materialized vs) < 1 then andThen (values_next b) (\<lambda>_. skip) else skip) (w, vs)
      = (Inr (), (w1, vs1))" and i1: "values_inv p rem cs (w1, vs1)" and em: "materialized vs1 = [] \<longrightarrow> shown cs = []" by blast
  have le: "length (materialized vs1) \<le> length (shown cs)"
    and l2: "list_all2 (shows_cj w1) (materialized vs1) (take (length (materialized vs1)) (shown cs))"
    using i1 by (simp_all add: values_inv_def)
  obtain v w2 vs2 where st: "values_next b (w1, vs1) = (Inr v, (w2, vs2))" "values_inv p rem cs (w2, vs2)" "grows w1 w2"
    and c: "if length (materialized vs1) < length (shown cs) then v \<noteq> VNull \<and> materialized vs2 = materialized vs1 @ [v]
       else v = VNull \<and> materialized vs2 = materialized vs1" using values_next_step [OF it i1] by blast
  consider "materialized vs1 = []" | x where "materialized vs1 = [x]" | x y zs where "materialized vs1 = x # y # zs"
    by (metis list.exhaust)
  then show ?thesis
  proof cases
    case 1
    with r em i1 show ?thesis
      by (intro exI [of _ w1] exI [of _ vs1])
        (simp add: values_getUnique_def shown_def andThen_def elementAt_def inCore_def defaultOr_def)
  next
    case 2
    then have sx: "shows_cj w1 x (shown cs ! 0)" using l2 le by (cases "shown cs") auto
    have hd: "shown cs ! 0 = hd cs" using le 2 by (cases cs) (auto simp: shown_def split: if_splits)
    have "values_getUnique b ifMany (w, vs) =
        (if v \<noteq> VNull then inCore (defaultOr (b_depth b) ifMany) (w2, vs2) else (Inr x, (w2, vs2)))"
      using r 2 shows_not_undef [OF sx] st(1) by (simp add: values_getUnique_def andThen_def elementAt_def)
    moreover have "shows_cj w2 x (hd cs)" using shows_cj_grows [OF sx st(3)] hd by simp
    ultimately show ?thesis using c 2 st(2) le
      by (intro exI [of _ w2] exI [of _ vs2]) (auto simp: shown_def inCore_def defaultOr_def split: if_splits)
  next
    case 3
    with r le i1 show ?thesis
      by (intro exI [of _ w1] exI [of _ vs1])
        (auto simp: values_getUnique_def shown_def andThen_def elementAt_def inCore_def defaultOr_def)
  qed
qed


section \<open>A concrete iterator\<close>

definition countdown :: "(jsstring option \<Rightarrow> nat option) \<Rightarrow> cjson list" where
  "countdown e = (case e (Some [0x69]) of None \<Rightarrow> [] | Some n \<Rightarrow> map (\<lambda>k. CJInt (int k)) (rev [1..<Suc n]))"

lemma countdown_iterates: "iterates ram_binding countdown p"
  unfolding iterates_def
proof
  fix w :: "(jsstring option \<Rightarrow> nat option) core"
  show "\<exists>w'. b_next ram_binding p w = (Inr (case countdown (engine w) of [] \<Rightarrow> None | c # _ \<Rightarrow> Some c), w')
     \<and> countdown (engine w') = tl (countdown (engine w)) \<and> grows w w'"
  proof (cases "engine w (Some [0x69])")
    case (Some n)
    then show ?thesis by (cases n) (auto simp: ram_binding_def countdown_def grows_def)
  qed (simp add: ram_binding_def countdown_def)
qed

abbreviation ram_two :: "(jsstring option \<Rightarrow> nat option) core" where
  "ram_two \<equiv> ram_state\<lparr>engine := [Some [0x69] \<mapsto> 2]\<rparr>"

lemma countdown_two: "countdown (engine ram_two) = [CJInt 2, CJInt 1]"
  by (simp add: countdown_def numeral_2_eq_2)

lemma ram_two_inv: "values_inv 0 countdown [CJInt 2, CJInt 1] (ram_two, newValues 0)"
  by (intro values_inv_new countdown_two)

theorem toArray_returns_witness:
  "\<exists>xs w' vs'. toArray_loop ram_binding 3 (ram_two, newValues 0) = Some (Inr xs, (w', vs'))
     \<and> list_all2 (shows_cj w') xs [CJInt 2, CJInt 1]"
  using toArray_returns [OF countdown_iterates ram_two_inv, of 3]
  by (auto simp: shown_def)

theorem getUnique_spec_witness:
  "fst (values_getUnique ram_binding VUndef (ram_two, newValues 0)) = Inl SkipNonUniqueValueError"
  using getUnique_spec [OF countdown_iterates ram_two_inv, of VUndef] by auto

end
