(* ===== verification/Deep_Equals.thy ===== *)
theory Deep_Equals
  imports Transactions
begin

text \<open>
  When two operators are the same: \<open>deepEquals\<close> and \<open>isEquals\<close> of \<open>skipruntime-ts/core/src/index.ts\<close>, which decide
  on a reload whether a mapper, reducer or lazy computation can be kept.

  \<open>denote\<close> reads the data below a value; on values without proxies \<open>deepEquals\<close> is equality of the data.
\<close>

section \<open>Comparison of values\<close>

definition strict_eq :: "jval \<Rightarrow> jval \<Rightarrow> bool" where
  "strict_eq a b \<longleftrightarrow> (case (a, b) of
     (VNum x, VNum y) \<Rightarrow> x \<noteq> NaN \<and> y \<noteq> NaN \<and> (x = y \<or> (x \<in> {NInt 0, NegZero} \<and> y \<in> {NInt 0, NegZero}))
   | _ \<Rightarrow> a = b)"

definition object_keys :: "okind \<Rightarrow> jsstring list" where
  "object_keys k = (case k of OArray vs \<Rightarrow> [] | OPlain _ ps \<Rightarrow> map fst ps | OProxy c \<Rightarrow> oh_keys c)"

definition hasOwnProperty :: "okind \<Rightarrow> jsstring \<Rightarrow> bool" where
  "hasOwnProperty k p \<longleftrightarrow> (case k of OArray vs \<Rightarrow> False | OPlain _ ps \<Rightarrow> map_of ps p \<noteq> None | OProxy c \<Rightarrow> oh_has c p)"

definition getProperty :: "json_env \<Rightarrow> okind \<Rightarrow> jsstring \<Rightarrow> ('a heap_scheme, jval) js" where
  "getProperty env k p = (case k of OArray vs \<Rightarrow> ret VUndef
     | OPlain _ ps \<Rightarrow> ret (case map_of ps p of Some v \<Rightarrow> v | None \<Rightarrow> VUndef)
     | OProxy c \<Rightarrow> reactive_get env c (PStr p))"

text \<open>A loop over the elements that stops at the first one for which the test fails.\<close>

primrec allM :: "'x list \<Rightarrow> ('x \<Rightarrow> ('w, bool) js) \<Rightarrow> ('w, bool) js" where
  "allM [] f = ret True"
| "allM (x # xs) f = andThen (f x) (\<lambda>r. if r then allM xs f else ret False)"

fun deepEquals :: "json_env \<Rightarrow> nat \<Rightarrow> jval \<Rightarrow> jval \<Rightarrow> ('a heap_scheme, bool) js" where
  "deepEquals env 0 a b = throw RangeError"
| "deepEquals env (Suc d) a b =
     (if strict_eq a b then ret True
      else if a = VNum NaN \<and> b = VNum NaN then ret True
      else if typeof a \<noteq> typeof b \<or> a = VNull \<or> b = VNull then ret False
      else
        (case (a, b) of
           (VRef x, VRef y) \<Rightarrow> reads (\<lambda>h.
             (case (kind (objs h x), kind (objs h y)) of
                (OArray vs, OArray us) \<Rightarrow>
                  if length vs \<noteq> length us then ret False
                  else allM (zip vs us) (\<lambda>(v, u). deepEquals env d v u)
              | (OArray vs, _) \<Rightarrow> ret False
              | (_, OArray us) \<Rightarrow> ret False
              | (k, l) \<Rightarrow>
                  if length (object_keys k) \<noteq> length (object_keys l) then ret False
                  else allM (object_keys k) (\<lambda>key.
                    if \<not> hasOwnProperty l key then ret False
                    else andThen (getProperty env k key) (\<lambda>v. andThen (getProperty env l key) (\<lambda>u. deepEquals env d v u)))))
         | _ \<Rightarrow> ret False))"

section \<open>Equality of data\<close>

datatype jdata = DPrim jval | DArr "jdata list" | DObj "jsstring \<Rightarrow> jdata option"

definition plain_zero :: "jval \<Rightarrow> jval" where
  "plain_zero v = (if v = VNum NegZero then VNum (NInt 0) else v)"

text \<open>The data of a value that needs at most the given stack depth; there are none for proxies.\<close>

fun denote :: "'a heap_scheme \<Rightarrow> nat \<Rightarrow> jval \<Rightarrow> jdata option" where
  "denote h 0 v = None"
| "denote h (Suc d) v =
     (case v of
        VRef a \<Rightarrow>
          (case kind (objs h a) of
             OArray vs \<Rightarrow> map_option DArr (those (map (denote h d) vs))
           | OPlain _ ps \<Rightarrow>
               if distinct (map fst ps)
               then map_option (\<lambda>xs. DObj (map_of (zip (map fst ps) xs))) (those (map (denote h d) (map snd ps)))
               else None
           | OProxy c \<Rightarrow> None)
      | _ \<Rightarrow> Some (DPrim (plain_zero v)))"

lemma those_Some: "those xs = Some ys \<longleftrightarrow> xs = map Some ys"
  by (induction xs arbitrary: ys) (auto split: option.splits)

lemma those_map_Some: "those (map f xs) = Some ys \<longleftrightarrow> list_all2 (\<lambda>x y. f x = Some y) xs ys"
  unfolding those_Some by (auto simp: list_eq_iff_nth_eq list_all2_conv_all_nth)

lemma denote_objs: "objs h = objs h' \<Longrightarrow> denote h d v = denote h' d v"
  by (induction h d v rule: denote.induct) (simp_all split: jval.splits okind.splits cong: map_cong)

lemma denotes_map: "list_all2 (\<lambda>x y. f x = Some y) xs ys \<Longrightarrow> map f xs = map Some ys"
  by (induction rule: list_all2_induct) auto

lemma denote_plain:
  assumes "kind (objs h i) = OPlain C ps" "denote h (Suc d) (VRef i) = Some x"
  obtains xs where "x = DObj (map_of (zip (map fst ps) xs))" "list_all2 (\<lambda>v x. denote h d v = Some x) (map snd ps) xs"
    "distinct (map fst ps)"
proof -
  from assms have d: "distinct (map fst ps)" by (simp split: if_splits)
  with assms obtain xs where "those (map (denote h d) (map snd ps)) = Some xs" "x = DObj (map_of (zip (map fst ps) xs))"
    by (auto simp del: map_map)
  with d that show thesis by (simp only: those_map_Some)
qed

lemma allM_spec:
  "(\<And>x. x \<in> set xs \<Longrightarrow> f x h = (Inr (P x), h)) \<Longrightarrow> allM xs f h = (Inr (\<forall>x \<in> set xs. P x), h)"
  by (induction xs) (auto simp: andThen_def)

lemma strict_eq_prim: "strict_eq a b \<longleftrightarrow> plain_zero a = plain_zero b \<and> a \<noteq> VNum NaN"
  by (auto simp: strict_eq_def plain_zero_def split: jval.splits)


lemma fields_lookup:
  "list_all2 (\<lambda>v x. f v = Some x) (map snd ps) xs \<Longrightarrow> map_of (zip (map fst ps) xs) k = Option.bind (map_of ps k) f"
proof (induction ps arbitrary: xs)
  case (Cons p ps)
  then obtain x zs where "xs = x # zs" "f (snd p) = Some x" "list_all2 (\<lambda>v x. f v = Some x) (map snd ps) zs"
    by (auto simp: list_all2_Cons1)
  with Cons.IH show ?case by (cases p) auto
qed simp

lemma fields_eq_iff:
  assumes "distinct (map fst ps)" "distinct (map fst qs)"
    and f: "\<And>v. v \<in> snd ` set ps \<union> snd ` set qs \<Longrightarrow> f v \<noteq> None"
  shows "(\<lambda>k. Option.bind (map_of ps k) f) = (\<lambda>k. Option.bind (map_of qs k) f) \<longleftrightarrow>
    length ps = length qs \<and> (\<forall>k \<in> set (map fst ps). map_of qs k \<noteq> None \<and> f (the (map_of ps k)) = f (the (map_of qs k)))"
    (is "?l = ?r \<longleftrightarrow> _ \<and> ?all")
proof -
  have some: "map_of ps k = Some v \<or> map_of qs k = Some v \<Longrightarrow> f v \<noteq> None" for k v
    by (rule f) (auto dest!: map_of_SomeD intro: rev_image_eqI)
  have fv: "Option.bind (map_of ps k) f = None \<longleftrightarrow> map_of ps k = None"
    "Option.bind (map_of qs k) f = None \<longleftrightarrow> map_of qs k = None" for k
    by (cases "map_of ps k"; use some [of k] in force) (cases "map_of qs k"; use some [of k] in force)
  have card: "card (dom (map_of ps)) = length ps" "card (dom (map_of qs)) = length qs"
    using assms(1,2) distinct_card [of "map fst ps"] distinct_card [of "map fst qs"] by (simp_all add: dom_map_of_conv_image_fst)
  show ?thesis
  proof
    assume e: "?l = ?r"
    have d: "dom (map_of ps) = dom (map_of qs)" using fun_cong [OF e] fv by (auto simp: dom_def)
    moreover have ?all
    proof
      fix k assume "k \<in> set (map fst ps)"
      then obtain v where v: "map_of ps k = Some v" by (metis map_of_eq_None_iff not_None_eq set_map)
      with d obtain u where u: "map_of qs k = Some u" by blast
      show "map_of qs k \<noteq> None \<and> f (the (map_of ps k)) = f (the (map_of qs k))" using fun_cong [OF e, of k] u v by simp
    qed
    ultimately show "length ps = length qs \<and> ?all" using card by simp
  next
    assume a: "length ps = length qs \<and> ?all"
    then have "dom (map_of ps) \<subseteq> dom (map_of qs)" by (auto simp: dom_map_of_conv_image_fst) (metis domI dom_map_of_conv_image_fst fst_conv image_eqI option.exhaust_sel)
    then have d: "dom (map_of ps) = dom (map_of qs)" using a card by (intro card_subset_eq) (auto simp: finite_dom_map_of)
    show "?l = ?r"
    proof
      fix k show "Option.bind (map_of ps k) f = Option.bind (map_of qs k) f"
      proof (cases "map_of ps k")
        case None
        with d show ?thesis by (metis domIff)
      next
        case (Some v)
        then have "k \<in> set (map fst ps)" by (metis map_of_eq_None_iff option.simps(3) set_map)
        with a Some show ?thesis by (auto split: option.splits)
      qed
    qed
  qed
qed


lemma denote_ref: "denote h d (VRef a) = Some x \<Longrightarrow> x \<noteq> DPrim v"
  by (cases d) (auto split: okind.splits if_splits)

lemma denote_prim: "(\<And>a. v \<noteq> VRef a) \<Longrightarrow> denote h (Suc d) v = Some (DPrim (plain_zero v))"
  by (cases v) auto

lemma deepEquals_arrays:
  assumes IH: "\<And>a b x y. denote h d a = Some x \<Longrightarrow> denote h d b = Some y \<Longrightarrow> deepEquals env d a b h = (Inr (x = y), h)"
    and vs: "list_all2 (\<lambda>v x. denote h d v = Some x) vs xs" and us: "list_all2 (\<lambda>v x. denote h d v = Some x) us ys"
    and len: "length vs = length us"
  shows "allM (zip vs us) (\<lambda>(v, u). deepEquals env d v u) h = (Inr (xs = ys), h)"
proof -
  have "(\<lambda>(v, u). deepEquals env d v u) p h = (Inr (denote h d (fst p) = denote h d (snd p)), h)" if "p \<in> set (zip vs us)" for p
  proof -
    obtain i where "i < length vs" "p = (vs ! i, us ! i)" using \<open>p \<in> set (zip vs us)\<close> len by (auto simp: set_zip)
    with IH [of "vs ! i" "xs ! i" "us ! i" "ys ! i"] vs us len show ?thesis by (simp add: list_all2_conv_all_nth)
  qed
  then have "allM (zip vs us) (\<lambda>(v, u). deepEquals env d v u) h
      = (Inr (\<forall>p \<in> set (zip vs us). denote h d (fst p) = denote h d (snd p)), h)" by (rule allM_spec)
  moreover have "(\<forall>p \<in> set (zip vs us). denote h d (fst p) = denote h d (snd p)) \<longleftrightarrow> xs = ys"
  proof -
    have "(\<forall>p \<in> set (zip vs us). denote h d (fst p) = denote h d (snd p)) \<longleftrightarrow> map (denote h d) vs = map (denote h d) us"
      using len by (simp add: list_eq_iff_nth_eq all_set_conv_all_nth)
    also have "\<dots> \<longleftrightarrow> map Some xs = map Some ys" using vs us by (simp only: denotes_map)
    finally show ?thesis by simp
  qed
  ultimately show ?thesis by simp
qed

lemma deepEquals_objects:
  assumes IH: "\<And>a b x y. denote h d a = Some x \<Longrightarrow> denote h d b = Some y \<Longrightarrow> deepEquals env d a b h = (Inr (x = y), h)"
    and ps: "list_all2 (\<lambda>v x. denote h d v = Some x) (map snd ps) xs" "distinct (map fst ps)"
    and qs: "list_all2 (\<lambda>v x. denote h d v = Some x) (map snd qs) ys" "distinct (map fst qs)"
    and len: "length ps = length qs"
  shows "allM (map fst ps) (\<lambda>key. if \<not> hasOwnProperty (OPlain C qs) key then ret False
       else andThen (getProperty env (OPlain B ps) key) (\<lambda>v. andThen (getProperty env (OPlain C qs) key) (\<lambda>u. deepEquals env d v u))) h
     = (Inr (map_of (zip (map fst ps) xs) = map_of (zip (map fst qs) ys)), h)" (is "allM _ ?f h = _")
proof -
  have den: "denote h d v \<noteq> None" if "v \<in> snd ` set ps \<union> snd ` set qs" for v
    using that ps(1) qs(1) by (force simp: list_all2_conv_all_nth in_set_conv_nth)
  have "?f k h = (Inr (map_of qs k \<noteq> None \<and> denote h d (the (map_of ps k)) = denote h d (the (map_of qs k))), h)"
    if k: "k \<in> set (map fst ps)" for k
  proof (cases "map_of qs k")
    case (Some u)
    obtain v where v: "map_of ps k = Some v" using k by (metis map_of_eq_None_iff not_None_eq set_map)
    obtain x y where "denote h d v = Some x" "denote h d u = Some y"
      using den v Some by (metis UnI1 UnI2 imageI map_of_SomeD not_None_eq snd_conv)
    with IH Some v show ?thesis by (simp add: hasOwnProperty_def getProperty_def)
  qed (simp add: hasOwnProperty_def)
  then have "allM (map fst ps) ?f h
      = (Inr (\<forall>k \<in> set (map fst ps). map_of qs k \<noteq> None \<and> denote h d (the (map_of ps k)) = denote h d (the (map_of qs k))), h)"
    by (rule allM_spec)
  moreover have "map_of (zip (map fst ps) xs) = map_of (zip (map fst qs) ys) \<longleftrightarrow>
      (\<forall>k \<in> set (map fst ps). map_of qs k \<noteq> None \<and> denote h d (the (map_of ps k)) = denote h d (the (map_of qs k)))"
    using fields_eq_iff [OF ps(2) qs(2) den] len fields_lookup [OF ps(1)] fields_lookup [OF qs(1)]
    by (simp add: fun_eq_iff)
  ultimately show ?thesis by simp
qed

lemma deepEquals_refs:
  assumes "i \<noteq> j"
  shows "kind (objs h i) = OArray vs \<Longrightarrow> kind (objs h j) = OArray us \<Longrightarrow> length vs = length us \<Longrightarrow>
      deepEquals env (Suc d) (VRef i) (VRef j) h = allM (zip vs us) (\<lambda>(v, u). deepEquals env d v u) h"
    "kind (objs h i) = OArray vs \<Longrightarrow> kind (objs h j) = OArray us \<Longrightarrow> length vs \<noteq> length us \<Longrightarrow>
      deepEquals env (Suc d) (VRef i) (VRef j) h = (Inr False, h)"
    "kind (objs h i) = OPlain B ps \<Longrightarrow> kind (objs h j) = OPlain C qs \<Longrightarrow> length ps = length qs \<Longrightarrow>
      deepEquals env (Suc d) (VRef i) (VRef j) h = allM (map fst ps) (\<lambda>key. if \<not> hasOwnProperty (OPlain C qs) key then ret False
         else andThen (getProperty env (OPlain B ps) key) (\<lambda>v. andThen (getProperty env (OPlain C qs) key) (\<lambda>u. deepEquals env d v u))) h"
    "kind (objs h i) = OPlain B ps \<Longrightarrow> kind (objs h j) = OPlain C qs \<Longrightarrow> length ps \<noteq> length qs \<Longrightarrow>
      deepEquals env (Suc d) (VRef i) (VRef j) h = (Inr False, h)"
    "kind (objs h i) = OArray vs \<Longrightarrow> kind (objs h j) = OPlain C qs \<Longrightarrow> deepEquals env (Suc d) (VRef i) (VRef j) h = (Inr False, h)"
    "kind (objs h i) = OPlain B ps \<Longrightarrow> kind (objs h j) = OArray us \<Longrightarrow> deepEquals env (Suc d) (VRef i) (VRef j) h = (Inr False, h)"
  using assms by (simp_all add: strict_eq_def typeof_def object_keys_def)

lemma denote_array:
  assumes "kind (objs h i) = OArray vs" "denote h (Suc d) (VRef i) = Some x"
  obtains xs where "x = DArr xs" "list_all2 (\<lambda>v x. denote h d v = Some x) vs xs"
  using assms by (auto simp: those_map_Some)

lemma denote_no_proxy: "denote h (Suc d) (VRef i) = Some x \<Longrightarrow> kind (objs h i) \<noteq> OProxy c"
  by auto

lemma deepEquals_run:
  "denote h d a = Some x \<Longrightarrow> denote h d b = Some y \<Longrightarrow> deepEquals env d a b h = (Inr (x = y), h)"
proof (induction d arbitrary: a b x y)
  case (Suc d)
  show ?case
  proof (cases "strict_eq a b")
    case True
    then have "x = y" using Suc.prems
      by (cases a; cases b) (auto simp: strict_eq_def plain_zero_def split: if_splits)
    with True show ?thesis by simp
  next
    case ns: False
    consider (refs) i j where "a = VRef i" "b = VRef j" | (left) i where "a = VRef i" "\<And>j. b \<noteq> VRef j"
      | (right) j where "b = VRef j" "\<And>i. a \<noteq> VRef i" | (none) "\<And>i. a \<noteq> VRef i" "\<And>j. b \<noteq> VRef j" by blast
    then show ?thesis
    proof cases
      case left
      have "x \<noteq> y" using Suc.prems denote_prim [OF left(2), where h = h and d = d] denote_ref left(1) by fastforce
      then show ?thesis using ns left by (cases b) (auto simp: typeof_def)
    next
      case right
      have "x \<noteq> y" using Suc.prems denote_prim [OF right(2), where h = h and d = d] denote_ref right(1) by fastforce
      then show ?thesis using ns right by (cases a) (auto simp: typeof_def)
    next
      case none
      then have "x = y \<longleftrightarrow> plain_zero a = plain_zero b" 
        using Suc.prems unfolding denote_prim [OF none(1)] denote_prim [OF none(2)] by auto
      moreover have "plain_zero a = plain_zero b \<longleftrightarrow> a = VNum NaN \<and> b = VNum NaN"
        using ns by (auto simp: strict_eq_prim plain_zero_def split: if_splits)
      ultimately show ?thesis using ns none by (cases a; cases b) auto
    next
      case refs
      then have ij: "i \<noteq> j" using ns by (auto simp: strict_eq_def)
      note px = Suc.prems(1) [unfolded refs(1)] and py = Suc.prems(2) [unfolded refs(2)]
      show ?thesis unfolding refs
      proof (cases "kind (objs h i)"; cases "kind (objs h j)")
        fix vs us assume k: "kind (objs h i) = OArray vs" "kind (objs h j) = OArray us"
        obtain xs where x: "x = DArr xs" and l1: "list_all2 (\<lambda>v x. denote h d v = Some x) vs xs" by (rule denote_array [OF k(1) px])
        obtain ys where y: "y = DArr ys" and l2: "list_all2 (\<lambda>v x. denote h d v = Some x) us ys" by (rule denote_array [OF k(2) py])
        show "deepEquals env (Suc d) (VRef i) (VRef j) h = (Inr (x = y), h)"
        proof (cases "length vs = length us")
          case True
          show ?thesis unfolding deepEquals_refs(1) [OF ij k True] x y jdata.inject
            by (rule deepEquals_arrays [OF Suc.IH l1 l2 True])
        next
          case False
          then have "xs \<noteq> ys" using list_all2_lengthD [OF l1] list_all2_lengthD [OF l2] by auto
          then show ?thesis unfolding deepEquals_refs(2) [OF ij k False] x y by simp
        qed
      next
        fix B ps C qs assume k: "kind (objs h i) = OPlain B ps" "kind (objs h j) = OPlain C qs"
        obtain xs where x: "x = DObj (map_of (zip (map fst ps) xs))" and l1: "list_all2 (\<lambda>v x. denote h d v = Some x) (map snd ps) xs"
          and d1: "distinct (map fst ps)" by (rule denote_plain [OF k(1) px])
        obtain ys where y: "y = DObj (map_of (zip (map fst qs) ys))" and l2: "list_all2 (\<lambda>v x. denote h d v = Some x) (map snd qs) ys"
          and d2: "distinct (map fst qs)" by (rule denote_plain [OF k(2) py])
        show "deepEquals env (Suc d) (VRef i) (VRef j) h = (Inr (x = y), h)"
        proof (cases "length ps = length qs")
          case True
          show ?thesis unfolding deepEquals_refs(3) [OF ij k True] x y jdata.inject
            by (rule deepEquals_objects [OF Suc.IH l1 d1 l2 d2 True])
        next
          case False
          have "map_of (zip (map fst ps) xs) \<noteq> map_of (zip (map fst qs) ys)"
          proof
            assume "map_of (zip (map fst ps) xs) = map_of (zip (map fst qs) ys)"
            then have "dom (map_of (zip (map fst ps) xs)) = dom (map_of (zip (map fst qs) ys))" by simp
            moreover have "length xs = length ps" "length ys = length qs" using l1 l2 by (auto dest: list_all2_lengthD)
            ultimately have "set (map fst ps) = set (map fst qs)" by (simp add: dom_map_of_zip)
            then show False using False d1 d2 by (metis distinct_card length_map)
          qed
          then show ?thesis unfolding deepEquals_refs(4) [OF ij k False] x y by simp
        qed
      next
        fix vs C qs assume k: "kind (objs h i) = OArray vs" "kind (objs h j) = OPlain C qs"
        show "deepEquals env (Suc d) (VRef i) (VRef j) h = (Inr (x = y), h)"
          using denote_array [OF k(1) px] denote_plain [OF k(2) py] unfolding deepEquals_refs(5) [OF ij k] by auto
      next
        fix B ps us assume k: "kind (objs h i) = OPlain B ps" "kind (objs h j) = OArray us"
        show "deepEquals env (Suc d) (VRef i) (VRef j) h = (Inr (x = y), h)"
          using denote_plain [OF k(1) px] denote_array [OF k(2) py] unfolding deepEquals_refs(6) [OF ij k] by auto
      qed (use denote_no_proxy [OF px] denote_no_proxy [OF py] in blast)+
    qed
  qed
qed simp


section \<open>Operators\<close>

datatype LoadStatus = Incompatible | Changed | Same

text \<open>The application's \<open>ChangeManager\<close>: what a reload has to replace.\<close>

record ChangeManager =
  needInputReload :: "jsstring \<Rightarrow> bool"
  needResourceReload :: "jsstring \<Rightarrow> LoadStatus"
  needExternalServiceReload :: "jsstring \<Rightarrow> jsstring \<Rightarrow> bool"
  needMapperReload :: "jsstring \<Rightarrow> bool"
  needReducerReload :: "jsstring \<Rightarrow> bool"
  needLazyComputeReload :: "jsstring \<Rightarrow> bool"

text \<open>The class of a collection and the name it carries, for a value that is one.\<close>

definition collectionOf :: "'a heap_scheme \<Rightarrow> jval \<Rightarrow> (bool \<times> jval option) option" where
  "collectionOf h v = (case v of
     VRef a \<Rightarrow> (case kind (objs h a) of
         OPlain EagerCollectionClass ps \<Rightarrow> Some (True, map_of ps (js ''collection''))
       | OPlain LazyCollectionClass ps \<Rightarrow> Some (False, map_of ps (js ''lazyCollection''))
       | _ \<Rightarrow> None)
   | _ \<Rightarrow> None)"

definition paramEquals :: "json_env \<Rightarrow> nat \<Rightarrow> jval \<Rightarrow> jval \<Rightarrow> ('a heap_scheme, bool) js" where
  "paramEquals env d p q = reads (\<lambda>h.
     case collectionOf h p of
       Some c \<Rightarrow> ret (collectionOf h q = Some c)
     | None \<Rightarrow> deepEquals env d p q)"

definition sameOperator :: "json_env \<Rightarrow> nat \<Rightarrow> operator \<Rightarrow> operator \<Rightarrow> ('a heap_scheme, nat) js" where
  "sameOperator env d x y =
     (if op_class x \<noteq> op_class y then ret 0
      else if length (op_params x) \<noteq> length (op_params y) then ret 0
      else andThen (allM (zip (op_params x) (op_params y)) (\<lambda>(p, q). paramEquals env d p q)) (\<lambda>r. ret (if r then 1 else 0)))"

definition operatorAt :: "nat \<Rightarrow> ('n core, operator) js" where
  "operatorAt i = reads (\<lambda>w. case handle_get i (handles w) of Live (HOperator x) \<Rightarrow> ret x
     | _ \<Rightarrow> throw (err ''Cannot read properties of undefined''))"

definition isEquals :: "('n core) FromBinding \<Rightarrow> nat \<Rightarrow> nat \<Rightarrow> ('n core, nat) js" where
  "isEquals b i j = andThen (operatorAt i) (\<lambda>x. andThen (operatorAt j) (\<lambda>y. sameOperator (b_json b) (b_depth b) x y))"

definition getChanges :: "(nat \<Rightarrow> ChangeManager) \<Rightarrow> 'n core \<Rightarrow> ChangeManager option" where
  "getChanges cm w = (case changes w of
     None \<Rightarrow> None
   | Some h \<Rightarrow> if h = 0 then None else (case handle_get h (handles w) of Live (HChanges k) \<Rightarrow> Some (cm k) | _ \<Rightarrow> None))"

text \<open>The three callbacks that differ in the question they ask the change manager.\<close>

definition isEqualsUnless ::
  "('n core) FromBinding \<Rightarrow> (nat \<Rightarrow> ChangeManager) \<Rightarrow> (ChangeManager \<Rightarrow> jsstring \<Rightarrow> bool) \<Rightarrow> nat \<Rightarrow> nat \<Rightarrow> ('n core, nat) js" where
  "isEqualsUnless b cm need i j = andThen (operatorAt i) (\<lambda>x. reads (\<lambda>w.
     case getChanges cm w of
       Some m \<Rightarrow> if need m (op_name x) then ret 0 else isEquals b i j
     | None \<Rightarrow> isEquals b i j))"

definition SkipRuntime_Mapper_isEquals :: "('n core) FromBinding \<Rightarrow> (nat \<Rightarrow> ChangeManager) \<Rightarrow> nat \<Rightarrow> nat \<Rightarrow> ('n core, nat) js" where
  "SkipRuntime_Mapper_isEquals b cm i j = isEqualsUnless b cm needMapperReload i j"

definition SkipRuntime_LazyCompute_isEquals :: "('n core) FromBinding \<Rightarrow> (nat \<Rightarrow> ChangeManager) \<Rightarrow> nat \<Rightarrow> nat \<Rightarrow> ('n core, nat) js" where
  "SkipRuntime_LazyCompute_isEquals b cm i j = isEqualsUnless b cm needLazyComputeReload i j"

definition SkipRuntime_Reducer_isEquals :: "('n core) FromBinding \<Rightarrow> (nat \<Rightarrow> ChangeManager) \<Rightarrow> nat \<Rightarrow> nat \<Rightarrow> ('n core, nat) js" where
  "SkipRuntime_Reducer_isEquals b cm i j = isEqualsUnless b cm needReducerReload i j"

definition managerAt :: "(nat \<Rightarrow> ChangeManager) \<Rightarrow> nat \<Rightarrow> ('n core, ChangeManager) js" where
  "managerAt cm i = reads (\<lambda>w. case handle_get i (handles w) of Live (HChanges k) \<Rightarrow> ret (cm k)
     | _ \<Rightarrow> throw (err ''Cannot read properties of undefined''))"

definition SkipRuntime_ChangeManager_needInputReload :: "(nat \<Rightarrow> ChangeManager) \<Rightarrow> nat \<Rightarrow> jsstring \<Rightarrow> ('n core, nat) js" where
  "SkipRuntime_ChangeManager_needInputReload cm i n = andThen (managerAt cm i) (\<lambda>m. ret (if needInputReload m n then 1 else 0))"

definition SkipRuntime_ChangeManager_needResourceReload :: "(nat \<Rightarrow> ChangeManager) \<Rightarrow> nat \<Rightarrow> jsstring \<Rightarrow> ('n core, nat) js" where
  "SkipRuntime_ChangeManager_needResourceReload cm i n = andThen (managerAt cm i) (\<lambda>m.
     ret (case needResourceReload m n of Incompatible \<Rightarrow> 0 | Changed \<Rightarrow> 1 | Same \<Rightarrow> 2))"

definition SkipRuntime_ChangeManager_needExternalServiceReload ::
  "(nat \<Rightarrow> ChangeManager) \<Rightarrow> nat \<Rightarrow> jsstring \<Rightarrow> jsstring \<Rightarrow> ('n core, nat) js" where
  "SkipRuntime_ChangeManager_needExternalServiceReload cm i n r = andThen (managerAt cm i) (\<lambda>m.
     ret (if needExternalServiceReload m n r then 1 else 0))"

text \<open>\<open>getInfo\<close>: an object with the name of the operator and its parameters, collections by their names.\<close>

definition plainObject :: "(jsstring \<times> jval) list \<Rightarrow> ('a heap_scheme, jval) js" where
  "plainObject ps = newObj \<lparr>kind = OPlain ObjectClass ps, tagged = False, frozen = False, extensible = True\<rparr>"

definition paramInfo :: "jval \<Rightarrow> ('a heap_scheme, jval) js" where
  "paramInfo v = reads (\<lambda>h.
     case collectionOf h v of
       Some (_, n) \<Rightarrow> plainObject [(js ''type'', VStr (js ''collection'')), (js ''value'', case n of Some x \<Rightarrow> x | None \<Rightarrow> VUndef)]
     | None \<Rightarrow> plainObject [(js ''type'', VStr (js ''data'')), (js ''value'', v)])"

definition getInfo :: "('n core) FromBinding \<Rightarrow> nat \<Rightarrow> ('n core, cjson) js" where
  "getInfo b i = andThen (operatorAt i) (\<lambda>x.
     andThen (mapM (op_params x) paramInfo) (\<lambda>ps.
     andThen (newObj \<lparr>kind = OArray ps, tagged = False, frozen = False, extensible = True\<rparr>) (\<lambda>arr.
     andThen (plainObject [(js ''name'', VStr (op_name x)), (js ''parameters'', arr)]) (export b))))"

section \<open>When operators are the same\<close>

text \<open>C20: \<open>deepEquals\<close> decides equality of data: on two values without proxies whose data fit in the stack it returns,
without touching the heap, whether the data below them are the same, however the objects are
shared and whatever the order of their properties; zero and minus zero are the same, and NaN is
itself.\<close>

theorem deepEquals_decides:
  assumes "denote h d a = Some x" "denote h d b = Some y"
  shows "deepEquals env d a b h = (Inr (x = y), h)"
  using assms by (rule deepEquals_run)

text \<open>Two parameters are the same: collections of one class by name, other values by their data.\<close>

definition same_param :: "'a heap_scheme \<Rightarrow> nat \<Rightarrow> jval \<Rightarrow> jval \<Rightarrow> bool" where
  "same_param h d p q \<longleftrightarrow>
     (if collectionOf h p \<noteq> None then collectionOf h q = collectionOf h p else denote h d q = denote h d p)"

definition comparable :: "'a heap_scheme \<Rightarrow> nat \<Rightarrow> jval \<Rightarrow> jval \<Rightarrow> bool" where
  "comparable h d p q \<longleftrightarrow> collectionOf h p \<noteq> None \<or> (denote h d p \<noteq> None \<and> denote h d q \<noteq> None)"

lemma paramEquals_run: "comparable h d p q \<Longrightarrow> paramEquals env d p q h = (Inr (same_param h d p q), h)"
  by (cases "collectionOf h p") (auto simp: paramEquals_def same_param_def comparable_def deepEquals_run)

text \<open>A change manager is in force and asks to replace the operator of the name.\<close>

definition reload_wanted :: "(nat \<Rightarrow> ChangeManager) \<Rightarrow> (ChangeManager \<Rightarrow> jsstring \<Rightarrow> bool) \<Rightarrow> jsstring \<Rightarrow> 'n core \<Rightarrow> bool" where
  "reload_wanted cm need name w \<longleftrightarrow>
     (\<exists>h k. changes w = Some h \<and> h \<noteq> 0 \<and> handle_get h (handles w) = Live (HChanges k) \<and> need (cm k) name)"

lemma getChanges_wanted: "(\<exists>m. getChanges cm w = Some m \<and> need m name) \<longleftrightarrow> reload_wanted cm need name w"
  by (auto simp: getChanges_def reload_wanted_def split: option.splits slot.splits hobj.splits)

lemma isEquals_run:
  assumes x: "handle_get i (handles w) = Live (HOperator x)" and y: "handle_get j (handles w) = Live (HOperator y)"
    and c: "\<forall>(p, q) \<in> set (zip (op_params x) (op_params y)). comparable w (b_depth b) p q"
  shows "isEquals b i j w = (Inr (if op_class x = op_class y \<and> list_all2 (same_param w (b_depth b)) (op_params x) (op_params y)
     then 1 else 0), w)"
proof -
  have "(\<lambda>(p, q). paramEquals (b_json b) (b_depth b) p q) z w = (Inr (same_param w (b_depth b) (fst z) (snd z)), w)"
    if "z \<in> set (zip (op_params x) (op_params y))" for z
    using c that paramEquals_run [of w "b_depth b"] by (cases z) auto
  then have "allM (zip (op_params x) (op_params y)) (\<lambda>(p, q). paramEquals (b_json b) (b_depth b) p q) w
    = (Inr (\<forall>z \<in> set (zip (op_params x) (op_params y)). same_param w (b_depth b) (fst z) (snd z)), w)" by (rule allM_spec)
  then show ?thesis
    by (auto simp: isEquals_def operatorAt_def x y sameOperator_def andThen_def list_all2_iff)
qed

lemma isEqualsUnless_run:
  assumes "handle_get i (handles w) = Live (HOperator x)"
  shows "isEqualsUnless b cm need i j w = (if reload_wanted cm need (op_name x) w then (Inr 0, w) else isEquals b i j w)"
  using assms getChanges_wanted [of cm w need "op_name x"]
  by (cases "getChanges cm w") (auto simp: isEqualsUnless_def operatorAt_def andThen_def)

text \<open>C21: an operator is kept on a reload, that is the callback for its kind answers 1, exactly if no change manager asks
to replace it by its name and the two operators have the same class, the same number of parameters, and
pairwise the same ones: collections of one kind with one name, other values with the same data. Each
kind of operator asks its own question. Parameters are compared as far as they are data without proxies
that fit in the stack.\<close>

theorem isEquals_spec:
  assumes x: "handle_get i (handles w) = Live (HOperator x)" and y: "handle_get j (handles w) = Live (HOperator y)"
    and c: "\<forall>(p, q) \<in> set (zip (op_params x) (op_params y)). comparable w (b_depth b) p q"
    and same: "same = (op_class x = op_class y \<and> list_all2 (same_param w (b_depth b)) (op_params x) (op_params y))"
  shows "SkipRuntime_Mapper_isEquals b cm i j w
       = (Inr (if \<not> reload_wanted cm needMapperReload (op_name x) w \<and> same then 1 else 0), w)
    \<and> SkipRuntime_LazyCompute_isEquals b cm i j w
       = (Inr (if \<not> reload_wanted cm needLazyComputeReload (op_name x) w \<and> same then 1 else 0), w)
    \<and> SkipRuntime_Reducer_isEquals b cm i j w
       = (Inr (if \<not> reload_wanted cm needReducerReload (op_name x) w \<and> same then 1 else 0), w)"
  unfolding SkipRuntime_Mapper_isEquals_def SkipRuntime_LazyCompute_isEquals_def SkipRuntime_Reducer_isEquals_def
    isEqualsUnless_run [OF x] isEquals_run [OF x y c] same by simp

text \<open>Two objects with the same properties in different orders, and two operators with such parameters.\<close>

definition two_orders :: "nat \<Rightarrow> obj" where
  "two_orders a = \<lparr>kind = (if a = 0 then OPlain ObjectClass [([0x61], VNum NegZero), ([0x62], VRef 2)]
     else if a = 1 then OPlain ObjectClass [([0x62], VRef 3), ([0x61], VNum (NInt 0))]
     else OArray [VNum NaN]), tagged = True, frozen = True, extensible = False\<rparr>"

abbreviation eq_state :: "(jsstring option \<Rightarrow> nat option) core" where
  "eq_state \<equiv> ram_state\<lparr>objs := two_orders, nextObj := 4,
     handles := \<lparr>nextID = 3, objects = (\<lambda>i. if i = 1 then Live (HOperator \<lparr>op_object = 9, op_class = 7, op_native = None, op_name = [0x4d], op_params = [VRef 0]\<rparr>)
       else if i = 2 then Live (HOperator \<lparr>op_object = 9, op_class = 7, op_native = None, op_name = [0x4d], op_params = [VRef 1]\<rparr>) else Absent), freeIDs = []\<rparr>\<rparr>"

lemma two_orders_denote:
  "denote eq_state 3 (VRef 0) = Some (DObj [[0x61] \<mapsto> DPrim (VNum (NInt 0)), [0x62] \<mapsto> DArr [DPrim (VNum NaN)]])"
  "denote eq_state 3 (VRef 1) = Some (DObj [[0x62] \<mapsto> DArr [DPrim (VNum NaN)], [0x61] \<mapsto> DPrim (VNum (NInt 0))])"
  by (simp_all add: two_orders_def plain_zero_def numeral_3_eq_3 fun_upd_twist)

theorem deepEquals_decides_witness: "fst (deepEquals identity_env 3 (VRef 0) (VRef 1) eq_state) = Inr True"
  unfolding deepEquals_decides [OF two_orders_denote] by (simp add: fun_upd_twist)

text \<open>A change manager that replaces the mappers of the name of the operators.\<close>

definition mapper_manager :: ChangeManager where
  "mapper_manager = \<lparr>needInputReload = (\<lambda>_. False), needResourceReload = (\<lambda>_. Same), needExternalServiceReload = (\<lambda>_ _. False),
     needMapperReload = (\<lambda>n. n = [0x4d]), needReducerReload = (\<lambda>_. False), needLazyComputeReload = (\<lambda>_. False)\<rparr>"

abbreviation reload_state :: "(jsstring option \<Rightarrow> nat option) core" where
  "reload_state \<equiv> eq_state\<lparr>changes := Some 3, handles := (handles eq_state)\<lparr>objects := (objects (handles eq_state))(3 := Live (HChanges 0))\<rparr>\<rparr>"

theorem isEquals_spec_witness:
  "SkipRuntime_Mapper_isEquals ram_binding (\<lambda>_. mapper_manager) 1 2 reload_state = (Inr 0, reload_state)
   \<and> SkipRuntime_Reducer_isEquals ram_binding (\<lambda>_. mapper_manager) 1 2 reload_state = (Inr 1, reload_state)"
proof -
  let ?x = "\<lparr>op_object = 9, op_class = 7, op_native = None, op_name = [0x4d], op_params = [VRef 0]\<rparr>"
    and ?y = "\<lparr>op_object = 9, op_class = 7, op_native = None, op_name = [0x4d], op_params = [VRef 1]\<rparr>"
  have d: "b_depth ram_binding = 3" by (simp add: ram_binding_def)
  have n: "collectionOf reload_state (VRef 0) = None" by (simp add: collectionOf_def two_orders_def)
  have dn: "denote reload_state 3 v = denote eq_state 3 v" for v by (rule denote_objs) simp
  have "\<forall>(p, q) \<in> set (zip (op_params ?x) (op_params ?y)). comparable reload_state (b_depth ram_binding) p q"
    unfolding comparable_def d dn using two_orders_denote by simp
  moreover have "same_param reload_state 3 (VRef 0) (VRef 1)"
    unfolding same_param_def dn two_orders_denote n by (simp add: fun_upd_twist)
  ultimately show ?thesis
    using isEquals_spec [of 1 reload_state ?x 2 ?y ram_binding True "\<lambda>_. mapper_manager"]
    by (simp add: handle_get_def d reload_wanted_def mapper_manager_def)
qed

end
