(* ===== verification/Service_Callbacks.thy ===== *)
theory Service_Callbacks
  imports Values_Impl Deep_Equals
begin

text \<open>
  What application code sees and what the engine calls back: collections, contexts and operators
  (\<open>EagerCollectionImpl\<close>, \<open>LazyCollectionImpl\<close>, \<open>ContextImpl\<close>, \<open>instantiateUserObject\<close>), service definitions
  (\<open>ServiceDefinition\<close>) and the callbacks of \<open>ToBinding\<close> in \<open>skipruntime-ts/core/src/index.ts\<close>.

  Application code is an argument: a class is a \<open>userClass\<close>, an operator's methods are functions of the
  operator. Objects that map names to classes, inputs or services are association lists of their own
  properties.
\<close>

section \<open>Operators of the application\<close>

record 'w userClass =
  uc_class :: nat
  uc_name :: jsstring
  uc_native :: "jsstring option"
  uc_new :: "jval list \<Rightarrow> ('w, nat) js"

definition checkParams :: "('n core) FromBinding \<Rightarrow> jval list \<Rightarrow> ('n core, jval list) js" where
  "checkParams b params = mapM params (checkOrCloneParam (b_json b) (b_depth b))"

definition instantiateUserObject ::
  "('n core) FromBinding \<Rightarrow> jsstring \<Rightarrow> ('n core) userClass \<Rightarrow> jval list \<Rightarrow> ('n core, operator) js" where
  "instantiateUserObject b what ctor params =
     andThen (checkParams b params) (\<lambda>checkedParams.
     andThen (uc_new ctor checkedParams) (\<lambda>obj.
     andThen (freeze obj) (\<lambda>_.
     if uc_name ctor = [] then throw (JSError (what @ js '' classes must be defined at top-level.''))
     else ret \<lparr>op_object = obj, op_class = uc_class ctor, op_native = uc_native ctor, op_name = uc_name ctor, op_params = checkedParams\<rparr>)))"

section \<open>Collections\<close>

text \<open>
  A collection object is managed and frozen; its function \<open>size\<close> is a property of its own. Its property \<open>refs\<close> is the object \<open>ToBinding\<close>, which
  is not managed and changes; \<open>b_refs\<close> is its address.
\<close>

definition newEager :: "('w FromBinding) \<Rightarrow> jsstring \<Rightarrow> ('a heap_scheme, jval) js" where
  "newEager b name = reads (\<lambda>h. newObj \<lparr>kind = OPlain EagerCollectionClass
     [(js ''collection'', VStr name), (js ''refs'', VRef (b_refs b)), (js ''size'', VFun (nextObj h + 1))], tagged = True, frozen = True, extensible = False\<rparr>)"

definition newLazy :: "('w FromBinding) \<Rightarrow> jsstring \<Rightarrow> ('a heap_scheme, jval) js" where
  "newLazy b name = newObj \<lparr>kind = OPlain LazyCollectionClass
     [(js ''lazyCollection'', VStr name), (js ''refs'', VRef (b_refs b))], tagged = True, frozen = True, extensible = False\<rparr>"

definition arrayElements :: "jval \<Rightarrow> ('a heap_scheme, jval list) js" where
  "arrayElements v = reads (\<lambda>h. case v of
     VRef a \<Rightarrow> (case kind (objs h a) of OArray vs \<Rightarrow> ret vs | _ \<Rightarrow> throw (err ''not an array''))
   | _ \<Rightarrow> throw (err ''not an array''))"

definition newArray :: "jval list \<Rightarrow> ('a heap_scheme, jval) js" where
  "newArray vs = newObj \<lparr>kind = OArray vs, tagged = False, frozen = False, extensible = True\<rparr>"

definition importShared :: "('n core) FromBinding \<Rightarrow> cjson \<Rightarrow> ('n core, jval) js" where
  "importShared b c = importJSON (b_json b) (b_depth b) c False"

definition ec_getArray :: "('n core) FromBinding \<Rightarrow> jsstring \<Rightarrow> jval \<Rightarrow> ('n core, jval) js" where
  "ec_getArray b coll key = andThen (andThen (export b key) (b_collGetArray b coll)) (importShared b)"

definition lc_getArray :: "('n core) FromBinding \<Rightarrow> jsstring \<Rightarrow> jval \<Rightarrow> ('n core, jval) js" where
  "lc_getArray b coll key = andThen (andThen (export b key) (b_lazyGetArray b coll)) (importShared b)"

definition uniqueOf :: "nat \<Rightarrow> jval list \<Rightarrow> jval \<Rightarrow> jval \<Rightarrow> ('a heap_scheme, jval) js" where
  "uniqueOf d vs ifNone ifMany =
     (case vs of [v] \<Rightarrow> ret v | [] \<Rightarrow> defaultOr d ifNone | _ \<Rightarrow> defaultOr d ifMany)"

definition ec_getUnique :: "('n core) FromBinding \<Rightarrow> jsstring \<Rightarrow> jval \<Rightarrow> jval \<Rightarrow> jval \<Rightarrow> ('n core, jval) js" where
  "ec_getUnique b coll key ifNone ifMany =
     andThen (andThen (ec_getArray b coll key) arrayElements) (\<lambda>vs. uniqueOf (b_depth b) vs ifNone ifMany)"

definition lc_getUnique :: "('n core) FromBinding \<Rightarrow> jsstring \<Rightarrow> jval \<Rightarrow> jval \<Rightarrow> jval \<Rightarrow> ('n core, jval) js" where
  "lc_getUnique b coll key ifNone ifMany =
     andThen (andThen (lc_getArray b coll key) arrayElements) (\<lambda>vs. uniqueOf (b_depth b) vs ifNone ifMany)"

definition ec_size :: "('n core) FromBinding \<Rightarrow> jsstring \<Rightarrow> ('n core, jval) js" where
  "ec_size b coll = andThen (b_collSize b coll) (\<lambda>n. ret (VNum (toFloat n)))"

definition ec_slices :: "('n core) FromBinding \<Rightarrow> jsstring \<Rightarrow> (jval \<times> jval) list \<Rightarrow> ('n core, jval) js" where
  "ec_slices b coll ranges =
     andThen (mapM ranges (\<lambda>(s, e). newArray [s, e])) (\<lambda>rs.
     andThen (andThen (newArray rs) (export b)) (\<lambda>c. andThen (b_collSlice b coll c) (newEager b)))"

definition ec_slice :: "('n core) FromBinding \<Rightarrow> jsstring \<Rightarrow> jval \<Rightarrow> jval \<Rightarrow> ('n core, jval) js" where
  "ec_slice b coll start e = ec_slices b coll [(start, e)]"

text \<open>\<open>BigInt(n)\<close> of a number throws when it is not an integer.\<close>

definition toBigInt :: "jsnum \<Rightarrow> js_error + int" where
  "toBigInt n = (case n of NInt i \<Rightarrow> Inr i | NegZero \<Rightarrow> Inr 0 | _ \<Rightarrow> Inl RangeError)"

definition ec_take :: "('n core) FromBinding \<Rightarrow> jsstring \<Rightarrow> jsnum \<Rightarrow> ('n core, jval) js" where
  "ec_take b coll limit = andThen (lift (toBigInt limit)) (\<lambda>n. andThen (b_collTake b coll n) (newEager b))"

definition ec_map :: "('n core) FromBinding \<Rightarrow> jsstring \<Rightarrow> ('n core) userClass \<Rightarrow> jval list \<Rightarrow> ('n core, jval) js" where
  "ec_map b coll mapper params =
     andThen (instantiateUserObject b (js ''Mapper'') mapper params) (\<lambda>mapperObj.
     andThen (andThen (registerH (HOperator mapperObj)) (b_createMapper b)) (\<lambda>skmapper.
     andThen (b_collMap b coll skmapper) (newEager b)))"

definition ec_mapReduce ::
  "('n core) FromBinding \<Rightarrow> jsstring \<Rightarrow> ('n core) userClass \<Rightarrow> jval list \<Rightarrow> ('n core) userClass \<Rightarrow> jval list \<Rightarrow> ('n core, jval) js" where
  "ec_mapReduce b coll mapper mapperParams reducer reducerParams =
     andThen (instantiateUserObject b (js ''Mapper'') mapper mapperParams) (\<lambda>mapperObj.
     andThen (instantiateUserObject b (js ''Reducer'') reducer reducerParams) (\<lambda>reducerObj.
     andThen (andThen (registerH (HOperator mapperObj)) (b_createMapper b)) (\<lambda>skmapper.
     case op_native reducerObj of
       Some stub \<Rightarrow> andThen (b_collNativeMapReduce b coll skmapper stub) (newEager b)
     | None \<Rightarrow>
         andThen (andThen (registerH (HOperator reducerObj)) (b_createReducer b)) (\<lambda>skreducer.
         andThen (b_collMapReduce b coll skmapper skreducer) (newEager b)))))"

definition ec_reduce :: "('n core) FromBinding \<Rightarrow> jsstring \<Rightarrow> ('n core) userClass \<Rightarrow> jval list \<Rightarrow> ('n core, jval) js" where
  "ec_reduce b coll reducer params =
     andThen (instantiateUserObject b (js ''Reducer'') reducer params) (\<lambda>reducerObj.
     case op_native reducerObj of
       Some stub \<Rightarrow> andThen (b_collNativeReduce b coll stub) (newEager b)
     | None \<Rightarrow>
         andThen (andThen (registerH (HOperator reducerObj)) (b_createReducer b)) (\<lambda>skreducer.
         andThen (b_collReduce b coll skreducer) (newEager b)))"

text \<open>A property of a value that application code or the engine handed over.\<close>

definition propertyOf :: "json_env \<Rightarrow> jval \<Rightarrow> jsstring \<Rightarrow> ('a heap_scheme, jval) js" where
  "propertyOf env v p = reads (\<lambda>h. case v of
     VRef a \<Rightarrow> getProperty env (kind (objs h a)) p
   | VNull \<Rightarrow> throw (err ''Cannot read properties of null'')
   | VUndef \<Rightarrow> throw (err ''Cannot read properties of undefined'')
   | _ \<Rightarrow> ret VUndef)"

definition ec_getName :: "('n core) FromBinding \<Rightarrow> jval \<Rightarrow> ('n core, jval) js" where
  "ec_getName b v = propertyOf (b_json b) v (js ''collection'')"

definition lc_getName :: "('n core) FromBinding \<Rightarrow> jval \<Rightarrow> ('n core, jval) js" where
  "lc_getName b v = propertyOf (b_json b) v (js ''lazyCollection'')"

definition ec_merge :: "('n core) FromBinding \<Rightarrow> jsstring \<Rightarrow> jval list \<Rightarrow> ('n core, jval) js" where
  "ec_merge b coll others =
     andThen (mapM others (ec_getName b)) (\<lambda>otherNames.
     andThen (andThen (newArray otherNames) (export b)) (\<lambda>c. andThen (b_collMerge b coll c) (newEager b)))"

section \<open>Contexts\<close>

definition createLazyCollection :: "('n core) FromBinding \<Rightarrow> ('n core) userClass \<Rightarrow> jval list \<Rightarrow> ('n core, jval) js" where
  "createLazyCollection b compute params =
     andThen (instantiateUserObject b (js ''LazyCompute'') compute params) (\<lambda>computeObj.
     andThen (andThen (registerH (HOperator computeObj)) (b_createLazyCompute b)) (\<lambda>skcompute.
     andThen (b_createLazyCollection b skcompute) (newLazy b)))"

definition useExternalResource :: "('n core) FromBinding \<Rightarrow> jsstring \<Rightarrow> jsstring \<Rightarrow> jval \<Rightarrow> ('n core, jval) js" where
  "useExternalResource b svc identifier params =
     andThen (if params = VNull \<or> params = VUndef then plainObject [] else ret params) (\<lambda>p.
     andThen (export b p) (\<lambda>c. andThen (b_useExternalResource b svc identifier c) (newEager b)))"

definition jsonExtract :: "('n core) FromBinding \<Rightarrow> jval \<Rightarrow> jsstring \<Rightarrow> ('n core, jval) js" where
  "jsonExtract b v pattern = andThen (andThen (export b v) (\<lambda>c. b_jsonExtract b c pattern)) (importShared b)"

section \<open>Service definitions\<close>

definition quoted :: "jsstring \<Rightarrow> jsstring" where
  "quoted s = [0x27] @ s @ [0x27]"

definition buildResource ::
  "(nat \<Rightarrow> jval \<Rightarrow> ('n core, nat) js) \<Rightarrow> ServiceDefinition \<Rightarrow> jsstring \<Rightarrow> jval \<Rightarrow> ('n core, nat) js" where
  "buildResource construct sd name params =
     (case map_of (s_resources (sd_service sd)) name of
        None \<Rightarrow> throw (JSError (js ''Resource '' @ quoted name @ js '' not exist.''))
      | Some builder \<Rightarrow> construct builder params)"

definition sd_inputs :: "ServiceDefinition \<Rightarrow> jsstring list" where
  "sd_inputs sd = map fst (s_inputs (sd_service sd))"

definition sd_resources :: "ServiceDefinition \<Rightarrow> jsstring list" where
  "sd_resources sd = map fst (s_resources (sd_service sd))"

definition initialData :: "ServiceDefinition \<Rightarrow> jsstring \<Rightarrow> js_error + jval" where
  "initialData sd name =
     (case map_of (s_inputs (sd_service sd)) name of
        None \<Rightarrow> Inl (JSError (js ''Input definition '' @ quoted name @ js '' not exist.''))
      | Some initial \<Rightarrow> Inr initial)"

text \<open>The key of a subscription in the map of external services in use.\<close>

definition externalKey :: "jsstring \<Rightarrow> jsstring \<Rightarrow> jsstring" where
  "externalKey external inst = external @ [0x2F] @ inst"

definition setExternals :: "nat \<Rightarrow> (jsstring \<times> nat) list \<Rightarrow> ('n core, unit) js" where
  "setExternals sd xs = modifies (\<lambda>w. w\<lparr>definitions := (definitions w)(sd := (definitions w sd)\<lparr>sd_externals := xs\<rparr>)\<rparr>)"

definition noExternals :: js_error where
  "noExternals = err ''No external services defined.''"

text \<open>\<open>subscribe\<close>: the supplier is remembered at once and called from a timer; the result is the promise of the call.\<close>

definition sd_subscribe ::
  "nat \<Rightarrow> jsstring \<Rightarrow> nat \<Rightarrow> jsstring \<Rightarrow> jsstring \<Rightarrow> jval \<Rightarrow> ('n core, nat) js" where
  "sd_subscribe sd external writer inst resource params = reads (\<lambda>w.
     case s_externalServices (sd_service (definitions w sd)) of
       None \<Rightarrow> throw noExternals
     | Some svcs \<Rightarrow>
         (case map_of svcs external of
            None \<Rightarrow> throw (JSError (js ''External services '' @ quoted external @ js '' not exist.''))
          | Some supplier \<Rightarrow>
              andThen (setExternals sd (amap_set (externalKey external inst) supplier (sd_externals (definitions w sd)))) (\<lambda>_.
              andThen (modifies (\<lambda>w. w\<lparr>deferred := deferred w @ [(nextPromise w, \<lparr>sc_supplier = supplier, sc_instance = inst,
                  sc_resource = resource, sc_params = params, sc_writer = writer\<rparr>)], nextPromise := nextPromise w + 1\<rparr>)) (\<lambda>_.
              ret (nextPromise w)))))"

text \<open>A timer that fires: the call leaves the queue and is made; \<open>call\<close> is the supplier's method.\<close>

definition runDeferred :: "(SupplierCall \<Rightarrow> ('n core, unit) js) \<Rightarrow> ('n core, nat option) js" where
  "runDeferred call = reads (\<lambda>w. case deferred w of
     [] \<Rightarrow> ret None
   | (p, c) # rest \<Rightarrow> andThen (modifies (\<lambda>w. w\<lparr>deferred := rest\<rparr>)) (\<lambda>_. andThen (call c) (\<lambda>_. ret (Some p))))"

definition sd_unsubscribe ::
  "(nat \<Rightarrow> jsstring \<Rightarrow> ('n core, unit) js) \<Rightarrow> nat \<Rightarrow> jsstring \<Rightarrow> jsstring \<Rightarrow> ('n core, unit) js" where
  "sd_unsubscribe unsub sd external inst = reads (\<lambda>w.
     if s_externalServices (sd_service (definitions w sd)) = None then throw noExternals
     else
       (case map_of (sd_externals (definitions w sd)) (externalKey external inst) of
          None \<Rightarrow> throw (JSError (js ''External services '' @ quoted (externalKey external inst) @ js '' not exist.''))
        | Some supplier \<Rightarrow>
            andThen (unsub supplier inst) (\<lambda>_. reads (\<lambda>w.
            setExternals sd (amap_del (externalKey external inst) (sd_externals (definitions w sd)))))))"

text \<open>The set of services to shut down, in the order a \<open>Set\<close> keeps them: by first insertion.\<close>

definition shutdownOrder :: "ServiceDefinition \<Rightarrow> nat list" where
  "shutdownOrder sd = rev (remdups (rev (map snd (sd_externals sd)
     @ (case s_externalServices (sd_service sd) of None \<Rightarrow> [] | Some svcs \<Rightarrow> map snd svcs))))"

definition sd_shutdown :: "(nat \<Rightarrow> ('n core, nat) js) \<Rightarrow> nat \<Rightarrow> ('n core, js_error + nat list) js" where
  "sd_shutdown shut sd = reads (\<lambda>w. attempt (mapM (shutdownOrder (definitions w sd)) shut))"


section \<open>Callbacks of the engine\<close>

definition gone :: js_error where
  "gone = err ''Cannot read properties of undefined''"

definition serviceAt :: "nat \<Rightarrow> ('n core, nat) js" where
  "serviceAt i = reads (\<lambda>w. case handle_get i (handles w) of Live (HService sd) \<Rightarrow> ret sd | _ \<Rightarrow> throw gone)"

definition resourceAt :: "nat \<Rightarrow> ('n core, nat) js" where
  "resourceAt i = reads (\<lambda>w. case handle_get i (handles w) of Live (HResource r) \<Rightarrow> ret r | _ \<Rightarrow> throw gone)"

definition notifierAt :: "nat \<Rightarrow> ('n core, nat) js" where
  "notifierAt i = reads (\<lambda>w. case handle_get i (handles w) of Live (HNotifier n) \<Rightarrow> ret n | _ \<Rightarrow> throw gone)"

definition SkipRuntime_Mapper_mapEntry ::
  "('n core) FromBinding \<Rightarrow> (operator \<Rightarrow> jval \<Rightarrow> ('n vworld, jval list) js) \<Rightarrow> nat \<Rightarrow> cjson \<Rightarrow> nat \<Rightarrow> ('n core, cjson) js" where
  "SkipRuntime_Mapper_mapEntry b mapEntry skmapper key values =
     andThen (operatorAt skmapper) (\<lambda>m.
     andThen (importShared b key) (\<lambda>k.
     andThen (\<lambda>w. case mapEntry m k (w, newValues values) of (r, (w', _)) \<Rightarrow> (r, w')) (\<lambda>result.
     andThen (newArray result) (export b))))"

definition SkipRuntime_LazyCompute_compute ::
  "('n core) FromBinding \<Rightarrow> (operator \<Rightarrow> jval \<Rightarrow> jval \<Rightarrow> ('n core, jval list) js) \<Rightarrow> nat \<Rightarrow> jsstring \<Rightarrow> cjson \<Rightarrow> ('n core, cjson) js" where
  "SkipRuntime_LazyCompute_compute b compute sklazy self skkey =
     andThen (operatorAt sklazy) (\<lambda>m.
     andThen (newLazy b self) (\<lambda>selfColl.
     andThen (importShared b skkey) (\<lambda>k.
     andThen (compute m selfColl k) (\<lambda>result.
     andThen (newArray result) (export b)))))"

definition SkipRuntime_deleteHandle :: "nat \<Rightarrow> ('n core, unit) js" where
  "SkipRuntime_deleteHandle i = andThen (deleteH i) (\<lambda>_. skip)"

text \<open>\<open>Object.entries\<close> of a value that came from the engine.\<close>

definition entriesOf :: "json_env \<Rightarrow> jval \<Rightarrow> ('a heap_scheme, (jsstring \<times> jval) list) js" where
  "entriesOf env v = reads (\<lambda>h. case v of
     VRef a \<Rightarrow> mapM (object_keys (kind (objs h a))) (\<lambda>k. andThen (getProperty env (kind (objs h a)) k) (\<lambda>x. ret (k, x)))
   | VNull \<Rightarrow> throw (err ''Cannot convert undefined or null to object'')
   | VUndef \<Rightarrow> throw (err ''Cannot convert undefined or null to object'')
   | _ \<Rightarrow> ret [])"

definition asName :: "jval \<Rightarrow> jsstring" where
  "asName v = (case v of VStr s \<Rightarrow> s | _ \<Rightarrow> [])"

text \<open>The text a template literal makes of a value, as far as the engine sends such values here.\<close>

definition shownName :: "jval \<Rightarrow> jsstring" where
  "shownName v = (case v of VStr s \<Rightarrow> s | VUndef \<Rightarrow> js ''undefined'' | VNull \<Rightarrow> js ''null''
     | VBool x \<Rightarrow> (if x then js ''true'' else js ''false'') | _ \<Rightarrow> [])"

definition SkipRuntime_Resource_instantiate ::
  "('n core) FromBinding \<Rightarrow> (nat \<Rightarrow> (jsstring \<times> jval) list \<Rightarrow> ('n core, jval) js) \<Rightarrow> nat \<Rightarrow> cjson \<Rightarrow> ('n core, jval) js" where
  "SkipRuntime_Resource_instantiate b inst skresource skcollections =
     andThen (resourceAt skresource) (\<lambda>r.
     andThen (andThen (importShared b skcollections) (entriesOf (b_json b))) (\<lambda>keysIds.
     andThen (mapM keysIds (\<lambda>(key, info).
        andThen (propertyOf (b_json b) info (js ''type'')) (\<lambda>t.
        if t = VStr (js ''eager'') then
          andThen (propertyOf (b_json b) info (js ''name'')) (\<lambda>n. andThen (newEager b (asName n)) (\<lambda>c. ret (key, c)))
        else if t = VStr (js ''lazy'') then
          andThen (propertyOf (b_json b) info (js ''name'')) (\<lambda>n. andThen (newLazy b (asName n)) (\<lambda>c. ret (key, c)))
        else throw (JSError (js ''Unknown collection type '' @ shownName t))))) (\<lambda>collections.
     andThen (inst r collections) (ec_getName b))))"

text \<open>A collection of a graph, described to the engine by its kind and name.\<close>

definition describeCollection :: "('n core) FromBinding \<Rightarrow> jval \<Rightarrow> ('n core, jval) js" where
  "describeCollection b c = reads (\<lambda>w. case collectionOf w c of
     Some (True, _) \<Rightarrow> andThen (ec_getName b c) (\<lambda>n. plainObject [(js ''type'', VStr (js ''eager'')), (js ''name'', n)])
   | Some (False, _) \<Rightarrow> andThen (lc_getName b c) (\<lambda>n. plainObject [(js ''type'', VStr (js ''lazy'')), (js ''name'', n)])
   | None \<Rightarrow> throw (err ''Invalid collection type''))"

definition SkipRuntime_ServiceDefinition_createGraph ::
  "('n core) FromBinding \<Rightarrow> (nat \<Rightarrow> (jsstring \<times> jval) list \<Rightarrow> ('n core, (jsstring \<times> jval) list) js) \<Rightarrow> nat \<Rightarrow> cjson \<Rightarrow> ('n core, cjson) js" where
  "SkipRuntime_ServiceDefinition_createGraph b createGraph skservice skcollections =
     andThen (serviceAt skservice) (\<lambda>sd.
     andThen (andThen (importShared b skcollections) (entriesOf (b_json b))) (\<lambda>keysIds.
     andThen (mapM keysIds (\<lambda>(key, n). andThen (newEager b (asName n)) (\<lambda>c. ret (key, c)))) (\<lambda>collections.
     andThen (createGraph sd collections) (\<lambda>result.
     andThen (mapM result (\<lambda>(name, c). andThen (describeCollection b c) (\<lambda>x. ret (name, x)))) (\<lambda>names.
     andThen (plainObject names) (export b))))))"

definition SkipRuntime_ServiceDefinition_inputs :: "('n core) FromBinding \<Rightarrow> nat \<Rightarrow> ('n core, cjson) js" where
  "SkipRuntime_ServiceDefinition_inputs b i = andThen (serviceAt i) (\<lambda>sd. reads (\<lambda>w. exportStrings b (sd_inputs (definitions w sd))))"

definition SkipRuntime_ServiceDefinition_resources :: "('n core) FromBinding \<Rightarrow> nat \<Rightarrow> ('n core, cjson) js" where
  "SkipRuntime_ServiceDefinition_resources b i = andThen (serviceAt i) (\<lambda>sd. reads (\<lambda>w. exportStrings b (sd_resources (definitions w sd))))"

definition SkipRuntime_ServiceDefinition_initialData :: "('n core) FromBinding \<Rightarrow> nat \<Rightarrow> jsstring \<Rightarrow> ('n core, cjson) js" where
  "SkipRuntime_ServiceDefinition_initialData b i name =
     andThen (serviceAt i) (\<lambda>sd. reads (\<lambda>w. andThen (lift (initialData (definitions w sd) name)) (export b)))"

definition SkipRuntime_ServiceDefinition_buildResource ::
  "('n core) FromBinding \<Rightarrow> (nat \<Rightarrow> jval \<Rightarrow> ('n core, nat) js) \<Rightarrow> nat \<Rightarrow> jsstring \<Rightarrow> cjson \<Rightarrow> ('n core, nat) js" where
  "SkipRuntime_ServiceDefinition_buildResource b construct i name skparams =
     andThen (serviceAt i) (\<lambda>sd.
     andThen (importShared b skparams) (\<lambda>params. reads (\<lambda>w.
     andThen (buildResource construct (definitions w sd) name params) (\<lambda>r.
     andThen (registerH (HResource r)) (b_createResourceObject b)))))"

definition SkipRuntime_ServiceDefinition_subscribe ::
  "('n core) FromBinding \<Rightarrow> nat \<Rightarrow> jsstring \<Rightarrow> jsstring \<Rightarrow> jsstring \<Rightarrow> jsstring \<Rightarrow> cjson \<Rightarrow> ('n core, nat) js" where
  "SkipRuntime_ServiceDefinition_subscribe b i external writerId inst resource skparams =
     andThen (serviceAt i) (\<lambda>sd. reads (\<lambda>w.
     andThen (newWriter writerId (forkName w)) (\<lambda>writer.
     andThen (importCopy b skparams) (\<lambda>params.
     andThen (sd_subscribe sd external writer inst resource params) (\<lambda>p. registerH (HPromise p))))))"

definition SkipRuntime_ServiceDefinition_unsubscribe ::
  "(nat \<Rightarrow> jsstring \<Rightarrow> ('n core, unit) js) \<Rightarrow> nat \<Rightarrow> jsstring \<Rightarrow> jsstring \<Rightarrow> ('n core, unit) js" where
  "SkipRuntime_ServiceDefinition_unsubscribe unsub i external inst =
     andThen (serviceAt i) (\<lambda>sd. sd_unsubscribe unsub sd external inst)"

definition SkipRuntime_ServiceDefinition_shutdown :: "(nat \<Rightarrow> ('n core, nat) js) \<Rightarrow> nat \<Rightarrow> ('n core, nat) js" where
  "SkipRuntime_ServiceDefinition_shutdown shut i =
     andThen (serviceAt i) (\<lambda>sd. andThen (sd_shutdown shut sd) (\<lambda>_. reads (\<lambda>w.
     andThen (modifies (\<lambda>w. w\<lparr>nextPromise := nextPromise w + 1\<rparr>)) (\<lambda>_. registerH (HPromise (nextPromise w))))))"

text \<open>Notifiers are told; \<open>tell\<close> is the application's notifier.\<close>

datatype notification = Subscribed | Notify jval jsstring bool | Closed

definition SkipRuntime_Notifier_subscribed :: "(nat \<Rightarrow> notification \<Rightarrow> ('n core, unit) js) \<Rightarrow> nat \<Rightarrow> ('n core, unit) js" where
  "SkipRuntime_Notifier_subscribed tell i = andThen (notifierAt i) (\<lambda>n. tell n Subscribed)"

definition SkipRuntime_Notifier_notify ::
  "('n core) FromBinding \<Rightarrow> (nat \<Rightarrow> notification \<Rightarrow> ('n core, unit) js) \<Rightarrow> nat \<Rightarrow> cjson \<Rightarrow> jsstring \<Rightarrow> nat \<Rightarrow> ('n core, unit) js" where
  "SkipRuntime_Notifier_notify b tell i skvalues watermark isUpdates =
     andThen (notifierAt i) (\<lambda>n. andThen (importCopy b skvalues) (\<lambda>values. tell n (Notify values watermark (isUpdates = 0))))"

definition SkipRuntime_Notifier_close :: "(nat \<Rightarrow> notification \<Rightarrow> ('n core, unit) js) \<Rightarrow> nat \<Rightarrow> ('n core, unit) js" where
  "SkipRuntime_Notifier_close tell i = andThen (notifierAt i) (\<lambda>n. tell n Closed)"

text \<open>The methods of a reducer of the application.\<close>

record 'w reducerMethods =
  r_initial :: "operator \<Rightarrow> jval"
  r_add :: "operator \<Rightarrow> jval \<Rightarrow> jval \<Rightarrow> ('w, jval) js"
  r_remove :: "operator \<Rightarrow> jval \<Rightarrow> jval \<Rightarrow> ('w, jval) js"

definition SkipRuntime_Reducer_init :: "('n core) FromBinding \<Rightarrow> ('n core) reducerMethods \<Rightarrow> nat \<Rightarrow> ('n core, cjson) js" where
  "SkipRuntime_Reducer_init b rm i = andThen (operatorAt i) (\<lambda>r. export b (r_initial rm r))"

definition SkipRuntime_Reducer_add ::
  "('n core) FromBinding \<Rightarrow> ('n core) reducerMethods \<Rightarrow> nat \<Rightarrow> cjson option \<Rightarrow> cjson \<Rightarrow> ('n core, cjson) js" where
  "SkipRuntime_Reducer_add b rm i skacc skvalue =
     andThen (operatorAt i) (\<lambda>r.
     andThen (case skacc of None \<Rightarrow> ret VNull | Some c \<Rightarrow> importShared b c) (\<lambda>acc.
     andThen (importShared b skvalue) (\<lambda>v. andThen (r_add rm r acc v) (export b))))"

definition SkipRuntime_Reducer_remove ::
  "('n core) FromBinding \<Rightarrow> ('n core) reducerMethods \<Rightarrow> nat \<Rightarrow> cjson \<Rightarrow> cjson \<Rightarrow> ('n core, cjson option) js" where
  "SkipRuntime_Reducer_remove b rm i skacc skvalue =
     andThen (operatorAt i) (\<lambda>r.
     andThen (importShared b skacc) (\<lambda>acc.
     andThen (importShared b skvalue) (\<lambda>v.
     andThen (r_remove rm r acc v) (\<lambda>result.
     if result = VNull then ret None else andThen (export b result) (\<lambda>c. ret (Some c))))))"


section \<open>Parameters of operators\<close>

text \<open>Nothing but new objects: the heaps reached from a given one by allocating.\<close>

named_theorems extend \<open>computations that only add objects to the heap\<close>

abbreviation extends :: "'a heap_scheme \<Rightarrow> 'b heap_scheme \<Rightarrow> bool" where
  "extends h0 h \<equiv> nextObj h0 \<le> nextObj h \<and> (\<forall>a < nextObj h0. objs h a = objs h0 a)"

lemma extend_newObj [extend]: "keeps (extends h0) (newObj x)"
  by (rule keepsI) (simp add: newObj_run)

lemma extend_interpret [extend]: "keeps (extends h0) (interpretPointer c)"
  by (induction c) (auto intro!: keeps_andThen keeps_mapM extend_newObj)

lemma extend_get [extend]: "keeps (extends h0) (reactive_get env c p)"
  by (auto simp: reactive_get_def oh_get_def getFieldAt_def interpretOptPointer_def
      intro!: extend split: propkey.split symbol.split option.split)

lemma extend_clone [extend]: "keeps (extends h0) (clone env d v)"
proof (induction d arbitrary: v)
  case (Suc d)
  show ?case
  proof (cases v)
    case (VRef a)
    show ?thesis unfolding VRef clone.simps jval.case
      by (intro keeps_reads_any keeps_okind keeps_andThen keeps_mapM keeps_pair Suc.IH extend keeps_ret)
  qed simp_all
qed simp

lemma clone_proxy_fresh:
  assumes "kind (objs h a) = OProxy c" "clone env d (VRef a) h = (Inr v, h')"
  shows "\<exists>x. v = VRef x \<and> nextObj h \<le> x"
proof (cases d)
  case (Suc k)
  let ?m = "mapM (oh_keys c) (\<lambda>key. andThen (reactive_get env c (PStr key)) (\<lambda>w. andThen (clone env k w) (\<lambda>w. ret (key, w))))"
  have "keeps (extends h) ?m" by (intro keeps_mapM keeps_andThen extend keeps_ret)
  from keepsD [OF this, of h] have le: "nextObj h \<le> nextObj (snd (?m h))" by simp
  obtain r g where m: "?m h = (r, g)" by (cases "?m h")
  from assms Suc m have "\<exists>kvs. r = Inr kvs \<and> v = VRef (nextObj g)"
    by (cases r) (auto simp: andThen_def newObj_run)
  with le m show ?thesis by auto
qed (use assms in simp)

text \<open>A parameter an operator may keep: a primitive value, an object that was managed, or a new one.\<close>

definition param_ok :: "'a heap_scheme \<Rightarrow> jval \<Rightarrow> bool" where
  "param_ok h v \<longleftrightarrow> (case v of VBool _ \<Rightarrow> True | VNum _ \<Rightarrow> True | VStr _ \<Rightarrow> True | VNull \<Rightarrow> True
     | VRef a \<Rightarrow> tagged (objs h a) \<or> nextObj h \<le> a | _ \<Rightarrow> False)"

lemma checkOrCloneParam_ok:
  assumes e: "extends h0 h" and r: "checkOrCloneParam env d v h = (Inr q, h')"
  shows "param_ok h0 q \<and> extends h0 h'"
proof (cases v)
  case (VRef a)
  show ?thesis
  proof (cases "isObjectProxy a h")
    case True
    then obtain c where k: "kind (objs h a) = OProxy c" by (auto simp: isObjectProxy_def split: okind.splits)
    have c: "clone env d (VRef a) h = (Inr q, h')" using r VRef True by (simp add: checkOrCloneParam_def)
    from clone_proxy_fresh [OF k c] keepsD [OF extend_clone e, of env d "VRef a"] c e show ?thesis by (auto simp: param_ok_def)
  next
    case False
    then have "q = v" "h' = h" "tagged (objs h a)" using r VRef by (auto simp: checkOrCloneParam_def isSkManaged_def split: if_splits)
    then show ?thesis using e VRef by (cases "a < nextObj h0") (auto simp: param_ok_def)
  qed
qed (use assms in \<open>auto simp: checkOrCloneParam_def param_ok_def\<close>)

lemma checkParams_ok:
  "extends h0 w \<Longrightarrow> mapM ps (checkOrCloneParam env d) w = (Inr qs, w') \<Longrightarrow> list_all (param_ok h0) qs \<and> length qs = length ps \<and> extends h0 w'"
proof (induction ps arbitrary: w qs)
  case (Cons p ps)
  obtain r w1 where c: "checkOrCloneParam env d p w = (r, w1)" by (cases "checkOrCloneParam env d p w")
  with Cons.prems obtain q where q: "r = Inr q" by (cases r) (auto simp: andThen_def)
  with Cons.prems c obtain rs where rs: "mapM ps (checkOrCloneParam env d) w1 = (Inr rs, w')" "qs = q # rs"
    by (auto simp: andThen_def split: prod.splits sum.splits)
  from checkOrCloneParam_ok [OF Cons.prems(1)] c q have "param_ok h0 q" "extends h0 w1" by blast+
  with Cons.IH [OF _ rs(1)] rs(2) show ?case by auto
qed simp

text \<open>C10: an operator is made only with parameters a reactive computation may depend on: each is a primitive value, an
object that was managed before, or, for the proxy of a Skip object, a copy that nothing else
refers to; values of other types are refused. Making the parameters only adds objects to the heap.
Its class has a name.\<close>

theorem operator_params_typed:
  assumes "instantiateUserObject b what cls params w = (Inr x, w')"
  shows "\<exists>w1. checkParams b params w = (Inr (op_params x), w1) \<and> extends w w1 \<and> length (op_params x) = length params
     \<and> list_all (param_ok w) (op_params x) \<and> op_name x \<noteq> []"
proof -
  obtain r w1 where c: "checkParams b params w = (r, w1)" by (cases "checkParams b params w")
  with assms have "r = Inr (op_params x) \<and> op_name x \<noteq> []"
    by (auto simp: instantiateUserObject_def andThen_def split: sum.splits prod.splits if_splits)
  with c show ?thesis using checkParams_ok [of w w params "b_json b" "b_depth b"] by (auto simp: checkParams_def)
qed

definition plain_class :: "('n core) userClass" where
  "plain_class = \<lparr>uc_class = 1, uc_name = [0x4d], uc_native = None, uc_new = (\<lambda>_. ret 9)\<rparr>"

theorem operator_params_typed_witness:
  "\<exists>w1. checkParams ram_binding [VRef 0, VNum NaN] eq_state = (Inr [VRef 0, VNum NaN], w1)
     \<and> list_all (param_ok eq_state) [VRef 0, VNum NaN]"
proof -
  have "instantiateUserObject ram_binding [] plain_class [VRef 0, VNum NaN] eq_state
    = (Inr \<lparr>op_object = 9, op_class = 1, op_native = None, op_name = [0x4d], op_params = [VRef 0, VNum NaN]\<rparr>, snd (freeze 9 eq_state))"
    by (simp add: instantiateUserObject_def checkParams_def checkOrCloneParam_def isObjectProxy_def isSkManaged_def
        two_orders_def plain_class_def andThen_def freeze_def)
  from operator_params_typed [OF this] show ?thesis by (elim exE conjE) (intro exI conjI; simp)
qed

section \<open>External services in use\<close>

text \<open>
  The specification: the supplier of every active subscription, by the name of the external service
  and the instance. The code keeps them under one string; names without a slash keep them apart.
\<close>

definition externals_are :: "('n core) \<Rightarrow> nat \<Rightarrow> (jsstring \<times> jsstring \<rightharpoonup> nat) \<Rightarrow> bool" where
  "externals_are w sd A \<longleftrightarrow> (\<forall>e i. 0x2F \<notin> set e \<longrightarrow> map_of (sd_externals (definitions w sd)) (externalKey e i) = A (e, i))"

lemma append_slash_inject:
  "0x2F \<notin> set e \<Longrightarrow> 0x2F \<notin> set e' \<Longrightarrow> e @ [0x2F] @ i = e' @ [0x2F] @ i' \<longleftrightarrow> e = e' \<and> i = i'" for e :: jsstring
proof (induction e arbitrary: e')
  case Nil
  then show ?case by (cases e') auto
next
  case (Cons x e)
  then show ?case by (cases e') auto
qed

lemma externalKey_inject:
  "0x2F \<notin> set e \<Longrightarrow> 0x2F \<notin> set e' \<Longrightarrow> externalKey e i = externalKey e' i' \<longleftrightarrow> e = e' \<and> i = i'"
  unfolding externalKey_def by (rule append_slash_inject)

text \<open>Names with a slash can collide: the second subscription takes the place of the first.\<close>

lemma externalKey_collides: "externalKey (e @ [0x2F] @ x) i = externalKey e (x @ [0x2F] @ i)"
  by (simp add: externalKey_def)

text \<open>C11: a service definition keeps exactly its active subscriptions. Subscribing to a declared service records its
supplier and queues one call of it; unsubscribing an active subscription calls the supplier that
was recorded, also when the service has been replaced by a reload since, and forgets it; without
one it throws and changes nothing; a definition derived from another starts with its
subscriptions. Names of services contain no slash.\<close>

theorem subscriptions_refine:
  assumes A: "externals_are w sd A" and e: "0x2F \<notin> set e"
    and u: "\<And>s j w. \<exists>w'. unsub s j w = (Inr (), w') \<and> definitions w' = definitions w"
  shows "(\<forall>svcs s. s_externalServices (sd_service (definitions w sd)) = Some svcs \<and> map_of svcs e = Some s \<longrightarrow>
       (\<exists>w'. sd_subscribe sd e writer i res params w = (Inr (nextPromise w), w') \<and> externals_are w' sd (A((e, i) \<mapsto> s))
          \<and> deferred w' = deferred w @ [(nextPromise w, \<lparr>sc_supplier = s, sc_instance = i, sc_resource = res,
              sc_params = params, sc_writer = writer\<rparr>)]))
   \<and> (s_externalServices (sd_service (definitions w sd)) \<noteq> None \<longrightarrow>
       (case A (e, i) of
          Some s \<Rightarrow> \<exists>w'. sd_unsubscribe unsub sd e i w = (Inr (), w') \<and> externals_are w' sd (A((e, i) := None))
            \<and> w' = snd (unsub s i w)\<lparr>definitions := definitions w'\<rparr>
        | None \<Rightarrow> \<exists>x. sd_unsubscribe unsub sd e i w = (Inl x, w)))
   \<and> (\<exists>sd' w'. derive sd svc w = (Inr sd', w') \<and> externals_are w' sd' A)"
proof (intro conjI allI impI)
  fix svcs s assume "s_externalServices (sd_service (definitions w sd)) = Some svcs \<and> map_of svcs e = Some s"
  then show "\<exists>w'. sd_subscribe sd e writer i res params w = (Inr (nextPromise w), w') \<and> externals_are w' sd (A((e, i) \<mapsto> s))
          \<and> deferred w' = deferred w @ [(nextPromise w, \<lparr>sc_supplier = s, sc_instance = i, sc_resource = res,
              sc_params = params, sc_writer = writer\<rparr>)]"
    using A e by (auto simp: sd_subscribe_def setExternals_def externals_are_def externalKey_inject)
next
  assume n: "s_externalServices (sd_service (definitions w sd)) \<noteq> None"
  have m: "map_of (sd_externals (definitions w sd)) (externalKey e i) = A (e, i)" using A e by (simp add: externals_are_def)
  show "case A (e, i) of
          Some s \<Rightarrow> \<exists>w'. sd_unsubscribe unsub sd e i w = (Inr (), w') \<and> externals_are w' sd (A((e, i) := None))
            \<and> w' = snd (unsub s i w)\<lparr>definitions := definitions w'\<rparr>
        | None \<Rightarrow> \<exists>x. sd_unsubscribe unsub sd e i w = (Inl x, w)"
  proof (cases "A (e, i)")
    case None
    then show ?thesis using n m by (auto simp: sd_unsubscribe_def)
  next
    case (Some s)
    obtain w1 where w1: "unsub s i w = (Inr (), w1)" "definitions w1 = definitions w" using u by blast
    then show ?thesis using n m Some A e
      by (auto simp: sd_unsubscribe_def andThen_def setExternals_def externals_are_def externalKey_inject)
  qed
next
  show "\<exists>sd' w'. derive sd svc w = (Inr sd', w') \<and> externals_are w' sd' A"
    using A by (auto simp: derive_def newDefinition_def externals_are_def)
qed

definition sub_state :: "(jsstring option \<Rightarrow> nat option) core" where
  "sub_state = ram_state\<lparr>definitions := (\<lambda>_. \<lparr>sd_service = \<lparr>s_inputs = [], s_resources = [], s_externalServices = Some [([0x73], 5)]\<rparr>,
     sd_externals = [(externalKey [0x73] [0x69], 9)]\<rparr>)\<rparr>"

lemma sub_state_externals: "externals_are sub_state 0 [([0x73], [0x69]) \<mapsto> 9]"
  by (auto simp: externals_are_def sub_state_def externalKey_inject)

theorem subscriptions_refine_witness:
  "(\<exists>w'. sd_subscribe 0 [0x73] 0 [0x6a] [] VNull sub_state = (Inr 0, w') \<and> externals_are w' 0 [([0x73], [0x69]) \<mapsto> 9, ([0x73], [0x6a]) \<mapsto> 5])
   \<and> (\<exists>w'. sd_unsubscribe (\<lambda>_ _. skip) 0 [0x73] [0x69] sub_state = (Inr (), w') \<and> externals_are w' 0 Map.empty)"
proof -
  have u: "\<exists>w'. (\<lambda>_ _. skip) s j w = (Inr (), w') \<and> definitions w' = definitions w"
    for s :: nat and j :: jsstring and w :: "(jsstring option \<Rightarrow> nat option) core" by simp
  have d: "s_externalServices (sd_service (definitions sub_state 0)) = Some [([0x73], 5)]" "nextPromise sub_state = 0"
    by (simp_all add: sub_state_def ram_state_def)
  from subscriptions_refine [OF sub_state_externals _ u, of "[0x73]" 0 "[0x6a]" "[]" VNull undefined]
  have "\<exists>w'. sd_subscribe 0 [0x73] 0 [0x6a] [] VNull sub_state = (Inr 0, w') \<and> externals_are w' 0 [([0x73], [0x69]) \<mapsto> 9, ([0x73], [0x6a]) \<mapsto> 5]"
    unfolding d by auto
  moreover from subscriptions_refine [OF sub_state_externals _ u, of "[0x73]" 0 "[0x69]" "[]" VNull undefined]
  have "\<exists>w'. sd_unsubscribe (\<lambda>_ _. skip) 0 [0x73] [0x69] sub_state = (Inr (), w') \<and> externals_are w' 0 Map.empty"
    unfolding d by auto
  ultimately show ?thesis by blast
qed

lemma shutdown_each_once:
  "distinct (shutdownOrder sd) \<and> set (shutdownOrder sd) = snd ` set (sd_externals sd)
     \<union> (case s_externalServices (sd_service sd) of None \<Rightarrow> {} | Some svcs \<Rightarrow> snd ` set svcs)"
  by (auto simp: shutdownOrder_def split: option.split)

end
