(* ===== verification/Worker_Rpc.thy ===== *)
theory Worker_Rpc
  imports JS_Strings
begin

text \<open>
  Calls to a database in a worker thread: \<open>skiplang/prelude/ts/worker/src/worker.ts\<close>.

  The caller's side is \<open>PromiseWorker\<close>, the worker's \<open>onWorkerMessage\<close>. Messages are copies of objects,
  \<open>wval\<close>; both sides check them with the operator \<open>in\<close>, which throws on values that are no objects.
  Functions given as parameters stay with the caller and are known to the worker by the identifier of
  a subscription. The application in the worker is an argument (\<open>workerEnv\<close>): it says which properties
  are functions and which calls throw at once; a promise it returns settles by \<open>settle\<close>.
\<close>

section \<open>Messages\<close>

datatype wval = WUndef | WNull | WBool bool | WNum int | WStr jsstring | WArr "wval list"
  | WObj "(jsstring \<times> wval) list" | WFun nat | WError jsstring

text \<open>\<open>typeof v == "object"\<close>\<close>

definition isObject :: "wval \<Rightarrow> bool" where
  "isObject v \<longleftrightarrow> (case v of WNull \<Rightarrow> True | WArr _ \<Rightarrow> True | WObj _ \<Rightarrow> True | WError _ \<Rightarrow> True | _ \<Rightarrow> False)"

definition inOp :: "string \<Rightarrow> wval \<Rightarrow> js_error + bool" where
  "inOp k v = (case v of WObj ps \<Rightarrow> Inr (map_of ps (js k) \<noteq> None) | WArr _ \<Rightarrow> Inr False | WError _ \<Rightarrow> Inr False
     | WFun _ \<Rightarrow> Inr False | _ \<Rightarrow> Inl (err ''Cannot use in operator''))"

definition field :: "string \<Rightarrow> wval \<Rightarrow> wval" where
  "field k v = (case v of WObj ps \<Rightarrow> (case map_of ps (js k) of Some x \<Rightarrow> x | None \<Rightarrow> WUndef) | _ \<Rightarrow> WUndef)"

fun allIn :: "string list \<Rightarrow> wval \<Rightarrow> js_error + bool" where
  "allIn [] v = Inr True"
| "allIn (k # ks) v = bindE (inOp k v) (\<lambda>b. if b then allIn ks v else Inr False)"

definition truthyW :: "wval \<Rightarrow> bool" where
  "truthyW v \<longleftrightarrow> (case v of WUndef \<Rightarrow> False | WNull \<Rightarrow> False | WBool b \<Rightarrow> b | WNum n \<Rightarrow> n \<noteq> 0 | WStr s \<Rightarrow> s \<noteq> [] | _ \<Rightarrow> True)"

record Function =
  f_fn :: wval
  f_parameters :: wval
  f_wrap :: wval

definition Function_as :: "wval \<Rightarrow> js_error + Function option" where
  "Function_as obj = bindE (allIn [''fn'', ''parameters''] obj) (\<lambda>ok. Inr (if ok
     then Some \<lparr>f_fn = field ''fn'' obj, f_parameters = field ''parameters'' obj, f_wrap = field ''wrap'' obj\<rparr> else None))"

record Caller =
  c_wrapped :: wval
  c_fn :: wval
  c_parameters :: wval
  c_remove :: wval

definition Caller_convert :: "wval \<Rightarrow> js_error + Caller option" where
  "Caller_convert obj = bindE (allIn [''wrapped'', ''fn'', ''parameters'', ''remove''] obj) (\<lambda>ok. Inr (if ok
     then Some \<lparr>c_wrapped = field ''wrapped'' obj, c_fn = field ''fn'' obj, c_parameters = field ''parameters'' obj,
       c_remove = field ''remove'' obj\<rparr> else None))"

record Return =
  success :: wval
  retValue :: wval

definition Return_as :: "wval \<Rightarrow> js_error + Return option" where
  "Return_as obj = bindE (allIn [''success'', ''value''] obj) (\<lambda>ok. Inr (if ok
     then Some \<lparr>success = field ''success'' obj, retValue = field ''value'' obj\<rparr> else None))"

record MessageId =
  m_source :: wval
  m_id :: wval

definition MessageId_as :: "wval \<Rightarrow> js_error + MessageId option" where
  "MessageId_as obj = bindE (allIn [''source'', ''id''] obj) (\<lambda>ok. Inr (if ok
     then Some \<lparr>m_source = field ''source'' obj, m_id = field ''id'' obj\<rparr> else None))"

definition Message_convert :: "(wval \<Rightarrow> js_error + 'a option) \<Rightarrow> wval \<Rightarrow> js_error + (MessageId \<times> 'a) option" where
  "Message_convert f obj =
     bindE (inOp ''id'' obj) (\<lambda>i.
     if \<not> (i \<and> isObject (field ''id'' obj)) then Inr None
     else bindE (inOp ''payload'' obj) (\<lambda>p.
       if \<not> (p \<and> isObject (field ''payload'' obj)) then Inr None
       else bindE (MessageId_as (field ''id'' obj)) (\<lambda>messageId.
            bindE (f (field ''payload'' obj)) (\<lambda>messagePayload.
            Inr (case (messageId, messagePayload) of (Some m, Some x) \<Rightarrow> Some (m, x) | _ \<Rightarrow> None)))))"

text \<open>The text of an identifier in a template literal.\<close>

definition idText :: "wval \<Rightarrow> jsstring" where
  "idText v = (case v of WNum n \<Rightarrow> int_text n | WStr s \<Rightarrow> s | WUndef \<Rightarrow> js ''undefined'' | WNull \<Rightarrow> js ''null''
     | WBool b \<Rightarrow> (if b then js ''true'' else js ''false'') | _ \<Rightarrow> js ''[object Object]'')"

definition asKey :: "MessageId \<Rightarrow> jsstring" where
  "asKey m = idText (m_source m) @ [0x3A] @ idText (m_id m)"

text \<open>The objects as they are posted.\<close>

definition idObject :: "MessageId \<Rightarrow> wval" where
  "idObject m = WObj [(js ''source'', m_source m), (js ''id'', m_id m)]"

definition messageObject :: "MessageId \<Rightarrow> wval \<Rightarrow> wval" where
  "messageObject m payload = WObj [(js ''id'', idObject m), (js ''payload'', payload)]"

definition functionObject :: "Function \<Rightarrow> wval" where
  "functionObject f = WObj [(js ''fn'', f_fn f), (js ''parameters'', f_parameters f), (js ''wrap'', f_wrap f)]"

definition callerObject :: "Caller \<Rightarrow> wval" where
  "callerObject c = WObj [(js ''wrapped'', c_wrapped c), (js ''fn'', c_fn c), (js ''parameters'', c_parameters c), (js ''remove'', c_remove c)]"

definition returnObject :: "Return \<Rightarrow> wval" where
  "returnObject r = WObj [(js ''success'', success r), (js ''value'', retValue r)]"

section \<open>The caller\<close>

text \<open>How a promise ends: with a value, with an \<open>Error\<close> that was received, or with an \<open>Error\<close> made of the JSON text of a value.\<close>

datatype outcome = Resolve wval | Reject wval | RejectText wval

record PromiseWorker =
  lastId :: nat
  pw_source :: nat
  callbacks :: "(jsstring \<times> nat) list"
  subscriptions :: "(jsstring \<times> nat) list"
  sentMessages :: "wval list"
  promiseCount :: nat
  settledPromises :: "(nat \<times> outcome) list"
  calledBack :: "(nat \<times> wval) list"

definition newPromiseWorker :: "nat \<Rightarrow> PromiseWorker" where
  "newPromiseWorker sourcesLastId = \<lparr>lastId = 0, pw_source = sourcesLastId + 1, callbacks = [], subscriptions = [],
     sentMessages = [], promiseCount = 0, settledPromises = [], calledBack = []\<rparr>"

definition nextMessageId :: "PromiseWorker \<Rightarrow> MessageId \<times> PromiseWorker" where
  "nextMessageId pw = (\<lparr>m_source = WNum (int (pw_source pw)), m_id = WNum (int (lastId pw + 1))\<rparr>, pw\<lparr>lastId := lastId pw + 1\<rparr>)"

text \<open>Functions among the parameters are kept as subscriptions and replaced by their identifiers.\<close>

fun postParams :: "wval list \<Rightarrow> PromiseWorker \<Rightarrow> wval list \<times> jsstring list \<times> PromiseWorker" where
  "postParams [] pw = ([], [], pw)"
| "postParams (p # ps) pw =
     (case p of
        WFun f \<Rightarrow>
          (case nextMessageId pw of (sid, pw1) \<Rightarrow>
           (case postParams ps (pw1\<lparr>subscriptions := amap_set (asKey sid) f (subscriptions pw1)\<rparr>) of (qs, keys, pw2) \<Rightarrow>
            (idObject sid # qs, asKey sid # keys, pw2)))
      | _ \<Rightarrow> (case postParams ps pw of (qs, keys, pw2) \<Rightarrow> (p # qs, keys, pw2)))"

datatype request = CallFunction jsstring wval | CallWrapped wval jsstring bool

text \<open>What \<open>post\<close> returns: the message that \<open>send\<close> will post, and the subscriptions \<open>close\<close> ends.\<close>

record Sender =
  s_message :: MessageId
  s_payload :: wval
  s_subscribed :: "jsstring list"

definition requestObject :: "request \<Rightarrow> wval list \<Rightarrow> wval" where
  "requestObject r ps = (case r of
     CallFunction f wrap \<Rightarrow> functionObject \<lparr>f_fn = WStr f, f_parameters = WArr ps, f_wrap = wrap\<rparr>
   | CallWrapped w f remove \<Rightarrow> callerObject \<lparr>c_wrapped = w, c_fn = WStr f, c_parameters = WArr ps, c_remove = WBool remove\<rparr>)"

definition pw_post :: "request \<Rightarrow> wval list \<Rightarrow> PromiseWorker \<Rightarrow> Sender \<times> PromiseWorker" where
  "pw_post r params pw =
     (case nextMessageId pw of (mid, pw1) \<Rightarrow>
      (case postParams params pw1 of (ps, keys, pw2) \<Rightarrow>
       (\<lparr>s_message = mid, s_payload = requestObject r ps, s_subscribed = keys\<rparr>, pw2)))"

text \<open>The structured clone of a message: there is none of a function.\<close>

fun cloneable :: "wval \<Rightarrow> bool" where
  "cloneable (WFun _) = False"
| "cloneable (WArr vs) = list_all cloneable vs"
| "cloneable (WObj ps) = list_all (\<lambda>p. cloneable (snd p)) ps"
| "cloneable _ = True"

text \<open>\<open>postMessage\<close> throws in the executor of the promise when it cannot clone the message: the promise is rejected and its callback stays.\<close>

definition pw_send :: "Sender \<Rightarrow> PromiseWorker \<Rightarrow> nat \<times> PromiseWorker" where
  "pw_send s pw =
     (let p = promiseCount pw; message = messageObject (s_message s) (s_payload s);
          pw1 = pw\<lparr>callbacks := amap_set (asKey (s_message s)) p (callbacks pw), promiseCount := p + 1\<rparr> in
      (p, if cloneable message then pw1\<lparr>sentMessages := sentMessages pw @ [message]\<rparr>
          else pw1\<lparr>settledPromises := settledPromises pw @ [(p, Reject (WError (js ''DataCloneError'')))]\<rparr>))"

definition pw_close :: "Sender \<Rightarrow> PromiseWorker \<Rightarrow> PromiseWorker" where
  "pw_close s pw = pw\<lparr>subscriptions := fold amap_del (s_subscribed s) (subscriptions pw)\<rparr>"

definition outcomeOf :: "Return \<Rightarrow> outcome" where
  "outcomeOf r = (if truthyW (success r) then Resolve (retValue r)
     else (case retValue r of WError _ \<Rightarrow> Reject (retValue r) | v \<Rightarrow> RejectText v))"

definition dataOf :: "wval \<Rightarrow> wval" where
  "dataOf message = (case field ''data'' message of WUndef \<Rightarrow> message | WNull \<Rightarrow> message | d \<Rightarrow> d)"

definition pw_onMessage :: "wval \<Rightarrow> PromiseWorker \<Rightarrow> (js_error + unit) \<times> PromiseWorker" where
  "pw_onMessage message pw =
     (case Message_convert Return_as (dataOf message) of
        Inl e \<Rightarrow> (Inl e, pw)
      | Inr None \<Rightarrow> (Inl (err ''UnmanagedMessage''), pw)
      | Inr (Some (mid, result)) \<Rightarrow>
          (case map_of (callbacks pw) (asKey mid) of
             Some p \<Rightarrow> (Inr (), pw\<lparr>callbacks := amap_del (asKey mid) (callbacks pw),
                 settledPromises := settledPromises pw @ [(p, outcomeOf result)]\<rparr>)
           | None \<Rightarrow>
               (case map_of (subscriptions pw) (asKey mid) of
                  Some f \<Rightarrow> (Inr (), pw\<lparr>calledBack := calledBack pw @ [(f, retValue result)]\<rparr>)
                | None \<Rightarrow> (Inl (case retValue result of WError m \<Rightarrow> JSError m | _ \<Rightarrow> err ''Return with no callback''), pw))))"

section \<open>The worker\<close>

datatype wparam = Callback MessageId | Value wval

datatype conv = KeepResult | SetRunner | WrapResult bool

datatype wtarget = OnCreator | OnRunner wval | OnWrapped wval | OnNothing wval

record wcall =
  w_id :: MessageId
  w_target :: wtarget
  w_fn :: wval
  w_params :: "wparam list"
  w_conv :: conv

record Worker =
  runner :: wval
  wrappedId :: nat
  wrapped :: "(wval \<times> wval \<times> bool) list"
  pendingCalls :: "wcall list"
  posted :: "wval list"
  granted :: "MessageId list"

record workerEnv =
  we_name :: jsstring
  we_type :: jsstring
  we_isFunction :: "wval \<Rightarrow> bool"
  we_get :: "wval \<Rightarrow> wval \<Rightarrow> wval"
  we_throws :: "wcall \<Rightarrow> wval option"

definition postReturn :: "MessageId \<Rightarrow> bool \<Rightarrow> wval \<Rightarrow> Worker \<Rightarrow> Worker" where
  "postReturn mid ok v ws = ws\<lparr>posted := posted ws @ [messageObject mid (returnObject \<lparr>success = WBool ok, retValue = v\<rparr>)]\<rparr>"

definition errorValue :: "wval \<Rightarrow> wval" where
  "errorValue e = (case e of WError m \<Rightarrow> WStr m | _ \<Rightarrow> e)"

definition w_apply :: "workerEnv \<Rightarrow> wcall \<Rightarrow> Worker \<Rightarrow> Worker" where
  "w_apply env c ws = (case we_throws env c of
     Some e \<Rightarrow> postReturn (w_id c) False (errorValue e) ws
   | None \<Rightarrow> ws\<lparr>pendingCalls := pendingCalls ws @ [c]\<rparr>)"

text \<open>The promise of a call settles: its result is converted and posted.\<close>

definition convert :: "conv \<Rightarrow> wval \<Rightarrow> Worker \<Rightarrow> wval \<times> Worker" where
  "convert cv v ws = (case cv of
     KeepResult \<Rightarrow> (v, ws)
   | SetRunner \<Rightarrow> (WNull, ws\<lparr>runner := v\<rparr>)
   | WrapResult auto \<Rightarrow> (WObj [(js ''wrapped'', WNum (int (wrappedId ws)))],
       ws\<lparr>wrapped := amap_set (WNum (int (wrappedId ws))) (v, auto) (wrapped ws), wrappedId := wrappedId ws + 1\<rparr>))"

definition w_settle :: "nat \<Rightarrow> wval + wval \<Rightarrow> Worker \<Rightarrow> Worker" where
  "w_settle i result ws =
     (let c = pendingCalls ws ! i; ws1 = ws\<lparr>pendingCalls := take i (pendingCalls ws) @ drop (Suc i) (pendingCalls ws)\<rparr> in
      case result of
        Inr v \<Rightarrow> (case convert (w_conv c) v ws1 of (v', ws2) \<Rightarrow> postReturn (w_id c) True v' ws2)
      | Inl e \<Rightarrow> postReturn (w_id c) False (errorValue e) ws1)"

text \<open>A parameter that is an object with the fields of an identifier becomes a callback.\<close>

fun mapParams :: "wval list \<Rightarrow> js_error + wparam list" where
  "mapParams [] = Inr []"
| "mapParams (p # ps) =
     bindE (if isObject p then MessageId_as p else Inr None) (\<lambda>s.
     bindE (mapParams ps) (\<lambda>qs. Inr ((case s of Some m \<Rightarrow> Callback m | None \<Rightarrow> Value p) # qs)))"

definition parametersOf :: "wval \<Rightarrow> js_error + wparam list" where
  "parametersOf v = (case v of WArr ps \<Rightarrow> mapParams ps | _ \<Rightarrow> Inl (err ''parameters.map is not a function''))"

definition grantAll :: "wparam list \<Rightarrow> Worker \<Rightarrow> Worker" where
  "grantAll ps ws = ws\<lparr>granted := granted ws @ List.map_filter (\<lambda>p. case p of Callback m \<Rightarrow> Some m | Value _ \<Rightarrow> None) ps\<rparr>"

definition onFunction :: "workerEnv \<Rightarrow> MessageId \<Rightarrow> Function \<Rightarrow> Worker \<Rightarrow> (js_error + unit) \<times> Worker" where
  "onFunction env mid fun ws =
     (case parametersOf (f_parameters fun) of
        Inl e \<Rightarrow> (Inl e, ws)
      | Inr ps \<Rightarrow>
          let ws = grantAll ps ws in
          (Inr (),
           if f_fn fun = WStr (we_name env) then
             (if truthyW (runner ws) then postReturn mid False (WStr (we_type env @ js '' already created'')) ws
              else w_apply env \<lparr>w_id = mid, w_target = OnCreator, w_fn = f_fn fun, w_params = ps, w_conv = SetRunner\<rparr> ws)
           else
             if \<not> truthyW (runner ws) then postReturn mid False (WStr (js ''Database must be created'')) ws
             else if \<not> we_isFunction env (we_get env (runner ws) (f_fn fun))
             then postReturn mid False (WStr (js ''Invalid database function '' @ idText (f_fn fun))) ws
             else w_apply env \<lparr>w_id = mid, w_target = OnRunner (runner ws), w_fn = f_fn fun, w_params = ps,
                    w_conv = (if truthyW (field ''wrap'' (f_wrap fun)) then WrapResult (truthyW (field ''autoremove'' (f_wrap fun))) else KeepResult)\<rparr> ws))"

definition onCaller :: "workerEnv \<Rightarrow> MessageId \<Rightarrow> Caller \<Rightarrow> Worker \<Rightarrow> (js_error + unit) \<times> Worker" where
  "onCaller env mid caller ws =
     (case parametersOf (c_parameters caller) of
        Inl e \<Rightarrow> (Inl e, ws)
      | Inr ps \<Rightarrow>
          let ws = grantAll ps ws; obj = map_of (wrapped ws) (c_wrapped caller) in
          if c_fn caller \<noteq> WStr [] \<and> (case obj of Some (v, _) \<Rightarrow> v = WUndef \<or> v = WNull | None \<Rightarrow> False) then (Inl (err ''Cannot read properties of undefined''), ws)
          else
            let fn = (case obj of None \<Rightarrow> WUndef | Some (v, _) \<Rightarrow> if c_fn caller = WStr [] then v else we_get env v (c_fn caller));
                target = (case obj of None \<Rightarrow> OnNothing fn | Some (v, _) \<Rightarrow> if c_fn caller = WStr [] then OnNothing fn else OnWrapped v);
                ws1 = (if \<not> we_isFunction env fn
                       then postReturn mid False (WStr (js ''Invalid function '' @ idText (c_fn caller))) ws
                       else w_apply env \<lparr>w_id = mid, w_target = target, w_fn = c_fn caller, w_params = ps, w_conv = KeepResult\<rparr> ws) in
            (Inr (), if (case obj of Some (_, auto) \<Rightarrow> auto | None \<Rightarrow> False) \<or> truthyW (c_remove caller)
                     then ws1\<lparr>wrapped := amap_del (c_wrapped caller) (wrapped ws1)\<rparr> else ws1))"

definition onWorkerMessage :: "workerEnv \<Rightarrow> wval \<Rightarrow> Worker \<Rightarrow> (js_error + unit) \<times> Worker" where
  "onWorkerMessage env message ws =
     (case Message_convert Caller_convert message of
        Inl e \<Rightarrow> (Inl e, ws)
      | Inr (Some (mid, caller)) \<Rightarrow> onCaller env mid caller ws
      | Inr None \<Rightarrow>
          (case Message_convert Function_as message of
             Inl e \<Rightarrow> (Inl e, ws)
           | Inr (Some (mid, fun)) \<Rightarrow> onFunction env mid fun ws
           | Inr None \<Rightarrow> (Inr (), ws\<lparr>posted := posted ws @ [WStr (js ''Invalid worker message'')]\<rparr>)))"

text \<open>The application calls a function it was given.\<close>

definition w_callback :: "MessageId \<Rightarrow> wval list \<Rightarrow> Worker \<Rightarrow> Worker" where
  "w_callback sid args ws = postReturn sid True (WArr args) ws"


section \<open>What is posted is understood\<close>

lemmas worker_objects = idObject_def messageObject_def functionObject_def callerObject_def returnObject_def
lemmas worker_parsing = Message_convert_def MessageId_as_def Function_as_def Caller_convert_def Return_as_def inOp_def field_def isObject_def

lemma Message_convert_message:
  assumes "isObject payload"
  shows "Message_convert f (messageObject m payload) = bindE (f payload) (\<lambda>x. Inr (map_option (Pair m) x))"
  using assms by (cases "f payload") (auto simp: worker_objects Message_convert_def MessageId_as_def inOp_def field_def isObject_def split: option.split)

lemma payload_objects [simp]:
  "isObject (functionObject f)" "isObject (callerObject c)" "isObject (returnObject r)" "isObject (requestObject q ps)"
  by (auto simp: isObject_def worker_objects requestObject_def split: request.split)

lemma parse_payload [simp]:
  "Function_as (functionObject f) = Inr (Some f)"
  "Caller_convert (callerObject c) = Inr (Some c)"
  "Caller_convert (functionObject f) = Inr None"
  "Return_as (returnObject r) = Inr (Some r)"
  by (simp_all add: worker_objects worker_parsing)

lemma field_id_message [simp]: "field ''id'' (messageObject m p) = idObject m"
  by (simp add: messageObject_def field_def)

lemma dataOf_message [simp]: "dataOf (messageObject m p) = messageObject m p"
  by (simp add: dataOf_def messageObject_def field_def)

lemma idObject_inject [simp]: "idObject m = idObject m' \<longleftrightarrow> m = m'"
  by (auto simp: idObject_def)

definition mid :: "nat \<Rightarrow> nat \<Rightarrow> MessageId" where
  "mid src n = \<lparr>m_source = WNum (int src), m_id = WNum (int n)\<rparr>"

lemma mid_inject [simp]: "mid src n = mid src n' \<longleftrightarrow> n = n'"
  by (simp add: mid_def)

lemma nat_text_inject: "nat_text n = nat_text n' \<Longrightarrow> n = n'"
  by (metis dec_value_nat_text)

lemma asKey_mid_inject [simp]: "asKey (mid src n) = asKey (mid src n') \<longleftrightarrow> n = n'"
  by (auto simp: asKey_def mid_def idText_def int_text_def dest: nat_text_inject)


section \<open>One answer for every call\<close>

text \<open>The answers a worker has posted for an identifier, and the calls it still owes an answer.\<close>

definition tally :: "MessageId \<Rightarrow> Worker \<Rightarrow> nat" where
  "tally m ws = length (filter (\<lambda>x. field ''id'' x = idObject m) (posted ws)) + length (filter (\<lambda>c. w_id c = m) (pendingCalls ws))"

lemma tally_postReturn [simp]: "tally m (postReturn k ok v ws) = tally m ws + (if k = m then 1 else 0)"
  by (simp add: tally_def postReturn_def)

lemma tally_apply [simp]: "tally m (w_apply env c ws) = tally m ws + (if w_id c = m then 1 else 0)"
  by (cases "we_throws env c") (simp_all add: w_apply_def, simp add: tally_def)

lemma tally_grantAll [simp]: "tally m (grantAll ps ws) = tally m ws"
  by (simp add: tally_def grantAll_def)

lemma tally_wrapped [simp]: "tally m (ws\<lparr>wrapped := x\<rparr>) = tally m ws"
  by (simp add: tally_def)

lemma tally_convert: "convert cv v ws = (v', ws') \<Longrightarrow> tally m ws' = tally m ws"
  by (auto simp: convert_def tally_def split: conv.splits)

lemma tally_settle:
  assumes "i < length (pendingCalls ws)"
  shows "tally m (w_settle i result ws) = tally m ws"
proof -
  let ?P = "pendingCalls ws" and ?ws = "ws\<lparr>pendingCalls := take i (pendingCalls ws) @ drop (Suc i) (pendingCalls ws)\<rparr>"
  have "filter (\<lambda>c. w_id c = m) ?P = filter (\<lambda>c. w_id c = m) (take i ?P @ ?P ! i # drop (Suc i) ?P)"
    using id_take_nth_drop [OF assms] by simp
  then have t: "tally m ws = tally m ?ws + (if w_id (?P ! i) = m then 1 else 0)" by (simp add: tally_def)
  show ?thesis
  proof (cases result)
    case (Inr v)
    obtain v' ws2 where c: "convert (w_conv (?P ! i)) v ?ws = (v', ws2)" by (cases "convert (w_conv (?P ! i)) v ?ws")
    with Inr t tally_convert [OF c, of m] show ?thesis by (simp add: w_settle_def)
  qed (use t in \<open>simp add: w_settle_def\<close>)
qed

lemma posted_forms:
  "posted (postReturn k ok v ws) = posted ws @ [messageObject k (returnObject \<lparr>success = WBool ok, retValue = v\<rparr>)]"
  "posted (grantAll ps ws) = posted ws" "posted (ws\<lparr>wrapped := x\<rparr>) = posted ws"
  "granted (postReturn k ok v ws) = granted ws" "granted (ws\<lparr>wrapped := x\<rparr>) = granted ws"
  "pendingCalls (postReturn k ok v ws) = pendingCalls ws" "pendingCalls (grantAll ps ws) = pendingCalls ws"
  by (simp_all add: postReturn_def grantAll_def)

text \<open>A worker whose answers and calls all carry identifiers of a given set, as do the callbacks it holds.\<close>

definition worker_ids :: "MessageId set \<Rightarrow> MessageId set \<Rightarrow> Worker \<Rightarrow> bool" where
  "worker_ids C S ws \<longleftrightarrow> (\<forall>x \<in> set (posted ws). \<exists>m r. x = messageObject m (returnObject r) \<and> m \<in> C \<union> S)
     \<and> (\<forall>c \<in> set (pendingCalls ws). w_id c \<in> C) \<and> set (granted ws) \<subseteq> S"

lemma worker_ids_postReturn: "worker_ids C S ws \<Longrightarrow> k \<in> C \<union> S \<Longrightarrow> worker_ids C S (postReturn k ok v ws)"
  by (auto simp: worker_ids_def posted_forms)

lemma worker_ids_apply: "worker_ids C S ws \<Longrightarrow> w_id c \<in> C \<Longrightarrow> worker_ids C S (w_apply env c ws)"
  by (auto simp: w_apply_def intro: worker_ids_postReturn split: option.split) (auto simp: worker_ids_def)

lemma worker_ids_wrapped: "worker_ids C S ws \<Longrightarrow> worker_ids C S (ws\<lparr>wrapped := x\<rparr>)"
  by (auto simp: worker_ids_def)

lemma worker_ids_mono: "worker_ids C S ws \<Longrightarrow> C \<subseteq> C' \<Longrightarrow> S \<subseteq> S' \<Longrightarrow> worker_ids C' S' ws"
  unfolding worker_ids_def by blast

lemma worker_ids_convert: "convert cv v ws = (v', ws') \<Longrightarrow> worker_ids C S ws \<Longrightarrow> worker_ids C S ws'"
  by (auto simp: convert_def worker_ids_def split: conv.splits)

lemma worker_ids_settle:
  assumes "worker_ids C S ws" "i < length (pendingCalls ws)"
  shows "worker_ids C S (w_settle i result ws)"
proof -
  let ?ws = "ws\<lparr>pendingCalls := take i (pendingCalls ws) @ drop (Suc i) (pendingCalls ws)\<rparr>"
  have k: "w_id (pendingCalls ws ! i) \<in> C" using assms by (simp add: worker_ids_def)
  have w: "worker_ids C S ?ws" using assms(1) by (auto simp: worker_ids_def dest: in_set_takeD in_set_dropD)
  show ?thesis
  proof (cases result)
    case (Inr v)
    obtain v' ws2 where c: "convert (w_conv (pendingCalls ws ! i)) v ?ws = (v', ws2)"
      by (cases "convert (w_conv (pendingCalls ws ! i)) v ?ws")
    with Inr show ?thesis using worker_ids_convert [OF c w] k by (simp add: w_settle_def worker_ids_postReturn)
  qed (use w k in \<open>simp add: w_settle_def worker_ids_postReturn\<close>)
qed

text \<open>The parameters of a message: identifiers of subscriptions, and values that are none.\<close>

definition param_wire :: "MessageId set \<Rightarrow> wval \<Rightarrow> bool" where
  "param_wire S p \<longleftrightarrow> \<not> isObject p \<or> (\<exists>m \<in> S. p = idObject m) \<or> MessageId_as p = Inr None"

lemma MessageId_as_idObject [simp]: "MessageId_as (idObject m) = Inr (Some m)"
  by (simp add: idObject_def MessageId_as_def inOp_def field_def)

lemma mapParams_wire:
  "list_all (param_wire S) ps \<Longrightarrow> \<exists>qs. mapParams ps = Inr qs \<and> (\<forall>m. Callback m \<in> set qs \<longrightarrow> m \<in> S)"
proof (induction ps)
  case (Cons p ps)
  then obtain qs where qs: "mapParams ps = Inr qs" "\<forall>m. Callback m \<in> set qs \<longrightarrow> m \<in> S" by auto
  from Cons.prems have "param_wire S p" by simp
  then consider "\<not> isObject p" | m where "m \<in> S" "p = idObject m" | "MessageId_as p = Inr None" by (auto simp: param_wire_def)
  then show ?case
  proof cases
    case 2
    moreover have "isObject (idObject m)" by (simp add: isObject_def idObject_def)
    ultimately show ?thesis using qs by auto
  qed (use qs in auto)
qed simp

lemma worker_ids_grantAll:
  "worker_ids C S ws \<Longrightarrow> (\<forall>m. Callback m \<in> set qs \<longrightarrow> m \<in> S) \<Longrightarrow> worker_ids C S (grantAll qs ws)"
  by (auto simp: worker_ids_def grantAll_def List.map_filter_def split: wparam.splits)

lemma onFunction_answers:
  assumes "worker_ids C S ws" "m \<in> C" "list_all (param_wire S) ps"
  shows "\<exists>ws'. onFunction env m \<lparr>f_fn = f, f_parameters = WArr ps, f_wrap = wr\<rparr> ws = (Inr (), ws') \<and> worker_ids C S ws'
     \<and> (\<forall>k. tally k ws' = tally k ws + (if m = k then 1 else 0))"
proof -
  obtain qs where q: "mapParams ps = Inr qs" "\<forall>k. Callback k \<in> set qs \<longrightarrow> k \<in> S" using mapParams_wire [OF assms(3)] by blast
  have g: "worker_ids C S (grantAll qs ws)" using worker_ids_grantAll [OF assms(1) q(2)] .
  then show ?thesis using q(1) assms(2)
    by (auto simp: onFunction_def parametersOf_def Let_def intro!: worker_ids_postReturn worker_ids_apply split: option.split)
qed

lemma onCaller_answers:
  assumes "worker_ids C S ws" "m \<in> C" "list_all (param_wire S) ps"
  shows "\<exists>r ws'. onCaller env m \<lparr>c_wrapped = wr, c_fn = f, c_parameters = WArr ps, c_remove = rm\<rparr> ws = (r, ws') \<and> worker_ids C S ws'
     \<and> (\<forall>k. tally k ws' = tally k ws + (if m = k \<and> r = Inr () then 1 else 0))"
proof -
  obtain qs where q: "mapParams ps = Inr qs" "\<forall>k. Callback k \<in> set qs \<longrightarrow> k \<in> S" using mapParams_wire [OF assms(3)] by blast
  have g: "worker_ids C S (grantAll qs ws)" using worker_ids_grantAll [OF assms(1) q(2)] .
  then show ?thesis using q(1) assms(2)
    by (auto simp: onCaller_def parametersOf_def Let_def intro!: worker_ids_postReturn worker_ids_apply worker_ids_wrapped split: option.split)
qed


section \<open>The two sides together\<close>

text \<open>
  A caller and its worker with the messages between them, delivered in order. The history of the calls
  (promise, number of the message, request) and of the answers that were received is kept beside them.
\<close>

record rpc =
  rc :: PromiseWorker
  rw :: Worker
  issued :: "(nat \<times> nat \<times> request) list"
  received :: "(MessageId \<times> Return) list"

text \<open>A parameter that cannot be taken for a subscription: no null, and no object with the fields of an identifier.\<close>

definition plain_param :: "wval \<Rightarrow> bool" where
  "plain_param p \<longleftrightarrow> \<not> isObject p \<or> MessageId_as p = Inr None"

inductive rpc_step :: "workerEnv \<Rightarrow> rpc \<Rightarrow> rpc \<Rightarrow> bool" for env where
  Call: "list_all plain_param params \<Longrightarrow> pw_post r params (rc s) = (sender, pw1) \<Longrightarrow> cloneable (s_payload sender) \<Longrightarrow>
    pw_send sender pw1 = (p, pw2) \<Longrightarrow>
    rpc_step env s (s\<lparr>rc := pw2, issued := issued s @ [(p, lastId (rc s) + 1, r)]\<rparr>)"
| Deliver: "sentMessages (rc s) = x # xs \<Longrightarrow> onWorkerMessage env x (rw s) = (res, ws) \<Longrightarrow>
    rpc_step env s (s\<lparr>rc := (rc s)\<lparr>sentMessages := xs\<rparr>, rw := ws\<rparr>)"
| Settle: "i < length (pendingCalls (rw s)) \<Longrightarrow> rpc_step env s (s\<lparr>rw := w_settle i result (rw s)\<rparr>)"
| Callback: "sid \<in> set (granted (rw s)) \<Longrightarrow> rpc_step env s (s\<lparr>rw := w_callback sid args (rw s)\<rparr>)"
| Receive: "posted (rw s) = messageObject m (returnObject r) # xs \<Longrightarrow> pw_onMessage (messageObject m (returnObject r)) (rc s) = (res, pw) \<Longrightarrow>
    rpc_step env s (s\<lparr>rc := pw, rw := (rw s)\<lparr>posted := xs\<rparr>, received := received s @ [(m, r)]\<rparr>)"
| Close: "rpc_step env s (s\<lparr>rc := pw_close sender (rc s)\<rparr>)"

definition rpc_start :: "nat \<Rightarrow> rpc" where
  "rpc_start src = \<lparr>rc = newPromiseWorker src, rw = \<lparr>runner = WUndef, wrappedId = 0, wrapped = [], pendingCalls = [], posted = [], granted = []\<rparr>,
     issued = [], received = []\<rparr>"

inductive rpc_reachable :: "workerEnv \<Rightarrow> nat \<Rightarrow> rpc \<Rightarrow> bool" for env src where
  start: "rpc_reachable env src (rpc_start src)"
| step: "rpc_reachable env src s \<Longrightarrow> rpc_step env s s' \<Longrightarrow> rpc_reachable env src s'"

definition callNumbers :: "rpc \<Rightarrow> nat list" where
  "callNumbers s = map (\<lambda>(p, n, r). n) (issued s)"

definition callIds :: "rpc \<Rightarrow> MessageId set" where
  "callIds s = mid (pw_source (rc s)) ` set (callNumbers s)"

definition subIds :: "rpc \<Rightarrow> MessageId set" where
  "subIds s = {mid (pw_source (rc s)) n |n. n \<le> lastId (rc s) \<and> n \<notin> set (callNumbers s)}"

text \<open>What is under way for a call: its message, the call, or the answer.\<close>

definition underway :: "rpc \<Rightarrow> nat \<Rightarrow> nat" where
  "underway s n = length (filter (\<lambda>x. field ''id'' x = idObject (mid (pw_source (rc s)) n)) (sentMessages (rc s)))
     + tally (mid (pw_source (rc s)) n) (rw s)"

definition awaited :: "rpc \<Rightarrow> nat \<Rightarrow> nat option" where
  "awaited s n = map_of (callbacks (rc s)) (asKey (mid (pw_source (rc s)) n))"

definition numbers_ok :: "rpc \<Rightarrow> bool" where
  "numbers_ok s \<longleftrightarrow> map fst (issued s) = [0..<promiseCount (rc s)] \<and> distinct (callNumbers s) \<and> (\<forall>n \<in> set (callNumbers s). n \<le> lastId (rc s))"

definition wire_ok :: "rpc \<Rightarrow> bool" where
  "wire_ok s \<longleftrightarrow> worker_ids (callIds s) (subIds s) (rw s)
     \<and> (\<forall>x \<in> set (sentMessages (rc s)). \<exists>p n r ps. x = messageObject (mid (pw_source (rc s)) n) (requestObject r ps)
          \<and> (p, n, r) \<in> set (issued s) \<and> list_all (param_wire (subIds s)) ps)"

definition answers_ok :: "rpc \<Rightarrow> bool" where
  "answers_ok s \<longleftrightarrow> (\<forall>(p, n, r) \<in> set (issued s). underway s n \<le> 1 \<and> (underway s n = 1 \<longrightarrow> awaited s n = Some p)
     \<and> (awaited s n = Some p \<longrightarrow> (\<exists>f wr. r = CallFunction f wr) \<longrightarrow> underway s n = 1))"

definition promises_ok :: "rpc \<Rightarrow> bool" where
  "promises_ok s \<longleftrightarrow> (\<forall>k p. map_of (callbacks (rc s)) k = Some p \<longrightarrow> (\<exists>n r. k = asKey (mid (pw_source (rc s)) n) \<and> (p, n, r) \<in> set (issued s)))
     \<and> distinct (map fst (settledPromises (rc s)))
     \<and> (\<forall>(p, x) \<in> set (settledPromises (rc s)). \<exists>n r v. (p, n, r) \<in> set (issued s) \<and> awaited s n = None
          \<and> (mid (pw_source (rc s)) n, v) \<in> set (received s) \<and> x = outcomeOf v)
     \<and> (\<forall>(p, n, r) \<in> set (issued s). awaited s n = None \<longrightarrow> p \<in> fst ` set (settledPromises (rc s)))"

definition rpc_inv :: "rpc \<Rightarrow> bool" where
  "rpc_inv s \<longleftrightarrow> numbers_ok s \<and> wire_ok s \<and> answers_ok s \<and> promises_ok s"

lemma rpc_inv_start: "rpc_inv (rpc_start src)"
  by (simp add: rpc_inv_def numbers_ok_def wire_ok_def answers_ok_def promises_ok_def callNumbers_def rpc_start_def newPromiseWorker_def
      worker_ids_def awaited_def)

text \<open>Steps that only move a message or change the worker: same caller, same promises.\<close>

lemma issued_unique: "numbers_ok s \<Longrightarrow> (p, n, r) \<in> set (issued s) \<Longrightarrow> (p', n, r') \<in> set (issued s) \<Longrightarrow> p = p' \<and> r = r'"
  unfolding numbers_ok_def callNumbers_def by (auto simp: distinct_map inj_on_def)

lemma issued_promise_unique: "numbers_ok s \<Longrightarrow> (p, n, r) \<in> set (issued s) \<Longrightarrow> (p, n', r') \<in> set (issued s) \<Longrightarrow> n = n' \<and> r = r'"
proof -
  assume "numbers_ok s" and a: "(p, n, r) \<in> set (issued s)" "(p, n', r') \<in> set (issued s)"
  then have "distinct (map fst (issued s))" by (simp add: numbers_ok_def)
  then have "inj_on fst (set (issued s))" by (simp add: distinct_map)
  from inj_onD [OF this _ a] show ?thesis by simp
qed

lemma sub_not_call: "m \<in> subIds s \<Longrightarrow> m \<notin> callIds s"
  by (auto simp: subIds_def callIds_def)


lemma sub_below: "m \<in> subIds s \<Longrightarrow> \<exists>n \<le> lastId (rc s). m = mid (pw_source (rc s)) n"
  by (auto simp: subIds_def)

lemma call_below: "numbers_ok s \<Longrightarrow> m \<in> callIds s \<Longrightarrow> \<exists>n \<le> lastId (rc s). m = mid (pw_source (rc s)) n"
  by (auto simp: callIds_def numbers_ok_def)

text \<open>A call: the parameters are posted as they are or as fresh identifiers.\<close>

lemma postParams_effect:
  assumes "postParams params pw = (qs, keys, pw')"
  shows "lastId pw \<le> lastId pw' \<and> pw' = pw\<lparr>lastId := lastId pw', subscriptions := subscriptions pw'\<rparr>
    \<and> (list_all plain_param params \<longrightarrow> list_all (param_wire {mid (pw_source pw) k |k. lastId pw < k \<and> k \<le> lastId pw'}) qs)"
  using assms
proof (induction params arbitrary: pw qs keys pw')
  case (Cons p ps)
  show ?case
  proof (cases "\<exists>f. p = WFun f")
    case True
    then obtain f where p: "p = WFun f" by blast
    define pw1 where "pw1 = pw\<lparr>lastId := lastId pw + 1, subscriptions := amap_set (asKey (mid (pw_source pw) (lastId pw + 1))) f (subscriptions pw)\<rparr>"
    obtain qs2 keys2 pw2 where e: "postParams ps pw1 = (qs2, keys2, pw2)" by (cases "postParams ps pw1")
    from Cons.prems p e have q: "qs = idObject (mid (pw_source pw) (lastId pw + 1)) # qs2" "pw' = pw2"
      by (auto simp: nextMessageId_def mid_def pw1_def)
    note IH = Cons.IH [OF e]
    have le: "lastId pw + 1 \<le> lastId pw2" using IH by (simp add: pw1_def)
    have "pw2 = pw\<lparr>lastId := lastId pw2, subscriptions := subscriptions pw2\<rparr>" using IH by (simp add: pw1_def)
    moreover have "list_all plain_param ps \<longrightarrow> list_all (param_wire {mid (pw_source pw) k |k. lastId pw < k \<and> k \<le> lastId pw2}) qs2"
      using IH by (auto simp: pw1_def list_all_iff param_wire_def; force)
    moreover have "param_wire {mid (pw_source pw) k |k. lastId pw < k \<and> k \<le> lastId pw2} (idObject (mid (pw_source pw) (lastId pw + 1)))"
      using le by (auto simp: param_wire_def)
    ultimately show ?thesis using q le by simp
  next
    case False
    obtain qs2 keys2 pw2 where e: "postParams ps pw = (qs2, keys2, pw2)" by (cases "postParams ps pw")
    with Cons.prems False have "qs = p # qs2" "pw' = pw2" by (cases p; simp)+
    then show ?thesis using Cons.IH [OF e] by (auto simp: plain_param_def param_wire_def)
  qed
qed simp

lemma fresh_underway:
  assumes "rpc_inv s" shows "underway s (Suc (lastId (rc s))) = 0"
proof -
  let ?m = "mid (pw_source (rc s)) (Suc (lastId (rc s)))"
  have n: "numbers_ok s" and w: "wire_ok s" using assms by (simp_all add: rpc_inv_def)
  have nf: "?m \<notin> callIds s \<union> subIds s" using call_below [OF n] sub_below by fastforce
  have "\<forall>x \<in> set (sentMessages (rc s)). field ''id'' x \<noteq> idObject ?m"
  proof
    fix x assume "x \<in> set (sentMessages (rc s))"
    with w obtain p k r ps where "x = messageObject (mid (pw_source (rc s)) k) (requestObject r ps)" "(p, k, r) \<in> set (issued s)"
      unfolding wire_ok_def by blast
    moreover have "k \<le> lastId (rc s)" using calculation(2) n by (force simp: numbers_ok_def callNumbers_def)
    ultimately show "field ''id'' x \<noteq> idObject ?m" by simp
  qed
  moreover have "\<forall>x \<in> set (posted (rw s)). field ''id'' x \<noteq> idObject ?m"
    using w nf by (fastforce simp: wire_ok_def worker_ids_def)
  moreover have "\<forall>c \<in> set (pendingCalls (rw s)). w_id c \<noteq> ?m" using w nf by (auto simp: wire_ok_def worker_ids_def)
  ultimately show ?thesis by (simp add: underway_def tally_def)
qed


lemma rpc_inv_worker:
  fixes s s' :: rpc
  assumes "rpc_inv s"
    and s': "s' = s\<lparr>rc := (rc s)\<lparr>sentMessages := xs\<rparr>, rw := ws\<rparr>" "set xs \<subseteq> set (sentMessages (rc s))"
    and w: "worker_ids (callIds s) (subIds s) ws"
    and u: "\<And>p n r. (p, n, r) \<in> set (issued s) \<Longrightarrow> underway s' n = underway s n
      \<or> underway s' n < underway s n \<and> (\<nexists>f wr. r = CallFunction f wr)"
  shows "rpc_inv s'"
proof -
  have eq: "callIds s' = callIds s" "subIds s' = subIds s" "callNumbers s' = callNumbers s" "awaited s' = awaited s" "issued s' = issued s"
    "received s' = received s"
    using s'(1) by (auto simp: callIds_def subIds_def callNumbers_def awaited_def fun_eq_iff)
  have n: "numbers_ok s'" using assms(1) eq s'(1) by (simp add: rpc_inv_def numbers_ok_def)
  have "wire_ok s" using assms(1) by (simp add: rpc_inv_def)
  then have wi: "wire_ok s'" using w eq s' by (simp add: wire_ok_def subset_iff)
  have p: "promises_ok s'" using assms(1) eq s'(1) by (simp add: rpc_inv_def promises_ok_def)
  have a: "answers_ok s" using assms(1) by (simp add: rpc_inv_def)
  have "answers_ok s'" unfolding answers_ok_def
  proof (unfold eq, intro ballI, unfold split_paired_all prod.case)
    fix p k r assume i: "(p, k, r) \<in> set (issued s)"
    with a have b: "underway s k \<le> 1" "underway s k = 1 \<longrightarrow> awaited s k = Some p"
      "awaited s k = Some p \<longrightarrow> (\<exists>f wr. r = CallFunction f wr) \<longrightarrow> underway s k = 1" unfolding answers_ok_def by blast+
    from u [OF i] show "underway s' k \<le> 1 \<and> (underway s' k = 1 \<longrightarrow> awaited s k = Some p)
       \<and> (awaited s k = Some p \<longrightarrow> (\<exists>f wr. r = CallFunction f wr) \<longrightarrow> underway s' k = 1)"
    proof
      assume "underway s' k < underway s k \<and> (\<nexists>f wr. r = CallFunction f wr)"
      moreover from this b(1) have "underway s' k = 0" by simp
      ultimately show ?thesis by simp
    qed (use b in simp)
  qed
  with n wi p show ?thesis by (simp add: rpc_inv_def)
qed

lemma rpc_inv_deliver:
  assumes i: "rpc_inv s" and x: "sentMessages (rc s) = x # xs" and o: "onWorkerMessage env x (rw s) = (res, ws)"
  shows "rpc_inv (s\<lparr>rc := (rc s)\<lparr>sentMessages := xs\<rparr>, rw := ws\<rparr>)"
proof -
  let ?src = "pw_source (rc s)"
  have wi: "wire_ok s" and nb: "numbers_ok s" using i by (simp_all add: rpc_inv_def)
  then have w: "worker_ids (callIds s) (subIds s) (rw s)" by (simp add: wire_ok_def)
  from wi x obtain p n r ps where m: "x = messageObject (mid ?src n) (requestObject r ps)" "(p, n, r) \<in> set (issued s)"
    "list_all (param_wire (subIds s)) ps" unfolding wire_ok_def by fastforce
  have c: "mid ?src n \<in> callIds s" using m(2) by (force simp: callIds_def callNumbers_def)
  have "worker_ids (callIds s) (subIds s) ws \<and> (\<forall>k. tally k ws = tally k (rw s) + (if mid ?src n = k \<and> ((\<exists>f wr. r = CallFunction f wr) \<or> res = Inr ()) then 1 else 0))"
  proof (cases r)
    case (CallFunction f wr)
    obtain ws' where f: "onFunction env (mid ?src n) \<lparr>f_fn = WStr f, f_parameters = WArr ps, f_wrap = wr\<rparr> (rw s) = (Inr (), ws')"
      "worker_ids (callIds s) (subIds s) ws'" "\<forall>k. tally k ws' = tally k (rw s) + (if mid ?src n = k then 1 else 0)"
      using onFunction_answers [OF w c m(3)] by blast
    have "onWorkerMessage env x (rw s) = onFunction env (mid ?src n) \<lparr>f_fn = WStr f, f_parameters = WArr ps, f_wrap = wr\<rparr> (rw s)"
      unfolding m(1) CallFunction requestObject_def by (simp add: onWorkerMessage_def Message_convert_message)
    with f o CallFunction show ?thesis by simp
  next
    case (CallWrapped v f rm)
    obtain res' ws' where f: "onCaller env (mid ?src n) \<lparr>c_wrapped = v, c_fn = WStr f, c_parameters = WArr ps, c_remove = WBool rm\<rparr> (rw s) = (res', ws')"
      "worker_ids (callIds s) (subIds s) ws'" "\<forall>k. tally k ws' = tally k (rw s) + (if mid ?src n = k \<and> res' = Inr () then 1 else 0)"
      using onCaller_answers [OF w c m(3)] by blast
    have "onWorkerMessage env x (rw s) = onCaller env (mid ?src n) \<lparr>c_wrapped = v, c_fn = WStr f, c_parameters = WArr ps, c_remove = WBool rm\<rparr> (rw s)"
      unfolding m(1) CallWrapped requestObject_def by (simp add: onWorkerMessage_def Message_convert_message)
    with f o CallWrapped show ?thesis by simp
  qed
  then have w': "worker_ids (callIds s) (subIds s) ws"
    and t: "\<And>k. tally k ws = tally k (rw s) + (if mid ?src n = k \<and> ((\<exists>f wr. r = CallFunction f wr) \<or> res = Inr ()) then 1 else 0)" by blast+
  show ?thesis
  proof (rule rpc_inv_worker [OF i refl _ w'])
    fix p' k r' assume a: "(p', k, r') \<in> set (issued s)"
    show "underway (s\<lparr>rc := (rc s)\<lparr>sentMessages := xs\<rparr>, rw := ws\<rparr>) k = underway s k
      \<or> underway (s\<lparr>rc := (rc s)\<lparr>sentMessages := xs\<rparr>, rw := ws\<rparr>) k < underway s k \<and> (\<nexists>f wr. r' = CallFunction f wr)"
    proof (cases "k = n")
      case True
      with a m(2) issued_unique [OF nb] have "r' = r" by blast
      with True show ?thesis by (simp add: underway_def x m(1) t)
    next
      case False then show ?thesis by (simp add: underway_def x m(1) t)
    qed
  qed (use x in auto)
qed

lemma rpc_inv_settle: "rpc_inv s \<Longrightarrow> i < length (pendingCalls (rw s)) \<Longrightarrow> rpc_inv (s\<lparr>rw := w_settle i result (rw s)\<rparr>)"
  by (rule rpc_inv_worker [where s = s and xs = "sentMessages (rc s)" and ws = "w_settle i result (rw s)"])
    (simp_all add: rpc_inv_def wire_ok_def worker_ids_settle underway_def tally_settle)

lemma rpc_inv_callback:
  assumes "rpc_inv s" "sid \<in> set (granted (rw s))" shows "rpc_inv (s\<lparr>rw := w_callback sid args (rw s)\<rparr>)"
proof -
  have w: "worker_ids (callIds s) (subIds s) (rw s)" using assms(1) by (simp add: rpc_inv_def wire_ok_def)
  then have sid: "sid \<in> subIds s" using assms(2) by (auto simp: worker_ids_def)
  have "\<And>p n r. (p, n, r) \<in> set (issued s) \<Longrightarrow> sid \<noteq> mid (pw_source (rc s)) n"
    using sub_not_call [OF sid] by (force simp: callIds_def callNumbers_def)
  then have u: "(p, n, r) \<in> set (issued s) \<Longrightarrow> underway (s\<lparr>rw := w_callback sid args (rw s)\<rparr>) n = underway s n" for p n r
    by (simp add: w_callback_def underway_def)
  show ?thesis
  proof (rule rpc_inv_worker [OF assms(1), where xs = "sentMessages (rc s)" and ws = "w_callback sid args (rw s)"])
    show "worker_ids (callIds s) (subIds s) (w_callback sid args (rw s))" using w sid by (simp add: w_callback_def worker_ids_postReturn)
  qed (use u in simp_all)
qed


text \<open>An answer is received: it settles the promise of its call, or calls a subscribed function.\<close>

lemma pw_onMessage_answer:
  "pw_onMessage (messageObject m (returnObject v)) pw =
     (case map_of (callbacks pw) (asKey m) of
        Some p \<Rightarrow> (Inr (), pw\<lparr>callbacks := amap_del (asKey m) (callbacks pw), settledPromises := settledPromises pw @ [(p, outcomeOf v)]\<rparr>)
      | None \<Rightarrow> (case map_of (subscriptions pw) (asKey m) of
          Some f \<Rightarrow> (Inr (), pw\<lparr>calledBack := calledBack pw @ [(f, retValue v)]\<rparr>)
        | None \<Rightarrow> (Inl (case retValue v of WError m \<Rightarrow> JSError m | _ \<Rightarrow> err ''Return with no callback''), pw)))"
  by (simp add: pw_onMessage_def Message_convert_message)

lemma worker_ids_tl: "worker_ids C S ws \<Longrightarrow> posted ws = x # xs \<Longrightarrow> worker_ids C S (ws\<lparr>posted := xs\<rparr>)"
  by (simp add: worker_ids_def)

text \<open>Steps of the caller that keep the promises: only subscriptions and calls of functions change.\<close>

lemma rpc_inv_caller:
  assumes "rpc_inv s" "callbacks pw = callbacks (rc s)" "settledPromises pw = settledPromises (rc s)" "lastId pw = lastId (rc s)"
    "pw_source pw = pw_source (rc s)" "sentMessages pw = sentMessages (rc s)" "promiseCount pw = promiseCount (rc s)" "set (received s) \<subseteq> set rs"
  shows "rpc_inv (s\<lparr>rc := pw, received := rs\<rparr>)"
proof -
  let ?s = "s\<lparr>rc := pw, received := rs\<rparr>"
  have eq: "callIds ?s = callIds s" "subIds ?s = subIds s" "callNumbers ?s = callNumbers s" "awaited ?s = awaited s" "underway ?s = underway s"
    using assms by (auto simp: callIds_def subIds_def callNumbers_def awaited_def underway_def fun_eq_iff)
  have "numbers_ok ?s" using assms eq by (simp add: rpc_inv_def numbers_ok_def)
  moreover have "wire_ok ?s" using assms eq by (simp add: rpc_inv_def wire_ok_def)
  moreover have "answers_ok ?s" using assms eq by (simp add: rpc_inv_def answers_ok_def)
  moreover have "promises_ok ?s"
  proof -
    have p: "promises_ok s" using assms(1) by (simp add: rpc_inv_def)
    have f: "rc ?s = pw" "issued ?s = issued s" "received ?s = rs" by simp_all
    show ?thesis unfolding promises_ok_def eq f assms(2,3,5) using p [unfolded promises_ok_def] assms(8) by blast
  qed
  ultimately show ?thesis by (simp add: rpc_inv_def)
qed

lemma rpc_inv_close: "rpc_inv s \<Longrightarrow> rpc_inv (s\<lparr>rc := pw_close sender (rc s)\<rparr>)"
  using rpc_inv_caller [of s "pw_close sender (rc s)" "received s"] by (simp add: pw_close_def)

lemma rpc_inv_receive_sub:
  assumes i: "rpc_inv s" and x: "posted (rw s) = messageObject m (returnObject v) # xs" and m: "m \<in> subIds s"
    and o: "pw_onMessage (messageObject m (returnObject v)) (rc s) = (res, pw)"
  shows "rpc_inv (s\<lparr>rc := pw, rw := (rw s)\<lparr>posted := xs\<rparr>, received := received s @ [(m, v)]\<rparr>)"
proof -
  let ?w = "(rw s)\<lparr>posted := xs\<rparr>"
  have p: "promises_ok s" and w: "worker_ids (callIds s) (subIds s) (rw s)" using i by (simp_all add: rpc_inv_def wire_ok_def)
  have nc: "(p, n, r) \<in> set (issued s) \<Longrightarrow> m \<noteq> mid (pw_source (rc s)) n" for p n r
    using sub_not_call [OF m] by (force simp: callIds_def callNumbers_def)
  have "map_of (callbacks (rc s)) (asKey m) = None"
  proof (rule ccontr)
    assume "map_of (callbacks (rc s)) (asKey m) \<noteq> None"
    then obtain p n r where "asKey m = asKey (mid (pw_source (rc s)) n)" "(p, n, r) \<in> set (issued s)"
      using p unfolding promises_ok_def by blast
    with nc sub_below [OF m] show False by auto
  qed
  with o have pw: "callbacks pw = callbacks (rc s)" "settledPromises pw = settledPromises (rc s)" "lastId pw = lastId (rc s)"
    "pw_source pw = pw_source (rc s)" "sentMessages pw = sentMessages (rc s)" "promiseCount pw = promiseCount (rc s)"
    by (auto simp: pw_onMessage_answer split: option.splits)
  have "rpc_inv (s\<lparr>rw := ?w\<rparr>)"
  proof (rule rpc_inv_worker [OF i, where xs = "sentMessages (rc s)" and ws = ?w])
    show "worker_ids (callIds s) (subIds s) ?w" using worker_ids_tl [OF w x] .
  qed (use x nc in \<open>auto simp: underway_def tally_def\<close>)
  from rpc_inv_caller [OF this, of pw "received s @ [(m, v)]"] pw
  have "rpc_inv (s\<lparr>rw := ?w, rc := pw, received := received s @ [(m, v)]\<rparr>)" by force
  moreover have "s\<lparr>rw := ?w, rc := pw, received := received s @ [(m, v)]\<rparr> = s\<lparr>rc := pw, rw := ?w, received := received s @ [(m, v)]\<rparr>"
    by (rule rpc.equality) simp_all
  ultimately show ?thesis by simp
qed


lemma settled_answer:
  "promises_ok s \<Longrightarrow> (q, y) \<in> set (settledPromises (rc s)) \<Longrightarrow> \<exists>m r z. (q, m, r) \<in> set (issued s) \<and> awaited s m = None
     \<and> (mid (pw_source (rc s)) m, z) \<in> set (received s) \<and> y = outcomeOf z"
  unfolding promises_ok_def by fastforce

lemma unawaited_settled:
  "promises_ok s \<Longrightarrow> (q, m, t) \<in> set (issued s) \<Longrightarrow> awaited s m = None \<Longrightarrow> q \<in> fst ` set (settledPromises (rc s))"
  unfolding promises_ok_def by fastforce

lemma rpc_inv_receive_call:
  assumes i: "rpc_inv s" and x: "posted (rw s) = messageObject (mid (pw_source (rc s)) n) (returnObject v) # xs"
    and c: "(p, n, r) \<in> set (issued s)"
    and o: "pw_onMessage (messageObject (mid (pw_source (rc s)) n) (returnObject v)) (rc s) = (res, pw)"
  shows "rpc_inv (s\<lparr>rc := pw, rw := (rw s)\<lparr>posted := xs\<rparr>, received := received s @ [(mid (pw_source (rc s)) n, v)]\<rparr>)" (is "rpc_inv ?s")
proof -
  let ?src = "pw_source (rc s)" and ?w = "(rw s)\<lparr>posted := xs\<rparr>"
  have p: "promises_ok s" and w: "worker_ids (callIds s) (subIds s) (rw s)" and nb: "numbers_ok s" and a: "answers_ok s" and wi: "wire_ok s"
    using i by (simp_all add: rpc_inv_def wire_ok_def)
  have "underway s n \<ge> 1" by (simp add: underway_def tally_def x)
  with a c have u1: "underway s n = 1" and aw: "awaited s n = Some p" unfolding answers_ok_def by fastforce+
  from aw o have pw: "pw = (rc s)\<lparr>callbacks := amap_del (asKey (mid ?src n)) (callbacks (rc s)), settledPromises := settledPromises (rc s) @ [(p, outcomeOf v)]\<rparr>"
    by (simp add: pw_onMessage_answer awaited_def)
  have eq: "callIds ?s = callIds s" "subIds ?s = subIds s" "callNumbers ?s = callNumbers s"
    "awaited ?s k = (if k = n then None else awaited s k)" "underway ?s k = (if k = n then 0 else underway s k)" for k
    using u1 by (auto simp: pw callIds_def subIds_def callNumbers_def awaited_def underway_def tally_def x)
  have f: "rc ?s = pw" "issued ?s = issued s" "received ?s = received s @ [(mid ?src n, v)]" "rw ?s = ?w" by simp_all
  have ps: "callbacks pw = amap_del (asKey (mid ?src n)) (callbacks (rc s))" "settledPromises pw = settledPromises (rc s) @ [(p, outcomeOf v)]"
    "pw_source pw = ?src" by (simp_all add: pw)
  have n': "numbers_ok ?s" using nb eq(3) by (simp add: numbers_ok_def pw)
  have wi': "wire_ok ?s" using wi worker_ids_tl [OF w x] unfolding wire_ok_def eq(1-3) f by (simp add: pw)
  have a': "answers_ok ?s" using a issued_unique [OF nb c] unfolding answers_ok_def f eq by fastforce
  have fresh: "p \<notin> fst ` set (settledPromises (rc s))"
  proof
    assume "p \<in> fst ` set (settledPromises (rc s))"
    then obtain n' r' where "(p, n', r') \<in> set (issued s)" "awaited s n' = None" using p unfolding promises_ok_def by fastforce
    with issued_promise_unique [OF nb c] aw show False by auto
  qed
  have "promises_ok ?s" unfolding promises_ok_def f ps
  proof (intro conjI)
    show "\<forall>k q. map_of (amap_del (asKey (mid ?src n)) (callbacks (rc s))) k = Some q \<longrightarrow> (\<exists>m r. k = asKey (mid ?src m) \<and> (q, m, r) \<in> set (issued s))"
      using p unfolding promises_ok_def by (simp split: if_splits)
    show "distinct (map fst (settledPromises (rc s) @ [(p, outcomeOf v)]))" using p fresh unfolding promises_ok_def by simp
    show "\<forall>(q, y) \<in> set (settledPromises (rc s) @ [(p, outcomeOf v)]). \<exists>m r z. (q, m, r) \<in> set (issued s) \<and> awaited ?s m = None
        \<and> (mid ?src m, z) \<in> set (received s @ [(mid ?src n, v)]) \<and> y = outcomeOf z"
    proof (intro ballI, unfold split_paired_all prod.case)
      fix q y assume "(q, y) \<in> set (settledPromises (rc s) @ [(p, outcomeOf v)])"
      then consider "(q, y) \<in> set (settledPromises (rc s))" | "q = p" "y = outcomeOf v" by auto
      then show "\<exists>m r z. (q, m, r) \<in> set (issued s) \<and> awaited ?s m = None
        \<and> (mid ?src m, z) \<in> set (received s @ [(mid ?src n, v)]) \<and> y = outcomeOf z"
      proof cases
        case 1
        then obtain m r z where "(q, m, r) \<in> set (issued s)" "awaited s m = None" "(mid ?src m, z) \<in> set (received s)" "y = outcomeOf z"
          using settled_answer [OF p] by blast
        moreover from this(2) have "awaited ?s m = None" unfolding eq by simp
        ultimately show ?thesis by (metis UnCI set_append)
      next
        case 2
        have "awaited ?s n = None" unfolding eq by simp
        with 2 c show ?thesis by (intro exI [of _ n] exI [of _ r] exI [of _ v]) simp
      qed
    qed
    show "\<forall>(q, m, r) \<in> set (issued s). awaited ?s m = None \<longrightarrow> q \<in> fst ` set (settledPromises (rc s) @ [(p, outcomeOf v)])"
      using unawaited_settled [OF p] issued_unique [OF nb c] unfolding eq by (auto split: if_splits)
  qed
  with n' wi' a' show ?thesis by (simp add: rpc_inv_def)
qed

lemma rpc_inv_receive:
  assumes i: "rpc_inv s" and x: "posted (rw s) = messageObject m (returnObject v) # xs"
    and o: "pw_onMessage (messageObject m (returnObject v)) (rc s) = (res, pw)"
  shows "rpc_inv (s\<lparr>rc := pw, rw := (rw s)\<lparr>posted := xs\<rparr>, received := received s @ [(m, v)]\<rparr>)"
proof -
  have "m \<in> callIds s \<union> subIds s"
    using i x by (fastforce simp: rpc_inv_def wire_ok_def worker_ids_def messageObject_def)
  then consider "m \<in> subIds s" | p n r where "m = mid (pw_source (rc s)) n" "(p, n, r) \<in> set (issued s)"
    by (auto simp: callIds_def callNumbers_def)
  then show ?thesis
  proof cases
    case 1 then show ?thesis using rpc_inv_receive_sub [OF i x _ o] by simp
  next
    case 2 then show ?thesis using rpc_inv_receive_call [OF i _ 2(2)] x o by blast
  qed
qed


lemma call_ids_grow:
  assumes "numbers_ok s" "issued s' = issued s @ [(p, lastId (rc s) + 1, r)]" "pw_source (rc s') = pw_source (rc s)" "lastId (rc s) + 1 \<le> lastId (rc s')"
  shows "callIds s \<subseteq> callIds s'" "subIds s \<subseteq> subIds s'"
    "{mid (pw_source (rc s)) k |k. lastId (rc s) + 1 < k \<and> k \<le> lastId (rc s')} \<subseteq> subIds s'"
proof -
  have c: "callNumbers s' = callNumbers s @ [lastId (rc s) + 1]" using assms(2) by (simp add: callNumbers_def)
  have "\<forall>n \<in> set (callNumbers s). n \<le> lastId (rc s)" using assms(1) by (simp add: numbers_ok_def)
  then show "callIds s \<subseteq> callIds s'" "subIds s \<subseteq> subIds s'"
    "{mid (pw_source (rc s)) k |k. lastId (rc s) + 1 < k \<and> k \<le> lastId (rc s')} \<subseteq> subIds s'"
    using assms(3,4) by (fastforce simp: callIds_def subIds_def c)+
qed

text \<open>What \<open>send\<close> does with the sender that \<open>post\<close> returned.\<close>

lemma pw_send_cloneable:
  "pw_send \<lparr>s_message = mid src n, s_payload = v, s_subscribed = keys\<rparr> pw = (promiseCount pw,
     (if cloneable v then pw\<lparr>sentMessages := sentMessages pw @ [messageObject (mid src n) v]\<rparr>
      else pw\<lparr>settledPromises := settledPromises pw @ [(promiseCount pw, Reject (WError (js ''DataCloneError'')))]\<rparr>)
     \<lparr>callbacks := amap_set (asKey (mid src n)) (promiseCount pw) (callbacks pw), promiseCount := promiseCount pw + 1\<rparr>)"
  by (simp add: pw_send_def Let_def messageObject_def idObject_def mid_def)

lemma param_wire_mono: "S \<subseteq> S' \<Longrightarrow> list_all (param_wire S) ps \<Longrightarrow> list_all (param_wire S') ps"
  by (induction ps) (auto simp: param_wire_def)

lemma rpc_inv_call:
  assumes i: "rpc_inv s" and pl: "list_all plain_param params" and e: "pw_post r params (rc s) = (sender, pw1)" "pw_send sender pw1 = (p, pw2)"
    and cl: "cloneable (s_payload sender)"
  shows "rpc_inv (s\<lparr>rc := pw2, issued := issued s @ [(p, lastId (rc s) + 1, r)]\<rparr>)" (is "rpc_inv ?s")
proof -
  let ?src = "pw_source (rc s)" and ?n = "lastId (rc s) + 1"
  have nb: "numbers_ok s" and wi: "wire_ok s" and a: "answers_ok s" and pr: "promises_ok s" using i by (simp_all add: rpc_inv_def)
  obtain ps keys pwp where pp: "postParams params ((rc s)\<lparr>lastId := ?n\<rparr>) = (ps, keys, pwp)" by (cases "postParams params ((rc s)\<lparr>lastId := ?n\<rparr>)")
  note ef = postParams_effect [OF pp]
  obtain L sub where pwp: "pwp = (rc s)\<lparr>lastId := L, subscriptions := sub\<rparr>" and L: "?n \<le> L"
    and pw: "list_all (param_wire {mid ?src k |k. ?n < k \<and> k \<le> L}) ps" 
  proof (rule that [of "subscriptions pwp" "lastId pwp"])
    show "pwp = (rc s)\<lparr>lastId := lastId pwp, subscriptions := subscriptions pwp\<rparr>" using ef by simp
  qed (use ef pl in simp_all)
  have "pw_post r params (rc s) = (\<lparr>s_message = mid ?src ?n, s_payload = requestObject r ps, s_subscribed = keys\<rparr>, pwp)"
    using pp by (simp add: pw_post_def nextMessageId_def mid_def)
  with e(1) have se: "sender = \<lparr>s_message = mid ?src ?n, s_payload = requestObject r ps, s_subscribed = keys\<rparr>" "pw1 = pwp" by simp_all
  have p: "p = promiseCount (rc s)" and pw2: "pw2 = (rc s)\<lparr>lastId := L, subscriptions := sub, callbacks := amap_set (asKey (mid ?src ?n)) p (callbacks (rc s)),
      sentMessages := sentMessages (rc s) @ [messageObject (mid ?src ?n) (requestObject r ps)], promiseCount := p + 1\<rparr>"
    using e(2) pwp cl by (auto simp: se pw_send_cloneable)
  have f: "rc ?s = pw2" "issued ?s = issued s @ [(p, ?n, r)]" "received ?s = received s" "rw ?s = rw s" by simp_all
  have ps: "callbacks pw2 = amap_set (asKey (mid ?src ?n)) p (callbacks (rc s))" "settledPromises pw2 = settledPromises (rc s)"
    "pw_source pw2 = ?src" "sentMessages pw2 = sentMessages (rc s) @ [messageObject (mid ?src ?n) (requestObject r ps)]" "lastId pw2 = L" by (simp_all add: pw2)
  have new: "(q, k, t) \<in> set (issued s) \<Longrightarrow> k \<noteq> ?n" for q k t using nb by (force simp: numbers_ok_def callNumbers_def)
  note grow = call_ids_grow [OF nb f(2), unfolded f ps, OF refl L]
  have eq: "awaited ?s k = (if k = ?n then Some p else awaited s k)" "underway ?s k = (if k = ?n then 1 else underway s k)" for k
    using fresh_underway [OF i] by (auto simp: awaited_def underway_def f ps)
  have n': "numbers_ok ?s" using nb L new unfolding numbers_ok_def f by (force simp: callNumbers_def p pw2)
  have "wire_ok ?s" unfolding wire_ok_def f ps
  proof (intro conjI ballI)
    show "worker_ids (callIds ?s) (subIds ?s) (rw s)" using wi worker_ids_mono [OF _ grow(1,2)] by (simp add: wire_ok_def)
    fix x assume "x \<in> set (sentMessages (rc s) @ [messageObject (mid ?src ?n) (requestObject r ps)])"
    then consider "x \<in> set (sentMessages (rc s))" | "x = messageObject (mid ?src ?n) (requestObject r ps)" by auto
    then show "\<exists>q k t qs. x = messageObject (mid ?src k) (requestObject t qs) \<and> (q, k, t) \<in> set (issued s @ [(p, ?n, r)]) \<and> list_all (param_wire (subIds ?s)) qs"
    proof cases
      case 1
      then obtain q k t qs where "x = messageObject (mid ?src k) (requestObject t qs)" "(q, k, t) \<in> set (issued s)" "list_all (param_wire (subIds s)) qs"
        using wi unfolding wire_ok_def by blast
      with param_wire_mono [OF grow(2)] show ?thesis by (metis UnCI set_append)
    next
      case 2
      with param_wire_mono [OF grow(3) pw] show ?thesis by (intro exI [of _ p] exI [of _ ?n] exI [of _ r] exI [of _ ps]) simp
    qed
  qed
  moreover have "answers_ok ?s" using a new unfolding answers_ok_def f eq by fastforce
  moreover have "promises_ok ?s" unfolding promises_ok_def f ps
  proof (intro conjI)
    show "\<forall>k q. map_of (amap_set (asKey (mid ?src ?n)) p (callbacks (rc s))) k = Some q \<longrightarrow>
        (\<exists>m t. k = asKey (mid ?src m) \<and> (q, m, t) \<in> set (issued s @ [(p, ?n, r)]))"
      using pr unfolding promises_ok_def by (auto split: if_splits) blast
    show "distinct (map fst (settledPromises (rc s)))" using pr by (simp add: promises_ok_def)
    show "\<forall>(q, y) \<in> set (settledPromises (rc s)). \<exists>m t z. (q, m, t) \<in> set (issued s @ [(p, ?n, r)]) \<and> awaited ?s m = None
        \<and> (mid ?src m, z) \<in> set (received s) \<and> y = outcomeOf z"
    proof (intro ballI, unfold split_paired_all prod.case)
      fix q y assume "(q, y) \<in> set (settledPromises (rc s))"
      then obtain m t z where "(q, m, t) \<in> set (issued s)" "awaited s m = None" "(mid ?src m, z) \<in> set (received s)" "y = outcomeOf z"
        using settled_answer [OF pr] by blast
      moreover from this(1,2) new have "awaited ?s m = None" unfolding eq by auto
      ultimately show "\<exists>m t z. (q, m, t) \<in> set (issued s @ [(p, ?n, r)]) \<and> awaited ?s m = None \<and> (mid ?src m, z) \<in> set (received s) \<and> y = outcomeOf z"
        by (metis UnCI set_append)
    qed
    show "\<forall>(q, m, t) \<in> set (issued s @ [(p, ?n, r)]). awaited ?s m = None \<longrightarrow> q \<in> fst ` set (settledPromises (rc s))"
      using unawaited_settled [OF pr] unfolding eq by (auto split: if_splits)
  qed
  ultimately show ?thesis using n' by (simp add: rpc_inv_def)
qed

lemma rpc_inv_step: "rpc_step env s s' \<Longrightarrow> rpc_inv s \<Longrightarrow> rpc_inv s'"
  by (induction rule: rpc_step.induct)
    (blast intro: rpc_inv_call rpc_inv_deliver rpc_inv_settle rpc_inv_callback rpc_inv_receive rpc_inv_close)+

lemma rpc_reachable_inv: "rpc_reachable env src s \<Longrightarrow> rpc_inv s"
  by (induction rule: rpc_reachable.induct) (auto intro: rpc_inv_start rpc_inv_step)


text \<open>C23: Whatever the order of calls, deliveries, settlements, callbacks and answers, when no parameter is null or looks like an
  identifier and the messages can be cloned (they hold no functions but those given as parameters): every promise is settled at most once, with the outcome of an answer to its own message; and the promise of a
  call to the runner is settled with nothing under way any more, or still awaited with exactly one message, call or answer under way.\<close>

theorem rpc_exactly_once:
  assumes "rpc_reachable env src s"
  shows "distinct (map fst (settledPromises (rc s)))
    \<and> (\<forall>(p, x) \<in> set (settledPromises (rc s)). \<exists>n r v. (p, n, r) \<in> set (issued s) \<and> (mid (pw_source (rc s)) n, v) \<in> set (received s) \<and> x = outcomeOf v)
    \<and> (\<forall>(p, n, r) \<in> set (issued s). (\<exists>f wr. r = CallFunction f wr) \<longrightarrow>
         (if p \<in> fst ` set (settledPromises (rc s)) then underway s n = 0 else underway s n = 1))"
proof -
  have inv: "numbers_ok s" "answers_ok s" "promises_ok s" using rpc_reachable_inv [OF assms] by (simp_all add: rpc_inv_def)
  have "if p \<in> fst ` set (settledPromises (rc s)) then underway s n = 0 else underway s n = 1"
    if i: "(p, n, r) \<in> set (issued s)" and r: "\<exists>f wr. r = CallFunction f wr" for p n r
  proof -
    from inv(2) i r have a: "underway s n \<le> 1" "underway s n = 1 \<longrightarrow> awaited s n = Some p" "awaited s n = Some p \<longrightarrow> underway s n = 1"
      unfolding answers_ok_def by blast+
    show ?thesis
    proof (cases "awaited s n")
      case None
      with a unawaited_settled [OF inv(3) i] show ?thesis by force
    next
      case (Some q)
      then obtain m t where "asKey (mid (pw_source (rc s)) n) = asKey (mid (pw_source (rc s)) m)" "(q, m, t) \<in> set (issued s)"
        using inv(3) unfolding promises_ok_def awaited_def by blast
      with issued_unique [OF inv(1) i] have q: "q = p" by auto
      have "p \<notin> fst ` set (settledPromises (rc s))"
      proof
        assume "p \<in> fst ` set (settledPromises (rc s))"
        then obtain m t where "(p, m, t) \<in> set (issued s)" "awaited s m = None" using settled_answer [OF inv(3)] by force
        with issued_promise_unique [OF inv(1) i] Some show False by auto
      qed
      with a Some q show ?thesis by simp
    qed
  qed
  moreover have "\<forall>(p, x) \<in> set (settledPromises (rc s)). \<exists>n r v. (p, n, r) \<in> set (issued s) \<and> (mid (pw_source (rc s)) n, v) \<in> set (received s) \<and> x = outcomeOf v"
    using settled_answer [OF inv(3)] by blast
  moreover have "distinct (map fst (settledPromises (rc s)))" using inv(3) by (simp add: promises_ok_def)
  ultimately show ?thesis by blast
qed

text \<open>A run: the worker is created with a function as its parameter.\<close>

definition demo_env :: workerEnv where
  "demo_env = \<lparr>we_name = [1], we_type = [2], we_isFunction = (\<lambda>_. True), we_get = (\<lambda>_ _. WFun 0), we_throws = (\<lambda>_. None)\<rparr>"

definition demo_sent :: PromiseWorker where
  "demo_sent = snd (let (sender, pw1) = pw_post (CallFunction [1] WUndef) [WFun 7] (newPromiseWorker 0) in pw_send sender pw1)"

lemma demo_reachable:
  "\<exists>s. rpc_reachable demo_env 0 s \<and> settledPromises (rc s) = [(0, Resolve WNull)] \<and> issued s = [(0, 1, CallFunction [1] WUndef)]"
proof -
  let ?r = "CallFunction [1] WUndef" and ?ps = "[idObject (mid 1 2)]"
  let ?c = "\<lparr>w_id = mid 1 1, w_target = OnCreator, w_fn = WStr [1], w_params = [Callback (mid 1 2)], w_conv = SetRunner\<rparr>"
  define s1 where "s1 = (rpc_start 0)\<lparr>rc := demo_sent, issued := issued (rpc_start 0) @ [(0, lastId (rc (rpc_start 0)) + 1, ?r)]\<rparr>"
  define s2 where "s2 = s1\<lparr>rc := (rc s1)\<lparr>sentMessages := []\<rparr>, rw := (rw s1)\<lparr>pendingCalls := [?c], granted := [mid 1 2]\<rparr>\<rparr>"
  define s3 where "s3 = s2\<lparr>rw := w_settle 0 (Inr (WNum 5)) (rw s2)\<rparr>"
  let ?a = "\<lparr>success = WBool True, retValue = WNull\<rparr>"
  define s4 where "s4 = s3\<lparr>rc := snd (pw_onMessage (messageObject (mid 1 1) (returnObject ?a)) (rc s3)), rw := (rw s3)\<lparr>posted := []\<rparr>,
    received := received s3 @ [(mid 1 1, ?a)]\<rparr>"
  have d: "demo_sent = \<lparr>lastId = 2, pw_source = 1, callbacks = [(asKey (mid 1 1), 0)], subscriptions = [(asKey (mid 1 2), 7)],
      sentMessages = [messageObject (mid 1 1) (requestObject ?r ?ps)], promiseCount = 1, settledPromises = [], calledBack = []\<rparr>"
    by (simp add: demo_sent_def pw_post_def pw_send_def nextMessageId_def newPromiseWorker_def mid_def worker_objects requestObject_def)
  obtain sender pw1 where e: "pw_post ?r [WFun 7] (newPromiseWorker 0) = (sender, pw1)" by (cases "pw_post ?r [WFun 7] (newPromiseWorker 0)")
  then have "pw_send sender pw1 = (promiseCount pw1, demo_sent)" by (simp add: demo_sent_def pw_send_def Let_def)
  moreover from e have "promiseCount pw1 = 0" by (auto simp: pw_post_def nextMessageId_def newPromiseWorker_def)
  ultimately have 1: "rpc_step demo_env (rpc_start 0) s1"
    unfolding s1_def using e by (intro rpc_step.Call [where params = "[WFun 7]"])
      (auto simp: plain_param_def isObject_def rpc_start_def pw_post_def nextMessageId_def requestObject_def worker_objects)
  have x: "onWorkerMessage demo_env (messageObject (mid 1 1) (requestObject ?r ?ps)) (rw s1)
      = (Inr (), (rw s1)\<lparr>pendingCalls := [?c], granted := [mid 1 2]\<rparr>)"
    by (simp add: onWorkerMessage_def Message_convert_message requestObject_def onFunction_def parametersOf_def s1_def rpc_start_def demo_env_def
        grantAll_def List.map_filter_def w_apply_def truthyW_def) (simp add: isObject_def idObject_def)
  have 2: "rpc_step demo_env s1 s2" unfolding s2_def
    by (rule rpc_step.Deliver [OF _ x]) (simp add: s1_def d)
  have 3: "rpc_step demo_env s2 s3" unfolding s3_def by (rule rpc_step.Settle) (simp add: s2_def)
  have p: "posted (rw s3) = [messageObject (mid 1 1) (returnObject ?a)]"
    by (simp add: s3_def s2_def w_settle_def convert_def postReturn_def s1_def rpc_start_def)
  have 4: "rpc_step demo_env s3 s4" unfolding s4_def
    by (rule rpc_step.Receive [OF p]) (simp add: prod_eq_iff)
  have "rpc_reachable demo_env 0 s4" using rpc_reachable.start rpc_reachable.step 1 2 3 4 by metis
  moreover have "settledPromises (rc s4) = [(0, Resolve WNull)]" "issued s4 = [(0, 1, ?r)]"
    by (simp_all add: s4_def s3_def s2_def s1_def d pw_onMessage_answer outcomeOf_def truthyW_def rpc_start_def newPromiseWorker_def)
  ultimately show ?thesis by blast
qed

theorem rpc_exactly_once_witness:
  "\<exists>s. rpc_reachable demo_env 0 s \<and> settledPromises (rc s) = [(0, Resolve WNull)] \<and> underway s 1 = 0 \<and> distinct (map fst (settledPromises (rc s)))"
proof -
  obtain s where s: "rpc_reachable demo_env 0 s" "settledPromises (rc s) = [(0, Resolve WNull)]" "issued s = [(0, 1, CallFunction [1] WUndef)]"
    using demo_reachable by blast
  then have "underway s 1 = 0" using rpc_exactly_once [OF s(1)] by force
  with s show ?thesis by (intro exI [of _ s]) simp
qed

text \<open>A null parameter makes the handler throw before it answers, so that the promise of the call is never settled; so does a call on
  a wrapped value that is undefined.\<close>

lemma MessageId_null: "isObject WNull" "MessageId_as WNull = Inl (err ''Cannot use in operator'')"
  by (simp_all add: isObject_def MessageId_as_def inOp_def)

lemma null_parameter_unanswered:
  "onWorkerMessage env (messageObject m (requestObject (CallFunction f wr) (WNull # ps))) ws = (Inl (err ''Cannot use in operator''), ws)"
  by (simp add: onWorkerMessage_def Message_convert_message requestObject_def onFunction_def parametersOf_def MessageId_null)

lemma undefined_wrapped_unanswered:
  assumes "map_of (wrapped ws) w = Some (WUndef, au)" "f \<noteq> []"
  shows "onWorkerMessage env (messageObject m (requestObject (CallWrapped w f rm) [])) ws = (Inl (err ''Cannot read properties of undefined''), grantAll [] ws)"
  using assms by (simp add: onWorkerMessage_def Message_convert_message requestObject_def onCaller_def parametersOf_def grantAll_def List.map_filter_def)

text \<open>A parameter with the fields of an identifier is taken for a subscription, and the application is given a function instead of it.\<close>

lemma identifier_parameter_taken:
  "mapParams [WObj [(js ''id'', a), (js ''source'', b)]] = Inr [Callback \<lparr>m_source = b, m_id = a\<rparr>]"
  by (simp add: isObject_def MessageId_as_def inOp_def field_def)

end
