(* ===== verification/Skdb_Worker.thy ===== *)
theory Skdb_Worker
  imports Worker_Rpc
begin

text \<open>
  The database in a worker: the classes \<open>SKDBWorker\<close> and \<open>WrappedRemote\<close> of \<open>sql/ts/src/skdb_wdatabase.ts\<close>, which turn every
  method into a message, and \<open>sql/ts/src/skdb_worker.ts\<close>, which serves the messages with an \<open>SKDBImpl\<close> of \<open>skdb_database.ts\<close>.

  The transport is \<open>Worker_Rpc\<close>. Parameters that the database only passes on (query parameters, rows, keys) are any
  messages; functions among them are numbers of the caller. A \<open>Map\<close> without entries is an object without properties.
\<close>

section \<open>Methods and their messages\<close>

datatype skdbOp = Create "jsstring option" bool | Exec jsstring "wval option" | Watch jsstring wval nat | WatchChanges jsstring wval nat nat
  | TableSchema jsstring | NotifyConnectedAs jsstring jsstring | ViewSchema jsstring | Schema "jsstring option" | Insert jsstring "wval list"
  | InsertMany jsstring "wval list" | Save | CreateServerDatabase jsstring | CreateServerUser | Mirror "wval list" | CloseConnection
  | Connect jsstring jsstring wval "jsstring option" | ConnectedRemote | GetUser

fun opName :: "skdbOp \<Rightarrow> string" where
  "opName (Create _ _) = ''create''"
| "opName (Exec _ _) = ''exec''"
| "opName (Watch _ _ _) = ''watch''"
| "opName (WatchChanges _ _ _ _) = ''watchChanges''"
| "opName (TableSchema _) = ''tableSchema''"
| "opName (NotifyConnectedAs _ _) = ''notifyConnectedAs''"
| "opName (ViewSchema _) = ''viewSchema''"
| "opName (Schema _) = ''schema''"
| "opName (Insert _ _) = ''insert''"
| "opName (InsertMany _ _) = ''insertMany''"
| "opName Save = ''save''"
| "opName (CreateServerDatabase _) = ''createServerDatabase''"
| "opName CreateServerUser = ''createServerUser''"
| "opName (Mirror _) = ''mirror''"
| "opName CloseConnection = ''closeConnection''"
| "opName (Connect _ _ _ _) = ''connect''"
| "opName ConnectedRemote = ''connectedRemote''"
| "opName GetUser = ''getUser''"

definition optText :: "jsstring option \<Rightarrow> wval" where
  "optText s = (case s of Some t \<Rightarrow> WStr t | None \<Rightarrow> WUndef)"

fun opParams :: "skdbOp \<Rightarrow> wval list" where
  "opParams (Create dbName disableWarnings) = [optText dbName, WBool disableWarnings]"
| "opParams (Exec q params) = [WStr q, case params of Some p \<Rightarrow> p | None \<Rightarrow> WObj []]"
| "opParams (Watch q params onChange) = [WStr q, params, WFun onChange]"
| "opParams (WatchChanges q params initial upd) = [WStr q, params, WFun initial, WFun upd]"
| "opParams (TableSchema tableName) = [WStr tableName]"
| "opParams (NotifyConnectedAs userName replicationId) = [WStr userName, WStr replicationId]"
| "opParams (ViewSchema viewName) = [WStr viewName]"
| "opParams (Schema tableName) = [optText tableName]"
| "opParams (Insert tableName vals) = [WStr tableName, WArr vals]"
| "opParams (InsertMany tableName rows) = [WStr tableName, WArr rows]"
| "opParams Save = []"
| "opParams (CreateServerDatabase dbName) = [WStr dbName]"
| "opParams CreateServerUser = []"
| "opParams (Mirror tables) = tables"
| "opParams CloseConnection = []"
| "opParams (Connect db key privateKey endpoint) = [WStr db, WStr key, privateKey, optText endpoint]"
| "opParams ConnectedRemote = []"
| "opParams GetUser = []"

definition wrapOption :: "bool \<Rightarrow> wval" where
  "wrapOption autoremove = WObj [(js ''wrap'', WBool True), (js ''autoremove'', WBool autoremove)]"

fun opWrap :: "skdbOp \<Rightarrow> wval" where
  "opWrap (Watch _ _ _) = wrapOption True"
| "opWrap (WatchChanges _ _ _ _) = wrapOption True"
| "opWrap ConnectedRemote = wrapOption False"
| "opWrap _ = WUndef"

record SKDBWorker =
  sw_worker :: PromiseWorker
  currentUser :: "jsstring option"

definition opRequest :: "skdbOp \<Rightarrow> request" where
  "opRequest oper = CallFunction (js (opName oper)) (opWrap oper)"

text \<open>A call returns the number of its promise and the sender, whose subscriptions a watcher ends.\<close>

definition workerCall :: "skdbOp \<Rightarrow> SKDBWorker \<Rightarrow> nat \<times> Sender \<times> SKDBWorker" where
  "workerCall oper sw =
     (let sw1 = (case oper of Connect _ key _ _ \<Rightarrow> sw\<lparr>currentUser := Some key\<rparr> | _ \<Rightarrow> sw) in
      case pw_post (opRequest oper) (opParams oper) (sw_worker sw1) of (sender, pw1) \<Rightarrow>
      (case pw_send sender pw1 of (p, pw2) \<Rightarrow> (p, sender, sw1\<lparr>sw_worker := pw2\<rparr>)))"

text \<open>What a method makes of the settled promise: \<open>insertMany\<close> throws an error that was returned.\<close>

definition opOutcome :: "skdbOp \<Rightarrow> outcome \<Rightarrow> outcome" where
  "opOutcome oper x = (case (oper, x) of (InsertMany _ _, Resolve (WError e)) \<Rightarrow> Reject (WError e) | _ \<Rightarrow> x)"

text \<open>The \<open>close\<close> of a watcher: the call, and what follows when it was answered.\<close>

definition closeWatcher :: "wval \<Rightarrow> SKDBWorker \<Rightarrow> nat \<times> SKDBWorker" where
  "closeWatcher result sw =
     (case pw_post (CallWrapped (field ''wrapped'' result) (js ''close'') False) [] (sw_worker sw) of (sender, pw1) \<Rightarrow>
      (case pw_send sender pw1 of (p, pw2) \<Rightarrow> (p, sw\<lparr>sw_worker := pw2\<rparr>)))"

definition closedWatcher :: "Sender \<Rightarrow> outcome \<Rightarrow> SKDBWorker \<Rightarrow> SKDBWorker" where
  "closedWatcher provider x sw = (case x of Resolve _ \<Rightarrow> sw\<lparr>sw_worker := pw_close provider (sw_worker sw)\<rparr> | _ \<Rightarrow> sw)"

text \<open>The methods of the remote database.\<close>

datatype remoteOp = RCreateDatabase jsstring | RCreateUser | RSchema | RTableSchema jsstring | RNotifyConnectedAs jsstring jsstring | RViewSchema jsstring
  | RMirror "wval list" | RExec jsstring wval | RClose | RIsConnectionHealthy | RTablesAwaitingSync | ROnReboot nat | RConnectedAs

fun remoteRequest :: "wval \<Rightarrow> remoteOp \<Rightarrow> request \<times> wval list" where
  "remoteRequest w (RCreateDatabase dbName) = (CallWrapped w (js ''createDatabase'') False, [WStr dbName])"
| "remoteRequest w RCreateUser = (CallWrapped w (js ''createUser'') False, [])"
| "remoteRequest w RSchema = (CallWrapped w (js ''schema'') False, [])"
| "remoteRequest w (RTableSchema tableName) = (CallWrapped w (js ''tableSchema'') False, [WStr tableName])"
| "remoteRequest w (RNotifyConnectedAs userName replicationId) = (CallWrapped w (js ''notifyConnectedAs'') False, [WStr userName, WStr replicationId])"
| "remoteRequest w (RViewSchema viewName) = (CallWrapped w (js ''viewSchema'') False, [WStr viewName])"
| "remoteRequest w (RMirror tables) = (CallWrapped w (js ''mirror'') False, tables)"
| "remoteRequest w (RExec q params) = (CallWrapped w (js ''exec'') False, [WStr q, params])"
| "remoteRequest w RClose = (CallWrapped w (js ''close'') True, [])"
| "remoteRequest w RIsConnectionHealthy = (CallWrapped w (js ''isConnectionHealthy'') False, [])"
| "remoteRequest w RTablesAwaitingSync = (CallWrapped w (js ''tablesAwaitingSync'') False, [])"
| "remoteRequest w (ROnReboot f) = (CallWrapped w (js ''onReboot'') False, [WFun f])"
| "remoteRequest w RConnectedAs = (CallWrapped w (js ''connectedAs'') False, [])"

section \<open>The database that serves them\<close>

definition implMethods :: "string list" where
  "implMethods = [''connect'', ''connectedRemote'', ''subscribe'', ''exec'', ''watch'', ''watchChanges'', ''tableSchema'', ''viewSchema'', ''schema'',
     ''insert'', ''insertMany'', ''mirror'', ''closeConnection'', ''save'', ''createGroup'', ''lookupGroup'']"

text \<open>
  The class \<open>SKDBImpl\<close>: each method calls one of the synchronous database, or makes or looks up a group. A
  parameter that was not given is \<open>undefined\<close>.
\<close>

datatype syncCall = SyncConnect wval wval wval wval | SyncConnectedRemote | SyncSubscribe wval wval | SyncExec wval wval
  | SyncWatch wval wval wval | SyncWatchChanges wval wval wval wval | SyncTableSchema wval | SyncViewSchema wval | SyncSchema wval
  | SyncInsert wval wval | SyncInsertMany wval wval | SyncMirror "wval list" | SyncServerClose | SyncSave | GroupCreate | GroupLookup wval

definition argAt :: "nat \<Rightarrow> wval list \<Rightarrow> wval" where
  "argAt i ps = (if i < length ps then ps ! i else WUndef)"

definition orEmptyMap :: "wval \<Rightarrow> wval" where
  "orEmptyMap v = (if v = WUndef then WObj [] else v)"

definition implCall :: "string \<Rightarrow> wval list \<Rightarrow> syncCall option" where
  "implCall fn ps =
     (if fn = ''connect'' then Some (SyncConnect (argAt 0 ps) (argAt 1 ps) (argAt 2 ps) (argAt 3 ps))
      else if fn = ''connectedRemote'' then Some SyncConnectedRemote
      else if fn = ''subscribe'' then Some (SyncSubscribe (argAt 0 ps) (argAt 1 ps))
      else if fn = ''exec'' then Some (SyncExec (argAt 0 ps) (orEmptyMap (argAt 1 ps)))
      else if fn = ''watch'' then Some (SyncWatch (argAt 0 ps) (argAt 1 ps) (argAt 2 ps))
      else if fn = ''watchChanges'' then Some (SyncWatchChanges (argAt 0 ps) (argAt 1 ps) (argAt 2 ps) (argAt 3 ps))
      else if fn = ''tableSchema'' then Some (SyncTableSchema (argAt 0 ps))
      else if fn = ''viewSchema'' then Some (SyncViewSchema (argAt 0 ps))
      else if fn = ''schema'' then Some (SyncSchema (argAt 0 ps))
      else if fn = ''insert'' then Some (SyncInsert (argAt 0 ps) (argAt 1 ps))
      else if fn = ''insertMany'' then Some (SyncInsertMany (argAt 0 ps) (argAt 1 ps))
      else if fn = ''mirror'' then Some (SyncMirror ps)
      else if fn = ''closeConnection'' then Some SyncServerClose
      else if fn = ''save'' then Some SyncSave
      else if fn = ''createGroup'' then Some GroupCreate
      else if fn = ''lookupGroup'' then Some (GroupLookup (argAt 0 ps))
      else None)"

lemma implCall_methods: "implCall fn ps \<noteq> None \<longleftrightarrow> fn \<in> set implMethods"
  by (simp add: implCall_def implMethods_def)

text \<open>Reading a property of an object, and the database as an object with its methods; its other properties are no functions
  and no message asks for them.\<close>

definition getProp :: "wval \<Rightarrow> wval \<Rightarrow> wval" where
  "getProp v k = (case (v, k) of (WObj ps, WStr s) \<Rightarrow> (case map_of ps s of Some x \<Rightarrow> x | None \<Rightarrow> WUndef) | _ \<Rightarrow> WUndef)"

definition isFunction :: "wval \<Rightarrow> bool" where
  "isFunction v \<longleftrightarrow> (case v of WFun _ \<Rightarrow> True | _ \<Rightarrow> False)"

definition implObject :: wval where
  "implObject = WObj (zip (map js implMethods) (map WFun [0..<length implMethods]))"

definition dbCreator :: "(wcall \<Rightarrow> wval option) \<Rightarrow> workerEnv" where
  "dbCreator throws = \<lparr>we_name = js ''create'', we_type = js ''Database'', we_isFunction = isFunction, we_get = getProp, we_throws = throws\<rparr>"


section \<open>What the worker does with a message\<close>

lemma js_inject [simp]: "js s = js t \<longleftrightarrow> s = t"
proof -
  have "inj (of_char :: char \<Rightarrow> code_unit)"
  proof (rule injI)
    fix c d :: char
    assume e: "(of_char c :: code_unit) = of_char d"
    have b: "(of_char x :: nat) < 2 ^ 16" for x by (rule less_le_trans [OF nat_of_char_less_256]) simp
    from e have "(of_nat (of_char c) :: code_unit) = of_nat (of_char d)" by (simp only: of_nat_of_char)
    then have "unat (of_nat (of_char c) :: code_unit) = unat (of_nat (of_char d) :: code_unit)" by simp
    with b [of c] b [of d] show "c = d" by (simp add: unat_of_nat take_bit_nat_eq_self)
  qed
  then show ?thesis unfolding js_def by (simp add: inj_map_eq_map)
qed

lemma getProp_impl: "isFunction (getProp implObject (WStr (js k))) \<longleftrightarrow> k \<in> set implMethods"
proof -
  define z where "z = zip (map js implMethods) (map WFun [0..<length implMethods])"
  have "js k \<in> set (map js implMethods) \<longleftrightarrow> (\<exists>y. map_of z (js k) = Some y)" unfolding z_def by (intro map_of_zip_is_Some) simp
  moreover have "\<exists>i. y = WFun i" if "map_of z (js k) = Some y" for y
  proof -
    have "y \<in> set (map WFun [0..<length implMethods])" using map_of_SomeD [OF that] unfolding z_def by (rule set_zip_rightD)
    then show ?thesis by auto
  qed
  moreover have "js k \<in> set (map js implMethods) \<longleftrightarrow> k \<in> set implMethods" by auto
  ultimately have *: "k \<in> set implMethods \<longleftrightarrow> (\<exists>i. map_of z (js k) = Some (WFun i))"
    "map_of z (js k) = Some y \<Longrightarrow> \<exists>i. y = WFun i" for y by metis+
  show ?thesis
  proof (cases "map_of z (js k)")
    case None
    with *(1) show ?thesis by (simp add: getProp_def implObject_def isFunction_def z_def [symmetric])
  next
    case (Some y)
    with * show ?thesis by (auto simp: getProp_def implObject_def isFunction_def z_def [symmetric])
  qed
qed

text \<open>The parameters as the method gets them: a function stands for the subscription that the caller keeps.\<close>

definition delivered :: "PromiseWorker \<Rightarrow> wval \<Rightarrow> wparam \<Rightarrow> bool" where
  "delivered pw p q \<longleftrightarrow> (case p of WFun f \<Rightarrow> \<exists>m. q = Callback m \<and> map_of (subscriptions pw) (asKey m) = Some f | _ \<Rightarrow> q = Value p)"

lemma postParams_delivered:
  assumes "postParams params pw = (qs, keys, pw')" "list_all plain_param params"
  shows "pw_source pw' = pw_source pw \<and> lastId pw \<le> lastId pw'
    \<and> (\<forall>n \<le> lastId pw. map_of (subscriptions pw') (asKey (mid (pw_source pw) n)) = map_of (subscriptions pw) (asKey (mid (pw_source pw) n)))
    \<and> (\<exists>rs. mapParams qs = Inr rs \<and> list_all2 (delivered pw') params rs)"
  using assms
proof (induction params arbitrary: pw qs keys pw')
  case (Cons p ps)
  show ?case
  proof (cases "\<exists>f. p = WFun f")
    case True
    then obtain f where p: "p = WFun f" by blast
    let ?m = "mid (pw_source pw) (lastId pw + 1)"
    define pw1 where "pw1 = pw\<lparr>lastId := lastId pw + 1, subscriptions := amap_set (asKey ?m) f (subscriptions pw)\<rparr>"
    obtain qs2 keys2 pw2 where e: "postParams ps pw1 = (qs2, keys2, pw2)" by (cases "postParams ps pw1")
    from Cons.prems p e have q: "qs = idObject ?m # qs2" "pw' = pw2"
      by (auto simp: nextMessageId_def mid_def pw1_def)
    from Cons.prems have "list_all plain_param ps" by simp
    note IH = Cons.IH [OF e this]
    from IH obtain rs where rs: "mapParams qs2 = Inr rs" "list_all2 (delivered pw2) ps rs" by blast
    have k: "map_of (subscriptions pw2) (asKey (mid (pw_source pw) n)) = map_of (subscriptions pw1) (asKey (mid (pw_source pw) n))"
      if "n \<le> lastId pw + 1" for n using IH that by (simp add: pw1_def)
    have "isObject (idObject ?m)" by (simp add: isObject_def idObject_def)
    then have "mapParams qs = Inr (Callback ?m # rs)" using rs(1) q by simp
    moreover have "delivered pw2 p (Callback ?m)" using k [of "lastId pw + 1"] by (simp add: delivered_def p pw1_def)
    moreover have "map_of (subscriptions pw2) (asKey (mid (pw_source pw) n)) = map_of (subscriptions pw) (asKey (mid (pw_source pw) n))"
      if "n \<le> lastId pw" for n using k [of n] that by (simp add: pw1_def)
    moreover have "pw_source pw2 = pw_source pw" "lastId pw \<le> lastId pw2" using IH by (simp_all add: pw1_def)
    ultimately show ?thesis using rs(2) q(2) by auto
  next
    case False
    obtain qs2 keys2 pw2 where e: "postParams ps pw = (qs2, keys2, pw2)" by (cases "postParams ps pw")
    with Cons.prems False have q: "qs = p # qs2" "pw' = pw2" by (cases p; simp)+
    from Cons.prems have "list_all plain_param ps" "plain_param p" by simp_all
    with Cons.IH [OF e] obtain rs where rs: "mapParams qs2 = Inr rs" "list_all2 (delivered pw2) ps rs" by blast
    have "mapParams qs = Inr (Value p # rs)" using rs(1) q \<open>plain_param p\<close> by (auto simp: plain_param_def)
    moreover have "delivered pw2 p (Value p)" using False by (cases p) (simp_all add: delivered_def)
    ultimately show ?thesis using Cons.IH [OF e \<open>list_all plain_param ps\<close>] rs(2) q(2) by auto
  qed
qed simp

text \<open>The methods that \<open>SKDBWorker\<close> offers and the database in the worker does not have.\<close>

lemma opName_impl:
  "(\<forall>d w. oper \<noteq> Create d w) \<Longrightarrow>
     opName oper \<noteq> ''create'' \<and> (opName oper \<in> set implMethods \<longleftrightarrow> opName oper \<notin> {''getUser'', ''createServerDatabase'', ''createServerUser'', ''notifyConnectedAs''})"
  by (cases oper) (blast, simp_all add: implMethods_def)

lemma wrap_conv:
  "(if truthyW (field ''wrap'' (opWrap oper)) then WrapResult (truthyW (field ''autoremove'' (opWrap oper))) else KeepResult)
     = (if (\<exists>q p f. oper = Watch q p f) \<or> (\<exists>q p f g. oper = WatchChanges q p f g) then WrapResult True
        else if oper = ConnectedRemote then WrapResult False else KeepResult)"
  by (cases oper) (simp_all add: wrapOption_def field_def truthyW_def)

text \<open>
  What the methods of the interface \<open>SKDB\<close> are for: the call of the synchronous database that a call of each method
  stands for, or the name of a method that the database in the worker does not have.
\<close>

fun intended :: "skdbOp \<Rightarrow> string + syncCall" where
  "intended (Connect db key privateKey endpoint) = Inr (SyncConnect (WStr db) (WStr key) privateKey (optText endpoint))"
| "intended ConnectedRemote = Inr SyncConnectedRemote"
| "intended (Exec q params) = Inr (SyncExec (WStr q) (case params of Some p \<Rightarrow> orEmptyMap p | None \<Rightarrow> WObj []))"
| "intended (Watch q params onChange) = Inr (SyncWatch (WStr q) params (WFun onChange))"
| "intended (WatchChanges q params initial upd) = Inr (SyncWatchChanges (WStr q) params (WFun initial) (WFun upd))"
| "intended (TableSchema t) = Inr (SyncTableSchema (WStr t))"
| "intended (ViewSchema v) = Inr (SyncViewSchema (WStr v))"
| "intended (Schema t) = Inr (SyncSchema (optText t))"
| "intended (Insert t vals) = Inr (SyncInsert (WStr t) (WArr vals))"
| "intended (InsertMany t rows) = Inr (SyncInsertMany (WStr t) (WArr rows))"
| "intended (Mirror tables) = Inr (SyncMirror tables)"
| "intended CloseConnection = Inr SyncServerClose"
| "intended Save = Inr SyncSave"
| "intended (CreateServerDatabase _) = Inl ''createServerDatabase''"
| "intended CreateServerUser = Inl ''createServerUser''"
| "intended (NotifyConnectedAs _ _) = Inl ''notifyConnectedAs''"
| "intended GetUser = Inl ''getUser''"
| "intended (Create _ _) = Inl ''create''"

lemma intended_call:
  assumes "\<forall>d w. oper \<noteq> Create d w"
  shows "if opName oper \<in> {''getUser'', ''createServerDatabase'', ''createServerUser'', ''notifyConnectedAs''} then intended oper = Inl (opName oper)
    else \<exists>c. intended oper = Inr c \<and> implCall (opName oper) (opParams oper) = Some c"
  using assms by (cases oper) (auto simp: implCall_def argAt_def orEmptyMap_def split: option.split)

text \<open>
  C24: When the worker has created its database, every method of the database in a worker, called with parameters that are not null,
  do not look like identifiers and can be cloned, sends one message, and the promise waits for its answer. The worker then calls a method of
  its own database, and this makes the call of the synchronous database that the method
  stands for, with the same parameters in the same places, where a function is replaced by one that calls it back through its subscription.
  The result is kept as a wrapped object for watchers and the remote database. Four methods are
  answered with an error instead that names them, since that database does not have them.
\<close>

theorem worker_database_serves:
  assumes "workerCall oper sw = (p, sender, sw')" and "list_all plain_param (opParams oper)" and "cloneable (s_payload sender)"
    and "\<forall>d w. oper \<noteq> Create d w" and "runner ws = implObject"
  shows "\<exists>mid rs ws'. sentMessages (sw_worker sw') = sentMessages (sw_worker sw) @ [messageObject mid (s_payload sender)]
    \<and> map_of (callbacks (sw_worker sw')) (asKey mid) = Some p
    \<and> onWorkerMessage (dbCreator throws) (messageObject mid (s_payload sender)) ws = (Inr (), ws')
    \<and> (case intended oper of
        Inl name \<Rightarrow> ws' = postReturn mid False (WStr (js ''Invalid database function '' @ js name)) (grantAll rs ws)
      | Inr c \<Rightarrow> \<exists>fn ps. list_all2 (delivered (sw_worker sw')) ps rs \<and> implCall fn ps = Some c
         \<and> ws' = w_apply (dbCreator throws) \<lparr>w_id = mid, w_target = OnRunner implObject, w_fn = WStr (js fn), w_params = rs,
                w_conv = (if (\<exists>q p f. oper = Watch q p f) \<or> (\<exists>q p f g. oper = WatchChanges q p f g) then WrapResult True
                  else if oper = ConnectedRemote then WrapResult False else KeepResult)\<rparr> (grantAll rs ws))"
proof -
  let ?m = "mid (pw_source (sw_worker sw)) (lastId (sw_worker sw) + 1)"
  define pw0 where "pw0 = (sw_worker sw)\<lparr>lastId := lastId (sw_worker sw) + 1\<rparr>"
  obtain qs keys pw1 where pp: "postParams (opParams oper) pw0 = (qs, keys, pw1)" by (cases "postParams (opParams oper) pw0")
  note ef = postParams_effect [OF pp]
  obtain rs where rs: "mapParams qs = Inr rs" "list_all2 (delivered pw1) (opParams oper) rs"
    using postParams_delivered [OF pp assms(2)] by blast
  have sw: "sw_worker (case oper of Connect _ key _ _ \<Rightarrow> sw\<lparr>currentUser := Some key\<rparr> | _ \<Rightarrow> sw) = sw_worker sw" by (cases oper) simp_all
  have post: "pw_post (opRequest oper) (opParams oper) (sw_worker sw)
      = (\<lparr>s_message = ?m, s_payload = requestObject (opRequest oper) qs, s_subscribed = keys\<rparr>, pw1)"
    using pp by (simp add: pw_post_def nextMessageId_def mid_def pw0_def)
  from assms(1) have s: "sender = \<lparr>s_message = ?m, s_payload = requestObject (opRequest oper) qs, s_subscribed = keys\<rparr>"
    and w: "p = promiseCount pw1" "sw_worker sw' = pw1\<lparr>callbacks := amap_set (asKey ?m) p (callbacks pw1),
      sentMessages := sentMessages pw1 @ [messageObject ?m (requestObject (opRequest oper) qs)], promiseCount := p + 1\<rparr>"
    using assms(3) by (auto simp: workerCall_def sw post pw_send_cloneable)
  obtain L S where "pw1 = pw0\<lparr>lastId := L, subscriptions := S\<rparr>" using ef by blast
  then have "sentMessages pw1 = sentMessages (sw_worker sw)" by (simp add: pw0_def)
  then have 1: "sentMessages (sw_worker sw') = sentMessages (sw_worker sw) @ [messageObject ?m (s_payload sender)]"
    "map_of (callbacks (sw_worker sw')) (asKey ?m) = Some p" by (simp_all add: w s)
  have sub: "subscriptions (sw_worker sw') = subscriptions pw1" by (simp add: w)
  have "delivered (sw_worker sw') = delivered pw1" unfolding delivered_def sub ..
  then have 2: "list_all2 (delivered (sw_worker sw')) (opParams oper) rs" using rs(2) by simp
  have r: "runner (grantAll rs ws) = implObject" "truthyW implObject" using assms(5) by (simp_all add: grantAll_def truthyW_def implObject_def)
  note n = opName_impl [OF assms(4)]
  have "onWorkerMessage (dbCreator throws) (messageObject ?m (s_payload sender)) ws =
      onFunction (dbCreator throws) ?m \<lparr>f_fn = WStr (js (opName oper)), f_parameters = WArr qs, f_wrap = opWrap oper\<rparr> ws"
    by (simp add: onWorkerMessage_def Message_convert_message s requestObject_def opRequest_def)
  also have "\<dots> = (Inr (), if opName oper \<in> {''getUser'', ''createServerDatabase'', ''createServerUser'', ''notifyConnectedAs''}
         then postReturn ?m False (WStr (js ''Invalid database function '' @ js (opName oper))) (grantAll rs ws)
         else w_apply (dbCreator throws) \<lparr>w_id = ?m, w_target = OnRunner implObject, w_fn = WStr (js (opName oper)), w_params = rs,
                w_conv = (if (\<exists>q p f. oper = Watch q p f) \<or> (\<exists>q p f g. oper = WatchChanges q p f g) then WrapResult True
                  else if oper = ConnectedRemote then WrapResult False else KeepResult)\<rparr> (grantAll rs ws))"
    using n getProp_impl [of "opName oper"] r rs(1) unfolding wrap_conv [symmetric]
    by (simp add: onFunction_def parametersOf_def dbCreator_def Let_def idText_def del: js_simps)
  finally have on: "onWorkerMessage (dbCreator throws) (messageObject ?m (s_payload sender)) ws = \<dots>" .
  show ?thesis
  proof (cases "opName oper \<in> {''getUser'', ''createServerDatabase'', ''createServerUser'', ''notifyConnectedAs''}")
    case True
    then have "intended oper = Inl (opName oper)" using intended_call [OF assms(4)] by simp
    then show ?thesis using 1 on unfolding if_P [OF True] by (intro exI [of _ ?m] exI [of _ rs] exI conjI) (assumption | simp)+
  next
    case False
    then obtain c where "intended oper = Inr c" "implCall (opName oper) (opParams oper) = Some c" using intended_call [OF assms(4)] by auto
    then show ?thesis using 1 2 on unfolding if_not_P [OF False] by (intro exI [of _ ?m] exI [of _ rs] exI conjI) (assumption | auto)+
  qed
qed

text \<open>A worker with its database, and a watcher with one function.\<close>

definition demo_worker :: Worker where
  "demo_worker = \<lparr>runner = implObject, wrappedId = 0, wrapped = [], pendingCalls = [], posted = [], granted = []\<rparr>"

definition demo_sw :: SKDBWorker where
  "demo_sw = \<lparr>sw_worker = newPromiseWorker 0, currentUser = None\<rparr>"

lemma demo_watch: "list_all plain_param (opParams (Watch [1] (WObj []) 7))"
  by (simp add: plain_param_def isObject_def MessageId_as_def inOp_def)

theorem worker_database_serves_witness:
  "\<exists>mid ps rs p sender sw'. workerCall (Watch [1] (WObj []) 7) demo_sw = (p, sender, sw') \<and> list_all2 (delivered (sw_worker sw')) ps rs
    \<and> argAt 0 ps = WStr [1] \<and> argAt 1 ps = WObj [] \<and> argAt 2 ps = WFun 7
    \<and> onWorkerMessage (dbCreator (\<lambda>_. None)) (messageObject mid (s_payload sender)) demo_worker =
       (Inr (), w_apply (dbCreator (\<lambda>_. None)) \<lparr>w_id = mid, w_target = OnRunner implObject, w_fn = WStr (js ''watch''),
          w_params = rs, w_conv = WrapResult True\<rparr> (grantAll rs demo_worker))"
proof -
  obtain p sender sw' where c: "workerCall (Watch [1] (WObj []) 7) demo_sw = (p, sender, sw')" by (cases "workerCall (Watch [1] (WObj []) 7) demo_sw")
  then have cl: "cloneable (s_payload sender)"
    by (auto simp: workerCall_def demo_sw_def newPromiseWorker_def opRequest_def requestObject_def pw_post_def pw_send_def nextMessageId_def
        worker_objects wrapOption_def Let_def simp del: js_simps)
  have "runner demo_worker = implObject" by (simp add: demo_worker_def)
  from worker_database_serves [OF c demo_watch cl _ this, of "\<lambda>_. None"] obtain mid rs fn ps where
    rs: "list_all2 (delivered (sw_worker sw')) ps rs" "implCall fn ps = Some (SyncWatch (WStr [1]) (WObj []) (WFun 7))" and
    on: "onWorkerMessage (dbCreator (\<lambda>_. None)) (messageObject mid (s_payload sender)) demo_worker =
       (Inr (), w_apply (dbCreator (\<lambda>_. None)) \<lparr>w_id = mid, w_target = OnRunner implObject, w_fn = WStr (js fn),
          w_params = rs, w_conv = WrapResult True\<rparr> (grantAll rs demo_worker))"
    by (simp del: js_simps) blast
  moreover from rs(2) have "fn = ''watch'' \<and> argAt 0 ps = WStr [1] \<and> argAt 1 ps = WObj [] \<and> argAt 2 ps = WFun 7"
    by (simp add: implCall_def split: if_splits)
  ultimately show ?thesis using c by blast
qed

text \<open>Query parameters with the names of the fields of an identifier are taken for a subscription: the method gets a function for them.\<close>

lemma query_parameters_taken:
  "mapParams (opParams (Exec q (Some (WObj [(js ''id'', a), (js ''source'', b)])))) = Inr [Value (WStr q), Callback \<lparr>m_source = b, m_id = a\<rparr>]"
  using identifier_parameter_taken [of a b] by (simp add: isObject_def del: js_simps)

text \<open>A watcher's object is dropped with the first call of \<open>close\<close>: the call runs, and a second one is answered with an error, after
  which the caller keeps its subscriptions.\<close>

lemma watcher_closed_once:
  assumes "map_of (wrapped ws) w = Some (WObj [(js ''close'', WFun i)], True)"
  shows "onWorkerMessage (dbCreator (\<lambda>_. None)) (messageObject m (requestObject (CallWrapped w (js ''close'') False) [])) ws
      = (Inr (), (w_apply (dbCreator (\<lambda>_. None)) \<lparr>w_id = m, w_target = OnWrapped (WObj [(js ''close'', WFun i)]), w_fn = WStr (js ''close''),
          w_params = [], w_conv = KeepResult\<rparr> ws)\<lparr>wrapped := amap_del w (wrapped ws)\<rparr>)"
    and "map_of (wrapped ws') w = None \<Longrightarrow>
      onWorkerMessage (dbCreator (\<lambda>_. None)) (messageObject m (requestObject (CallWrapped w (js ''close'') False) [])) ws'
      = (Inr (), postReturn m False (WStr (js ''Invalid function '' @ js ''close'')) ws')"
proof -
  have n: "js ''close'' \<noteq> []" by simp
  have g: "grantAll [] v = v" for v by (simp add: grantAll_def List.map_filter_def)
  show "onWorkerMessage (dbCreator (\<lambda>_. None)) (messageObject m (requestObject (CallWrapped w (js ''close'') False) [])) ws
      = (Inr (), (w_apply (dbCreator (\<lambda>_. None)) \<lparr>w_id = m, w_target = OnWrapped (WObj [(js ''close'', WFun i)]), w_fn = WStr (js ''close''),
          w_params = [], w_conv = KeepResult\<rparr> ws)\<lparr>wrapped := amap_del w (wrapped ws)\<rparr>)"
    using assms n by (simp add: onWorkerMessage_def Message_convert_message requestObject_def onCaller_def parametersOf_def g dbCreator_def
        getProp_def isFunction_def w_apply_def truthyW_def del: js_simps)
  assume "map_of (wrapped ws') w = None"
  then show "onWorkerMessage (dbCreator (\<lambda>_. None)) (messageObject m (requestObject (CallWrapped w (js ''close'') False) [])) ws'
      = (Inr (), postReturn m False (WStr (js ''Invalid function '' @ js ''close'')) ws')"
    using n by (simp add: onWorkerMessage_def Message_convert_message requestObject_def onCaller_def parametersOf_def g dbCreator_def
        isFunction_def truthyW_def idText_def del: js_simps)
qed

text \<open>The answer to the call of \<open>close\<close> ends the subscriptions of the watcher, an error does not.\<close>

lemma closedWatcher_subscriptions:
  "subscriptions (sw_worker (closedWatcher provider (Resolve v) sw)) = fold amap_del (s_subscribed provider) (subscriptions (sw_worker sw))"
  "closedWatcher provider (RejectText v) sw = sw"
  by (simp_all add: closedWatcher_def pw_close_def)

end
