(* ===== verification/Skdb_Memory.thy ===== *)
theory Skdb_Memory
  imports Prelude Complex_Main
begin

text \<open>
  The persistent image of the database: \<open>SKDBMemory\<close> of \<open>sql/ts/src/skdb_skdb.ts\<close> and the storage of
  \<open>sql/ts/src/skdb_storage.ts\<close>.

  The memory of the compiled program is a list of 32-bit words. The engine reports the pages it has
  written one by one (\<open>sk_pop_dirty_page\<close>, an argument \<open>pop\<close> on the state of the engine) and -1 at the
  end. The object store of the browser is an association list from page numbers to contents, and a
  transaction on it completes, aborts or fails; one save is under way at a time.
\<close>

unbundle bit_operations_syntax

section \<open>The memory\<close>

record SKDBMemory =
  memory :: "32 word list"
  persistentSize :: nat
  pageBitSize :: nat
  dirtyPagesMap :: "(nat \<Rightarrow> nat option) option"
  dirtyPages :: "nat list option"

definition newMemory :: "32 word list \<Rightarrow> nat \<Rightarrow> nat \<Rightarrow> SKDBMemory" where
  "newMemory mem psize bits = \<lparr>memory = mem, persistentSize = psize, pageBitSize = bits, dirtyPagesMap = None, dirtyPages = None\<rparr>"

definition pageSize :: "SKDBMemory \<Rightarrow> nat" where
  "pageSize m = 2 ^ pageBitSize m"

definition nbrInitPages :: "SKDBMemory \<Rightarrow> rat" where
  "nbrInitPages m = of_nat (persistentSize m) / of_nat (pageSize m) + 1"

definition clear :: "SKDBMemory \<Rightarrow> SKDBMemory" where
  "clear m = m\<lparr>dirtyPagesMap := Some (\<lambda>_. None), dirtyPages := Some []\<rparr>"

text \<open>The body shared by the two loops of \<open>update\<close>; both arrays are undefined until \<open>clear\<close> is called.\<close>

definition markDirty :: "nat \<Rightarrow> SKDBMemory \<Rightarrow> js_error + SKDBMemory" where
  "markDirty dirtyPage m = (case (dirtyPagesMap m, dirtyPages m) of
     (Some f, Some ds) \<Rightarrow> Inr (if f dirtyPage \<noteq> Some dirtyPage
        then m\<lparr>dirtyPagesMap := Some (f(dirtyPage := Some dirtyPage)), dirtyPages := Some (ds @ [dirtyPage])\<rparr> else m)
   | _ \<Rightarrow> Inl (err ''Cannot read properties of undefined''))"

partial_function (option) popLoop :: "('e \<Rightarrow> int \<times> 'e) \<Rightarrow> 'e \<Rightarrow> SKDBMemory \<Rightarrow> ((js_error + unit) \<times> 'e \<times> SKDBMemory) option" where
  "popLoop pop e m = (case pop e of (dirtyPage, e1) \<Rightarrow>
     if dirtyPage = -1 then Some (Inr (), e1, m)
     else if of_int dirtyPage \<ge> nbrInitPages m then
       (case markDirty (nat dirtyPage) m of Inl x \<Rightarrow> Some (Inl x, e1, m) | Inr m1 \<Rightarrow> popLoop pop e1 m1)
     else popLoop pop e1 m)"

lemma markDirty_nbr: "markDirty d m = Inr m1 \<Longrightarrow> nbrInitPages m1 = nbrInitPages m"
  by (auto simp: markDirty_def nbrInitPages_def pageSize_def split: option.splits)

function initLoop :: "nat \<Rightarrow> SKDBMemory \<Rightarrow> (js_error + unit) \<times> SKDBMemory" where
  "initLoop dirtyPage m =
     (if of_nat dirtyPage < nbrInitPages m then
        (case markDirty dirtyPage m of Inl x \<Rightarrow> (Inl x, m) | Inr m1 \<Rightarrow> initLoop (dirtyPage + 1) m1)
      else (Inr (), m))"
  by auto
termination
proof (relation "measure (\<lambda>(d, m). nat \<lceil>nbrInitPages m - of_nat d\<rceil>)", goal_cases)
  case (2 d m m1)
  then have "nbrInitPages m1 = nbrInitPages m" by (simp add: markDirty_nbr)
  with 2(1) show ?case by (simp add: less_ceiling_iff) linarith
qed simp

declare initLoop.simps [simp del]

definition update :: "('e \<Rightarrow> int \<times> 'e) \<Rightarrow> 'e \<Rightarrow> SKDBMemory \<Rightarrow> ((js_error + unit) \<times> 'e \<times> SKDBMemory) option" where
  "update pop e m = (case popLoop pop e m of
     None \<Rightarrow> None
   | Some (Inl x, e1, m1) \<Rightarrow> Some (Inl x, e1, m1)
   | Some (Inr _, e1, m1) \<Rightarrow> (case initLoop 0 m1 of (r, m2) \<Rightarrow> Some (r, e1, m2)))"

text \<open>\<open>ArrayBuffer.slice\<close> with byte offsets that are multiples of four.\<close>

definition bufSlice :: "nat \<Rightarrow> nat \<Rightarrow> 32 word list \<Rightarrow> 32 word list" where
  "bufSlice a b mem = take ((b - a) div 4) (drop (a div 4) mem)"

type_synonym Page = "nat \<times> 32 word list"

definition getPages :: "SKDBMemory \<Rightarrow> js_error + Page list" where
  "getPages m = (case dirtyPages m of
     None \<Rightarrow> Inl (err ''pages is not iterable'')
   | Some pages \<Rightarrow> Inr (map (\<lambda>page. (page, bufSlice (page * pageSize m) (page * pageSize m + pageSize m) (memory m))) pages))"

text \<open>Rounding up to whole pages is done on 32-bit integers.\<close>

definition memorySize :: "SKDBMemory \<Rightarrow> int" where
  "memorySize m = sint ((of_nat (persistentSize m + (pageSize m - 1)) :: 32 word) AND NOT (of_nat (pageSize m - 1)))"

function init_loop :: "SKDBMemory \<Rightarrow> nat \<Rightarrow> nat \<Rightarrow> Page list" where
  "init_loop m i cursor =
     (if of_nat i < (of_int (memorySize m) / of_nat (pageSize m) :: rat)
      then (i, bufSlice cursor (cursor + pageSize m) (memory m)) # init_loop m (i + 1) (cursor + pageSize m) else [])"
  by auto
termination
  by (relation "measure (\<lambda>(m, i, c). nat \<lceil>(of_int (memorySize m) / of_nat (pageSize m) :: rat) - of_nat i\<rceil>)")
    (auto simp: less_ceiling_iff, linarith)

declare init_loop.simps [simp del]

definition init :: "SKDBMemory \<Rightarrow> Page list" where
  "init m = init_loop m 0 0"

text \<open>Words written past the end of a typed array are dropped.\<close>

fun writeAt :: "nat \<Rightarrow> 'a list \<Rightarrow> 'a list \<Rightarrow> 'a list" where
  "writeAt i [] mem = mem"
| "writeAt i (w # ws) mem = writeAt (Suc i) ws (mem[i := w])"

definition restore :: "Page list \<Rightarrow> SKDBMemory \<Rightarrow> SKDBMemory" where
  "restore pages m = m\<lparr>memory := fold (\<lambda>(pageid, content). writeAt (pageid * (pageSize m div 4)) content) pages (memory m)\<rparr>"

section \<open>The object store\<close>

type_synonym store = "Page list"

definition put :: "Page \<Rightarrow> store \<Rightarrow> store" where
  "put p db = amap_set (fst p) (snd p) db"

definition getAll :: "store \<Rightarrow> Page list" where
  "getAll db = sort_key fst db"

definition makeSKDBStore :: "SKDBMemory \<Rightarrow> store \<Rightarrow> SKDBMemory \<times> store" where
  "makeSKDBStore m db = (if length (getAll db) = 0 then (m, fold put (init m) db) else (restore (getAll db) m, db))"

datatype txResult = TxComplete | TxAbort | TxError

definition storePages :: "txResult \<Rightarrow> SKDBMemory \<Rightarrow> store \<Rightarrow> bool \<times> SKDBMemory \<times> store" where
  "storePages tx m db = (case getPages m of
     Inl _ \<Rightarrow> (False, if tx = TxComplete then clear m else m, db)
   | Inr copiedPages \<Rightarrow> (if tx = TxComplete then (True, clear m, fold put copiedPages db) else (False, m, db)))"

definition save :: "('e \<Rightarrow> int \<times> 'e) \<Rightarrow> 'e \<Rightarrow> txResult \<Rightarrow> SKDBMemory \<Rightarrow> store \<Rightarrow> ((js_error + bool) \<times> 'e \<times> SKDBMemory \<times> store) option" where
  "save pop e tx m db = (case update pop e m of
     None \<Rightarrow> None
   | Some (Inl x, e1, m1) \<Rightarrow> Some (Inl x, e1, m1, db)
   | Some (Inr _, e1, m1) \<Rightarrow> (case storePages tx m1 db of (ok, m2, db2) \<Rightarrow> Some (Inr ok, e1, m2, db2)))"

definition clearStore :: "store \<Rightarrow> store" where
  "clearStore db = []"

section \<open>Collecting the dirty pages\<close>

text \<open>The engine reports the pages \<open>ps\<close>.\<close>

fun drains :: "('e \<Rightarrow> int \<times> 'e) \<Rightarrow> 'e \<Rightarrow> int list \<Rightarrow> 'e \<Rightarrow> bool" where
  "drains pop e [] e' \<longleftrightarrow> pop e = (-1, e')"
| "drains pop e (p # ps) e' \<longleftrightarrow> p \<noteq> -1 \<and> fst (pop e) = p \<and> drains pop (snd (pop e)) ps e'"

definition dirty_ok :: "SKDBMemory \<Rightarrow> nat list \<Rightarrow> bool" where
  "dirty_ok m ds \<longleftrightarrow> dirtyPages m = Some ds \<and> distinct ds \<and> dirtyPagesMap m = Some (\<lambda>d. if d \<in> set ds then Some d else None)"

text \<open>What the collection does not change.\<close>

definition sameImage :: "SKDBMemory \<Rightarrow> SKDBMemory \<Rightarrow> bool" where
  "sameImage m m' \<longleftrightarrow> memory m' = memory m \<and> persistentSize m' = persistentSize m \<and> pageBitSize m' = pageBitSize m"

lemma sameImage_refl [simp]: "sameImage m m" by (simp add: sameImage_def)

lemma sameImage_trans: "sameImage m m1 \<Longrightarrow> sameImage m1 m2 \<Longrightarrow> sameImage m m2" by (simp add: sameImage_def)

lemma sameImage_nbr: "sameImage m m' \<Longrightarrow> nbrInitPages m' = nbrInitPages m \<and> pageSize m' = pageSize m"
  by (simp add: sameImage_def nbrInitPages_def pageSize_def)

lemma markDirty_spec:
  assumes "dirty_ok m ds"
  shows "\<exists>m' ds'. markDirty d m = Inr m' \<and> dirty_ok m' ds' \<and> sameImage m m' \<and> set ds' = insert d (set ds)"
proof (cases "d \<in> set ds")
  case True
  with assms show ?thesis by (intro exI [of _ m] exI [of _ ds]) (auto simp: markDirty_def dirty_ok_def)
next
  case False
  with assms show ?thesis
    by (intro exI [of _ "m\<lparr>dirtyPagesMap := Some ((\<lambda>d. if d \<in> set ds then Some d else None)(d := Some d)), dirtyPages := Some (ds @ [d])\<rparr>"] exI [of _ "ds @ [d]"])
      (auto simp: markDirty_def dirty_ok_def sameImage_def fun_eq_iff)
qed

lemma popLoop_spec:
  assumes "drains pop e ps e'" "dirty_ok m ds"
  shows "\<exists>m' ds'. popLoop pop e m = Some (Inr (), e', m') \<and> dirty_ok m' ds' \<and> sameImage m m'
    \<and> set ds' = set ds \<union> nat ` {p \<in> set ps. of_int p \<ge> nbrInitPages m}"
  using assms
proof (induction ps arbitrary: e m ds)
  case Nil
  then show ?case by (subst popLoop.simps) auto
next
  case (Cons p ps)
  obtain e1 where e: "pop e = (p, e1)" "p \<noteq> -1" "drains pop e1 ps e'" using Cons.prems(1) by (cases "pop e") auto
  show ?case
  proof (cases "of_int p \<ge> nbrInitPages m")
    case True
    obtain m1 ds1 where m1: "markDirty (nat p) m = Inr m1" "dirty_ok m1 ds1" "sameImage m m1" "set ds1 = insert (nat p) (set ds)"
      using markDirty_spec [OF Cons.prems(2)] by blast
    from Cons.IH [OF e(3) m1(2)] obtain m' ds' where "popLoop pop e1 m1 = Some (Inr (), e', m')" "dirty_ok m' ds'" "sameImage m1 m'"
      "set ds' = set ds1 \<union> nat ` {p \<in> set ps. of_int p \<ge> nbrInitPages m1}" by blast
    with True e m1 sameImage_nbr [OF m1(3)] show ?thesis
      by (intro exI [of _ m'] exI [of _ ds']) (subst popLoop.simps, auto intro: sameImage_trans)
  next
    case False
    from Cons.IH [OF e(3) Cons.prems(2)] False e show ?thesis
      by (subst popLoop.simps) (auto simp: Collect_conv_if conj_disj_distribR Collect_disj_eq)
  qed
qed

lemma initLoop_spec:
  "dirty_ok m ds \<Longrightarrow> \<exists>m' ds'. initLoop d m = (Inr (), m') \<and> dirty_ok m' ds' \<and> sameImage m m' \<and> set ds' = set ds \<union> {k. d \<le> k \<and> of_nat k < nbrInitPages m}"
proof (induction d m arbitrary: ds rule: initLoop.induct)
  case (1 d m)
  show ?case
  proof (cases "of_nat d < nbrInitPages m")
    case True
    obtain m1 ds1 where m1: "markDirty d m = Inr m1" "dirty_ok m1 ds1" "sameImage m m1" "set ds1 = insert d (set ds)"
      using markDirty_spec [OF "1.prems"] by blast
    from "1.IH" [OF True m1(1,2)] obtain m' ds' where "initLoop (d + 1) m1 = (Inr (), m')" "dirty_ok m' ds'" "sameImage m1 m'"
      "set ds' = set ds1 \<union> {k. d + 1 \<le> k \<and> of_nat k < nbrInitPages m1}" by blast
    moreover have "insert d {k. d + 1 \<le> k \<and> of_nat k < nbrInitPages m} = {k. d \<le> k \<and> of_nat k < nbrInitPages m}"
      using True by (auto simp: le_eq_less_or_eq)
    ultimately show ?thesis using True m1 sameImage_nbr [OF m1(3)]
      by (intro exI [of _ m'] exI [of _ ds']) (subst initLoop.simps, auto intro: sameImage_trans)
  next
    case False
    then have "{k. d \<le> k \<and> of_nat k < nbrInitPages m} = {}" by (auto simp: not_less)
    with False "1.prems" show ?thesis by (subst initLoop.simps) auto
  qed
qed


lemma nbrInitPages_pos: "nbrInitPages m > 0"
  by (simp add: nbrInitPages_def add_nonneg_pos)

lemma update_spec:
  assumes "drains pop e ps e'" "dirty_ok m ds"
  shows "\<exists>m' ds'. update pop e m = Some (Inr (), e', m') \<and> dirty_ok m' ds' \<and> sameImage m m'
    \<and> set ds' = set ds \<union> nat ` {p \<in> set ps. 0 \<le> p} \<union> {k. of_nat k < nbrInitPages m}"
proof -
  obtain m1 ds1 where p: "popLoop pop e m = Some (Inr (), e', m1)" "dirty_ok m1 ds1" "sameImage m m1"
    "set ds1 = set ds \<union> nat ` {p \<in> set ps. of_int p \<ge> nbrInitPages m}" using popLoop_spec [OF assms] by blast
  from initLoop_spec [OF p(2), of 0] obtain m' ds' where i: "initLoop 0 m1 = (Inr (), m')" "dirty_ok m' ds'" "sameImage m1 m'"
    "set ds' = set ds1 \<union> {k. of_nat k < nbrInitPages m1}" by auto
  have "of_int p \<ge> nbrInitPages m \<or> 0 \<le> p \<and> of_nat (nat p) < nbrInitPages m \<longleftrightarrow> 0 \<le> p" for p
    using nbrInitPages_pos [of m] by (auto simp: not_le)
  then have "nat ` {p \<in> set ps. of_int p \<ge> nbrInitPages m} \<union> {k. of_nat k < nbrInitPages m} = nat ` {p \<in> set ps. 0 \<le> p} \<union> {k. of_nat k < nbrInitPages m}"
    by blast
  with p i sameImage_nbr [OF p(3)] show ?thesis
    by (intro exI [of _ m'] exI [of _ ds']) (auto simp: update_def intro: sameImage_trans)
qed

section \<open>Restoring the pages\<close>

lemma length_writeAt [simp]: "length (writeAt i ws mem) = length mem"
  by (induction i ws mem rule: writeAt.induct) auto

lemma nth_writeAt: "j < length mem \<Longrightarrow> writeAt i ws mem ! j = (if i \<le> j \<and> j < i + length ws then ws ! (j - i) else mem ! j)"
proof (induction i ws mem rule: writeAt.induct)
  case (2 i w ws mem)
  then have "writeAt (Suc i) ws (mem[i := w]) ! j = (if Suc i \<le> j \<and> j < Suc i + length ws then ws ! (j - Suc i) else mem[i := w] ! j)" by simp
  then show ?case using 2(2) by (auto simp: nth_Cons' nth_list_update)
qed auto

definition wordsPerPage :: "SKDBMemory \<Rightarrow> nat" where
  "wordsPerPage m = pageSize m div 4"

definition pageOf :: "SKDBMemory \<Rightarrow> nat \<Rightarrow> 32 word list" where
  "pageOf m p = take (wordsPerPage m) (drop (p * wordsPerPage m) (memory m))"

lemma bufSlice_page:
  assumes "2 \<le> pageBitSize m"
  shows "bufSlice (p * pageSize m) (p * pageSize m + pageSize m) (memory m) = pageOf m p"
proof -
  obtain k where "pageBitSize m = 2 + k" using assms le_Suc_ex by blast
  then have "pageSize m = 4 * 2 ^ k" by (simp add: pageSize_def power_add)
  then have "p * pageSize m div 4 = p * wordsPerPage m" by (simp add: wordsPerPage_def)
  then show ?thesis by (simp add: bufSlice_def pageOf_def wordsPerPage_def)
qed

lemma page_word: "0 < (w :: nat) \<Longrightarrow> j div w * w \<le> j \<and> j < j div w * w + w"
  using div_mult_mod_eq [of j w] mod_less_divisor [of w j] by linarith

lemma nth_pageOf:
  assumes "j < length (memory m)" "0 < wordsPerPage m"
  defines "p \<equiv> j div wordsPerPage m"
  shows "j - p * wordsPerPage m < length (pageOf m p)" "pageOf m p ! (j - p * wordsPerPage m) = memory m ! j"
proof -
  define q where "q = p * wordsPerPage m"
  have "q \<le> j" "j < q + wordsPerPage m" using page_word [OF assms(2), of j] by (simp_all add: q_def p_def)
  then show "j - p * wordsPerPage m < length (pageOf m p)" "pageOf m p ! (j - p * wordsPerPage m) = memory m ! j"
    using assms(1) by (auto simp: pageOf_def simp flip: q_def)
qed

text \<open>A page of at most the page's length touches only its own words.\<close>

lemma writeAt_page:
  assumes "length c \<le> w" "j < length mem" "0 < w"
  shows "writeAt (q * w) c mem ! j = (if j div w = q \<and> j - q * w < length c then c ! (j - q * w) else mem ! j)"
proof -
  have "q * w \<le> j \<and> j < q * w + length c \<longleftrightarrow> j div w = q \<and> j - q * w < length c"
  proof
    assume a: "q * w \<le> j \<and> j < q * w + length c"
    then have "j div w = q" using assms(1) by (intro div_nat_eqI) (auto simp: algebra_simps)
    with a show "j div w = q \<and> j - q * w < length c" by linarith
  qed (use page_word [OF assms(3), of j] in auto)
  then show ?thesis by (simp add: nth_writeAt [OF assms(2)])
qed

lemma fold_pages:
  assumes "0 < w" "\<forall>(q, c) \<in> set pages. length c \<le> w" "distinct (map fst pages)" "j < length mem"
  shows "fold (\<lambda>(q, c). writeAt (q * w) c) pages mem ! j = (case map_of pages (j div w) of
     Some c \<Rightarrow> if j - j div w * w < length c then c ! (j - j div w * w) else mem ! j | None \<Rightarrow> mem ! j)"
  using assms(2-)
proof (induction pages arbitrary: mem)
  case (Cons qc pages)
  obtain q c where qc: "qc = (q, c)" by (cases qc)
  have "map_of pages q = None" using Cons.prems(2) by (auto simp: qc map_of_eq_None_iff)
  with Cons qc writeAt_page [OF _ Cons.prems(3) assms(1), of c q] show ?case by (auto split: option.split)
qed simp

lemma restore_fields [simp]: "pageBitSize (restore ps m) = pageBitSize m" "length (memory (restore ps m)) = length (memory m)"
proof -
  show "pageBitSize (restore ps m) = pageBitSize m" by (simp add: restore_def)
  have "length (fold (\<lambda>(pageid, content). writeAt (pageid * k) content) ps mem) = length mem" for k and mem :: "32 word list"
    by (induction ps arbitrary: mem) auto
  then show "length (memory (restore ps m)) = length (memory m)" by (simp add: restore_def)
qed


lemma restore_agrees:
  assumes w: "0 < wordsPerPage m" and pages: "\<forall>(q, c) \<in> set pages. length c \<le> wordsPerPage m" "distinct (map fst pages)"
    and l: "length mem0 = length (memory m)"
    and agree: "\<And>p. case map_of pages p of Some c \<Rightarrow> c = pageOf m p | None \<Rightarrow> pageOf (m\<lparr>memory := mem0\<rparr>) p = pageOf m p"
  shows "memory (restore pages (m\<lparr>memory := mem0\<rparr>)) = memory m"
proof (rule nth_equalityI)
  let ?w = "wordsPerPage m"
  show "length (memory (restore pages (m\<lparr>memory := mem0\<rparr>))) = length (memory m)" using l by simp
  fix j assume "j < length (memory (restore pages (m\<lparr>memory := mem0\<rparr>)))"
  then have j: "j < length mem0" "j < length (memory m)" using l by simp_all
  have f: "memory (restore pages (m\<lparr>memory := mem0\<rparr>)) ! j = (case map_of pages (j div ?w) of
     Some c \<Rightarrow> if j - j div ?w * ?w < length c then c ! (j - j div ?w * ?w) else mem0 ! j | None \<Rightarrow> mem0 ! j)"
    using fold_pages [OF w pages j(1)] by (simp add: restore_def wordsPerPage_def pageSize_def)
  show "memory (restore pages (m\<lparr>memory := mem0\<rparr>)) ! j = memory m ! j"
  proof (cases "map_of pages (j div ?w)")
    case (Some c)
    then have "c = pageOf m (j div ?w)" using agree [of "j div ?w"] by simp
    with f Some nth_pageOf [OF j(2) w] show ?thesis by simp
  next
    case None
    then have e: "pageOf (m\<lparr>memory := mem0\<rparr>) (j div ?w) = pageOf m (j div ?w)" using agree [of "j div ?w"] by simp
    have w0: "wordsPerPage (m\<lparr>memory := mem0\<rparr>) = ?w" by (simp add: wordsPerPage_def pageSize_def)
    have "mem0 ! j = pageOf (m\<lparr>memory := mem0\<rparr>) (j div ?w) ! (j - j div ?w * ?w)"
      using nth_pageOf(2) [of j "m\<lparr>memory := mem0\<rparr>"] j(1) w unfolding w0 by simp
    also have "\<dots> = memory m ! j" unfolding e using nth_pageOf(2) [OF j(2) w] .
    finally show ?thesis using f None by simp
  qed
qed


lemma map_of_getAll:
  assumes "distinct (map fst db)"
  shows "map_of (getAll db) = map_of db" "distinct (map fst (getAll db))" "set (getAll db) = set db"
proof -
  show s: "set (getAll db) = set db" by (simp add: getAll_def)
  with assms show d: "distinct (map fst (getAll db))" by (simp add: distinct_map) (simp add: getAll_def)
  show "map_of (getAll db) = map_of db" using map_of_inject_set [OF d assms] s by simp
qed

lemma fold_put:
  "map_of (fold put (map (\<lambda>p. (p, c p)) ds) db) q = (if q \<in> set ds then Some (c q) else map_of db q)"
  "distinct (map fst db) \<Longrightarrow> distinct (map fst (fold put (map (\<lambda>p. (p, c p)) ds) db))"
  by (induction ds arbitrary: db) (auto simp: put_def)

lemma stored_pages:
  assumes "distinct (map fst db)" "\<forall>(q, c) \<in> set db. length c \<le> w" "\<And>p. length (c p) \<le> w"
  shows "\<forall>(q, b) \<in> set (fold put (map (\<lambda>p. (p, c p)) ds) db). length b \<le> w"
proof (intro ballI, unfold split_paired_all prod.case)
  let ?db = "fold put (map (\<lambda>p. (p, c p)) ds) db"
  fix q b assume "(q, b) \<in> set ?db"
  then have "map_of ?db q = Some b" using fold_put(2) [OF assms(1)] by (simp add: map_of_is_SomeI)
  then show "length b \<le> w" using assms by (auto simp: fold_put(1) split: if_splits dest: map_of_SomeD)
qed

definition in_store :: "32 word list \<Rightarrow> SKDBMemory \<Rightarrow> store \<Rightarrow> nat \<Rightarrow> bool" where
  "in_store mem0 m db p \<longleftrightarrow> (case map_of db p of Some c \<Rightarrow> c = pageOf m p | None \<Rightarrow> pageOf (m\<lparr>memory := mem0\<rparr>) p = pageOf m p)"

text \<open>A memory whose arrays of dirty pages are set (only \<open>clear\<close> sets them): if every page of the memory is stored, or still as the program starts with it, unless it is known to be dirty or the
  engine is about to report it, then a save ends; when its transaction completes, restoring the store into the memory the
  program starts with gives the memory, and no page is dirty; when it fails, the store is as before and no dirty page is forgotten.\<close>

lemma save_persists:
  assumes bits: "2 \<le> pageBitSize m" and pops: "drains pop e ps e'" and ok: "dirty_ok m ds"
    and db: "distinct (map fst db)" "\<forall>(q, c) \<in> set db. length c \<le> wordsPerPage m" and len: "length mem0 = length (memory m)"
    and stored: "\<And>p. p \<notin> set ds \<Longrightarrow> int p \<notin> set ps \<Longrightarrow> in_store mem0 m db p"
  shows "(\<exists>m' db'. save pop e TxComplete m db = Some (Inr True, e', m', db') \<and> dirty_ok m' [] \<and> sameImage m m'
      \<and> memory (restore (getAll db') (m\<lparr>memory := mem0\<rparr>)) = memory m)
    \<and> (\<forall>tx. tx \<noteq> TxComplete \<longrightarrow> (\<exists>m' ds'. save pop e tx m db = Some (Inr False, e', m', db) \<and> dirty_ok m' ds' \<and> sameImage m m'
      \<and> set ds \<union> nat ` {p \<in> set ps. 0 \<le> p} \<subseteq> set ds'))"
proof -
  obtain m1 ds1 where u: "update pop e m = Some (Inr (), e', m1)" "dirty_ok m1 ds1" "sameImage m m1"
    "set ds1 = set ds \<union> nat ` {p \<in> set ps. 0 \<le> p} \<union> {k. of_nat k < nbrInitPages m}" using update_spec [OF pops ok] by blast
  have pg: "pageOf m1 = pageOf m" using u(3) by (simp add: fun_eq_iff sameImage_def pageOf_def wordsPerPage_def pageSize_def)
  have g: "getPages m1 = Inr (map (\<lambda>p. (p, pageOf m p)) ds1)"
    using u(2,3) bits bufSlice_page [of m1] by (simp add: getPages_def dirty_ok_def pg sameImage_def)
  let ?db = "fold put (map (\<lambda>p. (p, pageOf m p)) ds1) db"
  have w: "0 < wordsPerPage m" using bits power_increasing [of 2 "pageBitSize m" "2 :: nat"] by (simp add: wordsPerPage_def pageSize_def div_greater_zero_iff)
  have "in_store mem0 m ?db p" for p
  proof (cases "p \<in> set ds1")
    case False
    then have "p \<notin> set ds" "int p \<notin> set ps" using u(4) by force+
    with stored [of p] False show ?thesis by (simp add: in_store_def fold_put(1))
  qed (simp add: in_store_def fold_put(1))
  then have "memory (restore (getAll ?db) (m\<lparr>memory := mem0\<rparr>)) = memory m"
    using stored_pages [OF db, of "pageOf m" ds1] map_of_getAll [OF fold_put(2) [OF db(1), of "pageOf m" ds1]]
    by (intro restore_agrees [OF w _ _ len]) (simp_all add: in_store_def pageOf_def)
  moreover have "save pop e TxComplete m db = Some (Inr True, e', clear m1, ?db)" by (simp add: save_def u(1) storePages_def g)
  moreover have "dirty_ok (clear m1) []" "sameImage m (clear m1)" using u(3) by (auto simp: dirty_ok_def clear_def sameImage_def)
  moreover have "save pop e tx m db = Some (Inr False, e', m1, db)" if "tx \<noteq> TxComplete" for tx
    using that by (simp add: save_def u(1) storePages_def g)
  ultimately show ?thesis using u(2,3,4) by blast
qed

text \<open>Nothing calls \<open>clear\<close> before the first save, so that save throws, and so does every later one.\<close>

lemma save_throws:
  assumes "dirtyPagesMap m = None" "dirtyPages m = None" "drains pop e ps e'"
  shows "\<exists>e1. save pop e tx m db = Some (Inl (err ''Cannot read properties of undefined''), e1, m, db)"
proof -
  have mark: "markDirty d m = Inl (err ''Cannot read properties of undefined'')" for d using assms(1) by (simp add: markDirty_def)
  have "\<exists>e1. popLoop pop e m = Some (Inl (err ''Cannot read properties of undefined''), e1, m) \<or> popLoop pop e m = Some (Inr (), e1, m)"
    using assms(3)
  proof (induction ps arbitrary: e)
    case Nil
    then have "popLoop pop e m = Some (Inr (), e', m)" by (subst popLoop.simps) simp
    then show ?case by blast
  next
    case (Cons p ps)
    then obtain e1 where e: "pop e = (p, e1)" "p \<noteq> -1" "drains pop e1 ps e'" by (cases "pop e") auto
    with Cons.IH [OF e(3)] mark show ?case by (subst (1 2) popLoop.simps) (auto simp del: js_simps)
  qed
  moreover have "initLoop 0 m = (Inl (err ''Cannot read properties of undefined''), m)"
    using nbrInitPages_pos [of m] mark by (subst initLoop.simps) (simp del: js_simps)
  ultimately show ?thesis by (auto simp: save_def update_def simp del: js_simps)
qed

section \<open>The first image\<close>

lemma int_and_not_mask: "(a :: int) AND NOT (mask k) = a div 2 ^ k * 2 ^ k"
proof -
  have "a AND NOT (mask k) = push_bit k (drop_bit k a)" by (rule bit_eqI) (auto simp: bit_simps)
  then show ?thesis by (simp add: push_bit_eq_mult drop_bit_eq_div)
qed

lemma memorySize_eq: "memorySize m = (int ((persistentSize m + (pageSize m - 1)) div pageSize m * pageSize m) + 2 ^ 31) mod 2 ^ 32 - 2 ^ 31"
proof -
  let ?n = "persistentSize m + (pageSize m - 1)" and ?k = "pageBitSize m"
  have "(of_nat (pageSize m - 1) :: 32 word) = mask ?k" by (simp add: pageSize_def mask_eq_exp_minus_1 of_nat_diff)
  then have "(of_nat ?n :: 32 word) AND NOT (of_nat (pageSize m - 1)) = of_int (int ?n AND NOT (mask ?k))"
    by (simp add: of_int_and_eq of_int_not_eq of_int_mask_eq)
  also have "\<dots> = word_of_int (int (?n div pageSize m * pageSize m))"
    by (simp add: int_and_not_mask pageSize_def zdiv_int)
  finally show ?thesis by (simp only: memorySize_def int_word_sint) simp
qed

lemma signed_low: "x < 2 ^ 31 \<Longrightarrow> (int x + 2 ^ 31) mod 2 ^ 32 - 2 ^ 31 = int x"
  by (subst mod_pos_pos_trivial) simp_all

lemma signed_high: "2 ^ 31 \<le> x \<Longrightarrow> x < 2 ^ 32 \<Longrightarrow> (int x + 2 ^ 31) mod 2 ^ 32 - 2 ^ 31 < 0"
proof -
  assume "2 ^ 31 \<le> x" "x < 2 ^ 32"
  then have "(int x + 2 ^ 31 - 2 ^ 32) mod 2 ^ 32 = int x + 2 ^ 31 - 2 ^ 32" by (intro mod_pos_pos_trivial) simp_all
  moreover have "(int x + 2 ^ 31 - 2 ^ 32) mod 2 ^ 32 = (int x + 2 ^ 31) mod 2 ^ 32" by (rule minus_mod_self2)
  ultimately show ?thesis using \<open>x < 2 ^ 32\<close> by simp
qed

lemma memorySize_in_range:
  assumes "persistentSize m + pageSize m \<le> 2 ^ 31"
  shows "memorySize m = int ((persistentSize m + (pageSize m - 1)) div pageSize m * pageSize m)"
proof -
  let ?n = "persistentSize m + (pageSize m - 1)"
  have "?n div pageSize m * pageSize m \<le> ?n" by simp
  also have "?n < 2 ^ 31" using assms by (simp add: pageSize_def less_le_trans)
  finally show ?thesis unfolding memorySize_eq by (rule signed_low)
qed

lemma init_loop_pages:
  assumes "memorySize m = int (c * pageSize m)"
  shows "i \<le> c \<Longrightarrow> init_loop m i (i * pageSize m) = map (\<lambda>p. (p, bufSlice (p * pageSize m) (p * pageSize m + pageSize m) (memory m))) [i..<c]"
proof (induction "c - i" arbitrary: i)
  case 0
  have "0 < pageSize m" by (simp add: pageSize_def)
  with 0 assms show ?case by (subst init_loop.simps) simp
next
  case (Suc k)
  have "0 < pageSize m" by (simp add: pageSize_def)
  moreover from Suc have i: "i < c" by simp
  moreover have "init_loop m (i + 1) (i * pageSize m + pageSize m) = map (\<lambda>p. (p, bufSlice (p * pageSize m) (p * pageSize m + pageSize m) (memory m))) [i + 1..<c]"
    using Suc(1) [of "i + 1"] Suc(2) i by (simp add: algebra_simps)
  ultimately show ?case using assms by (subst init_loop.simps) (simp add: upt_conv_Cons)
qed

text \<open>On an empty store the first image consists of the pages that cover the persistent part of the memory, as long as its
  size rounded up fits a signed 32-bit integer; from two to four gigabytes the rounding turns negative and no page is stored.\<close>

theorem first_image_bounds:
  assumes "2 \<le> pageBitSize m" "pageBitSize m \<le> 31"
  shows "(persistentSize m + pageSize m \<le> 2 ^ 31 \<longrightarrow>
      init m = map (\<lambda>p. (p, pageOf m p)) [0..<(persistentSize m + (pageSize m - 1)) div pageSize m])
    \<and> (2 ^ 31 < persistentSize m + pageSize m \<and> persistentSize m + pageSize m \<le> 2 ^ 32 \<longrightarrow> init m = [])"
proof (intro conjI impI)
  assume "persistentSize m + pageSize m \<le> 2 ^ 31"
  from init_loop_pages [OF memorySize_in_range [OF this], of 0]
  show "init m = map (\<lambda>p. (p, pageOf m p)) [0..<(persistentSize m + (pageSize m - 1)) div pageSize m]"
    by (simp add: init_def bufSlice_page [OF assms(1)])
next
  let ?n = "persistentSize m + (pageSize m - 1)"
  assume a: "2 ^ 31 < persistentSize m + pageSize m \<and> persistentSize m + pageSize m \<le> 2 ^ 32"
  have p: "0 < pageSize m" by (simp add: pageSize_def)
  obtain k where k: "31 = pageBitSize m + k" using assms(2) le_Suc_ex by blast
  then have two: "2 ^ 31 = 2 ^ k * pageSize m" by (simp add: pageSize_def power_add [symmetric] add.commute)
  have "2 ^ k \<le> ?n div pageSize m" using a p two by (subst less_eq_div_iff_mult_less_eq) auto
  then have lo: "2 ^ 31 \<le> ?n div pageSize m * pageSize m" unfolding two by (rule mult_le_mono1)
  have "?n div pageSize m * pageSize m \<le> ?n" by simp
  also have "?n < 2 ^ 32" using a p by linarith
  finally have hi: "?n div pageSize m * pageSize m < 2 ^ 32" .
  from signed_high [OF lo hi] have "memorySize m < 0" unfolding memorySize_eq .
  then show "init m = []" unfolding init_def using p by (subst init_loop.simps) (simp add: field_simps)
qed

text \<open>C25: A database that starts with an empty store writes the pages of its memory that
  hold the persistent part (rounded up to whole pages), and leaves the memory alone; one that starts with that store gets exactly these words back, keeps the rest of its own memory, and
  leaves the store alone. From then on the store never changes: every save, whatever pages the engine reports and whatever the
  transaction would do, throws a \<open>TypeError\<close> before it writes, since the arrays of dirty pages are only made by a save that completed.
  This is for sizes that fit a signed 32-bit integer and pages of at least one word.\<close>

theorem image_restored:
  assumes bits: "2 \<le> bits" "bits \<le> 31" and size: "psize + 2 ^ bits \<le> 2 ^ 31" and len: "length mem0 = length mem"
    and k: "k = (psize + (2 ^ bits - 1)) div 2 ^ bits * (2 ^ bits div 4)"
  shows "\<exists>db. makeSKDBStore (newMemory mem psize bits) [] = (newMemory mem psize bits, db)
    \<and> makeSKDBStore (newMemory mem0 psize bits) db = (newMemory (take k mem @ drop k mem0) psize bits, db)
    \<and> (\<forall>(pop :: 'e \<Rightarrow> int \<times> 'e) e ps e' tx mem1. drains pop e ps e' \<longrightarrow> (\<exists>e1. save pop e tx (newMemory mem1 psize bits) db
         = Some (Inl (err ''Cannot read properties of undefined''), e1, newMemory mem1 psize bits, db)))"
proof -
  let ?old = "newMemory mem psize bits" and ?fresh = "newMemory mem0 psize bits" and ?n = "(psize + (2 ^ bits - 1)) div 2 ^ bits" and ?w = "2 ^ bits div 4 :: nat"
  have f: "pageSize (newMemory x psize bits) = 2 ^ bits" "wordsPerPage (newMemory x psize bits) = ?w" for x
    by (simp_all add: pageSize_def wordsPerPage_def newMemory_def)
  have w: "0 < ?w" using power_increasing [OF bits(1), of "2 :: nat"] by (simp add: div_greater_zero_iff)
  have init: "init (newMemory x psize bits) = map (\<lambda>p. (p, pageOf (newMemory x psize bits) p)) [0..<?n]" for x
  proof -
    have "memorySize (newMemory x psize bits) = int (?n * pageSize (newMemory x psize bits))"
      using size by (subst memorySize_in_range) (simp_all add: f, simp_all add: newMemory_def)
    from init_loop_pages [OF this, of 0] show ?thesis
      using bufSlice_page [of "newMemory x psize bits"] bits(1) by (simp add: init_def newMemory_def)
  qed
  define db where "db = fold put (init ?old) []"
  have mo: "map_of db q = (if q < ?n then Some (pageOf ?old q) else None)" for q unfolding db_def init by (simp add: fold_put(1))
  have d: "distinct (map fst db)" unfolding db_def init by (rule fold_put(2)) simp
  have l: "\<forall>(q, c) \<in> set db. length c \<le> ?w"
    unfolding db_def init by (rule stored_pages) (simp_all add: pageOf_def f)
  have "memory (restore (getAll db) ?fresh) = take k mem @ drop k mem0"
  proof (rule nth_equalityI)
    fix j assume "j < length (memory (restore (getAll db) ?fresh))"
    then have j: "j < length mem0" "j < length mem" using len by (simp_all add: newMemory_def)
    have "memory (restore (getAll db) ?fresh) ! j = (case map_of db (j div ?w) of
        Some c \<Rightarrow> if j - j div ?w * ?w < length c then c ! (j - j div ?w * ?w) else mem0 ! j | None \<Rightarrow> mem0 ! j)"
      using fold_pages [OF w, of "getAll db" j mem0] l d j(1) map_of_getAll [OF d] by (simp add: restore_def f) (simp add: newMemory_def)
    also have "\<dots> = (if j div ?w < ?n then mem ! j else mem0 ! j)"
      using nth_pageOf [of j ?old] j w by (simp add: mo f) (simp add: newMemory_def)
    also have "j div ?w < ?n \<longleftrightarrow> j < k" unfolding k using w by (rule div_less_iff_less_mult)
    finally show "memory (restore (getAll db) ?fresh) ! j = (take k mem @ drop k mem0) ! j" using j len by (simp add: nth_append)
  qed (use len in \<open>simp add: newMemory_def\<close>)
  then have r: "restore (getAll db) ?fresh = newMemory (take k mem @ drop k mem0) psize bits" by (simp add: restore_def newMemory_def)
  have "makeSKDBStore ?fresh db = (newMemory (take k mem @ drop k mem0) psize bits, db)"
  proof (cases "db = []")
    case True
    with mo [of 0] have n: "?n = 0" by (auto split: if_splits)
    then show ?thesis using init [of mem0] True by (simp add: makeSKDBStore_def getAll_def k)
  next
    case False
    then have "length (getAll db) \<noteq> 0" by (simp add: getAll_def)
    with r show ?thesis by (simp add: makeSKDBStore_def)
  qed
  moreover have "makeSKDBStore ?old [] = (?old, db)" by (simp add: makeSKDBStore_def getAll_def db_def)
  moreover have "\<exists>e1. save pop e tx (newMemory mem1 psize bits) db
      = Some (Inl (err ''Cannot read properties of undefined''), e1, newMemory mem1 psize bits, db)"
    if "drains pop e ps e'" for pop :: "'e \<Rightarrow> int \<times> 'e" and e ps e' tx mem1
    by (rule save_throws [OF _ _ that]) (simp_all add: newMemory_def)
  ultimately show ?thesis by blast
qed

section \<open>Examples\<close>

definition queue_pop :: "int list \<Rightarrow> int \<times> int list" where
  "queue_pop q = (case q of [] \<Rightarrow> (-1, []) | p # ps \<Rightarrow> (p, ps))"

definition demo_memory :: SKDBMemory where
  "demo_memory = \<lparr>memory = [1, 2, 3, 0], persistentSize = 4, pageBitSize = 2, dirtyPagesMap = Some (\<lambda>_. None), dirtyPages = Some []\<rparr>"

lemma save_persists_example:
  "\<exists>m' db'. save queue_pop [2] TxComplete demo_memory [(0, [1]), (1, [2])] = Some (Inr True, [], m', db')
     \<and> memory (restore (getAll db') (demo_memory\<lparr>memory := [0, 0, 0, 0]\<rparr>)) = [1, 2, 3, 0]"
proof -
  have w: "wordsPerPage demo_memory = 1" "wordsPerPage (demo_memory\<lparr>memory := [0, 0, 0, 0]\<rparr>) = 1" by (simp_all add: wordsPerPage_def pageSize_def demo_memory_def)
  have d: "drains queue_pop [2] [2] []" "dirty_ok demo_memory []" by (simp_all add: queue_pop_def dirty_ok_def demo_memory_def)
  have "in_store [0, 0, 0, 0] demo_memory [(0, [1]), (1, [2])] p" if "int p \<notin> set [2]" for p
  proof -
    from that have "p \<noteq> 2" by auto
    then consider "p = 0" | "p = 1" | "p = 3" | "4 \<le> p" by linarith
    then show ?thesis by cases (simp_all add: in_store_def pageOf_def w, simp_all add: demo_memory_def)
  qed
  with save_persists [of demo_memory queue_pop "[2]" "[2]" "[]" "[]" "[(0, [1]), (1, [2])]" "[0, 0, 0, 0]"] d w
  show ?thesis by (auto simp: demo_memory_def)
qed

theorem image_restored_witness:
  "\<exists>db e1. makeSKDBStore (newMemory [1, 2, 3, 0] 5 2) [] = (newMemory [1, 2, 3, 0] 5 2, db)
    \<and> makeSKDBStore (newMemory [7, 7, 7, 7] 5 2) db = (newMemory [1, 2, 7, 7] 5 2, db)
    \<and> save queue_pop [2] TxComplete (newMemory [1, 2, 7, 7] 5 2) db
        = Some (Inl (err ''Cannot read properties of undefined''), e1, newMemory [1, 2, 7, 7] 5 2, db)"
proof -
  have "drains queue_pop [2] [2] []" by (simp add: queue_pop_def)
  with image_restored [of 2 5 "[7, 7, 7, 7]" "[1, 2, 3, 0]" 2, where 'e = "int list"] show ?thesis by (fastforce simp del: js_simps)
qed

theorem first_image_bounds_witness:
  "init demo_memory = [(0, pageOf demo_memory 0)]"
  using first_image_bounds [of demo_memory] by (simp add: pageSize_def demo_memory_def)

end
