(* ===== verification/Skdb_Links.thy ===== *)
theory Skdb_Links
  imports Skjson
begin

text \<open>
  The link between the compiled database and JavaScript: \<open>LinksImpl\<close> of \<open>sql/ts/src/skdb_skdb.ts\<close>, and the
  results it makes, \<open>SKDBTable\<close> and \<open>ExternalFuns\<close> of \<open>sql/ts/src/skdb_util.ts\<close>.

  The engine prints rows field by field into one of four streams, marks the reactive queries whose
  results have changed, and releases the numbers of deleted ones. The functions of the engine and of
  the application are arguments (\<open>sqlEnv\<close>), as computations on the same state: they may use every
  operation of the link, also while notifications are under way. An object is stored when it is
  pushed; the engine clears the current object before it starts the next row.
\<close>

section \<open>Rows and tables\<close>

type_synonym row = "(jsstring \<times> jval) list"
type_synonym SKDBTable = "row list"

definition cols :: "row \<Rightarrow> jsstring list" where
  "cols r = map fst (own_order r)"

definition getField :: "row \<Rightarrow> jsstring \<Rightarrow> jval" where
  "getField r c = (case map_of r c of Some v \<Rightarrow> v | None \<Rightarrow> VUndef)"

definition firstRow :: "SKDBTable \<Rightarrow> row option" where
  "firstRow t = (if length t < 1 then None else Some (t ! 0))"

definition lastRow :: "SKDBTable \<Rightarrow> row option" where
  "lastRow t = (if length t < 1 then None else Some (t ! (length t - 1)))"

definition onlyRow :: "SKDBTable \<Rightarrow> js_error + row" where
  "onlyRow t = (if length t \<noteq> 1 then Inl (JSError (js ''Can't extract only row: got '' @ nat_text (length t) @ js '' rows'')) else Inr (t ! 0))"

definition scalarValue :: "SKDBTable \<Rightarrow> js_error + jval" where
  "scalarValue t = (case firstRow t of
     None \<Rightarrow> Inr VUndef
   | Some row \<Rightarrow>
       if length (cols row) < 1 then Inr VUndef
       else if length (cols row) > 1 then Inl (JSError (js ''Can't extract scalar: query yielded '' @ nat_text (length (cols row)) @ js '' columns''))
       else Inr (getField row (cols row ! 0)))"

definition truthyV :: "jval \<Rightarrow> bool" where
  "truthyV v \<longleftrightarrow> (case v of VUndef \<Rightarrow> False | VNull \<Rightarrow> False | VBool b \<Rightarrow> b | VNum n \<Rightarrow> n \<noteq> NInt 0 \<and> n \<noteq> NegZero \<and> n \<noteq> NaN
     | VBig i \<Rightarrow> i \<noteq> 0 | VStr s \<Rightarrow> s \<noteq> [] | _ \<Rightarrow> True)"

fun tableColumn :: "jsstring \<Rightarrow> SKDBTable \<Rightarrow> js_error + jval list" where
  "tableColumn col [] = Inr []"
| "tableColumn col (row # rows) =
     (if \<not> truthyV (getField row col) then Inl (JSError (js ''Missing column: '' @ col))
      else bindE (tableColumn col rows) (\<lambda>vs. Inr (getField row col # vs)))"

definition onlyColumn :: "SKDBTable \<Rightarrow> js_error + jval list" where
  "onlyColumn t = (case firstRow t of
     None \<Rightarrow> Inr []
   | Some row \<Rightarrow>
       if length (cols row) < 1 then Inr []
       else if length (cols row) > 1 then Inl (err ''Too many columns'')
       else tableColumn (cols row ! 0) t)"

section \<open>The state\<close>

datatype userFun = Watcher nat | ChangesWatcher nat nat | Unwatched

record 'e LinksImpl =
  field_names :: "jsstring list"
  objectIdx :: nat
  stream :: nat
  object :: row
  stdout_objects :: "SKDBTable list"
  queryID :: nat
  userFuns :: "(nat \<times> userFun) list"
  funLastTick :: "(nat \<times> int) list"
  queriesToNotify :: "nat list"
  notifications :: "nat list list"
  notifying :: bool
  freeQueryIDs :: "nat list"
  externalFuns :: "nat list"
  engine :: 'e

abbreviation noObjects :: "SKDBTable list" where
  "noObjects \<equiv> [[], [], [], []]"

definition newLinks :: "'e \<Rightarrow> 'e LinksImpl" where
  "newLinks e = \<lparr>field_names = [], objectIdx = 0, stream = 0, object = [], stdout_objects = noObjects, queryID = 0, userFuns = [],
     funLastTick = [], queriesToNotify = [], notifications = [], notifying = False, freeQueryIDs = [], externalFuns = [],
     engine = e\<rparr>"

text \<open>
  The engine and the application: functions called with tables by number, the exported functions of the engine (with the
  check for errors around them), and the readers of strings, numbers and JSON values in its memory.
\<close>

record 'e sqlEnv =
  env_importString :: "nat \<Rightarrow> jsstring"
  env_parseFloat :: "jsstring \<Rightarrow> jsnum"
  env_importJSON :: "nat \<Rightarrow> jval"
  env_main :: "jsstring list \<Rightarrow> jsstring \<Rightarrow> ('e LinksImpl, jsstring) js"
  env_print_result :: "nat \<Rightarrow> ('e LinksImpl, unit) js"
  env_reactive_query :: "bool \<Rightarrow> nat \<Rightarrow> jsstring \<Rightarrow> jsstring \<Rightarrow> ('e LinksImpl, unit) js"
  env_delete_query :: "nat \<Rightarrow> ('e LinksImpl, unit) js"
  env_call :: "nat \<Rightarrow> SKDBTable list \<Rightarrow> ('e LinksImpl, unit) js"
  env_external :: "nat \<Rightarrow> jval \<Rightarrow> ('e LinksImpl, jval) js"

section \<open>Printing rows\<close>

definition SKIP_last_tick :: "nat \<Rightarrow> ('e LinksImpl, int) js" where
  "SKIP_last_tick q = reads (\<lambda>w. ret (case map_of (funLastTick w) q of Some t \<Rightarrow> t | None \<Rightarrow> 0))"

definition SKIP_switch_to :: "int \<Rightarrow> ('e LinksImpl, unit) js" where
  "SKIP_switch_to s = (if s \<in> {0, 1, 2, 3} then modifies (\<lambda>w. w\<lparr>stream := nat s\<rparr>)
     else throw (JSError (js ''Invalid stream '' @ int_text s)))"

definition SKIP_clear_field_names :: "('e LinksImpl, unit) js" where
  "SKIP_clear_field_names = modifies (\<lambda>w. w\<lparr>field_names := []\<rparr>)"

definition SKIP_push_field_name :: "'e sqlEnv \<Rightarrow> nat \<Rightarrow> ('e LinksImpl, unit) js" where
  "SKIP_push_field_name env skName = modifies (\<lambda>w. w\<lparr>field_names := field_names w @ [env_importString env skName]\<rparr>)"

definition SKIP_clear_object :: "('e LinksImpl, unit) js" where
  "SKIP_clear_object = modifies (\<lambda>w. w\<lparr>objectIdx := 0, object := []\<rparr>)"

text \<open>The six functions that push a field differ in the value they store.\<close>

definition pushField :: "jval \<Rightarrow> ('e LinksImpl, unit) js" where
  "pushField v = reads (\<lambda>w.
     if objectIdx w < length (field_names w)
     then modifies (\<lambda>w. w\<lparr>object := amap_set (field_names w ! objectIdx w) v (object w), objectIdx := objectIdx w + 1\<rparr>)
     else throw (JSError (js ''Missing field name at index '' @ nat_text (objectIdx w))))"

text \<open>\<open>parseInt(s, 10)\<close>\<close>

definition parseDec :: "bool \<Rightarrow> jsstring \<Rightarrow> jsnum" where
  "parseDec neg s = (let d = takeWhile is_digit s in
     if d = [] then NaN else if neg then (if dec_value d = 0 then NegZero else toFloat (- int (dec_value d))) else toFloat (int (dec_value d)))"

definition parseInt10 :: "jsstring \<Rightarrow> jsnum" where
  "parseInt10 s = (case dropWhile is_space s of
     [] \<Rightarrow> NaN
   | c # r \<Rightarrow> if c = 0x2D then parseDec True r else if c = 0x2B then parseDec False r else parseDec False (c # r))"

definition SKIP_push_object_field_null :: "('e LinksImpl, unit) js" where
  "SKIP_push_object_field_null = pushField VNull"

definition SKIP_push_object_field_int32 :: "32 word \<Rightarrow> ('e LinksImpl, unit) js" where
  "SKIP_push_object_field_int32 n = pushField (VNum (NInt (sint n)))"

definition SKIP_push_object_field_int64 :: "'e sqlEnv \<Rightarrow> nat \<Rightarrow> ('e LinksImpl, unit) js" where
  "SKIP_push_object_field_int64 env skV = pushField (VNum (parseInt10 (env_importString env skV)))"

definition SKIP_push_object_field_float :: "'e sqlEnv \<Rightarrow> nat \<Rightarrow> ('e LinksImpl, unit) js" where
  "SKIP_push_object_field_float env skV = pushField (VNum (env_parseFloat env (env_importString env skV)))"

definition SKIP_push_object_field_string :: "'e sqlEnv \<Rightarrow> nat \<Rightarrow> ('e LinksImpl, unit) js" where
  "SKIP_push_object_field_string env skV = pushField (VStr (env_importString env skV))"

definition SKIP_push_object_field_json :: "'e sqlEnv \<Rightarrow> nat \<Rightarrow> ('e LinksImpl, unit) js" where
  "SKIP_push_object_field_json env skV = pushField (env_importJSON env skV)"

definition SKIP_push_object :: "('e LinksImpl, unit) js" where
  "SKIP_push_object = modifies (\<lambda>w. w\<lparr>stdout_objects := (stdout_objects w)[stream w := stdout_objects w ! stream w @ [object w]]\<rparr>)"

definition SKIP_js_mark_query :: "nat \<Rightarrow> ('e LinksImpl, unit) js" where
  "SKIP_js_mark_query q = modifies (\<lambda>w. w\<lparr>queriesToNotify := (if q \<in> set (queriesToNotify w) then queriesToNotify w else queriesToNotify w @ [q])\<rparr>)"

definition SKIP_js_delete_fun :: "nat \<Rightarrow> ('e LinksImpl, unit) js" where
  "SKIP_js_delete_fun q = modifies (\<lambda>w. w\<lparr>funLastTick := amap_set q 0 (funLastTick w), freeQueryIDs := freeQueryIDs w @ [q]\<rparr>)"

section \<open>External functions\<close>

definition registerFun :: "jval \<Rightarrow> ('e LinksImpl, nat) js" where
  "registerFun f = (case f of
     VFun r \<Rightarrow> reads (\<lambda>w. andThen (modifies (\<lambda>w. w\<lparr>externalFuns := externalFuns w @ [r]\<rparr>)) (\<lambda>_. ret (length (externalFuns w))))
   | _ \<Rightarrow> throw (err ''Only function can be registered''))"

definition callFun :: "'e sqlEnv \<Rightarrow> nat \<Rightarrow> jval \<Rightarrow> ('e LinksImpl, jval) js" where
  "callFun env funId jso = reads (\<lambda>w. if funId < length (externalFuns w) then env_external env (externalFuns w ! funId) jso
     else throw (JSError (js ''Unbound function id: '' @ nat_text funId)))"

section \<open>Notifications\<close>

definition queryFun :: "'e sqlEnv \<Rightarrow> userFun \<Rightarrow> nat \<Rightarrow> bool \<Rightarrow> ('e LinksImpl, unit) js" where
  "queryFun env f q first = (case f of
     Watcher onChange \<Rightarrow>
       reads (\<lambda>w. andThen (env_call env onChange [stdout_objects w ! 0]) (\<lambda>_. modifies (\<lambda>w. w\<lparr>stdout_objects := noObjects\<rparr>)))
   | ChangesWatcher ini upd \<Rightarrow>
       reads (\<lambda>w.
         let rows = stdout_objects w ! 0; added = stdout_objects w ! 1; removed = stdout_objects w ! 2;
             tick = (case stdout_objects w ! 3 of [] \<Rightarrow> None | r # _ \<Rightarrow> (case getField r (js ''tick'') of VNum (NInt t) \<Rightarrow> Some t | _ \<Rightarrow> None)) in
         andThen (if length added > 0 \<or> length removed > 0 then env_call env upd [added, removed]
                  else if length rows > 0 \<or> first then env_call env ini [rows] else skip)
           (\<lambda>_. modifies (\<lambda>w. w\<lparr>funLastTick := amap_set q (case tick of Some t \<Rightarrow> t | None \<Rightarrow> 0) (funLastTick w), stdout_objects := noObjects\<rparr>)))
   | Unwatched \<Rightarrow> skip)"

text \<open>One query of a batch: its result is printed and the function of its watcher called.\<close>

definition notifyOne :: "'e sqlEnv \<Rightarrow> nat \<Rightarrow> ('e LinksImpl, unit) js" where
  "notifyOne env q =
     andThen (env_print_result env q) (\<lambda>_.
     reads (\<lambda>w. case map_of (userFuns w) q of
       None \<Rightarrow> throw (JSError (js ''Unbound function id: '' @ nat_text q))
     | Some f \<Rightarrow> queryFun env f q False))"

partial_function (option) notifyLoop :: "'e sqlEnv \<Rightarrow> 'e LinksImpl \<Rightarrow> ((js_error + unit) \<times> 'e LinksImpl) option" where
  "notifyLoop env w = (case notifications w of
     [] \<Rightarrow> Some (Inr (), w)
   | toNotify # later \<Rightarrow> (case forEach toNotify (notifyOne env) (w\<lparr>notifications := later\<rparr>) of
       (Inl e, w1) \<Rightarrow> Some (Inl e, w1)
     | (Inr _, w1) \<Rightarrow> notifyLoop env w1))"

definition checkNotifications :: "'e sqlEnv \<Rightarrow> 'e LinksImpl \<Rightarrow> ((js_error + unit) \<times> 'e LinksImpl) option" where
  "checkNotifications env w = (if \<not> notifying w then
      (case notifyLoop env (w\<lparr>notifying := True\<rparr>) of None \<Rightarrow> None | Some (r, w1) \<Rightarrow> Some (r, w1\<lparr>notifying := False\<rparr>))
    else Some (Inr (), w))"

definition notifyAllJS :: "'e sqlEnv \<Rightarrow> 'e LinksImpl \<Rightarrow> ((js_error + unit) \<times> 'e LinksImpl) option" where
  "notifyAllJS env w = (if queriesToNotify w \<noteq> []
    then checkNotifications env (w\<lparr>notifications := notifications w @ [queriesToNotify w], queriesToNotify := []\<rparr>)
    else Some (Inr (), w))"

definition links_main :: "'e sqlEnv \<Rightarrow> jsstring list \<Rightarrow> jsstring \<Rightarrow> 'e LinksImpl \<Rightarrow> ((js_error + jsstring) \<times> 'e LinksImpl) option" where
  "links_main env args stdin w = (case env_main env args stdin w of
     (Inl e, w1) \<Rightarrow> Some (Inl e, w1)
   | (Inr res, w1) \<Rightarrow> (case notifyAllJS env w1 of
       None \<Rightarrow> None | Some (Inl e, w2) \<Rightarrow> Some (Inl e, w2) | Some (Inr _, w2) \<Rightarrow> Some (Inr res, w2)))"

text \<open>\<open>runner(() => main(args, stdin))\<close>\<close>

definition runner :: "'e sqlEnv \<Rightarrow> jsstring list \<Rightarrow> jsstring \<Rightarrow> 'e LinksImpl \<Rightarrow> ((js_error + SKDBTable) \<times> 'e LinksImpl) option" where
  "runner env args stdin w = (case links_main env args stdin (w\<lparr>stdout_objects := noObjects, stream := 0\<rparr>) of
     None \<Rightarrow> None
   | Some (Inl e, w1) \<Rightarrow> Some (Inl e, w1)
   | Some (Inr stdout, w1) \<Rightarrow>
       if stdout = [] then Some (Inr (stdout_objects w1 ! 0), w1\<lparr>stdout_objects := noObjects\<rparr>)
       else Some (Inl (JSError stdout), w1))"

section \<open>Watching queries\<close>

definition manageWatch :: "'e sqlEnv \<Rightarrow> userFun \<Rightarrow> jsstring \<Rightarrow> jsstring \<Rightarrow> ('e LinksImpl, nat) js" where
  "manageWatch env f query params =
     andThen (modifies (\<lambda>w. w\<lparr>stdout_objects := noObjects, stream := 0\<rparr>)) (\<lambda>_.
     reads (\<lambda>w0.
     let q = (if freeQueryIDs w0 = [] then queryID w0 else last (freeQueryIDs w0)) in
     andThen (modifies (\<lambda>w. if freeQueryIDs w = [] then w\<lparr>queryID := queryID w + 1\<rparr> else w\<lparr>freeQueryIDs := butlast (freeQueryIDs w)\<rparr>)) (\<lambda>_.
     andThen (modifies (\<lambda>w. w\<lparr>funLastTick := amap_set q 0 (funLastTick w), userFuns := amap_set q f (userFuns w)\<rparr>)) (\<lambda>_.
     andThen (env_reactive_query env (case f of ChangesWatcher _ _ \<Rightarrow> True | _ \<Rightarrow> False) q query params) (\<lambda>_.
     andThen (queryFun env f q True) (\<lambda>_.
     ret q))))))"

definition watch :: "'e sqlEnv \<Rightarrow> jsstring \<Rightarrow> jsstring \<Rightarrow> nat \<Rightarrow> ('e LinksImpl, nat) js" where
  "watch env query params onChange = manageWatch env (Watcher onChange) query params"

definition watchChanges :: "'e sqlEnv \<Rightarrow> jsstring \<Rightarrow> jsstring \<Rightarrow> nat \<Rightarrow> nat \<Rightarrow> ('e LinksImpl, nat) js" where
  "watchChanges env query params ini upd = manageWatch env (ChangesWatcher ini upd) query params"

definition closeWatch :: "'e sqlEnv \<Rightarrow> nat \<Rightarrow> ('e LinksImpl, unit) js" where
  "closeWatch env q = andThen (modifies (\<lambda>w. w\<lparr>userFuns := amap_set q Unwatched (userFuns w)\<rparr>)) (\<lambda>_. env_delete_query env q)"


section \<open>Rows are what the engine pushed\<close>

definition printRow :: "jval list \<Rightarrow> ('e LinksImpl, unit) js" where
  "printRow vs = andThen SKIP_clear_object (\<lambda>_. andThen (forEach vs pushField) (\<lambda>_. SKIP_push_object))"

lemma pushField_run: "pushField v w = (if objectIdx w < length (field_names w)
    then (Inr (), w\<lparr>object := amap_set (field_names w ! objectIdx w) v (object w), objectIdx := objectIdx w + 1\<rparr>)
    else (Inl (JSError (js ''Missing field name at index '' @ nat_text (objectIdx w))), w))"
  by (simp add: pushField_def)

lemma pushFields:
  "objectIdx w + length vs \<le> length (field_names w) \<Longrightarrow> forEach vs pushField w = (Inr (), w\<lparr>
     object := fold (\<lambda>(n, v). amap_set n v) (zip (drop (objectIdx w) (field_names w)) vs) (object w), objectIdx := objectIdx w + length vs\<rparr>)"
proof (induction vs arbitrary: w)
  case (Cons v vs)
  then have "drop (objectIdx w) (field_names w) = field_names w ! objectIdx w # drop (Suc (objectIdx w)) (field_names w)" by (simp add: Cons_nth_drop_Suc)
  with Cons show ?case by (simp add: pushField_run andThen_def)
qed simp

lemma pushFields_missing:
  "objectIdx w + length vs > length (field_names w) \<Longrightarrow> objectIdx w \<le> length (field_names w) \<Longrightarrow>
     fst (forEach vs pushField w) = Inl (JSError (js ''Missing field name at index '' @ nat_text (length (field_names w))))"
proof (induction vs arbitrary: w)
  case (Cons v vs)
  show ?case
  proof (cases "objectIdx w < length (field_names w)")
    case True then show ?thesis using Cons by (simp add: pushField_run andThen_def)
  next
    case False then have "objectIdx w = length (field_names w)" using Cons.prems by simp
    then show ?thesis by (simp add: pushField_run andThen_def)
  qed
qed simp

lemma fold_amap_zip:
  "distinct ns \<Longrightarrow> set ns \<inter> fst ` set m = {} \<Longrightarrow> length vs \<le> length ns \<Longrightarrow> fold (\<lambda>(n, v). amap_set n v) (zip ns vs) m = m @ zip ns vs"
proof (induction ns vs arbitrary: m rule: list_induct2')
  case (4 n ns v vs)
  then show ?case by (auto simp: amap_set_new)
qed auto

text \<open>A row printed by the engine under distinct field names is appended to the current stream as the record of these names
  and the values in order; more values than names are an error that names the missing index.\<close>

theorem row_is_printed:
  assumes "distinct (field_names w)" "stream w < length (stdout_objects w)"
  shows "(length vs \<le> length (field_names w) \<longrightarrow>
      fst (printRow vs w) = Inr () \<and> stdout_objects (snd (printRow vs w)) =
        (stdout_objects w)[stream w := stdout_objects w ! stream w @ [zip (field_names w) vs]])
    \<and> (length (field_names w) < length vs \<longrightarrow>
      fst (printRow vs w) = Inl (JSError (js ''Missing field name at index '' @ nat_text (length (field_names w))))
      \<and> stdout_objects (snd (printRow vs w)) = stdout_objects w)"
proof (intro conjI impI)
  let ?w = "w\<lparr>objectIdx := 0, object := []\<rparr>"
  assume l: "length vs \<le> length (field_names w)"
  then have r: "printRow vs w = SKIP_push_object (?w\<lparr>object := zip (field_names w) vs, objectIdx := length vs\<rparr>)"
    using pushFields [of ?w vs] fold_amap_zip [OF assms(1), of "[]" vs] by (simp add: printRow_def SKIP_clear_object_def andThen_def)
  then show "fst (printRow vs w) = Inr ()" by (simp add: SKIP_push_object_def)
  show "stdout_objects (snd (printRow vs w)) = (stdout_objects w)[stream w := stdout_objects w ! stream w @ [zip (field_names w) vs]]"
    by (simp add: r SKIP_push_object_def)
next
  let ?w = "w\<lparr>objectIdx := 0, object := []\<rparr>"
  have keep: "stdout_objects (snd (forEach vs pushField w')) = stdout_objects w'" for w' :: "'a LinksImpl"
    by (induction vs arbitrary: w') (auto simp: pushField_run andThen_def split: prod.splits sum.splits)
  assume l: "length (field_names w) < length vs"
  obtain u where u: "forEach vs pushField ?w = (Inl (JSError (js ''Missing field name at index '' @ nat_text (length (field_names w)))), u)"
    using pushFields_missing [of ?w vs] l by (cases "forEach vs pushField ?w") simp
  then have r: "printRow vs w = (Inl (JSError (js ''Missing field name at index '' @ nat_text (length (field_names w)))), u)"
    by (simp add: printRow_def SKIP_clear_object_def andThen_def)
  then show "fst (printRow vs w) = Inl (JSError (js ''Missing field name at index '' @ nat_text (length (field_names w))))" by simp
  show "stdout_objects (snd (printRow vs w)) = stdout_objects w" using keep [of ?w] u r by simp
qed

lemma parseDec_nat_text: "parseDec neg (nat_text n) = (if neg then (if n = 0 then NegZero else toFloat (- int n)) else toFloat (int n))"
proof -
  have "takeWhile is_digit (nat_text n) = nat_text n" using nat_text_digits [of n] by (simp add: takeWhile_eq_all_conv list_all_iff)
  then show ?thesis unfolding parseDec_def Let_def by (simp only: dec_value_nat_text nat_text_not_Nil if_False)
qed

lemma parseInt10_int_text: "parseInt10 (int_text n) = toFloat n"
proof (cases "n < 0")
  case True
  then show ?thesis by (simp add: parseInt10_def int_text_def is_space_def parseDec_nat_text)
next
  case False
  obtain c t where ct: "nat_text (nat n) = c # t" by (cases "nat_text (nat n)") auto
  with hd_nat_text [of "nat n"] have "is_digit c" by simp
  then have "\<not> is_space c" "c \<noteq> 0x2D" "c \<noteq> 0x2B" by (auto simp: is_digit_def is_space_def)
  with False show ?thesis using parseDec_nat_text [of False "nat n"] by (simp add: parseInt10_def int_text_def ct)
qed

text \<open>An integer column is exact below 2 to the 53 and rounded to a double from there on.\<close>

lemma int64_exact: "\<bar>n\<bar> < 2 ^ 53 \<Longrightarrow> parseInt10 (int_text n) = NInt n"
  unfolding parseInt10_int_text toFloat_def round53_def by (cases "n < 0") (auto simp: nat_less_iff)

lemma int64_rounded: "parseInt10 (int_text 9007199254740993) = NInt 9007199254740992"
  unfolding parseInt10_int_text toFloat_def round53_def by (simp add: shift53.simps)


section \<open>The order of notifications\<close>

text \<open>While notifications are under way, functions of the engine and of the application can only queue further batches.\<close>

definition queues :: "('e LinksImpl, 'a) js \<Rightarrow> bool" where
  "queues f \<longleftrightarrow> (\<forall>w. notifying w \<longrightarrow> notifying (snd (f w)) \<and> (\<exists>more. notifications (snd (f w)) = notifications w @ more))"

lemma queues_andThen: "queues f \<Longrightarrow> (\<And>x. queues (g x)) \<Longrightarrow> queues (andThen f g)"
  unfolding queues_def andThen_def
proof (intro allI impI, goal_cases)
  case (1 w)
  obtain r w1 where f: "f w = (r, w1)" by (cases "f w")
  have a: "notifying w1" "\<exists>more. notifications w1 = notifications w @ more" using 1(1) [rule_format, OF 1(3)] f by simp_all
  show ?case
  proof (cases r)
    case (Inr x)
    with 1(2) [of x, rule_format, OF a(1)] a f show ?thesis by fastforce
  qed (use a f in simp)
qed

lemma queues_quiet:
  "(\<And>w. notifying (snd (f w)) = notifying w \<and> notifications (snd (f w)) = notifications w) \<Longrightarrow> queues f"
  by (simp add: queues_def)

lemma queues_modifies:
  "(\<And>w. notifying (f w) = notifying w \<and> notifications (f w) = notifications w) \<Longrightarrow> queues (modifies f)"
  by (simp add: queues_def)

lemma queues_skip: "queues (ret x)" "queues (throw e)"
  by (simp_all add: queues_def)

lemma queues_reads: "(\<And>w. queues (f w)) \<Longrightarrow> queues (reads f)"
  by (simp add: queues_def)

text \<open>Every operation of the link is of this kind, \<open>main\<close> included.\<close>

lemma nested_notifyAllJS: "notifying w \<Longrightarrow> notifyAllJS env w = Some (Inr (),
    if queriesToNotify w = [] then w else w\<lparr>notifications := notifications w @ [queriesToNotify w], queriesToNotify := []\<rparr>)"
  by (simp add: notifyAllJS_def checkNotifications_def)

lemma nested_main_queues:
  assumes "queues (env_main env args stdin)" "notifying w"
  shows "\<exists>r w'. links_main env args stdin w = Some (r, w') \<and> notifying w' \<and> (\<exists>more. notifications w' = notifications w @ more)"
proof -
  obtain r w1 where m: "env_main env args stdin w = (r, w1)" by (cases "env_main env args stdin w")
  have a: "notifying w1" "\<exists>more. notifications w1 = notifications w @ more"
    using assms m unfolding queues_def by (metis snd_conv)+
  show ?thesis
  proof (cases r)
    case (Inr res)
    with m a nested_notifyAllJS [OF a(1), of env] show ?thesis by (auto simp: links_main_def)
  qed (use m a in \<open>simp add: links_main_def\<close>)
qed

lemma queryFun_queues:
  assumes "\<And>c ts. queues (env_call env c ts)" shows "queues (queryFun env f q first)"
proof (cases f)
  case (Watcher c)
  then show ?thesis unfolding queryFun_def by (auto intro!: queues_reads queues_andThen queues_modifies assms)
next
  case (ChangesWatcher i u)
  then show ?thesis unfolding queryFun_def Let_def by (auto intro!: queues_reads queues_andThen queues_modifies assms simp: queues_skip)
qed (simp add: queryFun_def queues_quiet)

lemma queues_forEach: "(\<And>q. queues (f q)) \<Longrightarrow> queues (forEach qs f)"
  by (induction qs) (auto intro: queues_andThen simp: queues_skip)

lemma notifyOne_queues:
  assumes "\<And>q. queues (env_print_result env q)" "\<And>c ts. queues (env_call env c ts)"
  shows "queues (notifyOne env q)"
  unfolding notifyOne_def
  by (intro queues_andThen queues_reads assms) (auto intro: queryFun_queues assms(2) queues_quiet split: option.split)

text \<open>
  The specification: batches are taken from the front of the queue and their queries notified one after the other, up to the first that
  throws.
\<close>

primrec deliver :: "'e sqlEnv \<Rightarrow> nat list list \<Rightarrow> ('e LinksImpl, unit) js" where
  "deliver env [] = skip"
| "deliver env (b # bs) = andThen (modifies (\<lambda>w. w\<lparr>notifications := tl (notifications w)\<rparr>)) (\<lambda>_.
     andThen (forEach b (notifyOne env)) (\<lambda>_. deliver env bs))"

definition in_order :: "'e sqlEnv \<Rightarrow> 'e LinksImpl \<Rightarrow> (js_error + unit) \<times> 'e LinksImpl \<Rightarrow> bool" where
  "in_order env w x \<longleftrightarrow> (\<exists>bs more. deliver env bs w = x \<and> bs @ notifications (snd x) = notifications w @ more
     \<and> (fst x = Inr () \<longrightarrow> notifications (snd x) = []))"

lemma batch_in_order:
  assumes laws: "\<And>q. queues (env_print_result env q)" "\<And>c ts. queues (env_call env c ts)" and n: "notifying w"
    and b: "notifications w = b # later" and f: "forEach b (notifyOne env) (w\<lparr>notifications := later\<rparr>) = (r, w1)"
  shows "notifying w1" "case r of Inl _ \<Rightarrow> in_order env w (r, w1) | Inr _ \<Rightarrow> (\<forall>x. in_order env w1 x \<longrightarrow> in_order env w x)"
proof -
  have "queues (forEach b (notifyOne env))" by (intro queues_forEach notifyOne_queues laws)
  from this [unfolded queues_def, rule_format, of "w\<lparr>notifications := later\<rparr>"] n f obtain more
    where a: "notifying w1" "notifications w1 = later @ more" by auto
  show "notifying w1" by (rule a(1))
  have run: "deliver env (b # bs) w = (case r of Inl e \<Rightarrow> (Inl e, w1) | Inr _ \<Rightarrow> deliver env bs w1)" for bs
    using f b by (simp add: andThen_def split: sum.split)
  show "case r of Inl _ \<Rightarrow> in_order env w (r, w1) | Inr _ \<Rightarrow> (\<forall>x. in_order env w1 x \<longrightarrow> in_order env w x)"
  proof (cases r)
    case (Inl e)
    then have "deliver env [b] w = (r, w1)" using run [of "[]"] by simp
    moreover have "[b] @ notifications w1 = notifications w @ more" using a(2) b by simp
    ultimately have "in_order env w (r, w1)"
      unfolding in_order_def using Inl by (intro exI [of _ "[b]"] exI [of _ more]) simp
    then show ?thesis using Inl by simp
  next
    case (Inr u)
    have "in_order env w x" if x: "in_order env w1 x" for x
    proof -
      from x obtain bs more2 where c: "deliver env bs w1 = x" "bs @ notifications (snd x) = notifications w1 @ more2"
        "fst x = Inr () \<longrightarrow> notifications (snd x) = []" unfolding in_order_def by blast
      have "deliver env (b # bs) w = x" using run [of bs] Inr c(1) by simp
      moreover have "(b # bs) @ notifications (snd x) = notifications w @ (more @ more2)" using a(2) b c(2) by simp
      ultimately show ?thesis using c(3) unfolding in_order_def by blast
    qed
    with Inr show ?thesis by simp
  qed
qed

lemma notifyLoop_order:
  assumes ret: "notifyLoop env w = Some x" and n: "notifying w"
    and laws: "\<And>q. queues (env_print_result env q)" "\<And>c ts. queues (env_call env c ts)"
  shows "in_order env w x"
proof -
  have "(\<forall>q. queues (env_print_result env q)) \<and> (\<forall>c ts. queues (env_call env c ts)) \<longrightarrow> notifying w \<longrightarrow> in_order env w x"
  proof (rule notifyLoop.raw_induct [where P = "\<lambda>env w x. (\<forall>q. queues (env_print_result env q)) \<and> (\<forall>c ts. queues (env_call env c ts))
      \<longrightarrow> notifying w \<longrightarrow> in_order env w x", OF _ ret], intro impI)
    fix loop and env :: "'a sqlEnv" and w x
    assume IH: "\<And>env w x. loop env w = Some x \<Longrightarrow> (\<forall>q. queues (env_print_result env q)) \<and> (\<forall>c ts. queues (env_call env c ts)) \<longrightarrow> notifying w \<longrightarrow> in_order env w x"
      and eq: "(case notifications w of [] \<Rightarrow> Some (Inr (), w)
        | toNotify # later \<Rightarrow> (case forEach toNotify (notifyOne env) (w\<lparr>notifications := later\<rparr>) of
            (Inl e, w1) \<Rightarrow> Some (Inl e, w1) | (Inr _, w1) \<Rightarrow> loop env w1)) = Some x"
      and laws: "(\<forall>q. queues (env_print_result env q)) \<and> (\<forall>c ts. queues (env_call env c ts))" and n: "notifying w"
    show "in_order env w x"
    proof (cases "notifications w")
      case Nil
      with eq show ?thesis by (auto simp: in_order_def intro!: exI [of _ "[]"])
    next
      case (Cons b later)
      obtain r w1 where f: "forEach b (notifyOne env) (w\<lparr>notifications := later\<rparr>) = (r, w1)" by (cases "forEach b (notifyOne env) (w\<lparr>notifications := later\<rparr>)")
      note step = batch_in_order [OF _ _ n Cons f]
      show ?thesis
      proof (cases r)
        case (Inr u)
        with eq Cons f have "loop env w1 = Some x" by simp
        with IH laws step(1) have "in_order env w1 x" by blast
        moreover have "\<forall>x. in_order env w1 x \<longrightarrow> in_order env w x" using step(2) laws Inr by simp
        ultimately show ?thesis by blast
      qed (use step(2) laws eq Cons f in auto)
    qed
  qed
  with n laws show ?thesis by blast
qed

text \<open>If no function queues a batch, the loop ends.\<close>

definition quiet :: "('e LinksImpl, 'a) js \<Rightarrow> bool" where
  "quiet f \<longleftrightarrow> (\<forall>w. notifications (snd (f w)) = notifications w)"

lemma quiet_andThen: "quiet f \<Longrightarrow> (\<And>x. quiet (g x)) \<Longrightarrow> quiet (andThen f g)"
  unfolding quiet_def andThen_def by (auto split: prod.split sum.split) (metis snd_conv)+

lemma quiet_simps: "quiet (ret x)" "quiet (throw e)" "(\<And>w. notifications (f w) = notifications w) \<Longrightarrow> quiet (modifies f)" "(\<And>w. quiet (g w)) \<Longrightarrow> quiet (reads g)"
  by (simp_all add: quiet_def)

lemma notifyOne_quiet:
  assumes "\<And>q. quiet (env_print_result env q)" "\<And>c ts. quiet (env_call env c ts)" shows "quiet (notifyOne env q)"
proof -
  have "quiet (queryFun env f q first)" for f first
    by (cases f) (auto simp: queryFun_def Let_def intro!: quiet_andThen quiet_simps assms)
  then show ?thesis unfolding notifyOne_def by (auto intro!: quiet_andThen quiet_simps assms split: option.split)
qed

lemma quiet_forEach: "(\<And>q. quiet (f q)) \<Longrightarrow> quiet (forEach qs f)"
  by (induction qs) (auto intro: quiet_andThen quiet_simps)

lemma notifyLoop_returns:
  assumes "\<And>q. quiet (env_print_result env q)" "\<And>c ts. quiet (env_call env c ts)" shows "\<exists>x. notifyLoop env w = Some x"
proof (induction "notifications w" arbitrary: w)
  case Nil
  then show ?case by (subst notifyLoop.simps) (simp split: list.split)
next
  case (Cons b later)
  obtain r w1 where f: "forEach b (notifyOne env) (w\<lparr>notifications := later\<rparr>) = (r, w1)" by (cases "forEach b (notifyOne env) (w\<lparr>notifications := later\<rparr>)")
  have "quiet (forEach b (notifyOne env))" by (intro quiet_forEach notifyOne_quiet assms)
  with f have "notifications w1 = later" unfolding quiet_def by (metis LinksImpl.select_convs(10) LinksImpl.surjective LinksImpl.update_convs(10) snd_conv)
  with Cons.hyps(1) obtain x where "notifyLoop env w1 = Some x" by blast
  with f Cons.hyps(2) [symmetric] show ?case by (subst notifyLoop.simps) (cases r; simp)
qed

text \<open>The call that a watcher is owed when the tables have been printed: all rows for a plain watcher; for a watcher of changes the rows added and removed,
  or the rows of a fresh result; none if it was closed.\<close>

definition owedCall :: "userFun \<Rightarrow> SKDBTable list \<Rightarrow> (nat \<times> SKDBTable list) option" where
  "owedCall f ts = (case f of
     Watcher c \<Rightarrow> Some (c, [ts ! 0])
   | ChangesWatcher ini upd \<Rightarrow>
       if ts ! 1 \<noteq> [] \<or> ts ! 2 \<noteq> [] then Some (upd, [ts ! 1, ts ! 2]) else if ts ! 0 \<noteq> [] then Some (ini, [ts ! 0]) else None
   | Unwatched \<Rightarrow> None)"

definition owedRun :: "'e sqlEnv \<Rightarrow> userFun \<Rightarrow> ('e LinksImpl, unit) js" where
  "owedRun env f w = (case owedCall f (stdout_objects w) of None \<Rightarrow> (Inr (), w) | Some (c, ts) \<Rightarrow> env_call env c ts w)"

lemma queryFun_owed:
  "fst (queryFun env f q False w) = fst (owedRun env f w) \<and>
   (\<exists>ticks. snd (queryFun env f q False w) = (if fst (owedRun env f w) = Inr () \<and> f \<noteq> Unwatched
      then (snd (owedRun env f w))\<lparr>funLastTick := ticks, stdout_objects := noObjects\<rparr> else snd (owedRun env f w)))"
proof (cases f)
  case (Watcher c)
  obtain r w1 where "env_call env c [stdout_objects w ! 0] w = (r, w1)" by (cases "env_call env c [stdout_objects w ! 0] w")
  then show ?thesis
    by (cases r) (auto simp: Watcher queryFun_def owedRun_def owedCall_def andThen_def intro: exI [of _ "funLastTick w1"])
next
  case (ChangesWatcher i u)
  then have "owedRun env f w = (if length (stdout_objects w ! 1) > 0 \<or> length (stdout_objects w ! 2) > 0
      then env_call env u [stdout_objects w ! 1, stdout_objects w ! 2]
      else if length (stdout_objects w ! 0) > 0 \<or> False then env_call env i [stdout_objects w ! 0] else skip) w"
    by (auto simp: owedRun_def owedCall_def)
  then show ?thesis
    unfolding ChangesWatcher queryFun_def userFun.case Let_def js_run_simps andThen_def
    by (auto simp: ChangesWatcher split: prod.split sum.split)
qed (simp add: queryFun_def owedRun_def owedCall_def)

text \<open>C26: When the engine and the watchers only queue further batches while notifications are under way, which is all that the
  link lets them do, the batches are processed one after the other in the order in which they were queued, the new ones last, and within a batch its queries
  in order. For each query its result is printed, and then the function of the watcher that has its number at
  that time is called once with the tables that were printed, after which they are cleared; a query without a watcher is an error. If one of them throws,
  the error is passed on, nothing more of its batch is processed, and all batches after it stay
  queued; otherwise the queue is empty in the end. Afterwards the link accepts notifications again. If nothing is queued meanwhile, the processing ends.\<close>

theorem notifications_in_order:
  assumes "\<And>q. queues (env_print_result env q)" "\<And>c ts. queues (env_call env c ts)" "\<not> notifying w"
  shows "(\<forall>r w'. checkNotifications env w = Some (r, w') \<longrightarrow> (\<exists>bs more w1.
        deliver env bs (w\<lparr>notifying := True\<rparr>) = (r, w1) \<and> w' = w1\<lparr>notifying := False\<rparr>
        \<and> bs @ notifications w' = notifications w @ more \<and> (r = Inr () \<longrightarrow> notifications w' = [])))
    \<and> (\<forall>q v e v1. env_print_result env q v = (Inl e, v1) \<longrightarrow> notifyOne env q v = (Inl e, v1))
    \<and> (\<forall>q v v1. env_print_result env q v = (Inr (), v1) \<longrightarrow> (case map_of (userFuns v1) q of
        None \<Rightarrow> notifyOne env q v = (Inl (JSError (js ''Unbound function id: '' @ nat_text q)), v1)
      | Some f \<Rightarrow> fst (notifyOne env q v) = fst (owedRun env f v1)
          \<and> (\<exists>ticks. snd (notifyOne env q v) = (if fst (owedRun env f v1) = Inr () \<and> f \<noteq> Unwatched
              then (snd (owedRun env f v1))\<lparr>funLastTick := ticks, stdout_objects := noObjects\<rparr> else snd (owedRun env f v1)))))
    \<and> ((\<forall>q. quiet (env_print_result env q)) \<and> (\<forall>c ts. quiet (env_call env c ts)) \<longrightarrow> (\<exists>r w'. checkNotifications env w = Some (r, w')))"
proof (intro conjI allI impI)
  fix r w' assume "checkNotifications env w = Some (r, w')"
  then obtain w1 where l: "notifyLoop env (w\<lparr>notifying := True\<rparr>) = Some (r, w1)" "w' = w1\<lparr>notifying := False\<rparr>"
    using assms(3) by (auto simp: checkNotifications_def split: option.splits)
  from notifyLoop_order [OF l(1) _ assms(1,2)] have "in_order env (w\<lparr>notifying := True\<rparr>) (r, w1)" by simp
  then show "\<exists>bs more w1. deliver env bs (w\<lparr>notifying := True\<rparr>) = (r, w1) \<and> w' = w1\<lparr>notifying := False\<rparr>
      \<and> bs @ notifications w' = notifications w @ more \<and> (r = Inr () \<longrightarrow> notifications w' = [])"
    unfolding in_order_def l(2) by auto
next
  fix q v e v1 assume "env_print_result env q v = (Inl e, v1)"
  then show "notifyOne env q v = (Inl e, v1)" by (simp add: notifyOne_def andThen_def)
next
  fix q v v1 assume "env_print_result env q v = (Inr (), v1)"
  then show "case map_of (userFuns v1) q of None \<Rightarrow> notifyOne env q v = (Inl (JSError (js ''Unbound function id: '' @ nat_text q)), v1)
      | Some f \<Rightarrow> fst (notifyOne env q v) = fst (owedRun env f v1)
          \<and> (\<exists>ticks. snd (notifyOne env q v) = (if fst (owedRun env f v1) = Inr () \<and> f \<noteq> Unwatched
              then (snd (owedRun env f v1))\<lparr>funLastTick := ticks, stdout_objects := noObjects\<rparr> else snd (owedRun env f v1)))"
    using queryFun_owed [of env _ q v1] by (cases "map_of (userFuns v1) q") (simp_all add: notifyOne_def andThen_def)
next
  assume "(\<forall>q. quiet (env_print_result env q)) \<and> (\<forall>c ts. quiet (env_call env c ts))"
  then obtain x where "notifyLoop env (w\<lparr>notifying := True\<rparr>) = Some x" using notifyLoop_returns by blast
  then show "\<exists>r w'. checkNotifications env w = Some (r, w')" using assms(3) by (cases x) (auto simp: checkNotifications_def)
qed

section \<open>The numbers of the queries\<close>

definition pickedID :: "'e LinksImpl \<Rightarrow> nat" where
  "pickedID w = (if freeQueryIDs w = [] then queryID w else last (freeQueryIDs w))"

definition keepsIDs :: "('e LinksImpl, 'a) js \<Rightarrow> bool" where
  "keepsIDs f \<longleftrightarrow> (\<forall>w. queryID (snd (f w)) = queryID w \<and> freeQueryIDs (snd (f w)) = freeQueryIDs w)"

lemma keepsIDs_andThen: "keepsIDs f \<Longrightarrow> (\<And>x. keepsIDs (g x)) \<Longrightarrow> keepsIDs (andThen f g)"
  unfolding keepsIDs_def andThen_def by (auto split: prod.split sum.split) (metis snd_conv)+

lemma keepsIDs_simps: "keepsIDs (ret x)" "keepsIDs (throw e)" "(\<And>w. keepsIDs (g w)) \<Longrightarrow> keepsIDs (reads g)"
  "(\<And>w. queryID (f w) = queryID w \<and> freeQueryIDs (f w) = freeQueryIDs w) \<Longrightarrow> keepsIDs (modifies f)"
  by (simp_all add: keepsIDs_def)

text \<open>
  Watchers are opened and closed, each at most once; the engine releases the number of a query it deletes. The numbers
  of the watchers that are open are kept beside the state.
\<close>

inductive watching :: "'e sqlEnv \<Rightarrow> 'e LinksImpl \<Rightarrow> nat list \<Rightarrow> bool" for env where
  Start: "watching env (newLinks e) []"
| Open: "watching env w qs \<Longrightarrow> manageWatch env f query params w = (r, w') \<Longrightarrow> watching env w' (pickedID w # qs)"
| Shut: "watching env w qs \<Longrightarrow> q \<in> set qs \<Longrightarrow> closeWatch env q w = (r, w') \<Longrightarrow> watching env w' (remove1 q qs)"
| Other: "watching env w qs \<Longrightarrow> queryID w' = queryID w \<Longrightarrow> freeQueryIDs w' = freeQueryIDs w \<Longrightarrow> watching env w' qs"

definition releases :: "nat \<Rightarrow> ('e LinksImpl, unit) js \<Rightarrow> bool" where
  "releases q f \<longleftrightarrow> (\<forall>w. queryID (snd (f w)) = queryID w \<and> freeQueryIDs (snd (f w)) = freeQueryIDs w @ [q])"

definition prepared :: "userFun \<Rightarrow> 'e LinksImpl \<Rightarrow> 'e LinksImpl" where
  "prepared f w = (let w1 = w\<lparr>stdout_objects := noObjects, stream := 0, queryID := (if freeQueryIDs w = [] then queryID w + 1 else queryID w),
     freeQueryIDs := butlast (freeQueryIDs w)\<rparr> in w1\<lparr>funLastTick := amap_set (pickedID w) 0 (funLastTick w), userFuns := amap_set (pickedID w) f (userFuns w)\<rparr>)"

lemma manageWatch_run:
  "manageWatch env f query params w = andThen (env_reactive_query env (case f of ChangesWatcher _ _ \<Rightarrow> True | _ \<Rightarrow> False) (pickedID w) query params)
     (\<lambda>_. andThen (queryFun env f (pickedID w) True) (\<lambda>_. ret (pickedID w))) (prepared f w)"
proof -
  let ?w0 = "w\<lparr>stdout_objects := noObjects, stream := 0\<rparr>" and ?q = "pickedID w"
  have q: "(if freeQueryIDs ?w0 = [] then queryID ?w0 else last (freeQueryIDs ?w0)) = ?q" by (simp add: pickedID_def)
  have p: "(if freeQueryIDs ?w0 = [] then ?w0\<lparr>queryID := queryID ?w0 + 1\<rparr> else ?w0\<lparr>freeQueryIDs := butlast (freeQueryIDs ?w0)\<rparr>)
      = ?w0\<lparr>queryID := (if freeQueryIDs w = [] then queryID w + 1 else queryID w), freeQueryIDs := butlast (freeQueryIDs w)\<rparr>" by simp
  show ?thesis unfolding manageWatch_def andThen_def [of "modifies _"] js_run_simps prod.case sum.case Let_def q p
    by (simp add: prepared_def)
qed

lemma manageWatch_ids:
  assumes "\<And>b q s p. keepsIDs (env_reactive_query env b q s p)" "\<And>c ts. keepsIDs (env_call env c ts)" "manageWatch env f query params w = (r, w')"
  shows "if freeQueryIDs w = [] then queryID w' = queryID w + 1 \<and> freeQueryIDs w' = [] else queryID w' = queryID w \<and> freeQueryIDs w' = butlast (freeQueryIDs w)"
proof -
  let ?q = "pickedID w"
  have k: "keepsIDs (queryFun env f q first)" for q first
    by (cases f) (auto simp: queryFun_def Let_def intro!: keepsIDs_andThen keepsIDs_simps assms)
  let ?rest = "andThen (env_reactive_query env (case f of ChangesWatcher _ _ \<Rightarrow> True | _ \<Rightarrow> False) ?q query params) (\<lambda>_. andThen (queryFun env f ?q True) (\<lambda>_. ret ?q))"
  have "keepsIDs ?rest" by (intro keepsIDs_andThen keepsIDs_simps assms k)
  then have "queryID w' = queryID (prepared f w)" "freeQueryIDs w' = freeQueryIDs (prepared f w)"
    using assms(3) unfolding manageWatch_run keepsIDs_def by (metis snd_conv)+
  then show ?thesis by (simp add: prepared_def)
qed

lemma closeWatch_ids:
  assumes "releases q (env_delete_query env q)" "closeWatch env q w = (r, w')"
  shows "queryID w' = queryID w \<and> freeQueryIDs w' = freeQueryIDs w @ [q]"
proof -
  have "env_delete_query env q (w\<lparr>userFuns := amap_set q Unwatched (userFuns w)\<rparr>) = (r, w')" using assms(2) by (simp add: closeWatch_def andThen_def)
  then show ?thesis using assms(1) unfolding releases_def by (elim allE [of _ "w\<lparr>userFuns := amap_set q Unwatched (userFuns w)\<rparr>"]) simp
qed

text \<open>Two open watchers never share a number: the numbers of open watchers and the free numbers are distinct and together
  exactly the numbers handed out so far, if functions of the engine and the watchers leave the numbers alone and the deletion
  of a query releases its number once.\<close>

theorem query_numbers_unique:
  assumes laws: "\<And>b q s p. keepsIDs (env_reactive_query env b q s p)" "\<And>c ts. keepsIDs (env_call env c ts)" "\<And>q. releases q (env_delete_query env q)"
    and reach: "watching env w qs"
  shows "distinct (qs @ freeQueryIDs w) \<and> set (qs @ freeQueryIDs w) = {0..<queryID w}"
  using reach
proof (induction rule: watching.induct)
  case (Open w qs f query params r w')
  note ids = manageWatch_ids [OF laws(1,2) Open(2)]
  show ?case
  proof (cases "freeQueryIDs w = []")
    case True
    with ids Open.IH show ?thesis by (auto simp: pickedID_def)
  next
    case False
    then obtain fs l where fs: "freeQueryIDs w = fs @ [l]" by (cases "freeQueryIDs w" rule: rev_cases) auto
    with ids Open.IH show ?thesis by (auto simp: pickedID_def)
  qed
next
  case (Shut w qs q r w')
  have "queryID w' = queryID w" "freeQueryIDs w' = freeQueryIDs w @ [q]"
    using closeWatch_ids [OF laws(3) Shut(3)] by simp_all
  with Shut show ?case by (auto simp: distinct_remove1 set_remove1_eq)
qed (simp_all add: newLinks_def)


text \<open>A number is handed out again at once, while the handle of the closed watcher still refers to it: closing it a second time
  closes the watcher that has the number now.\<close>

lemma closed_number_reused:
  assumes "releases q (env_delete_query env q)" "closeWatch env q w = (r, w')" shows "pickedID w' = q"
  using closeWatch_ids [OF assms] by (simp add: pickedID_def)

lemma close_unwatches_any:
  assumes "\<And>w. userFuns (snd (env_delete_query env q w)) = userFuns w" shows "map_of (userFuns (snd (closeWatch env q w))) q = Some Unwatched"
  using assms by (simp add: closeWatch_def andThen_def)

section \<open>Rows that reach the wrong reader\<close>

text \<open>A watcher that throws leaves its rows behind, and the next one gets them before its own.\<close>

lemma throwing_watcher_leaves_rows:
  assumes "env_call env c [stdout_objects w ! 0] w = (Inl e, w)" shows "queryFun env (Watcher c) q first w = (Inl e, w)"
  using assms by (simp add: queryFun_def andThen_def)

definition demo_row :: "nat \<Rightarrow> row" where
  "demo_row n = [([0x61], VNum (NInt (int n)))]"

definition demo_print :: "nat \<Rightarrow> ((nat \<times> SKDBTable list) list LinksImpl, unit) js" where
  "demo_print n = andThen (SKIP_switch_to 0) (\<lambda>_. andThen (modifies (\<lambda>w. w\<lparr>object := demo_row n\<rparr>)) (\<lambda>_. SKIP_push_object))"

text \<open>An engine whose command selects one row and changes what query 0 watches; watchers note the tables they get.\<close>

definition demo_sql :: "(nat \<times> SKDBTable list) list sqlEnv" where
  "demo_sql = \<lparr>env_importString = (\<lambda>_. []), env_parseFloat = (\<lambda>_. NaN), env_importJSON = (\<lambda>_. VNull),
     env_main = (\<lambda>_ _. andThen (demo_print 7) (\<lambda>_. andThen (SKIP_js_mark_query 0) (\<lambda>_. ret []))), env_print_result = demo_print,
     env_reactive_query = (\<lambda>_ _ _ _. skip), env_delete_query = SKIP_js_delete_fun,
     env_call = (\<lambda>c ts. modifies (\<lambda>w. w\<lparr>engine := engine w @ [(c, ts)]\<rparr>)), env_external = (\<lambda>_ _. ret VUndef)\<rparr>"

lemmas demo_sql_run = demo_sql_def demo_print_def andThen_def SKIP_switch_to_def SKIP_push_object_def SKIP_js_mark_query_def SKIP_js_delete_fun_def

text \<open>The rows a command selects are handed to the watchers it wakes, together with their own, and are missing from its result.\<close>

lemma selected_rows_reach_watcher:
  "\<exists>w. runner demo_sql [] [] ((newLinks [])\<lparr>userFuns := [(0, Watcher 5)]\<rparr>) = Some (Inr [], w) \<and> engine w = [(5, [[demo_row 7, demo_row 0]])]"
  by (simp add: runner_def links_main_def notifyAllJS_def checkNotifications_def newLinks_def demo_sql_run notifyLoop.simps notifyOne_def queryFun_def)

lemma demo_laws:
  "queues (env_print_result demo_sql q)" "queues (env_call demo_sql c ts)" "keepsIDs (env_reactive_query demo_sql b q s p)"
  "keepsIDs (env_call demo_sql c ts)" "releases q (env_delete_query demo_sql q)"
  by (simp_all add: queues_def keepsIDs_def releases_def demo_sql_run)

theorem row_is_printed_witness:
  "stdout_objects (snd (printRow [VNull] ((newLinks ())\<lparr>field_names := [[0x61]]\<rparr>))) = [[[([0x61], VNull)]], [], [], []]"
  using row_is_printed [of "(newLinks ())\<lparr>field_names := [[0x61]]\<rparr>" "[VNull]"] by (simp add: newLinks_def)

theorem notifications_in_order_witness:
  "\<exists>r w' bs. checkNotifications demo_sql ((newLinks [])\<lparr>userFuns := [(0, Watcher 5), (1, Watcher 6)], notifications := [[1, 0], [0]]\<rparr>) = Some (r, w')
     \<and> \<not> notifying w' \<and> take 2 (bs @ notifications w') = [[1, 0], [0]]"
proof -
  let ?w = "(newLinks [])\<lparr>userFuns := [(0, Watcher 5), (1, Watcher 6)], notifications := [[1, 0], [0]]\<rparr> :: (nat \<times> SKDBTable list) list LinksImpl"
  have n: "\<not> notifying ?w" by (simp add: newLinks_def)
  have q: "(\<forall>q. quiet (env_print_result demo_sql q)) \<and> (\<forall>c ts. quiet (env_call demo_sql c ts))" by (simp add: quiet_def demo_sql_run)
  note t = notifications_in_order [OF demo_laws(1,2) n]
  from t q obtain r w' where c: "checkNotifications demo_sql ?w = Some (r, w')" by blast
  with t obtain bs more w1 where m: "w' = w1\<lparr>notifying := False\<rparr>" "bs @ notifications w' = notifications ?w @ more" by blast
  then have "\<not> notifying w'" "take 2 (bs @ notifications w') = [[1, 0], [0]]" by simp_all
  with c show ?thesis by blast
qed

theorem query_numbers_unique_witness:
  "\<exists>w. watching demo_sql w [1, 0] \<and> freeQueryIDs w = [] \<and> queryID w = 2"
proof -
  let ?w0 = "newLinks [] :: (nat \<times> SKDBTable list) list LinksImpl"
  obtain r1 w1 where o1: "manageWatch demo_sql (Watcher 5) [] [] ?w0 = (r1, w1)" by (cases "manageWatch demo_sql (Watcher 5) [] [] ?w0")
  obtain r2 w2 where o2: "manageWatch demo_sql (Watcher 6) [] [] w1 = (r2, w2)" by (cases "manageWatch demo_sql (Watcher 6) [] [] w1")
  have w1: "pickedID ?w0 = 0" "pickedID w1 = 1" using manageWatch_ids [OF demo_laws(3,4) o1] by (auto simp: pickedID_def newLinks_def)
  have "watching demo_sql w2 [1, 0]" using watching.Open [OF watching.Open [OF watching.Start o1] o2] by (simp add: w1)
  moreover from query_numbers_unique [OF demo_laws(3,4,5) this]
  have "freeQueryIDs w2 = []" using manageWatch_ids [OF demo_laws(3,4) o1] manageWatch_ids [OF demo_laws(3,4) o2] by (auto simp: newLinks_def)
  moreover from query_numbers_unique [OF demo_laws(3,4,5) calculation(1)] calculation(2) have "{0..<queryID w2} = {0, 1}" by auto
  then have "queryID w2 = 2" by (metis card_atLeastLessThan card_2_iff diff_zero insert_commute zero_neq_one)
  ultimately show ?thesis by blast
qed

section \<open>Columns\<close>

lemma column_spec: "\<forall>r \<in> set t. truthyV (getField r c) \<Longrightarrow> tableColumn c t = Inr (map (\<lambda>r. getField r c) t)"
  by (induction t) auto

text \<open>A value that counts as false is taken for a missing column.\<close>

lemma column_of_zero: "tableColumn c [[(c, VNum (NInt 0))]] = Inl (JSError (js ''Missing column: '' @ c))"
  by (simp add: getField_def truthyV_def)

end
