(* ===== verification/Skdb_Database.thy ===== *)
theory Skdb_Database
  imports Skdb_Server Skdb_Links
begin

text \<open>
  The local database: \<open>SKDBSyncImpl\<close> and \<open>SKDBMechanismImpl\<close> of \<open>sql/ts/src/skdb_database.ts\<close>, transactions of
  \<open>sql/ts/src/skdb_util.ts\<close> and the groups of \<open>sql/ts/src/skdb_group.ts\<close>.

  A database operation builds a command line and an input for the engine. The handle of the engine
  (\<open>main\<close> and \<open>runner\<close>, see \<open>Skdb_Links\<close>) is an argument; the commands that were run are kept as a
  history. Parameter values are JSON values. An async method is split where it waits.
\<close>

section \<open>State\<close>

record 'e SKDBHandle =
  h_main :: "jsstring list \<Rightarrow> jsstring \<Rightarrow> ('e, jsstring) js"
  h_runner :: "jsstring list \<Rightarrow> jsstring \<Rightarrow> ('e, SKDBTable) js"

record 'e SKDBSync =
  subscriptionCount :: nat
  clientUuid :: jsstring
  syncAccessKey :: "jsstring option"
  connectedRemote :: "nat option"
  watchedFiles :: "(jsstring \<times> nat) list"
  commands :: "(jsstring list \<times> jsstring) list"
  mirrored :: "MirrorDefn list list"
  database :: 'e

definition createSyncImpl :: "'e \<Rightarrow> jsstring \<Rightarrow> 'e SKDBSync" where
  "createSyncImpl e uuid = \<lparr>subscriptionCount = 0, clientUuid = uuid, syncAccessKey = None, connectedRemote = None, watchedFiles = [],
     commands = [], mirrored = [], database = e\<rparr>"

text \<open>\<open>runLocal\<close> is the \<open>main\<close> of the handle.\<close>

definition runLocal :: "'e SKDBHandle \<Rightarrow> jsstring list \<Rightarrow> jsstring \<Rightarrow> ('e SKDBSync, jsstring) js" where
  "runLocal h args stdin w = (case h_main h args stdin (database w) of
     (r, e) \<Rightarrow> (r, w\<lparr>database := e, commands := commands w @ [(args, stdin)]\<rparr>))"

definition runRows :: "'e SKDBHandle \<Rightarrow> jsstring list \<Rightarrow> jsstring \<Rightarrow> ('e SKDBSync, SKDBTable) js" where
  "runRows h args stdin w = (case h_runner h args stdin (database w) of
     (r, e) \<Rightarrow> (r, w\<lparr>database := e, commands := commands w @ [(args, stdin)]\<rparr>))"

type_synonym value_list = "(jsstring \<times> jsstring json) list"

definition addParams :: "jsstring list \<Rightarrow> jsstring Params \<Rightarrow> jsstring \<Rightarrow> jsstring list \<times> jsstring" where
  "addParams args ps stdin = ([js ''--expect-query-params''] @ args, JSON_stringify id (params_object ps) @ [newline] @ stdin)"

definition db_exec :: "'e SKDBHandle \<Rightarrow> jsstring \<Rightarrow> jsstring Params \<Rightarrow> ('e SKDBSync, SKDBTable) js" where
  "db_exec h stdin ps = (case addParams [js ''--format=js''] ps stdin of (args1, stdin1) \<Rightarrow> runRows h args1 stdin1)"

definition tableSchema :: "'e SKDBHandle \<Rightarrow> jsstring \<Rightarrow> ('e SKDBSync, jsstring) js" where
  "tableSchema h tableName = runLocal h [js ''dump-table'', tableName] []"

definition viewSchema :: "'e SKDBHandle \<Rightarrow> jsstring \<Rightarrow> ('e SKDBSync, jsstring) js" where
  "viewSchema h viewName = runLocal h [js ''dump-view'', viewName] []"

definition dbSchema :: "'e SKDBHandle \<Rightarrow> jsstring option \<Rightarrow> ('e SKDBSync, jsstring) js" where
  "dbSchema h tableName = (case tableName of
     None \<Rightarrow> andThen (runLocal h [js ''dump-tables''] []) (\<lambda>tables. andThen (runLocal h [js ''dump-views''] []) (\<lambda>views. ret (tables @ views)))
   | Some t \<Rightarrow> andThen (viewSchema h t) (\<lambda>v. if trim v \<noteq> [] then ret v else tableSchema h t))"

definition notifyConnectedAs :: "'e SKDBHandle \<Rightarrow> jsstring \<Rightarrow> jsstring \<Rightarrow> ('e SKDBSync, jsstring) js" where
  "notifyConnectedAs h userName replicationId = runLocal h [js ''connected-as'', js ''--userId'', userName, js ''--replicationId'', replicationId] []"

definition db_subscribe :: "'e SKDBHandle \<Rightarrow> jsstring \<Rightarrow> nat \<Rightarrow> ('e SKDBSync, unit) js" where
  "db_subscribe h viewName f = reads (\<lambda>w.
     let fileName = js ''/subscriptions/sub '' @ nat_text (subscriptionCount w) in
     andThen (modifies (\<lambda>w. w\<lparr>watchedFiles := watchedFiles w @ [(fileName, f)], subscriptionCount := subscriptionCount w + 1\<rparr>)) (\<lambda>_.
     andThen (runLocal h [js ''subscribe'', viewName, js ''--format=csv'', js ''--updates'', fileName] []) (\<lambda>_. skip)))"

definition db_assertCanBeMirrored :: "'e SKDBHandle \<Rightarrow> jsstring \<Rightarrow> jsstring \<Rightarrow> ('e SKDBSync, unit) js" where
  "db_assertCanBeMirrored h tbl schema = andThen (runLocal h [js ''can-mirror'', tbl, schema] []) (\<lambda>error.
     if error = [] then skip else throw (JSError error))"

section \<open>Inserting\<close>

definition keyName :: "nat \<Rightarrow> jsstring" where
  "keyName n = js ''@key'' @ nat_text n"

definition db_insert :: "'e SKDBHandle \<Rightarrow> jsstring \<Rightarrow> jsstring json list \<Rightarrow> ('e SKDBSync, bool) js" where
  "db_insert h tableName values =
     (let keys = map keyName [0..<length values];
          stdin = js ''insert into '' @ tableName @ js '' values ('' @ join (js '', '') keys @ js '');'' in
      case addParams [] (ParamMap (zip keys values)) stdin of (args1, stdin1) \<Rightarrow>
      andThen (runLocal h args1 stdin1) (\<lambda>out. ret (out = [])))"

text \<open>The columns of a table, from the text of its definition. \<open>.\<close> does not match the end of a line.\<close>

definition isLineEnd :: "code_unit \<Rightarrow> bool" where
  "isLineEnd c \<longleftrightarrow> c = 10 \<or> c = 13 \<or> c = 0x2028 \<or> c = 0x2029"

function stripOpen :: "jsstring \<Rightarrow> jsstring" where
  "stripOpen s = (let line = takeWhile (\<lambda>c. \<not> isLineEnd c) s; rest = dropWhile (\<lambda>c. \<not> isLineEnd c) s in
     if 0x28 \<in> set line then rev (takeWhile (\<lambda>c. c \<noteq> 0x28) (rev line)) @ rest
     else (case rest of [] \<Rightarrow> s | c # r \<Rightarrow> line @ [c] @ stripOpen r))"
  by auto
termination
proof (relation "measure length", goal_cases)
  case (2 s line rest c r)
  then have "length (c # r) \<le> length s" using length_dropWhile_le by metis
  then show ?case by simp
qed simp

declare stripOpen.simps [simp del]

fun removeEnd :: "jsstring \<Rightarrow> jsstring" where
  "removeEnd (c # d # s) = (if c = 0x29 \<and> d = 0x3B then s else c # removeEnd (d # s))"
| "removeEnd s = s"

fun collapse :: "jsstring \<Rightarrow> jsstring" where
  "collapse (c # d # s) = (if c = blank \<and> d = blank then collapse (d # s) else c # collapse (d # s))"
| "collapse s = s"

definition colTypes :: "jsstring \<Rightarrow> jsstring list" where
  "colTypes schema = split1 0x2C (collapse (filter (\<lambda>c. c \<noteq> newline) (removeEnd (stripOpen schema))))"

fun colNames :: "jsstring list \<Rightarrow> js_error + jsstring list" where
  "colNames [] = Inr []"
| "colNames (col # cs) = (case split1 blank col of
     _ # nm # _ \<Rightarrow> bindE (colNames cs) (\<lambda>ns. Inr (nm # ns))
   | _ \<Rightarrow> Inl (JSError (js ''Missing column name for '' @ col)))"

definition colIndex :: "jsstring list \<Rightarrow> (jsstring \<times> nat) list" where
  "colIndex names = fold (\<lambda>(v, i). amap_set v i) (zip names [0..<length names]) []"

text \<open>An assignment to an index of a JavaScript array; a hole is \<open>None\<close>.\<close>

definition setAt :: "nat \<Rightarrow> 'a \<Rightarrow> 'a option list \<Rightarrow> 'a option list" where
  "setAt i v vs = (if i < length vs then vs[i := Some v] else vs @ replicate (i - length vs) None @ [Some v])"

definition truthyJ :: "jsstring json \<Rightarrow> bool" where
  "truthyJ v \<longleftrightarrow> (case v of JNull \<Rightarrow> False | JBool b \<Rightarrow> b | JNum t \<Rightarrow> t \<noteq> js ''0'' | JStr s \<Rightarrow> s \<noteq> [] | _ \<Rightarrow> True)"

fun rowFields :: "(jsstring \<times> nat) list \<Rightarrow> value_list \<Rightarrow> jsstring json option list \<Rightarrow> js_error + jsstring json option list" where
  "rowFields ix [] vs = Inr vs"
| "rowFields ix ((fieldName, v) # fs) vs = (case map_of ix fieldName of
     None \<Rightarrow> Inl (JSError (js ''Field not found: '' @ fieldName))
   | Some i \<Rightarrow> rowFields ix fs (setAt i v vs))"

fun missingField :: "value_list \<Rightarrow> nat list \<Rightarrow> js_error + unit" where
  "missingField obj [] = Inr ()"
| "missingField obj (i # is) = (if (case map_of obj (nat_text i) of Some v \<Rightarrow> truthyJ v | None \<Rightarrow> False) then missingField obj is
     else Inl (JSError (js ''Missing field: '' @ nat_text i)))"

fun rowKeys :: "jsstring json option list \<Rightarrow> nat \<Rightarrow> value_list \<Rightarrow> jsstring list \<times> nat \<times> value_list" where
  "rowKeys [] keyNbr ps = ([], keyNbr, ps)"
| "rowKeys (None # vs) keyNbr ps = (case rowKeys vs keyNbr ps of (ks, k, q) \<Rightarrow> ([] # ks, k, q))"
| "rowKeys (Some v # vs) keyNbr ps = (case rowKeys vs (keyNbr + 1) (amap_set (keyName keyNbr) v ps) of (ks, k, q) \<Rightarrow> (keyName keyNbr # ks, k, q))"

definition insertRow :: "jsstring list \<Rightarrow> value_list \<Rightarrow> nat \<Rightarrow> value_list \<Rightarrow> js_error + jsstring \<times> nat \<times> value_list" where
  "insertRow names obj keyNbr ps =
     bindE (rowFields (colIndex names) (own_order obj) []) (\<lambda>vs.
     bindE (if length obj < length names then missingField obj (map snd (own_order (colIndex names))) else Inr ()) (\<lambda>_.
     case rowKeys vs keyNbr ps of (ks, k, q) \<Rightarrow> Inr (js ''('' @ join (js '', '') ks @ js '')'', k, q)))"

fun roundLoop :: "jsstring list \<Rightarrow> nat \<Rightarrow> value_list list \<Rightarrow> jsstring \<Rightarrow> nat \<Rightarrow> value_list \<Rightarrow> js_error + jsstring \<times> value_list list \<times> nat \<times> value_list" where
  "roundLoop names roundIdx [] buf keyNbr ps = Inr (buf, [], keyNbr, ps)"
| "roundLoop names roundIdx (obj # rows) buf keyNbr ps =
     (if roundIdx < 1000 then
        bindE (insertRow names obj keyNbr ps) (\<lambda>(t, k, q).
        roundLoop names (roundIdx + 1) rows (buf @ (if roundIdx \<noteq> 0 then [0x2C] else []) @ t) k q)
      else Inr (buf, obj # rows, keyNbr, ps))"

lemma roundLoop_suffix: "roundLoop names i rows buf k ps = Inr (buf', rest, k', ps') \<Longrightarrow> length rest \<le> length rows \<and> (i < 1000 \<longrightarrow> rows \<noteq> [] \<longrightarrow> length rest < length rows)"
proof (induction names i rows buf k ps rule: roundLoop.induct)
  case (2 names i obj rows buf k ps)
  show ?case
  proof (cases "i < 1000")
    case True
    with "2.prems" obtain t k1 q where "insertRow names obj k ps = Inr (t, k1, q)"
      "roundLoop names (i + 1) rows (buf @ (if i \<noteq> 0 then [0x2C] else []) @ t) k1 q = Inr (buf', rest, k', ps')" by (auto simp: bindE_Inr_iff)
    with "2.IH" True show ?thesis by fastforce
  qed (use "2.prems" in auto)
qed simp

function batchLoop :: "'e SKDBHandle \<Rightarrow> jsstring \<Rightarrow> jsstring list \<Rightarrow> value_list list \<Rightarrow> nat \<Rightarrow> value_list \<Rightarrow> nat \<Rightarrow> ('e SKDBSync, nat) js" where
  "batchLoop h tableName names rows keyNbr ps valueIndex w =
     (if rows = [] then (Inr valueIndex, w)
      else (case roundLoop names 0 rows (js ''insert into '' @ tableName @ js '' values '') keyNbr ps of
        Inl e \<Rightarrow> (Inl e, w)
      | Inr (buf, rest, k, q) \<Rightarrow>
          (case addParams [] (ParamMap q) (buf @ [0x3B]) of (args1, stdin1) \<Rightarrow>
          (case runLocal h args1 stdin1 w of
             (Inl e, w1) \<Rightarrow> (Inl e, w1)
           | (Inr stderr, w1) \<Rightarrow>
               if stderr \<noteq> [] then (Inl (JSError stderr), w1)
               else batchLoop h tableName names rest k q (valueIndex + (length rows - length rest)) w1))))"
  by pat_completeness auto
termination
  by (relation "measure (\<lambda>(h, t, n, rows, k, ps, i, w). length rows)") (auto dest: roundLoop_suffix)

declare batchLoop.simps [simp del]

definition insertMany :: "'e SKDBHandle \<Rightarrow> jsstring \<Rightarrow> value_list list \<Rightarrow> ('e SKDBSync, nat) js" where
  "insertMany h tableName valuesArray = andThen (tableSchema h tableName) (\<lambda>schema.
     andThen (lift (colNames (colTypes schema))) (\<lambda>names.
     batchLoop h tableName names valuesArray 0 [] 0))"


section \<open>The mechanism of replication\<close>

text \<open>\<open>BigInt(s)\<close> of a string\<close>

definition radixDigits :: "nat \<Rightarrow> jsstring \<Rightarrow> js_error + int" where
  "radixDigits b ds = (if ds \<noteq> [] \<and> list_all (\<lambda>c. is_hex c \<and> hex_val c < b) ds
     then Inr (int (foldl (\<lambda>n c. n * b + hex_val c) 0 ds)) else Inl (err ''Cannot convert to a BigInt''))"

definition BigInt_of :: "jsstring \<Rightarrow> js_error + int" where
  "BigInt_of s = (case trim s of
     [] \<Rightarrow> Inr 0
   | c # r \<Rightarrow>
       if c = 0x2D then bindE (radixDigits 10 r) (\<lambda>n. Inr (- n))
       else if c = 0x2B then radixDigits 10 r
       else (case r of
         x # ds \<Rightarrow> if c = 0x30 \<and> (x = 0x78 \<or> x = 0x58) then radixDigits 16 ds
                   else if c = 0x30 \<and> (x = 0x6F \<or> x = 0x4F) then radixDigits 8 ds
                   else if c = 0x30 \<and> (x = 0x62 \<or> x = 0x42) then radixDigits 2 ds
                   else radixDigits 10 (c # r)
       | [] \<Rightarrow> radixDigits 10 (c # r)))"

definition mech_tableExists :: "'e SKDBHandle \<Rightarrow> jsstring \<Rightarrow> ('e SKDBSync, bool) js" where
  "mech_tableExists h tableName = andThen (tableSchema h tableName) (\<lambda>s. ret (s \<noteq> []))"

definition mech_exec :: "'e SKDBHandle \<Rightarrow> jsstring \<Rightarrow> ('e SKDBSync, SKDBTable) js" where
  "mech_exec h sql = db_exec h sql (ParamMap [])"

definition mech_watermark :: "'e SKDBHandle \<Rightarrow> jsstring \<Rightarrow> jsstring \<Rightarrow> ('e SKDBSync, int) js" where
  "mech_watermark h replicationId tbl = andThen (runLocal h [js ''watermark'', js ''--source'', replicationId, tbl] []) (\<lambda>s. lift (BigInt_of s))"

definition mech_writeCsv :: "'e SKDBHandle \<Rightarrow> jsstring \<Rightarrow> jsstring \<Rightarrow> ('e SKDBSync, jsstring) js" where
  "mech_writeCsv h csv src = runLocal h [js ''write-csv'', js ''--enable-rebuilds'', js ''--source'', src] (csv @ [newline])"

text \<open>The watched function is called with the bytes of a change that is not empty.\<close>

definition mech_watchFile :: "jsstring \<Rightarrow> nat \<Rightarrow> ('e SKDBSync, unit) js" where
  "mech_watchFile fileName fn = modifies (\<lambda>w. w\<lparr>watchedFiles := watchedFiles w @ [(fileName, fn)]\<rparr>)"

definition mech_fileChange :: "jsstring \<Rightarrow> bytes option" where
  "mech_fileChange change = (if change = [] then None else Some (utf8_encode change))"

definition mech_getReplicationUid :: "'e SKDBHandle \<Rightarrow> jsstring \<Rightarrow> ('e SKDBSync, jsstring) js" where
  "mech_getReplicationUid h uuid = andThen (runLocal h [js ''replication-id'', uuid] []) (\<lambda>s. ret (trim s))"

definition mech_subscribe :: "'e SKDBHandle \<Rightarrow> jsstring \<Rightarrow> jsstring list \<Rightarrow> jsstring \<Rightarrow> ('e SKDBSync, jsstring) js" where
  "mech_subscribe h uid tables updateFile =
     andThen (runLocal h ([js ''subscribe'', js ''--format=csv'', js ''--updates'', updateFile, js ''--ignore-source'', uid] @ tables) [])
       (\<lambda>s. ret (trim s))"

definition mech_unsubscribe :: "'e SKDBHandle \<Rightarrow> jsstring \<Rightarrow> ('e SKDBSync, unit) js" where
  "mech_unsubscribe h sess = andThen (runLocal h [js ''disconnect'', sess] []) (\<lambda>_. skip)"

definition diffSpec :: "(jsstring \<times> int) list \<Rightarrow> jsstring" where
  "diffSpec watermarks = JSON_stringify id (JObj (fromEntries (map (\<lambda>(tbl, wm).
     (tbl, JObj [(js ''since'', JNum (case toFloat wm of NInt n \<Rightarrow> int_text n | _ \<Rightarrow> []))])) watermarks)))"

definition mech_diff :: "'e SKDBHandle \<Rightarrow> jsstring \<Rightarrow> (jsstring \<times> int) list \<Rightarrow> ('e SKDBSync, bytes option) js" where
  "mech_diff h sess watermarks = andThen (runLocal h [js ''diff'', js ''--format=csv'', sess] (diffSpec watermarks)) (\<lambda>d.
     ret (if trim d = [] then None else Some (utf8_encode d)))"

definition mech_toggleView :: "'e SKDBHandle \<Rightarrow> jsstring \<Rightarrow> ('e SKDBSync, jsstring) js" where
  "mech_toggleView h tbl = runLocal h [js ''toggle-view'', tbl] []"

section \<open>Connecting and mirroring\<close>

definition metatables :: "MirrorDefn list" where
  "metatables = map (\<lambda>(t, c). \<lparr>def_table = js t, def_expectedColumns = js c, def_filterExpr = None, def_filterParams = None\<rparr>)
     [(''skdb_user_permissions'', ''(userID TEXT PRIMARY KEY, permissions INTEGER NOT NULL, skdb_access TEXT NOT NULL)''),
      (''skdb_group_permissions'', ''(groupID TEXT NOT NULL, userID TEXT, permissions INTEGER NOT NULL, skdb_access TEXT NOT NULL)''),
      (''skdb_groups'', ''(groupID TEXT PRIMARY KEY, skdb_author TEXT, adminID TEXT NOT NULL, ownerID TEXT NOT NULL, skdb_access TEXT NOT NULL)'')]"

definition addMetatable :: "MirrorDefn \<Rightarrow> MirrorDefn list \<Rightarrow> MirrorDefn list" where
  "addMetatable metatable tables = (if \<exists>d \<in> set tables. def_table d = def_table metatable then tables else tables @ [metatable])"

definition db_mirror :: "MirrorDefn list \<Rightarrow> ('e SKDBSync, unit) js" where
  "db_mirror tables = reads (\<lambda>w. case connectedRemote w of
     None \<Rightarrow> throw (err ''Cannot read properties of undefined'')
   | Some _ \<Rightarrow> modifies (\<lambda>w. w\<lparr>mirrored := mirrored w @ [fold addMetatable metatables tables]\<rparr>))"

definition connect_begin :: "jsstring \<Rightarrow> ('e SKDBSync, unit) js" where
  "connect_begin key = modifies (\<lambda>w. w\<lparr>syncAccessKey := Some key\<rparr>)"

text \<open>The connection is there, or it failed.\<close>

definition connect_connected :: "js_error + nat \<Rightarrow> ('e SKDBSync, unit) js" where
  "connect_connected result = (case result of
     Inl e \<Rightarrow> throw e
   | Inr rm \<Rightarrow> andThen (modifies (\<lambda>w. w\<lparr>connectedRemote := Some rm\<rparr>)) (\<lambda>_. db_mirror metatables))"

definition connect_mirrored :: "'e SKDBHandle \<Rightarrow> jsstring \<Rightarrow> ('e SKDBSync, unit) js" where
  "connect_mirrored h key =
     andThen (db_exec h (js ''CREATE UNIQUE INDEX skdb_permissions_group_user ON skdb_group_permissions(groupID, userID);'') (ParamMap [])) (\<lambda>_.
     reads (\<lambda>w. andThen (mech_getReplicationUid h (clientUuid w)) (\<lambda>uid.
     andThen (notifyConnectedAs h key uid) (\<lambda>_. skip))))"

definition getUser :: "('e SKDBSync, jsstring option) js" where
  "getUser = reads (\<lambda>w. ret (syncAccessKey w))"

section \<open>Transactions\<close>

record SKDBTransaction =
  t_params :: value_list
  t_stmts :: "jsstring list"

definition newTransaction :: SKDBTransaction where
  "newTransaction = \<lparr>t_params = [], t_stmts = []\<rparr>"

definition stripSemicolon :: "jsstring \<Rightarrow> jsstring" where
  "stripSemicolon s = (if s \<noteq> [] \<and> last s = 0x3B then butlast s else s)"

definition t_add :: "jsstring \<Rightarrow> SKDBTransaction \<Rightarrow> SKDBTransaction" where
  "t_add stmt t = t\<lparr>t_stmts := t_stmts t @ [stripSemicolon (trim stmt)]\<rparr>"

text \<open>\<open>Object.assign\<close> copies the properties of an object; the entries of a \<open>Map\<close> are no properties.\<close>

definition t_addParams :: "jsstring Params \<Rightarrow> SKDBTransaction \<Rightarrow> SKDBTransaction" where
  "t_addParams ps t = t\<lparr>t_params := (case ps of ParamObj kvs \<Rightarrow> fold (\<lambda>(k, v). amap_set k v) kvs (t_params t) | ParamMap _ \<Rightarrow> t_params t)\<rparr>"

definition commitText :: "jsstring list \<Rightarrow> jsstring" where
  "commitText stmts = foldl (\<lambda>txn stmt. txn @ [newline, 9] @ stmt @ [0x3B]) (js ''BEGIN TRANSACTION;'') stmts @ [newline] @ js ''COMMIT;''"

definition commit :: "'e SKDBHandle \<Rightarrow> jsstring Params \<Rightarrow> SKDBTransaction \<Rightarrow> ('e SKDBSync, SKDBTable) js" where
  "commit h additionalParams t = (let t = t_addParams additionalParams t in db_exec h (commitText (t_stmts t)) (ParamObj (own_order (t_params t))))"

section \<open>Groups\<close>

record SKDBGroup =
  groupID :: jval
  adminGroupID :: jval
  ownerGroupID :: jval

definition textOf :: "jval \<Rightarrow> jsstring" where
  "textOf v = (case v of VStr s \<Rightarrow> s | VNum (NInt n) \<Rightarrow> int_text n | VUndef \<Rightarrow> js ''undefined'' | VNull \<Rightarrow> js ''null'' | _ \<Rightarrow> js ''[object Object]'')"

definition newGroup :: "jval \<Rightarrow> jval \<Rightarrow> jval \<Rightarrow> SKDBGroup" where
  "newGroup gid adm own = \<lparr>groupID = gid,
     adminGroupID = (if adm = VUndef \<or> adm = VNull then VStr (js ''admin-'' @ textOf gid) else adm),
     ownerGroupID = (if own = VUndef \<or> own = VNull then VStr (js ''owner-'' @ textOf gid) else own)\<rparr>"

text \<open>An object of parameters; \<open>JSON.stringify\<close> leaves out what is undefined.\<close>

definition groupParams :: "(string \<times> jval) list \<Rightarrow> jsstring Params" where
  "groupParams kvs = ParamObj (List.map_filter (\<lambda>(k, v). case v of VStr s \<Rightarrow> Some (js k, JStr s) | VNull \<Rightarrow> Some (js k, JNull)
     | VNum (NInt n) \<Rightarrow> Some (js k, JNum (int_text n)) | VBool b \<Rightarrow> Some (js k, JBool b) | _ \<Rightarrow> None) kvs)"

definition group_lookup :: "'e SKDBHandle \<Rightarrow> jval \<Rightarrow> ('e SKDBSync, SKDBGroup option) js" where
  "group_lookup h gid = tryCatch
     (andThen (db_exec h (js ''SELECT adminID FROM skdb_groups WHERE groupID=@groupID'') (groupParams [(''groupID'', gid)])) (\<lambda>t.
      andThen (lift (scalarValue t)) (\<lambda>adminID.
      andThen (db_exec h (js ''SELECT adminID FROM skdb_groups WHERE groupID=@adminID'') (groupParams [(''adminID'', adminID)])) (\<lambda>t2.
      andThen (lift (scalarValue t2)) (\<lambda>ownerID.
      ret (Some (newGroup gid adminID ownerID)))))))
     (\<lambda>_. ret None)"

definition createStatements :: "jsstring list" where
  "createStatements = map js
     [''INSERT INTO skdb_group_permissions VALUES (@ownerGroupID, @userID, skdb_permission('rw'), @userID);'',
      ''INSERT INTO skdb_group_permissions VALUES (@adminGroupID, @userID, skdb_permission('rw'), @adminGroupID);'',
      ''INSERT INTO skdb_group_permissions VALUES (@groupID, @userID, skdb_permission('rw'), @adminGroupID);'',
      ''INSERT INTO skdb_groups VALUES (@adminGroupID, @userID, @adminGroupID, @ownerGroupID, @adminGroupID);'',
      ''INSERT INTO skdb_groups VALUES (@groupID, @userID, @adminGroupID, @ownerGroupID, 'read-write')'',
      ''INSERT INTO skdb_groups VALUES (@ownerGroupID, @userID, @ownerGroupID, @ownerGroupID, @ownerGroupID);'']"

definition group_create :: "'e SKDBHandle \<Rightarrow> jval \<Rightarrow> ('e SKDBSync, SKDBGroup) js" where
  "group_create h userID =
     andThen (db_exec h (js ''SELECT id()'') (ParamMap [])) (\<lambda>t.
     andThen (lift (scalarValue t)) (\<lambda>gid.
     let group = newGroup gid VUndef VUndef in
     andThen (commit h (groupParams [(''groupID'', gid), (''adminGroupID'', adminGroupID group), (''ownerGroupID'', ownerGroupID group), (''userID'', userID)])
       (fold t_add createStatements newTransaction)) (\<lambda>_.
     ret group)))"

definition group_exec :: "'e SKDBHandle \<Rightarrow> string \<Rightarrow> (string \<times> jval) list \<Rightarrow> ('e SKDBSync, unit) js" where
  "group_exec h stmt ps = andThen (db_exec h (js stmt) (groupParams ps)) (\<lambda>_. skip)"

definition setDefaultPermission :: "'e SKDBHandle \<Rightarrow> jval \<Rightarrow> SKDBGroup \<Rightarrow> ('e SKDBSync, unit) js" where
  "setDefaultPermission h perm g = group_exec h
     ''INSERT OR REPLACE INTO skdb_group_permissions VALUES (@groupID, NULL, skdb_permission(@perm), @adminGroupID);''
     [(''groupID'', groupID g), (''perm'', perm), (''adminGroupID'', adminGroupID g)]"

definition setMemberPermission :: "'e SKDBHandle \<Rightarrow> jval \<Rightarrow> jval \<Rightarrow> SKDBGroup \<Rightarrow> ('e SKDBSync, unit) js" where
  "setMemberPermission h userID perm g = group_exec h
     ''INSERT OR REPLACE INTO skdb_group_permissions VALUES (@groupID, @userID, skdb_permission(@perm), 'read-write');''
     [(''groupID'', groupID g), (''userID'', userID), (''perm'', perm), (''adminGroupID'', adminGroupID g)]"

definition removeMember :: "'e SKDBHandle \<Rightarrow> jval \<Rightarrow> SKDBGroup \<Rightarrow> ('e SKDBSync, unit) js" where
  "removeMember h userID g = group_exec h ''DELETE FROM skdb_group_permissions WHERE groupID=@groupID AND userID=@userID;''
     [(''userID'', userID), (''groupID'', groupID g)]"

definition addAdmin :: "'e SKDBHandle \<Rightarrow> jval \<Rightarrow> SKDBGroup \<Rightarrow> ('e SKDBSync, unit) js" where
  "addAdmin h userID g = group_exec h
     ''INSERT OR REPLACE INTO skdb_group_permissions VALUES (@adminGroupID, @userID, skdb_permission('rw'), @adminGroupID);''
     [(''userID'', userID), (''adminGroupID'', adminGroupID g), (''ownerGroupID'', ownerGroupID g)]"

definition removeAdmin :: "'e SKDBHandle \<Rightarrow> jval \<Rightarrow> SKDBGroup \<Rightarrow> ('e SKDBSync, unit) js" where
  "removeAdmin h userID g = group_exec h ''DELETE FROM skdb_group_permissions WHERE groupID=@adminGroupID AND userID=@userID;''
     [(''userID'', userID), (''adminGroupID'', adminGroupID g)]"

definition addOwner :: "'e SKDBHandle \<Rightarrow> jval \<Rightarrow> SKDBGroup \<Rightarrow> ('e SKDBSync, unit) js" where
  "addOwner h userID g = group_exec h
     ''INSERT OR REPLACE INTO skdb_group_permissions VALUES (@ownerGroupID, @userID, skdb_permission('rw'), @ownerGroupID)''
     [(''userID'', userID), (''ownerGroupID'', ownerGroupID g)]"

definition removeOwner :: "'e SKDBHandle \<Rightarrow> jval \<Rightarrow> SKDBGroup \<Rightarrow> ('e SKDBSync, unit) js" where
  "removeOwner h userID g = group_exec h ''DELETE FROM skdb_group_permissions WHERE groupID=@ownerGroupID AND userID=@userID;''
     [(''userID'', userID), (''ownerGroupID'', ownerGroupID g)]"

definition transferOwnership :: "'e SKDBHandle \<Rightarrow> jval \<Rightarrow> SKDBGroup \<Rightarrow> ('e SKDBSync, unit) js" where
  "transferOwnership h userID g = andThen (commit h (groupParams [(''userID'', userID), (''ownerGroupID'', ownerGroupID g)])
     (t_add (js ''INSERT INTO skdb_group_permissions VALUES (@ownerGroupID, @userID, skdb_permission('rw'), @ownerGroupID)'')
     (t_add (js ''DELETE FROM skdb_group_permissions WHERE groupID=@ownerGroupID'') newTransaction))) (\<lambda>_. skip)"


section \<open>Every row is inserted once\<close>

lemma keyName_inject [simp]: "keyName a = keyName b \<longleftrightarrow> a = b"
  unfolding keyName_def by (metis append_same_eq same_append_eq dec_value_nat_text)

lemma distinct_keyNames: "distinct (map keyName [a..<b])"
  by (simp add: distinct_map inj_on_def)

lemma colIndex_eq: "distinct cs \<Longrightarrow> colIndex cs = zip cs [0..<length cs]"
  unfolding colIndex_def using fold_amap_zip [of cs "[]" "[0..<length cs]"] by simp

lemma map_of_colIndex:
  assumes "distinct cs" shows "i < length cs \<Longrightarrow> map_of (colIndex cs) (cs ! i) = Some i"
  using assms map_of_zip_nth [of cs "[0..<length cs]" i] by (simp add: colIndex_eq)

definition row_ok :: "jsstring list \<Rightarrow> value_list \<Rightarrow> bool" where
  "row_ok cs obj \<longleftrightarrow> distinct (map fst obj) \<and> fst ` set obj = set cs"

definition valuesOf :: "jsstring list \<Rightarrow> value_list \<Rightarrow> jsstring json list" where
  "valuesOf cs obj = map (\<lambda>n. case map_of obj n of Some v \<Rightarrow> v | None \<Rightarrow> JNull) cs"

definition cell :: "'a option list \<Rightarrow> nat \<Rightarrow> 'a option" where
  "cell vs i = (if i < length vs then vs ! i else None)"

lemma cell_setAt: "cell (setAt i v vs) j = (if j = i then Some v else cell vs j)"
  by (auto simp: cell_def setAt_def nth_append nth_Cons' split: if_splits)

lemma length_setAt: "length (setAt i v vs) = max (length vs) (Suc i)"
  by (simp add: setAt_def)

lemma rowFields_spec:
  assumes cs: "distinct cs"
  shows "fst ` set fs \<subseteq> set cs \<Longrightarrow> distinct (map fst fs) \<Longrightarrow> length vs \<le> length cs \<Longrightarrow>
    \<exists>vs'. rowFields (colIndex cs) fs vs = Inr vs' \<and> length vs' \<le> length cs
      \<and> (\<forall>i < length cs. cell vs' i = (case map_of fs (cs ! i) of Some v \<Rightarrow> Some v | None \<Rightarrow> cell vs i))"
proof (induction fs arbitrary: vs)
  case (Cons f fs)
  obtain n v where f: "f = (n, v)" by (cases f)
  then obtain i where i: "i < length cs" "cs ! i = n" using Cons.prems(1) by (auto simp: in_set_conv_nth)
  have ix: "map_of (colIndex cs) n = Some i" using map_of_colIndex [OF cs i(1)] i(2) by simp
  from Cons.IH [of "setAt i v vs"] Cons.prems i(1) f obtain vs' where v: "rowFields (colIndex cs) fs (setAt i v vs) = Inr vs'" "length vs' \<le> length cs"
    "\<forall>j < length cs. cell vs' j = (case map_of fs (cs ! j) of Some x \<Rightarrow> Some x | None \<Rightarrow> cell (setAt i v vs) j)"
    by (auto simp: length_setAt)
  have n: "map_of fs n = None" using Cons.prems(2) f by (auto simp: map_of_eq_None_iff)
  have "cell vs' j = (case map_of (f # fs) (cs ! j) of Some x \<Rightarrow> Some x | None \<Rightarrow> cell vs j)" if "j < length cs" for j
    using v(3) that f n i nth_eq_iff_index_eq [OF cs that i(1)] by (auto simp: cell_setAt split: option.split)
  with v ix f show ?case by auto
qed simp


lemma own_order_set:
  assumes "distinct (map fst kvs)" shows "set (own_order kvs) = set kvs" "distinct (map fst (own_order kvs))"
proof -
  show s: "set (own_order kvs) = set kvs" by (auto simp: own_order_def)
  have "distinct (own_order kvs)" using assms by (auto simp: own_order_def distinct_map)
  with assms s show "distinct (map fst (own_order kvs))" by (simp add: distinct_map)
qed

lemma rowFields_row:
  assumes cs: "distinct cs" and r: "row_ok cs obj"
  shows "rowFields (colIndex cs) (own_order obj) [] = Inr (map Some (valuesOf cs obj))"
proof -
  note o = own_order_set [of obj]
  have "fst ` set (own_order obj) \<subseteq> set cs" "distinct (map fst (own_order obj))" "distinct (map fst obj)" using r o by (simp_all add: row_ok_def)
  from rowFields_spec [OF cs this(1,2), of "[]"] obtain vs where v: "rowFields (colIndex cs) (own_order obj) [] = Inr vs" "length vs \<le> length cs"
    "\<forall>i < length cs. cell vs i = (case map_of (own_order obj) (cs ! i) of Some v \<Rightarrow> Some v | None \<Rightarrow> cell [] i)" by auto
  have some: "\<exists>x. map_of obj (cs ! i) = Some x" if "i < length cs" for i
  proof -
    have "cs ! i \<in> fst ` set obj" using r that by (simp add: row_ok_def)
    then show ?thesis by (metis map_of_eq_None_iff not_Some_eq)
  qed
  have c: "cell vs i = Some (valuesOf cs obj ! i)" if i: "i < length cs" for i
    using v(3) i some [OF i] map_of_own_order [of obj] r by (auto simp: row_ok_def valuesOf_def)
  have "length vs = length cs"
  proof (cases "cs = []")
    case False
    then have "cell vs (length cs - 1) \<noteq> None" using c by simp
    with v(2) False show ?thesis by (auto simp: cell_def split: if_splits)
  qed (use v(2) in simp)
  moreover have "vs ! i = Some (valuesOf cs obj ! i)" if "i < length cs" for i using c [OF that] that \<open>length vs = length cs\<close> by (simp add: cell_def)
  ultimately have "vs = map Some (valuesOf cs obj)" by (intro nth_equalityI) (simp_all add: valuesOf_def)
  with v(1) show ?thesis by simp
qed

lemma rowKeys_fresh:
  "fst ` set ps \<subseteq> keyName ` {0..<k} \<Longrightarrow>
     rowKeys (map Some vals) k ps = (map keyName [k..<k + length vals], k + length vals, ps @ zip (map keyName [k..<k + length vals]) vals)"
proof (induction vals arbitrary: k ps)
  case (Cons v vals)
  have "keyName k \<notin> fst ` set ps" using Cons.prems by auto
  then have a: "amap_set (keyName k) v ps = ps @ [(keyName k, v)]" by (rule amap_set_new)
  have "fst ` set (ps @ [(keyName k, v)]) \<subseteq> keyName ` {0..<k + 1}" using Cons.prems by auto
  from Cons.IH [OF this] have r: "rowKeys (map Some vals) (k + 1) (ps @ [(keyName k, v)]) = (map keyName [k + 1..<k + 1 + length vals], k + 1 + length vals,
      (ps @ [(keyName k, v)]) @ zip (map keyName [k + 1..<k + 1 + length vals]) vals)" .
  have u: "[k..<k + length (v # vals)] = k # [k + 1..<k + 1 + length vals]" by (simp add: upt_conv_Cons del: upt_Suc)
  show ?case unfolding u list.map rowKeys.simps a r by (simp del: upt_Suc)
qed simp

definition rowText :: "nat \<Rightarrow> nat \<Rightarrow> jsstring" where
  "rowText c k = js ''('' @ join (js '', '') (map keyName [k..<k + c]) @ js '')''"

definition rowBindings :: "jsstring list \<Rightarrow> nat \<Rightarrow> value_list list \<Rightarrow> value_list" where
  "rowBindings cs k rows = zip (map keyName [k..<k + length cs * length rows]) (concat (map (valuesOf cs) rows))"

lemma row_ok_length:
  assumes "distinct cs" "row_ok cs obj" shows "length obj = length cs"
proof -
  have "length obj = card (fst ` set obj)" using assms(2) distinct_card [of "map fst obj"] by (simp add: row_ok_def)
  then show ?thesis using assms distinct_card [of cs] by (simp add: row_ok_def)
qed

lemma insertRow_ok:
  assumes "distinct cs" "row_ok cs obj" "fst ` set ps \<subseteq> keyName ` {0..<k}"
  shows "insertRow cs obj k ps = Inr (rowText (length cs) k, k + length cs, ps @ rowBindings cs k [obj])"
  using rowFields_row [OF assms(1,2)] row_ok_length [OF assms(1,2)] rowKeys_fresh [OF assms(3), of "valuesOf cs obj"]
  by (simp add: insertRow_def rowText_def rowBindings_def valuesOf_def)

lemma rowBindings_Cons: "rowBindings cs k (r # rows) = rowBindings cs k [r] @ rowBindings cs (k + length cs) rows"
proof -
  have "[k..<k + length cs * length (r # rows)] = [k..<k + length cs] @ [k + length cs..<k + length cs + length cs * length rows]"
    using upt_add_eq_append [of k "k + length cs" "length cs * length rows"] by (simp add: add.assoc)
  then show ?thesis by (simp add: rowBindings_def valuesOf_def)
qed

lemma fst_rowBindings: "fst ` set (rowBindings cs k rows) \<subseteq> keyName ` {k..<k + length cs * length rows}"
  by (auto simp: rowBindings_def dest!: set_zip_leftD)

lemma keys_grow:
  assumes "fst ` set ps \<subseteq> keyName ` {0..<k}" shows "fst ` set (ps @ rowBindings cs k rows) \<subseteq> keyName ` {0..<k + length cs * length rows}"
proof -
  let ?m = "k + length cs * length rows"
  have "keyName ` {0..<k} \<subseteq> keyName ` {0..<?m}" "keyName ` {k..<?m} \<subseteq> keyName ` {0..<?m}" by (intro image_mono; auto)+
  with assms fst_rowBindings [of cs k rows] show ?thesis by (simp add: image_Un) (meson subset_trans)
qed

fun rowsText :: "nat \<Rightarrow> nat \<Rightarrow> nat \<Rightarrow> nat \<Rightarrow> jsstring" where
  "rowsText c i k 0 = []"
| "rowsText c i k (Suc n) = (if i \<noteq> 0 then [0x2C] else []) @ rowText c k @ rowsText c (i + 1) (k + c) n"

lemma roundLoop_ok:
  "distinct cs \<Longrightarrow> \<forall>r \<in> set rows. row_ok cs r \<Longrightarrow> fst ` set ps \<subseteq> keyName ` {0..<k} \<Longrightarrow> i \<le> 1000 \<Longrightarrow>
   roundLoop cs i rows buf k ps = Inr (buf @ rowsText (length cs) i k (length (take (1000 - i) rows)), drop (1000 - i) rows,
     k + length cs * length (take (1000 - i) rows), ps @ rowBindings cs k (take (1000 - i) rows))"
proof (induction rows arbitrary: i buf k ps)
  case (Cons r rows)
  show ?case
  proof (cases "i < 1000")
    case True
    obtain j where j: "1000 - i = Suc j" "1000 - (i + 1) = j" 
    proof (rule that [of "999 - i"])
      show "1000 - i = Suc (999 - i)" "1000 - (i + 1) = 999 - i" using True by linarith+
    qed
    have ir: "insertRow cs r k ps = Inr (rowText (length cs) k, k + length cs, ps @ rowBindings cs k [r])" using Cons.prems(2) by (intro insertRow_ok [OF Cons.prems(1) _ Cons.prems(3)]) simp
    have "fst ` set (ps @ rowBindings cs k [r]) \<subseteq> keyName ` {0..<k + length cs}" using keys_grow [OF Cons.prems(3), of cs "[r]"] by simp
    from Cons.IH [OF Cons.prems(1) _ this, of "i + 1"] Cons.prems(2) True
    have "roundLoop cs (i + 1) rows (buf @ (if i \<noteq> 0 then [0x2C] else []) @ rowText (length cs) k) (k + length cs) (ps @ rowBindings cs k [r]) =
      Inr ((buf @ (if i \<noteq> 0 then [0x2C] else []) @ rowText (length cs) k) @ rowsText (length cs) (i + 1) (k + length cs) (length (take j rows)), drop j rows,
        k + length cs + length cs * length (take j rows), (ps @ rowBindings cs k [r]) @ rowBindings cs (k + length cs) (take j rows))" unfolding j by simp
    then show ?thesis unfolding j using True by (simp add: ir rowBindings_Cons [of cs k r "take j rows"] add.assoc del: length_take)
  qed (use Cons.prems in \<open>simp add: rowBindings_def\<close>)
qed (simp add: rowBindings_def)


lemma rowsText_Suc: "rowsText c (Suc i) k n = concat (map (\<lambda>g. 0x2C # rowText c (k + g * c)) [0..<n])"
proof (induction n arbitrary: i k)
  case (Suc n)
  have "map (\<lambda>g. 0x2C # rowText c (k + g * c)) [0..<Suc n] = (0x2C # rowText c k) # map (\<lambda>g. 0x2C # rowText c (k + c + g * c)) [0..<n]"
    by (simp add: upt_conv_Cons map_Suc_upt [symmetric] add.assoc del: upt_Suc)
  with Suc show ?case by (simp del: upt_Suc)
qed simp

text \<open>The commands that insert rows: at most a thousand rows each, with consecutive keys; a command carries the values of its own rows
  and of the rows before them.\<close>

function insertCommands :: "jsstring \<Rightarrow> jsstring list \<Rightarrow> nat \<Rightarrow> value_list \<Rightarrow> value_list list \<Rightarrow> (jsstring list \<times> jsstring) list" where
  "insertCommands t cs k ps rows = (if rows = [] then [] else
     let chunk = take 1000 rows; q = ps @ rowBindings cs k chunk in
     addParams [] (ParamMap q) (js ''insert into '' @ t @ js '' values '' @ rowsText (length cs) 0 k (length chunk) @ [0x3B])
       # insertCommands t cs (k + length cs * length chunk) q (drop 1000 rows))"
  by pat_completeness auto
termination
  by (relation "measure (\<lambda>(t, cs, k, ps, rows). length rows)") auto

declare insertCommands.simps [simp del]

lemma batchLoop_ok:
  assumes h: "\<And>stdin e. fst (h_main h [js ''--expect-query-params''] stdin e) = Inr []" and cs: "distinct cs"
  shows "\<forall>r \<in> set rows. row_ok cs r \<Longrightarrow> fst ` set ps \<subseteq> keyName ` {0..<k} \<Longrightarrow>
    fst (batchLoop h t cs rows k ps n w) = Inr (n + length rows)
    \<and> commands (snd (batchLoop h t cs rows k ps n w)) = commands w @ insertCommands t cs k ps rows"
proof (induction "length rows" arbitrary: rows k ps n w rule: less_induct)
  case less
  show ?case
  proof (cases "rows = []")
    case True
    then show ?thesis by (simp add: batchLoop.simps insertCommands.simps)
  next
    case False
    let ?chunk = "take 1000 rows"
    define k' where "k' = k + length cs * length ?chunk"
    define q where "q = ps @ rowBindings cs k ?chunk"
    define buf where "buf = (js ''insert into '' @ t @ js '' values '') @ rowsText (length cs) 0 k (length ?chunk)"
    obtain args1 stdin1 where cmd: "addParams [] (ParamMap q) (buf @ [0x3B]) = (args1, stdin1)" by (cases "addParams [] (ParamMap q) (buf @ [0x3B])")
    have args: "args1 = [js ''--expect-query-params'']" using cmd by (auto simp: addParams_def)
    have round: "roundLoop cs 0 rows (js ''insert into '' @ t @ js '' values '') k ps = Inr (buf, drop 1000 rows, k', q)"
      using roundLoop_ok [OF cs less.prems le0, of "js ''insert into '' @ t @ js '' values ''"] unfolding k'_def q_def buf_def diff_zero .
    obtain w1 where run: "runLocal h args1 stdin1 w = (Inr [], w1)" "commands w1 = commands w @ [(args1, stdin1)]"
      using h [of stdin1 "database w"] unfolding args runLocal_def by (cases "h_main h [js ''--expect-query-params''] stdin1 (database w)") auto
    have "fst ` set q \<subseteq> keyName ` {0..<k'}" using keys_grow [OF less.prems(2)] unfolding q_def k'_def .
    moreover have "length (drop 1000 rows) < length rows" using False by simp
    moreover have "\<forall>r \<in> set (drop 1000 rows). row_ok cs r" using less.prems(1) by (meson in_set_dropD)
    ultimately have IH: "fst (batchLoop h t cs (drop 1000 rows) k' q m w1) = Inr (m + length (drop 1000 rows))
        \<and> commands (snd (batchLoop h t cs (drop 1000 rows) k' q m w1)) = commands w1 @ insertCommands t cs k' q (drop 1000 rows)" for m
      using less.hyps by blast
    have b: "batchLoop h t cs rows k ps n w = batchLoop h t cs (drop 1000 rows) k' q (n + (length rows - length (drop 1000 rows))) w1"
      using False by (subst batchLoop.simps) (simp add: round cmd run del: js_simps)
    have c: "insertCommands t cs k ps rows = (args1, stdin1) # insertCommands t cs k' q (drop 1000 rows)"
      using False cmd by (subst insertCommands.simps) (simp add: Let_def q_def k'_def buf_def)
    show ?thesis unfolding b c using IH run(2) by simp
  qed
qed

text \<open>C27: If every row has exactly the columns of the table and the engine accepts the commands, \<open>insertMany\<close> asks for the definition of
  the table, inserts the rows in order with one command for every thousand of them, binds every value to a key of its own,
  and returns the number of rows.\<close>

theorem insertMany_inserts:
  assumes "\<And>stdin e. fst (h_main h [js ''--expect-query-params''] stdin e) = Inr []"
    and "fst (h_main h [js ''dump-table'', t] [] (database w)) = Inr schema" "colNames (colTypes schema) = Inr cs" "distinct cs"
    and "\<forall>r \<in> set rows. row_ok cs r"
  shows "fst (insertMany h t rows w) = Inr (length rows)
    \<and> commands (snd (insertMany h t rows w)) = commands w @ ([js ''dump-table'', t], []) # insertCommands t cs 0 [] rows"
proof -
  obtain w1 where w1: "tableSchema h t w = (Inr schema, w1)" "commands w1 = commands w @ [([js ''dump-table'', t], [])]"
    using assms(2) by (cases "h_main h [js ''dump-table'', t] [] (database w)") (auto simp: tableSchema_def runLocal_def)
  then have "insertMany h t rows w = batchLoop h t cs rows 0 [] 0 w1" by (simp add: insertMany_def andThen_def assms(3))
  with batchLoop_ok [OF assms(1,4,5), of "[]" 0 t 0 w1] w1(2) show ?thesis by simp
qed

text \<open>The value of column i of row g is bound to the key with number g times the number of columns plus i.\<close>

lemma rowBindings_lookup:
  assumes "g < length rows" "i < length cs"
  shows "map_of (rowBindings cs 0 rows) (keyName (g * length cs + i)) = Some (valuesOf cs (rows ! g) ! i)"
  using assms
proof (induction rows arbitrary: g rule: rev_induct)
  case (snoc r rows)
  let ?c = "length cs"
  have l: "length (concat (map (valuesOf cs) rs)) = ?c * length rs" for rs by (induction rs) (simp_all add: valuesOf_def)
  have e: "rowBindings cs 0 (rows @ [r]) = rowBindings cs 0 rows @ zip (map keyName [?c * length rows..<?c * length rows + ?c]) (valuesOf cs r)"
    using l [of rows] upt_add_eq_append [of 0 "?c * length rows" ?c] by (simp add: rowBindings_def zip_append1 valuesOf_def algebra_simps)
  show ?case
  proof (cases "g < length rows")
    case True
    with snoc show ?thesis by (simp add: e nth_append map_add_def)
  next
    case False
    then have g: "g = length rows" using snoc.prems(1) by simp
    have "keyName (?c * length rows + i) \<notin> fst ` set (rowBindings cs 0 rows)" using fst_rowBindings [of cs 0 rows] by auto
    then have n: "map_of (rowBindings cs 0 rows) (keyName (?c * length rows + i)) = None" by (simp add: map_of_eq_None_iff)
    have "map_of (zip (map keyName [?c * length rows..<?c * length rows + ?c]) (valuesOf cs r)) (map keyName [?c * length rows..<?c * length rows + ?c] ! i) = Some (valuesOf cs r ! i)"
      using snoc.prems(2) by (intro map_of_zip_nth distinct_keyNames) (simp_all add: valuesOf_def)
    then show ?thesis using n snoc.prems(2) by (simp add: e g nth_append map_add_def mult.commute)
  qed
qed simp


text \<open>A row that lacks a column is reported by the number of the first column, not by the name of the one that is missing.\<close>

lemma missing_field_reports_number:
  "insertRow [js ''a'', js ''b''] [(js ''a'', JNull)] 0 [] = Inl (JSError (js ''Missing field: '' @ nat_text 0))"
  by (simp add: insertRow_def colIndex_def own_order_def is_index_def is_digit_def setAt_def nat_text.simps)

section \<open>Mirroring\<close>

lemma addMetatable_keeps: "set tables \<subseteq> set (addMetatable m tables)" "\<exists>d \<in> set (addMetatable m tables). def_table d = def_table m"
  by (auto simp: addMetatable_def)

lemma fold_addMetatable:
  "\<exists>added. fold addMetatable ms tables = tables @ added \<and> set added \<subseteq> set ms \<and> (\<forall>m \<in> set ms. \<exists>d \<in> set (tables @ added). def_table d = def_table m)
    \<and> distinct (map def_table added) \<and> def_table ` set added \<inter> def_table ` set tables = {}"
proof (induction ms arbitrary: tables)
  case (Cons m ms)
  show ?case
  proof (cases "\<exists>d \<in> set tables. def_table d = def_table m")
    case True
    then have e: "addMetatable m tables = tables" by (simp add: addMetatable_def)
    from Cons.IH [of tables] obtain added where a: "fold addMetatable ms tables = tables @ added" "set added \<subseteq> set ms"
      "\<forall>m \<in> set ms. \<exists>d \<in> set (tables @ added). def_table d = def_table m" "distinct (map def_table added)" "def_table ` set added \<inter> def_table ` set tables = {}" by blast
    with True e show ?thesis by (intro exI [of _ added]) auto
  next
    case False
    then have e: "addMetatable m tables = tables @ [m]" by (simp add: addMetatable_def)
    from Cons.IH [of "tables @ [m]"] obtain added where a: "fold addMetatable ms (tables @ [m]) = (tables @ [m]) @ added" "set added \<subseteq> set ms"
      "\<forall>m' \<in> set ms. \<exists>d \<in> set ((tables @ [m]) @ added). def_table d = def_table m'" "distinct (map def_table added)"
      "def_table ` set added \<inter> def_table ` set (tables @ [m]) = {}" by blast
    with False e show ?thesis by (intro exI [of _ "m # added"]) (auto simp: image_iff)
  qed
qed simp

text \<open>Mirroring passes on the definitions it is given, in their order, followed by those of the three tables of permissions that are
  not among them, each once; without a connection it throws.\<close>

theorem mirror_adds_metatables:
  "(connectedRemote w = None \<longrightarrow> fst (db_mirror tables w) = Inl (err ''Cannot read properties of undefined'') \<and> snd (db_mirror tables w) = w)
   \<and> (connectedRemote w \<noteq> None \<longrightarrow> (\<exists>added. snd (db_mirror tables w) = w\<lparr>mirrored := mirrored w @ [tables @ added]\<rparr>
      \<and> set added \<subseteq> set metatables \<and> (\<forall>m \<in> set metatables. \<exists>d \<in> set (tables @ added). def_table d = def_table m)
      \<and> distinct (map def_table added) \<and> def_table ` set added \<inter> def_table ` set tables = {}))"
proof (intro conjI impI)
  assume "connectedRemote w \<noteq> None"
  then have "snd (db_mirror tables w) = w\<lparr>mirrored := mirrored w @ [fold addMetatable metatables tables]\<rparr>" by (auto simp: db_mirror_def)
  with fold_addMetatable [of metatables tables] show "\<exists>added. snd (db_mirror tables w) = w\<lparr>mirrored := mirrored w @ [tables @ added]\<rparr>
      \<and> set added \<subseteq> set metatables \<and> (\<forall>m \<in> set metatables. \<exists>d \<in> set (tables @ added). def_table d = def_table m)
      \<and> distinct (map def_table added) \<and> def_table ` set added \<inter> def_table ` set tables = {}" by auto
qed (simp_all add: db_mirror_def)

section \<open>Transactions and groups\<close>

lemma transaction_text:
  "t_stmts (fold t_add stmts newTransaction) = map (stripSemicolon \<circ> trim) stmts"
proof -
  have "t_stmts (fold t_add stmts t) = t_stmts t @ map (stripSemicolon \<circ> trim) stmts" for t
    by (induction stmts arbitrary: t) (auto simp: t_add_def)
  then show ?thesis by (simp add: newTransaction_def)
qed

text \<open>Parameters given as a \<open>Map\<close> are lost.\<close>

lemma map_parameters_lost: "t_addParams (ParamMap kvs) t = t"
  by (simp add: t_addParams_def)

text \<open>A database that answers the two questions of \<open>lookup\<close> from the table of groups, as they stand after \<open>create\<close>: the group and its group
  of administrators both have the latter as \<open>adminID\<close>. What \<open>lookup\<close> takes for the group of owners is the group of administrators.\<close>

lemma looked_up_owner_is_admin:
  assumes "\<And>e. h_runner h (fst (addParams [js ''--format=js''] (groupParams [(''groupID'', VStr g)]) (js ''SELECT adminID FROM skdb_groups WHERE groupID=@groupID'')))
        (snd (addParams [js ''--format=js''] (groupParams [(''groupID'', VStr g)]) (js ''SELECT adminID FROM skdb_groups WHERE groupID=@groupID''))) e
        = (Inr [[(js ''adminID'', VStr a)]], e)"
    and "\<And>e. h_runner h (fst (addParams [js ''--format=js''] (groupParams [(''adminID'', VStr a)]) (js ''SELECT adminID FROM skdb_groups WHERE groupID=@adminID'')))
        (snd (addParams [js ''--format=js''] (groupParams [(''adminID'', VStr a)]) (js ''SELECT adminID FROM skdb_groups WHERE groupID=@adminID''))) e
        = (Inr [[(js ''adminID'', VStr a)]], e)"
  shows "fst (group_lookup h (VStr g) w) = Inr (Some \<lparr>groupID = VStr g, adminGroupID = VStr a, ownerGroupID = VStr a\<rparr>)"
proof -
  have s: "scalarValue [[(js ''adminID'', VStr a)]] = Inr (VStr a)"
    by (simp add: scalarValue_def firstRow_def cols_def own_order_def is_index_def is_digit_def getField_def)
  show ?thesis unfolding group_lookup_def tryCatch_def
    by (simp add: andThen_def db_exec_def runRows_def case_prod_unfold assms s newGroup_def del: js_simps)
qed

section \<open>Example\<close>

definition demo_schema :: jsstring where
  "demo_schema = js ''CREATE TABLE t ('' @ [newline] @ js ''  x INTEGER,'' @ [newline] @ js ''  y TEXT'' @ [newline] @ js '');''"

lemma demo_columns: "colNames (colTypes demo_schema) = Inr [js ''x'', js ''y'']"
proof -
  have "stripOpen demo_schema = [newline] @ js ''  x INTEGER,'' @ [newline] @ js ''  y TEXT'' @ [newline] @ js '');''"
    unfolding demo_schema_def by (subst stripOpen.simps) (simp add: isLineEnd_def)
  then show ?thesis by (simp add: colTypes_def)
qed

definition demo_handle :: "unit SKDBHandle" where
  "demo_handle = \<lparr>h_main = (\<lambda>args _ e. (Inr (if args = [js ''dump-table'', [0x74]] then demo_schema else []), e)), h_runner = (\<lambda>_ _ e. (Inr [], e))\<rparr>"

theorem insertMany_inserts_witness:
  "fst (insertMany demo_handle [0x74] [[(js ''y'', JNull), (js ''x'', JBool True)]] (createSyncImpl () [])) = Inr 1"
proof -
  have "fst (insertMany demo_handle [0x74] [[(js ''y'', JNull), (js ''x'', JBool True)]] (createSyncImpl () [])) = Inr (length [[(js ''y'', JNull :: jsstring json), (js ''x'', JBool True)]])"
  proof (rule insertMany_inserts [THEN conjunct1])
    show "colNames (colTypes demo_schema) = Inr [js ''x'', js ''y'']" by (rule demo_columns)
    show "fst (h_main demo_handle [js ''dump-table'', [0x74]] [] (database (createSyncImpl () []))) = Inr demo_schema" by (simp add: demo_handle_def)
    show "\<And>stdin e. fst (h_main demo_handle [js ''--expect-query-params''] stdin e) = Inr []" by (simp add: demo_handle_def)
  qed (auto simp: row_ok_def)
  then show ?thesis by simp
qed

theorem mirror_adds_metatables_witness:
  "fst (db_mirror [] (createSyncImpl () [])) = Inl (err ''Cannot read properties of undefined'')"
  using mirror_adds_metatables [of "createSyncImpl () []" "[]"] by (simp add: createSyncImpl_def)

end
