(* ===== verification/Skip_Http.thy ===== *)
theory Skip_Http
  imports JS_Strings
begin

text \<open>
  The HTTP interface of a service: the routes of \<open>skipruntime-ts/server/src/rest.ts\<close>, the client \<open>SkipServiceBroker\<close> of
  \<open>skipruntime-ts/helpers/src/rest.ts\<close>, and the external services of \<open>helpers/src/external.ts\<close> and \<open>helpers/src/remote.ts\<close>.

  A request has a method, a path and perhaps a JSON value as its body; the text of a JSON value in a body is read back as
  the value. The service is known by the calls it gets and the answers it gives. Names of resources and collections are
  made of characters that stand for themselves in a URL (\<open>plain_name\<close>). Paths are matched as they are written here; the
  framework would also take a trailing slash or other letter case.
\<close>

section \<open>Requests and responses\<close>

type_synonym jv = "jsstring json"

datatype httpMethod = GET | POST | PUT | PATCH | HEAD | DELETE

datatype httpBody = NoBody | JsonBody jv

record httpRequest =
  rq_method :: httpMethod
  rq_path :: jsstring
  rq_body :: httpBody

datatype responseBody = TextResponse jsstring | JsonResponse jv

record httpResponse =
  rs_status :: nat
  rs_body :: responseBody

definition statusText :: "nat \<Rightarrow> jsstring" where
  "statusText n = (if n = 200 then js ''OK'' else if n = 201 then js ''Created'' else if n = 400 then js ''Bad Request'' else if n = 404 then js ''Not Found''
     else if n = 406 then js ''Not Acceptable'' else if n = 409 then js ''Conflict'' else if n = 413 then js ''Payload Too Large'' else if n = 500 then js ''Internal Server Error'' else nat_text n)"

definition sendStatus :: "nat \<Rightarrow> httpResponse" where
  "sendStatus n = \<lparr>rs_status = n, rs_body = TextResponse (statusText n)\<rparr>"

definition serverError :: httpResponse where
  "serverError = \<lparr>rs_status = 500, rs_body = JsonResponse (JObj [(js ''error'', JStr (js ''Internal server error''))])\<rparr>"

section \<open>The client\<close>

definition truthyJson :: "jv \<Rightarrow> bool" where
  "truthyJson v \<longleftrightarrow> (case v of JNull \<Rightarrow> False | JBool b \<Rightarrow> b | JNum t \<Rightarrow> t \<noteq> js ''0'' | JStr s \<Rightarrow> s \<noteq> [] | _ \<Rightarrow> True)"

definition fetchBody :: "jv option \<Rightarrow> httpBody" where
  "fetchBody b = (case b of Some v \<Rightarrow> if truthyJson v then JsonBody v else NoBody | None \<Rightarrow> NoBody)"

definition fetchError :: "nat \<Rightarrow> js_error" where
  "fetchError n = JSError (nat_text n @ js '': '' @ statusText n)"

text \<open>What \<open>fetchJSON\<close> makes of a response; a text that is no status text is no JSON.\<close>

definition fetchResult :: "httpResponse \<Rightarrow> js_error + jv option" where
  "fetchResult r = (if rs_status r < 200 \<or> 300 \<le> rs_status r then Inl (fetchError (rs_status r))
     else (case rs_body r of
       JsonResponse v \<Rightarrow> Inr (Some v)
     | TextResponse t \<Rightarrow> if t = [] \<or> t = statusText (rs_status r) then Inr None else Inl (err ''Unexpected token'')))"

datatype brokerOp =
    BGetAll jsstring jv
  | BGetArray jsstring jv jv
  | BGetUnique jsstring jv jv
  | BUpdate jsstring "jv list"
  | BDeleteKey jsstring jv
  | BGetStreamUUID jsstring jv
  | BDeleteUUID jsstring

definition brokerRequest :: "brokerOp \<Rightarrow> httpRequest" where
  "brokerRequest p = (case p of
     BGetAll resource params \<Rightarrow> \<lparr>rq_method = POST, rq_path = js ''/v1/snapshot/'' @ resource, rq_body = fetchBody (Some params)\<rparr>
   | BGetArray resource params key \<Rightarrow> \<lparr>rq_method = POST, rq_path = js ''/v1/snapshot/'' @ resource @ js ''/lookup'',
       rq_body = fetchBody (Some (JObj [(js ''key'', key), (js ''params'', params)]))\<rparr>
   | BGetUnique resource params key \<Rightarrow> \<lparr>rq_method = POST, rq_path = js ''/v1/snapshot/'' @ resource @ js ''/lookup'',
       rq_body = fetchBody (Some (JObj [(js ''key'', key), (js ''params'', params)]))\<rparr>
   | BUpdate collection entries \<Rightarrow> \<lparr>rq_method = PATCH, rq_path = js ''/v1/inputs/'' @ collection, rq_body = fetchBody (Some (JArr entries))\<rparr>
   | BDeleteKey collection key \<Rightarrow> \<lparr>rq_method = PATCH, rq_path = js ''/v1/inputs/'' @ collection, rq_body = fetchBody (Some (JArr [JArr [key, JArr []]]))\<rparr>
   | BGetStreamUUID resource params \<Rightarrow> \<lparr>rq_method = POST, rq_path = js ''/v1/streams/'' @ resource, rq_body = JsonBody params\<rparr>
   | BDeleteUUID uuid \<Rightarrow> \<lparr>rq_method = DELETE, rq_path = js ''/v1/streams/'' @ uuid, rq_body = fetchBody None\<rparr>)"

text \<open>The result of the promise: entries or values (\<open>data ?? []\<close>), a text, or nothing.\<close>

datatype brokerResult = Data jv | Uuid jsstring | Nothing

definition orEmpty :: "jv option \<Rightarrow> jv" where
  "orEmpty d = (case d of None \<Rightarrow> JArr [] | Some JNull \<Rightarrow> JArr [] | Some v \<Rightarrow> v)"

text \<open>The only element of what is taken for an array; strings and objects have a \<open>length\<close> and elements of their own.\<close>

definition getUnique :: "jv \<Rightarrow> js_error + jv" where
  "getUnique values = (case values of
     JArr [v] \<Rightarrow> Inr v
   | JStr [c] \<Rightarrow> Inr (JStr [c])
   | JObj kvs \<Rightarrow> (case (map_of kvs (js ''length''), map_of kvs (js ''0'')) of
       (Some (JNum n), Some v) \<Rightarrow> if n = js ''1'' then Inr v else Inl (err ''SkipNonUniqueValueError'')
     | _ \<Rightarrow> Inl (err ''SkipNonUniqueValueError''))
   | _ \<Rightarrow> Inl (err ''SkipNonUniqueValueError''))"

definition brokerAnswer :: "jsstring \<Rightarrow> brokerOp \<Rightarrow> httpResponse \<Rightarrow> js_error + brokerResult" where
  "brokerAnswer entrypoint p r = (case p of
     BGetAll _ _ \<Rightarrow> bindE (fetchResult r) (\<lambda>d. Inr (Data (orEmpty d)))
   | BGetArray _ _ _ \<Rightarrow> bindE (fetchResult r) (\<lambda>d. Inr (Data (orEmpty d)))
   | BGetUnique _ _ _ \<Rightarrow> bindE (fetchResult r) (\<lambda>d. bindE (getUnique (orEmpty d)) (\<lambda>v. Inr (Data v)))
   | BGetStreamUUID resource _ \<Rightarrow>
       if rs_status r < 200 \<or> 300 \<le> rs_status r
       then Inl (JSError (js ''Unable to connect to '' @ entrypoint @ js ''/v1/streams/'' @ resource @ js '': '' @ nat_text (rs_status r) @ js '' - '' @ statusText (rs_status r)))
       else Inr (Uuid (case rs_body r of TextResponse t \<Rightarrow> t | JsonResponse v \<Rightarrow> JSON_stringify id v))
   | _ \<Rightarrow> bindE (fetchResult r) (\<lambda>_. Inr Nothing))"

section \<open>The server\<close>

datatype serviceCall =
    InstantiateResource jsstring jsstring jv
  | CloseResourceInstance jsstring
  | GetAll jsstring jv
  | GetArray jsstring jv jv
  | Update jsstring "jv list"
  | Subscribe jsstring

datatype serviceError = UnknownCollection | InstanceInUse | OtherError

datatype routed = Answer httpResponse | Call serviceCall

text \<open>\<open>express.json\<close> leaves an empty object where there is no body.\<close>

definition reqBody :: "httpRequest \<Rightarrow> jv" where
  "reqBody q = (case rq_body q of NoBody \<Rightarrow> JObj [] | JsonBody v \<Rightarrow> v)"

definition lookupFields :: "jv \<Rightarrow> (jv \<times> jv) option" where
  "lookupFields v = (case v of JObj kvs \<Rightarrow> (case (map_of kvs (js ''key''), map_of kvs (js ''params'')) of (Some k, Some p) \<Rightarrow> Some (k, p) | _ \<Rightarrow> None) | _ \<Rightarrow> None)"

text \<open>
  \<open>express.json\<close> refuses a body of more than 100 kilobytes before any route; the page the framework answers with is not
  read by the client.
\<close>

definition bodySize :: "httpRequest \<Rightarrow> nat" where
  "bodySize q = (case rq_body q of NoBody \<Rightarrow> 0 | JsonBody v \<Rightarrow> length (utf8_encode (JSON_stringify id v)))"

text \<open>The routes of the control service, in order. \<open>uuid\<close> is the fresh identifier of a new stream.\<close>

definition controlRoute :: "jsstring \<Rightarrow> httpRequest \<Rightarrow> routed" where
  "controlRoute uuid q = (if bodySize q > 102400 then Answer (sendStatus 413) else case (if rq_method q = HEAD then GET else rq_method q, split1 0x2F (rq_path q)) of
     (POST, [e, v, a, resource]) \<Rightarrow>
       if e = [] \<and> v = js ''v1'' \<and> a = js ''streams'' \<and> resource \<noteq> [] then Call (InstantiateResource uuid resource (reqBody q))
       else if e = [] \<and> v = js ''v1'' \<and> a = js ''snapshot'' \<and> resource \<noteq> [] then Call (GetAll resource (reqBody q))
       else Answer (sendStatus 404)
   | (DELETE, [e, v, a, u]) \<Rightarrow>
       if e = [] \<and> v = js ''v1'' \<and> a = js ''streams'' \<and> u \<noteq> [] then Call (CloseResourceInstance u) else Answer (sendStatus 404)
   | (POST, [e, v, a, resource, l]) \<Rightarrow>
       if e = [] \<and> v = js ''v1'' \<and> a = js ''snapshot'' \<and> resource \<noteq> [] \<and> l = js ''lookup''
       then (case lookupFields (reqBody q) of Some (key, params) \<Rightarrow> Call (GetArray resource key params) | None \<Rightarrow> Answer serverError)
       else Answer (sendStatus 404)
   | (PATCH, [e, v, a, collection]) \<Rightarrow>
       if e = [] \<and> v = js ''v1'' \<and> a = js ''inputs'' \<and> collection \<noteq> []
       then (case reqBody q of
           JArr entries \<Rightarrow> Call (Update collection entries)
         | b \<Rightarrow> Answer \<lparr>rs_status = 400, rs_body = JsonResponse (JStr (js ''Bad request body '' @ JSON_stringify id b))\<rparr>)
       else Answer (sendStatus 404)
   | (GET, [e, h]) \<Rightarrow> if e = [] \<and> h = js ''healthz'' then Answer (sendStatus 200) else Answer (sendStatus 404)
   | _ \<Rightarrow> Answer (sendStatus 404))"

definition controlAnswer :: "jsstring option \<Rightarrow> serviceCall \<Rightarrow> serviceError + jv \<Rightarrow> httpResponse" where
  "controlAnswer prefix c r = (case (c, r) of
     (InstantiateResource uuid _ _, Inr _) \<Rightarrow> \<lparr>rs_status = 201,
        rs_body = TextResponse (case prefix of Some p \<Rightarrow> if p = [] then uuid else p @ [0x2F] @ uuid | None \<Rightarrow> uuid)\<rparr>
   | (CloseResourceInstance _, Inr _) \<Rightarrow> sendStatus 200
   | (GetAll _ _, Inr d) \<Rightarrow> \<lparr>rs_status = 200, rs_body = JsonResponse d\<rparr>
   | (GetArray _ _ _, Inr d) \<Rightarrow> \<lparr>rs_status = 200, rs_body = JsonResponse d\<rparr>
   | (Update _ _, Inr _) \<Rightarrow> sendStatus 200
   | (Update _ _, Inl UnknownCollection) \<Rightarrow> sendStatus 404
   | _ \<Rightarrow> serverError)"

text \<open>The streaming service.\<close>

definition streamRoute :: "bool \<Rightarrow> httpRequest \<Rightarrow> routed" where
  "streamRoute acceptsEvents q = (case (if rq_method q = HEAD then GET else rq_method q, split1 0x2F (rq_path q)) of
     (GET, [e, v, a, uuid]) \<Rightarrow>
       if e = [] \<and> v = js ''v1'' \<and> a = js ''streams'' \<and> uuid \<noteq> [] then (if acceptsEvents then Call (Subscribe uuid) else Answer (sendStatus 406))
       else Answer (sendStatus 404)
   | (GET, [e, h]) \<Rightarrow> if e = [] \<and> h = js ''healthz'' then Answer (sendStatus 200) else Answer (sendStatus 404)
   | _ \<Rightarrow> Answer (sendStatus 404))"

definition streamFailure :: "serviceError \<Rightarrow> httpResponse" where
  "streamFailure e = sendStatus (case e of UnknownCollection \<Rightarrow> 404 | InstanceInUse \<Rightarrow> 409 | OtherError \<Rightarrow> 500)"

definition eventText :: "bool \<Rightarrow> jsstring \<Rightarrow> jv \<Rightarrow> jsstring" where
  "eventText isInitial watermark values =
     (if isInitial then js ''event: init'' @ [newline] else js ''event: update'' @ [newline])
     @ js ''id: '' @ watermark @ [newline]
     @ js ''data: '' @ JSON_stringify id values @ [newline, newline]"

definition heartbeatText :: jsstring where
  "heartbeatText = js ''event: update'' @ [newline] @ js ''data:[]'' @ [newline, newline]"


section \<open>Client and server agree\<close>

text \<open>Letters, digits and \<open>-._~\<close>, and not one of the two names with a meaning of their own in a path.\<close>

definition unreserved :: "code_unit \<Rightarrow> bool" where
  "unreserved c = (let n = unat c in (0x30 \<le> n \<and> n \<le> 0x39) \<or> (0x41 \<le> n \<and> n \<le> 0x5A) \<or> (0x61 \<le> n \<and> n \<le> 0x7A) \<or> n = 0x2D \<or> n = 0x2E \<or> n = 0x5F \<or> n = 0x7E)"

definition plain_name :: "jsstring \<Rightarrow> bool" where
  "plain_name s \<longleftrightarrow> s \<noteq> [] \<and> list_all unreserved s \<and> s \<noteq> js ''.'' \<and> s \<noteq> js ''..''"

lemma split1_line: "sep \<notin> set a \<Longrightarrow> split1 sep (a @ sep # b) = a # split1 sep b"
  by (induction a) auto

lemma split1_word: "sep \<notin> set a \<Longrightarrow> split1 sep a = [a]"
  by (induction a) auto

lemma plain_name_slash: "plain_name s \<Longrightarrow> 0x2F \<notin> set s \<and> s \<noteq> []"
  by (auto simp: plain_name_def list_all_iff unreserved_def Let_def)

lemma path3:
  assumes "plain_name s" "0x2F \<notin> set a"
  shows "split1 0x2F (js ''/v1/'' @ a @ [0x2F] @ s) = [[], js ''v1'', a, s]"
proof -
  have "split1 0x2F (a @ 0x2F # s) = [a, s]" using assms plain_name_slash by (simp add: split1_line split1_word)
  then show ?thesis by (simp add: split1.simps)
qed

lemma path4:
  assumes "plain_name s"
  shows "split1 0x2F (js ''/v1/snapshot/'' @ s @ js ''/lookup'') = [[], js ''v1'', js ''snapshot'', s, js ''lookup'']"
proof -
  have "split1 0x2F (s @ 0x2F # js ''lookup'') = [s, js ''lookup'']" using assms plain_name_slash by (simp add: split1_line split1_word)
  then show ?thesis by (simp add: split1.simps)
qed

text \<open>The call a method of the client is meant to make; a body that counts as false is not sent and arrives as an empty object.\<close>

definition meant :: "jsstring \<Rightarrow> brokerOp \<Rightarrow> serviceCall" where
  "meant uuid p = (case p of
     BGetAll resource params \<Rightarrow> GetAll resource (if truthyJson params then params else JObj [])
   | BGetArray resource params key \<Rightarrow> GetArray resource key params
   | BGetUnique resource params key \<Rightarrow> GetArray resource key params
   | BUpdate collection entries \<Rightarrow> Update collection entries
   | BDeleteKey collection key \<Rightarrow> Update collection [JArr [key, JArr []]]
   | BGetStreamUUID resource params \<Rightarrow> InstantiateResource uuid resource params
   | BDeleteUUID u \<Rightarrow> CloseResourceInstance u)"

definition opTarget :: "brokerOp \<Rightarrow> jsstring" where
  "opTarget p = (case p of BGetAll r _ \<Rightarrow> r | BGetArray r _ _ \<Rightarrow> r | BGetUnique r _ _ \<Rightarrow> r | BUpdate c _ \<Rightarrow> c | BDeleteKey c _ \<Rightarrow> c | BGetStreamUUID r _ \<Rightarrow> r | BDeleteUUID u \<Rightarrow> u)"

lemma broker_route:
  assumes "plain_name (opTarget p)" "bodySize (brokerRequest p) \<le> 102400" shows "controlRoute uuid (brokerRequest p) = Call (meant uuid p)"
proof -
  note paths = path3 [OF assms(1), of "js ''snapshot''"] path3 [OF assms(1), of "js ''streams''"] path3 [OF assms(1), of "js ''inputs''"] path4 [OF assms(1)]
  note defs = brokerRequest_def meant_def opTarget_def fetchBody_def reqBody_def truthyJson_def lookupFields_def
  have ne: "opTarget p \<noteq> []" using plain_name_slash [OF assms(1)] by simp
  have small: "\<not> bodySize (brokerRequest p) > 102400" using assms(2) by simp
  show ?thesis
  proof (cases p)
    case (BGetAll r v)
    with paths(1) ne small show ?thesis unfolding controlRoute_def if_not_P [OF small] by (simp add: defs)
  next
    case (BGetArray r v k)
    with paths(4) ne show ?thesis unfolding controlRoute_def if_not_P [OF small] by (simp add: defs)
  next
    case (BGetUnique r v k)
    with paths(4) ne show ?thesis unfolding controlRoute_def if_not_P [OF small] by (simp add: defs)
  next
    case (BUpdate c es)
    with paths(3) ne show ?thesis unfolding controlRoute_def if_not_P [OF small] by (simp add: defs)
  next
    case (BDeleteKey c k)
    with paths(3) ne show ?thesis unfolding controlRoute_def if_not_P [OF small] by (simp add: defs)
  next
    case (BGetStreamUUID r v)
    with paths(2) ne show ?thesis unfolding controlRoute_def if_not_P [OF small] by (simp add: defs)
  next
    case (BDeleteUUID u)
    with paths(2) ne show ?thesis unfolding controlRoute_def if_not_P [OF small] by (simp add: defs)
  qed
qed

text \<open>What the client makes of an answer of the service.\<close>

definition expected :: "jsstring option \<Rightarrow> jsstring \<Rightarrow> brokerOp \<Rightarrow> jv \<Rightarrow> js_error + brokerResult" where
  "expected prefix uuid p v = (case p of
     BGetAll _ _ \<Rightarrow> Inr (Data (if v = JNull then JArr [] else v))
   | BGetArray _ _ _ \<Rightarrow> Inr (Data (if v = JNull then JArr [] else v))
   | BGetUnique _ _ _ \<Rightarrow> (case v of JArr [x] \<Rightarrow> Inr (Data x) | _ \<Rightarrow> Inl (err ''SkipNonUniqueValueError''))
   | BGetStreamUUID _ _ \<Rightarrow> Inr (Uuid (case prefix of Some q \<Rightarrow> if q = [] then uuid else q @ [0x2F] @ uuid | None \<Rightarrow> uuid))
   | _ \<Rightarrow> Inr Nothing)"

text \<open>The error of the client for a response with a status: its message has the number and the text of the status.\<close>

definition failure :: "jsstring \<Rightarrow> brokerOp \<Rightarrow> nat \<Rightarrow> js_error" where
  "failure entrypoint p n = JSError ((case p of
     BGetStreamUUID resource _ \<Rightarrow> js ''Unable to connect to '' @ entrypoint @ js ''/v1/streams/'' @ resource @ js '': '' @ nat_text n @ js '' - ''
   | _ \<Rightarrow> nat_text n @ js '': '') @ statusText n)"

lemma failed_answer: "rs_status r < 200 \<or> 300 \<le> rs_status r \<Longrightarrow> brokerAnswer ep p r = Inl (failure ep p (rs_status r))"
  by (cases p) (auto simp: brokerAnswer_def fetchResult_def fetchError_def failure_def)

text \<open>C29: For names that stand for themselves in a URL and bodies of at most 100 kilobytes, every method of the client reaches the service as the call it stands for, with its
  arguments, except that parameters that count as false arrive as an empty object. A success gives the client the data of the
  service, where \<open>getUnique\<close> gives the only value of an array and an error otherwise. A failure of the service is an error with the number of the status in its message, 404 for an unknown
  collection and 500 otherwise. A larger body never reaches the service: the client gets an error with the status 413.\<close>

theorem broker_reaches_service:
  assumes "plain_name (opTarget p)"
  shows "(bodySize (brokerRequest p) \<le> 102400 \<longrightarrow> controlRoute uuid (brokerRequest p) = Call (meant uuid p))
    \<and> (bodySize (brokerRequest p) > 102400 \<longrightarrow>
        (\<exists>r. controlRoute uuid (brokerRequest p) = Answer r \<and> brokerAnswer ep p r = Inl (failure ep p 413)))
    \<and> ((\<exists>xs. v = JArr xs) \<or> (\<forall>r ps k. p \<noteq> BGetUnique r ps k) \<longrightarrow>
        brokerAnswer ep p (controlAnswer prefix (meant uuid p) (Inr v)) = expected prefix uuid p v)
    \<and> brokerAnswer ep p (controlAnswer prefix (meant uuid p) (Inl e)) =
        Inl (failure ep p (if e = UnknownCollection \<and> (\<exists>c es. meant uuid p = Update c es) then 404 else 500))"
proof (intro conjI impI)
  assume "bodySize (brokerRequest p) \<le> 102400"
  then show "controlRoute uuid (brokerRequest p) = Call (meant uuid p)" by (rule broker_route [OF assms])
next
  assume "bodySize (brokerRequest p) > 102400"
  then show "\<exists>r. controlRoute uuid (brokerRequest p) = Answer r \<and> brokerAnswer ep p r = Inl (failure ep p 413)"
    using failed_answer [of "sendStatus 413" ep p] by (simp add: controlRoute_def sendStatus_def)
next
  assume "(\<exists>xs. v = JArr xs) \<or> (\<forall>r ps k. p \<noteq> BGetUnique r ps k)"
  then show "brokerAnswer ep p (controlAnswer prefix (meant uuid p) (Inr v)) = expected prefix uuid p v"
    by (cases p) (auto simp: brokerAnswer_def controlAnswer_def meant_def expected_def fetchResult_def sendStatus_def orEmpty_def getUnique_def
        split: json.split list.split)
next
  have "rs_status (controlAnswer prefix (meant uuid p) (Inl e)) = (if e = UnknownCollection \<and> (\<exists>c es. meant uuid p = Update c es) then 404 else 500)"
    by (cases p; cases e) (auto simp: controlAnswer_def meant_def sendStatus_def serverError_def)
  then show "brokerAnswer ep p (controlAnswer prefix (meant uuid p) (Inl e)) =
      Inl (failure ep p (if e = UnknownCollection \<and> (\<exists>c es. meant uuid p = Update c es) then 404 else 500))"
    using failed_answer [of "controlAnswer prefix (meant uuid p) (Inl e)" ep p] by (simp split: if_splits)
qed

theorem broker_reaches_service_witness:
  "controlRoute [1] (brokerRequest (BGetAll (js ''users'') (JNum (js ''0'')))) = Call (GetAll (js ''users'') (JObj []))"
proof -
  have "plain_name (opTarget (BGetAll (js ''users'') (JNum (js ''0''))))" by (simp add: plain_name_def opTarget_def unreserved_def)
  from broker_reaches_service [OF this, THEN conjunct1, of "[1]"] show ?thesis
    by (simp add: meant_def truthyJson_def bodySize_def brokerRequest_def fetchBody_def)
qed


section \<open>The event stream\<close>

text \<open>How an event stream is read: the lines of an event up to an empty one, a field before the first colon and its value after it,
  without one blank. Only the kind and the data of an event matter here.\<close>

definition fieldOf :: "jsstring \<Rightarrow> jsstring \<times> jsstring" where
  "fieldOf line = (let v = drop 1 (dropWhile (\<lambda>c. c \<noteq> colon) line) in
     (takeWhile (\<lambda>c. c \<noteq> colon) line, case v of c # r \<Rightarrow> if c = blank then r else v | [] \<Rightarrow> []))"

fun readEvents :: "jsstring list \<Rightarrow> jsstring \<Rightarrow> jsstring list \<Rightarrow> (jsstring \<times> jsstring) list" where
  "readEvents [] ev dat = []"
| "readEvents (line # ls) ev dat =
     (if line = [] then (if dat = [] then readEvents ls [] [] else (if ev = [] then js ''message'' else ev, join [newline] dat) # readEvents ls [] [])
      else (case fieldOf line of (f, v) \<Rightarrow>
        if f = js ''event'' then readEvents ls v dat
        else if f = js ''data'' then readEvents ls ev (dat @ [v])
        else readEvents ls ev dat))"

definition events :: "jsstring \<Rightarrow> (jsstring \<times> jsstring) list" where
  "events s = readEvents (lines_of s) [] []"

text \<open>JSON text has no line break, if the texts of its numbers have none.\<close>

lemma quote_no_newline: "newline \<notin> set (quote s)"
proof -
  have h: "hex_digit n \<noteq> newline" for n
  proof -
    have "hex_digit n \<in> set (js ''0123456789abcdef'')" unfolding hex_digit_def by (rule nth_mem) simp
    then show ?thesis by auto
  qed
  have u: "newline \<notin> set (u_escape c)" for c by (auto simp: u_escape_def h [symmetric])
  have q: "newline \<notin> set (quote_unit c)" for c using u [of c] by (auto simp: quote_unit_def)
  have hl: "\<not> is_high newline" "\<not> is_low newline" by (simp_all add: is_high_def is_low_def)
  have "newline \<notin> set (quote_units s)"
  proof (induction s rule: quote_units.induct)
    case (3 c d s)
    then show ?case using u [of c] q [of c] hl by (auto split: if_splits)
  qed (use u q in auto)
  then show ?thesis by (simp add: quote_def)
qed

lemma join_no_newline: "newline \<notin> set sep \<Longrightarrow> \<forall>x \<in> set xs. newline \<notin> set x \<Longrightarrow> newline \<notin> set (join sep xs)"
  by (induction sep xs rule: join.induct) auto

lemma JSON_no_newline: "\<forall>n \<in> set_json v. newline \<notin> set (num n) \<Longrightarrow> newline \<notin> set (JSON_stringify num v)"
proof (induction v)
  case (JArr vs)
  have "newline \<notin> set (JSON_stringify num v)" if "v \<in> set vs" for v
  proof (rule JArr.IH [OF that])
    show "\<forall>n \<in> set_json v. newline \<notin> set (num n)" using JArr.prems that by auto
  qed
  then have "newline \<notin> set (join [0x2C] (map (JSON_stringify num) vs))" by (intro join_no_newline) auto
  then show ?case by simp
next
  case (JObj kvs)
  have "newline \<notin> set (quote k @ [0x3A] @ JSON_stringify num v)" if "(k, v) \<in> set kvs" for k v
  proof -
    have "\<forall>n \<in> set_json v. newline \<notin> set (num n)" using JObj.prems that by fastforce
    then have "newline \<notin> set (JSON_stringify num v)" by (intro JObj.IH [OF that]) (auto simp: snds.simps)
    with quote_no_newline show ?thesis by simp
  qed
  then have "newline \<notin> set (join [0x2C] (map (\<lambda>(k, v). quote k @ [0x3A] @ JSON_stringify num v) kvs))" by (intro join_no_newline) auto
  then show ?case by simp
qed (auto simp: quote_no_newline)


lemma lines_of_line: "newline \<notin> set a \<Longrightarrow> lines_of (a @ newline # b) = a # lines_of b"
  by (simp add: lines_of_def split1_line)

lemma read_event:
  assumes "newline \<notin> set w" "newline \<notin> set d" "ev \<noteq> []" "newline \<notin> set ev"
  shows "events (js ''event: '' @ ev @ newline # js ''id: '' @ w @ newline # js ''data: '' @ d @ newline # newline # s) = (ev, d) # events s"
proof -
  have "lines_of (js ''event: '' @ ev @ newline # js ''id: '' @ w @ newline # js ''data: '' @ d @ newline # newline # s)
      = (js ''event: '' @ ev) # (js ''id: '' @ w) # (js ''data: '' @ d) # [] # lines_of s"
    using assms lines_of_line [of "js ''event: '' @ ev"] lines_of_line [of "js ''id: '' @ w"] lines_of_line [of "js ''data: '' @ d"] lines_of_line [of "[]" s]
    by (simp del: js_simps add: js_def)
  then show ?thesis using assms(3) by (simp add: events_def fieldOf_def)
qed


text \<open>What the service sends to a stream: an update, or the heartbeat.\<close>

datatype sent = Notify bool jsstring jv | Heartbeat

definition sentText :: "sent \<Rightarrow> jsstring" where
  "sentText x = (case x of Notify i w v \<Rightarrow> eventText i w v | Heartbeat \<Rightarrow> heartbeatText)"

definition sentEvent :: "sent \<Rightarrow> jsstring \<times> jsstring" where
  "sentEvent x = (case x of Notify i w v \<Rightarrow> (if i then js ''init'' else js ''update'', JSON_stringify id v) | Heartbeat \<Rightarrow> (js ''update'', js ''[]''))"

lemma sent_forms:
  "sentText (Notify i w v) = eventText i w v" "sentText Heartbeat = heartbeatText"
  "sentEvent (Notify i w v) = (if i then js ''init'' else js ''update'', JSON_stringify id v)" "sentEvent Heartbeat = (js ''update'', js ''[]'')"
  by (simp_all add: sentText_def sentEvent_def)

definition sendable :: "sent \<Rightarrow> bool" where
  "sendable x \<longleftrightarrow> (case x of Notify i w v \<Rightarrow> newline \<notin> set w \<and> (\<forall>n \<in> set_json v. newline \<notin> set n) | Heartbeat \<Rightarrow> True)"

text \<open>C30: A client that reads the stream of a service gets the events the service sent, in order and with their data: initial and later
  updates under their own kinds, and a heartbeat as an update without entries.\<close>

theorem event_stream_roundtrip:
  assumes "list_all sendable xs" shows "events (concat (map sentText xs)) = map sentEvent xs"
  using assms
proof (induction xs)
  case Nil
  show ?case by (simp add: events_def lines_of_def)
next
  case (Cons x xs)
  then have IH: "events (concat (map sentText xs)) = map sentEvent xs" and x: "sendable x" by simp_all
  let ?s = "concat (map sentText xs)"
  show ?case
  proof (cases x)
    case (Notify i w v)
    with x have n: "newline \<notin> set w" "newline \<notin> set (JSON_stringify id v)" using JSON_no_newline [of v id] by (simp_all add: sendable_def)
    have e: "eventText i w v @ ?s = js ''event: '' @ (if i then js ''init'' else js ''update'') @ newline # js ''id: '' @ w @ newline # js ''data: '' @ JSON_stringify id v @ newline # newline # ?s"
      by (simp add: eventText_def)
    have "events (eventText i w v @ ?s) = (if i then js ''init'' else js ''update'', JSON_stringify id v) # events ?s"
      unfolding e by (rule read_event [OF n]) auto
    with IH Notify show ?thesis by (simp add: sent_forms del: js_simps)
  next
    case Heartbeat
    have "lines_of (heartbeatText @ ?s) = js ''event: update'' # js ''data:[]'' # [] # lines_of ?s"
      using lines_of_line [of "js ''event: update''"] lines_of_line [of "js ''data:[]''"] lines_of_line [of "[]" ?s] by (simp add: heartbeatText_def)
    then have "events (heartbeatText @ ?s) = (js ''update'', js ''[]'') # events ?s" by (simp add: events_def fieldOf_def)
    with IH Heartbeat show ?thesis by (simp add: sent_forms)
  qed
qed

theorem event_stream_roundtrip_witness:
  "events (concat (map sentText [Notify True [0x30] (JArr []), Heartbeat])) = [(js ''init'', js ''[]''), (js ''update'', js ''[]'')]"
  using event_stream_roundtrip [of "[Notify True [0x30] (JArr []), Heartbeat]"] by (simp add: sendable_def sentEvent_def)

section \<open>Polled services\<close>

text \<open>\<open>URLSearchParams.toString\<close>\<close>

definition formByte :: "byte \<Rightarrow> jsstring" where
  "formByte b = (let n = unat b in
     if n = 0x20 then [0x2B]
     else if (0x30 \<le> n \<and> n \<le> 0x39) \<or> (0x41 \<le> n \<and> n \<le> 0x5A) \<or> (0x61 \<le> n \<and> n \<le> 0x7A) \<or> n = 0x2A \<or> n = 0x2D \<or> n = 0x2E \<or> n = 0x5F then [of_nat n]
     else [0x25, js ''0123456789ABCDEF'' ! (n div 16), js ''0123456789ABCDEF'' ! (n mod 16)])"

definition formEncode :: "jsstring \<Rightarrow> jsstring" where
  "formEncode s = concat (map formByte (utf8_encode s))"

definition paramText :: "jv \<Rightarrow> jsstring" where
  "paramText v = (case v of JStr s \<Rightarrow> s | _ \<Rightarrow> JSON_stringify id v)"

definition queryString :: "(jsstring \<times> jv) list \<Rightarrow> jsstring" where
  "queryString kvs = [0x3F] @ join [0x26] (map (\<lambda>(k, v). formEncode k @ [0x3D] @ formEncode (paramText v)) kvs)"

definition defaultParamEncoder :: "jv \<Rightarrow> js_error + jsstring" where
  "defaultParamEncoder params = (case params of
     JNull \<Rightarrow> Inl (err ''Cannot convert undefined or null to object'')
   | JObj kvs \<Rightarrow> Inr (queryString kvs)
   | JArr vs \<Rightarrow> Inr (queryString (zip (map nat_text [0..<length vs]) vs))
   | v \<Rightarrow> Inr (js ''?params='' @ JSON_stringify id v))"

record PolledHTTPResource =
  pr_url :: jsstring
  pr_encodeParams :: "(jv \<Rightarrow> js_error + jsstring) option"

record PolledExternalService =
  polledResources :: "(jsstring \<times> PolledHTTPResource) list"
  intervals :: "(jsstring \<times> nat) list"
  polling :: "nat list"
  nextInterval :: nat

definition newPolled :: "(jsstring \<times> PolledHTTPResource) list \<Rightarrow> PolledExternalService" where
  "newPolled rs = \<lparr>polledResources = rs, intervals = [], polling = [], nextInterval = 1\<rparr>"

text \<open>The address that is polled, or why there is none; then the first poll is awaited.\<close>

definition polled_subscribe :: "jsstring \<Rightarrow> jv \<Rightarrow> PolledExternalService \<Rightarrow> js_error + jsstring" where
  "polled_subscribe resourceName params s = (case map_of (polledResources s) resourceName of
     None \<Rightarrow> Inl (JSError (js ''Unknown resource named '' @ [0x27] @ resourceName @ [0x27]))
   | Some r \<Rightarrow> bindE ((case pr_encodeParams r of Some f \<Rightarrow> f | None \<Rightarrow> defaultParamEncoder) params) (\<lambda>q. Inr (pr_url r @ q)))"

definition polled_ready :: "jsstring \<Rightarrow> js_error + unit \<Rightarrow> PolledExternalService \<Rightarrow> (js_error + unit) \<times> PolledExternalService" where
  "polled_ready inst firstPoll s = (case firstPoll of
     Inl e \<Rightarrow> (Inl e, s)
   | Inr _ \<Rightarrow> (Inr (), s\<lparr>intervals := amap_set inst (nextInterval s) (intervals s), polling := polling s @ [nextInterval s], nextInterval := nextInterval s + 1\<rparr>))"

definition polled_unsubscribe :: "jsstring \<Rightarrow> PolledExternalService \<Rightarrow> PolledExternalService" where
  "polled_unsubscribe inst s = (case map_of (intervals s) inst of
     None \<Rightarrow> s
   | Some i \<Rightarrow> s\<lparr>polling := removeAll i (polling s), intervals := amap_del inst (intervals s)\<rparr>)"

text \<open>\<open>Object.entries\<close> of a \<open>Map\<close>: its entries are no properties.\<close>

definition propertiesOfMap :: "(jsstring \<times> nat) list \<Rightarrow> (jsstring \<times> nat) list" where
  "propertiesOfMap m = []"

definition polled_shutdown :: "PolledExternalService \<Rightarrow> PolledExternalService" where
  "polled_shutdown s = fold (\<lambda>(inst, i) s. s\<lparr>polling := removeAll i (polling s), intervals := amap_del inst (intervals s)\<rparr>) (propertiesOfMap (intervals s)) s"

text \<open>While every instance is subscribed once at a time, exactly the subscribed instances are polled.\<close>

definition polled_ok :: "PolledExternalService \<Rightarrow> bool" where
  "polled_ok s \<longleftrightarrow> polling s = map snd (intervals s) \<and> distinct (map fst (intervals s)) \<and> distinct (map snd (intervals s)) \<and> (\<forall>i \<in> set (polling s). i < nextInterval s)"

lemma polled_ok_new: "polled_ok (newPolled rs)"
  by (simp add: polled_ok_def newPolled_def)

lemma polled_ok_ready:
  assumes "polled_ok s" "map_of (intervals s) inst = None" shows "polled_ok (snd (polled_ready inst r s))"
proof -
  have "amap_set inst (nextInterval s) (intervals s) = intervals s @ [(inst, nextInterval s)]"
    using assms(2) by (intro amap_set_new) (simp add: map_of_eq_None_iff)
  moreover have "nextInterval s \<notin> set (map snd (intervals s))" using assms(1) unfolding polled_ok_def by (metis less_irrefl)
  moreover have "inst \<notin> fst ` set (intervals s)" using assms(2) by (simp add: map_of_eq_None_iff)
  moreover have "\<forall>i \<in> set (polling s). i < Suc (nextInterval s)" using assms(1) by (simp add: polled_ok_def less_SucI)
  ultimately show ?thesis using assms(1) by (simp add: polled_ok_def polled_ready_def split: sum.split)
qed

lemma removeAll_snd: "distinct (map fst m) \<Longrightarrow> distinct (map snd m) \<Longrightarrow> map_of m k = Some i \<Longrightarrow> removeAll i (map snd m) = map snd (amap_del k m)"
proof (induction m)
  case (Cons a m)
  obtain k' i' where a: "a = (k', i')" by (cases a)
  show ?case
  proof (cases "k' = k")
    case True
    with Cons.prems a have "i' = i" "i \<notin> set (map snd m)" "k \<notin> fst ` set m" by auto
    then show ?thesis using a True by (simp add: amap_del_def removeAll_id) (metis (mono_tags, lifting) filter_True image_eqI)
  next
    case False
    with Cons.prems a have "map_of m k = Some i" by simp
    then have "i \<in> set (map snd m)" by (force dest: map_of_SomeD)
    with Cons a False show ?thesis by auto
  qed
qed simp

lemma polled_ok_unsubscribe:
  assumes "polled_ok s" shows "polled_ok (polled_unsubscribe inst s)"
proof (cases "map_of (intervals s) inst")
  case (Some i)
  have "removeAll i (polling s) = map snd (amap_del inst (intervals s))" using removeAll_snd [OF _ _ Some] assms by (simp add: polled_ok_def)
  moreover have "distinct (map snd (amap_del inst (intervals s)))" using calculation assms by (metis distinct_removeAll polled_ok_def)
  moreover have "\<forall>j \<in> set (removeAll i (polling s)). j < nextInterval s" using assms by (simp add: polled_ok_def)
  moreover have "distinct (map fst (amap_del inst (intervals s)))" using assms by (simp add: polled_ok_def)
  moreover have "polled_unsubscribe inst s = s\<lparr>polling := removeAll i (polling s), intervals := amap_del inst (intervals s)\<rparr>" using Some by (simp add: polled_unsubscribe_def)
  ultimately show ?thesis unfolding polled_ok_def by (simp only: PolledExternalService.simps) simp
qed (use assms in \<open>simp add: polled_unsubscribe_def\<close>)

text \<open>A service that is shut down goes on polling, and an instance that is unsubscribed before its first poll has ended is polled for ever.\<close>

lemma shutdown_keeps_polling: "polled_shutdown s = s"
  by (simp add: polled_shutdown_def propertiesOfMap_def)

lemma early_unsubscribe_keeps_polling:
  assumes "map_of (intervals s) inst = None" shows "nextInterval s \<in> set (polling (snd (polled_ready inst (Inr ()) (polled_unsubscribe inst s))))"
  using assms by (simp add: polled_unsubscribe_def polled_ready_def)

lemma null_params_throw: "defaultParamEncoder JNull = Inl (err ''Cannot convert undefined or null to object'')"
  by (simp add: defaultParamEncoder_def)


section \<open>Remote services\<close>

record Entrypoint =
  ep_host :: jsstring
  ep_streaming_port :: nat
  ep_control_port :: nat
  ep_secured :: bool

definition toHttp :: "Entrypoint \<Rightarrow> jsstring" where
  "toHttp ep = (if ep_secured ep then js ''https://'' else js ''http://'') @ ep_host ep @ js '':'' @ nat_text (ep_control_port ep)"

record SkipExternalService =
  se_url :: jsstring
  se_control_url :: jsstring
  se_resources :: "(jsstring \<times> nat) list"
  openSources :: "(nat \<times> jsstring) list"
  nextSource :: nat

definition direct :: "Entrypoint \<Rightarrow> SkipExternalService" where
  "direct ep = \<lparr>se_url = (if ep_secured ep then js ''https://'' else js ''http://'') @ ep_host ep @ js '':'' @ nat_text (ep_streaming_port ep),
     se_control_url = toHttp ep, se_resources = [], openSources = [], nextSource = 0\<rparr>"

definition se_request :: "jsstring \<Rightarrow> jv \<Rightarrow> httpRequest" where
  "se_request resource params = \<lparr>rq_method = POST, rq_path = js ''/v1/streams/'' @ resource, rq_body = JsonBody params\<rparr>"

text \<open>The text of the response names the stream, whatever its status.\<close>

definition se_connect :: "httpResponse \<Rightarrow> SkipExternalService \<Rightarrow> nat \<times> SkipExternalService" where
  "se_connect r s = (let uuid = (case rs_body r of TextResponse t \<Rightarrow> t | JsonResponse v \<Rightarrow> JSON_stringify id v) in
     (nextSource s, s\<lparr>openSources := openSources s @ [(nextSource s, se_url s @ js ''/v1/streams/'' @ uuid)], nextSource := nextSource s + 1\<rparr>))"

definition se_onOpen :: "jsstring \<Rightarrow> nat \<Rightarrow> SkipExternalService \<Rightarrow> SkipExternalService" where
  "se_onOpen inst src s = s\<lparr>se_resources := amap_set inst src (se_resources s)\<rparr>"

datatype sourceError = ToCallback | ToPromise

definition se_onError :: "jsstring \<Rightarrow> SkipExternalService \<Rightarrow> sourceError" where
  "se_onError inst s = (if map_of (se_resources s) inst \<noteq> None then ToCallback else ToPromise)"

text \<open>An event of the stream: the entries and whether they are the initial ones.\<close>

definition se_onEvent :: "jsstring \<times> jsstring \<Rightarrow> (jsstring \<times> bool) option" where
  "se_onEvent e = (if fst e = js ''init'' then Some (snd e, True) else if fst e = js ''update'' then Some (snd e, False) else None)"

definition se_unsubscribe :: "jsstring \<Rightarrow> SkipExternalService \<Rightarrow> SkipExternalService" where
  "se_unsubscribe inst s = (case map_of (se_resources s) inst of
     None \<Rightarrow> s
   | Some src \<Rightarrow> s\<lparr>openSources := amap_del src (openSources s), se_resources := amap_del inst (se_resources s)\<rparr>)"

definition se_shutdown :: "SkipExternalService \<Rightarrow> SkipExternalService" where
  "se_shutdown s = s\<lparr>openSources := fold amap_del (map snd (se_resources s)) (openSources s)\<rparr>"

text \<open>The updates a service sends reach the subscriber as they are.\<close>

lemma updates_arrive:
  "list_all sendable xs \<Longrightarrow> map se_onEvent (map sentEvent xs) = map (\<lambda>x. case x of Notify i w v \<Rightarrow> Some (JSON_stringify id v, i) | Heartbeat \<Rightarrow> Some (js ''[]'', False)) xs"
  by (induction xs) (auto simp: se_onEvent_def sentEvent_def split: sent.split)

lemma shutdown_closes:
  "src \<in> snd ` set (se_resources s) \<Longrightarrow> src \<notin> fst ` set (openSources (se_shutdown s))"
proof -
  have "fst ` set (fold amap_del ks m) = fst ` set m - set ks" for ks and m :: "(nat \<times> jsstring) list" by (induction ks arbitrary: m) auto
  then show "src \<in> snd ` set (se_resources s) \<Longrightarrow> src \<notin> fst ` set (openSources (se_shutdown s))" by (simp add: se_shutdown_def)
qed

text \<open>A source that is not open yet is not known under its instance: unsubscribing, or shutting down, leaves it connected.\<close>

lemma early_unsubscribe_leaves_source:
  assumes "map_of (se_resources s) inst = None" "se_connect r s = (src, s1)"
  shows "src \<in> fst ` set (openSources (se_onOpen inst src (se_unsubscribe inst s1)))"
  using assms by (auto simp: se_connect_def Let_def se_unsubscribe_def se_onOpen_def)

lemma refused_stream_is_opened:
  assumes "se_connect serverError s = (src, s1)"
  shows "map_of (openSources s1) src = map_of (openSources s @ [(nextSource s, se_url s @ js ''/v1/streams/'' @ JSON_stringify id (JObj [(js ''error'', JStr (js ''Internal server error''))]))]) src"
  using assms by (auto simp: se_connect_def Let_def serverError_def simp del: js_simps)

section \<open>Leaders and followers\<close>

datatype sharedCollection = EagerShared nat | LazyShared nat

definition leaderParam :: "jv \<Rightarrow> js_error + jsstring" where
  "leaderParam p = (case p of JStr s \<Rightarrow> Inr s | _ \<Rightarrow> Inl (err ''Followers must specify a shared collection to mirror from leader.''))"

definition leaderInstantiate :: "(jsstring \<times> sharedCollection) list \<Rightarrow> jsstring \<Rightarrow> js_error + nat" where
  "leaderInstantiate collections c = (case map_of collections c of
     Some (EagerShared i) \<Rightarrow> Inr i
   | Some (LazyShared _) \<Rightarrow> Inl (JSError (js ''Unknown eager shared collection in leader: '' @ c))
   | None \<Rightarrow> Inl (JSError (js ''Unknown shared collection in leader: '' @ c)))"

text \<open>The graph of a follower: mirrored collections, each from a resource of the leader, then the lazy ones.\<close>

definition followerGraph :: "(jsstring \<Rightarrow> nat) \<Rightarrow> jsstring list \<Rightarrow> (jsstring \<times> nat) list \<Rightarrow> (jsstring \<times> sharedCollection) list" where
  "followerGraph useExternal collections lazies =
     fold (\<lambda>(c, i). amap_set c (LazyShared i)) lazies (fold (\<lambda>c. amap_set c (EagerShared (useExternal c))) collections [])"

lemma follower_mirrors:
  assumes "c \<in> set collections" "c \<notin> fst ` set lazies"
  shows "map_of (followerGraph use collections lazies) c = Some (EagerShared (use c))"
proof -
  have l: "map_of (fold (\<lambda>(c, i). amap_set c (LazyShared i)) ls m) c = map_of m c" if "c \<notin> fst ` set ls" for ls m
    using that by (induction ls arbitrary: m) auto
  have "map_of (fold (\<lambda>c. amap_set c (EagerShared (use c))) cs m) c = (if c \<in> set cs then Some (EagerShared (use c)) else map_of m c)" for cs m
    by (induction cs arbitrary: m) auto
  with l [OF assms(2)] assms(1) show ?thesis by (simp add: followerGraph_def)
qed

end
