(* ===== verification/Adapters.thy ===== *)
theory Adapters
  imports Skip_Http Skjson
begin

text \<open>
  What the adapters of \<open>skipruntime-ts/adapters\<close> make of the data they get: the entries both hand to the runtime, the keys of PostgreSQL tables
  (\<open>postgres/src/util.ts\<close>), and the external service over a Kafka cluster (\<open>kafka/src/index.ts\<close>).

  The driver of Kafka is known by the calls it gets; an \<open>async\<close> method is split where it awaits. Keys are texts, numbers, booleans or null, for
  which equality of the keys of a \<open>Map\<close> is equality. Logging is left out.
\<close>

section \<open>Entries\<close>

text \<open>Both adapters collect the values of a key in an insertion-ordered \<open>Map\<close>.\<close>

definition addEntry :: "'k \<Rightarrow> 'v \<Rightarrow> ('k \<times> 'v list) list \<Rightarrow> ('k \<times> 'v list) list" where
  "addEntry k v entries = (case map_of entries k of Some vs \<Rightarrow> amap_set k (vs @ [v]) entries | None \<Rightarrow> amap_set k [v] entries)"

fun groupEntries :: "('k \<times> 'v) list \<Rightarrow> ('k \<times> 'v list) list \<Rightarrow> ('k \<times> 'v list) list" where
  "groupEntries [] entries = entries"
| "groupEntries ((k, v) # kvs) entries = groupEntries kvs (addEntry k v entries)"

type_synonym row = "(jsstring \<times> jv) list"

definition initEntries :: "jsstring \<Rightarrow> row list \<Rightarrow> (jv option \<times> row list) list" where
  "initEntries col rows = groupEntries (map (\<lambda>row. (map_of row col, row)) rows) []"

section \<open>Keys of a PostgreSQL table\<close>

record pgKey =
  k_col :: jsstring
  k_type :: jsstring

datatype pgQuery = SelectAll jsstring | SelectText jsstring jsstring jsstring | SelectNum jsstring jsstring int
  | CreateFunction jsstring jsstring | Listen jsstring | CreateTrigger jsstring jsstring | DropFunctions "jsstring list"

text \<open>The text of a query, for the quoting of identifiers and literals of the package \<open>pg-format\<close>.\<close>

definition queryText :: "(jsstring \<Rightarrow> jsstring) \<Rightarrow> (jsstring \<Rightarrow> jsstring) \<Rightarrow> pgQuery \<Rightarrow> jsstring" where
  "queryText ident literal q = (case q of
     SelectAll table \<Rightarrow> js ''SELECT * FROM '' @ ident table @ js '';''
   | SelectText table col key \<Rightarrow> js ''SELECT * FROM '' @ ident table @ js '' WHERE '' @ ident col @ js '' = '' @ literal key @ js '';''
   | SelectNum table col n \<Rightarrow> js ''SELECT * FROM '' @ ident table @ js '' WHERE '' @ ident col @ js '' = '' @ int_text n @ js '';''
   | CreateFunction i col \<Rightarrow> [0x0A] @ js ''CREATE OR REPLACE FUNCTION '' @ ident i @ js ''() RETURNS TRIGGER AS $f$'' @ [0x0A] @ js ''BEGIN'' @ [0x0A]
       @ js ''  IF TG_OP = '' @ [0x27] @ js ''INSERT'' @ [0x27] @ js '' OR TG_OP = '' @ [0x27] @ js ''UPDATE'' @ [0x27] @ js '' THEN'' @ [0x0A]
       @ js ''    PERFORM pg_notify('' @ literal i @ js '', NEW.'' @ ident col @ js ''::text);'' @ [0x0A] @ js ''  ELSE'' @ [0x0A]
       @ js ''    PERFORM pg_notify('' @ literal i @ js '', OLD.'' @ ident col @ js ''::text);'' @ [0x0A] @ js ''  END IF;'' @ [0x0A]
       @ js ''  RETURN NULL;'' @ [0x0A] @ js ''END $f$ LANGUAGE PLPGSQL;''
   | Listen i \<Rightarrow> js ''LISTEN '' @ ident i @ js '';''
   | CreateTrigger i table \<Rightarrow> [0x0A] @ js ''CREATE OR REPLACE TRIGGER '' @ ident i @ [0x0A] @ js ''AFTER INSERT OR UPDATE OR DELETE ON '' @ ident table @ [0x0A]
       @ js ''FOR EACH ROW EXECUTE FUNCTION '' @ ident i @ js ''();''
   | DropFunctions is \<Rightarrow> js ''DROP FUNCTION IF EXISTS '' @ join (js '', '') (map ident is) @ js '' CASCADE;'')"

text \<open>The bounds of an integer type; \<open>None\<close> is an unsupported type.\<close>

definition boundsCheck :: "jsstring \<Rightarrow> (int \<Rightarrow> bool) option" where
  "boundsCheck ty =
     (if ty = js ''BIGINT'' \<or> ty = js ''INT8'' then Some (\<lambda>x. True)
      else if ty = js ''INTEGER'' \<or> ty = js ''INT'' \<or> ty = js ''INT4'' then Some (\<lambda>x. - 2147483648 \<le> x \<and> x \<le> 2147483647)
      else if ty = js ''SMALLINT'' \<or> ty = js ''INT2'' then Some (\<lambda>x. - 32768 \<le> x \<and> x \<le> 32767)
      else if ty = js ''BIGSERIAL'' \<or> ty = js ''SERIAL8'' then Some (\<lambda>x. 1 \<le> x)
      else if ty = js ''SERIAL'' \<or> ty = js ''SERIAL4'' then Some (\<lambda>x. 1 \<le> x \<and> x \<le> 2147483647)
      else if ty = js ''SMALLSERIAL'' \<or> ty = js ''SERIAL2'' then Some (\<lambda>x. 1 \<le> x \<and> x \<le> 32767)
      else None)"

definition validateKeyParam :: "jv \<Rightarrow> js_error + pgKey" where
  "validateKeyParam params =
     (case params of
        JNull \<Rightarrow> Inl (err ''Cannot use in operator'')
      | JObj ps \<Rightarrow>
          (case map_of ps (js ''key'') of
             Some (JObj ks) \<Rightarrow>
               (case map_of ks (js ''col'') of
                  Some (JStr col) \<Rightarrow>
                    (case map_of ks (js ''type'') of
                       Some (JStr ty) \<Rightarrow>
                         if ty = js ''TEXT'' \<or> boundsCheck ty \<noteq> None then Inr \<lparr>k_col = col, k_type = ty\<rparr>
                         else Inl (JSError (js ''Unsupported Postgres key type: '' @ ty))
                     | _ \<Rightarrow> Inl (err ''No key type specified for external Postgres data source''))
                | _ \<Rightarrow> Inl (err ''No key column specified for external Postgres data source''))
           | Some (JArr _) \<Rightarrow> Inl (err ''No key column specified for external Postgres data source'')
           | _ \<Rightarrow> Inl (err ''No key specified for external Postgres data source''))
      | _ \<Rightarrow> Inl (err ''No key specified for external Postgres data source''))"

text \<open>
  \<open>Number(s)\<close> on the text of an integer, with white space around it or empty; the argument \<open>other\<close> is its value on every other text
  (fractions, exponents, other bases), which no integer column prints.
\<close>

definition Number_text :: "(jsstring \<Rightarrow> jsnum) \<Rightarrow> jsstring \<Rightarrow> jsnum" where
  "Number_text other s =
     (let t = trim s; digits = (\<lambda>d. d \<noteq> [] \<and> list_all is_digit d) in
      if t = [] then NInt 0
      else if digits t then toFloat (int (dec_value t))
      else if hd t = 0x2D \<and> digits (tl t) then (if dec_value (tl t) = 0 then NegZero else toFloat (- int (dec_value (tl t))))
      else if hd t = 0x2B \<and> digits (tl t) then toFloat (int (dec_value (tl t)))
      else other t)"

definition isSafeInteger :: "jsnum \<Rightarrow> int option" where
  "isSafeInteger x = (case x of NInt n \<Rightarrow> if \<bar>n\<bar> < 2 ^ 53 then Some n else None | NegZero \<Rightarrow> Some 0 | _ \<Rightarrow> None)"

definition pg_select :: "(jsstring \<Rightarrow> jsnum) \<Rightarrow> pgKey \<Rightarrow> jsstring \<Rightarrow> jsstring \<Rightarrow> js_error + pgQuery" where
  "pg_select other key table payload =
     (if k_type key = js ''TEXT'' then Inr (SelectText table (k_col key) payload)
      else (case (isSafeInteger (Number_text other payload), boundsCheck (k_type key)) of
              (Some n, Some ok) \<Rightarrow> if ok n then Inr (SelectNum table (k_col key) n)
                 else Inl (JSError (js ''Invalid '' @ k_type key @ js '' key: '' @ payload))
            | _ \<Rightarrow> Inl (JSError (js ''Invalid '' @ k_type key @ js '' key: '' @ payload))))"


section \<open>The Kafka service\<close>

datatype kafkaCall = KConnect | KSubscribe jsstring jv | KRun | KDisconnect

record kafkaMessage =
  km_key :: jsstring
  km_value :: jsstring
  km_topic :: jsstring

text \<open>Consumers by number: their instance (the group), topic, where they start, and the calls they got.\<close>

record kafkaConsumer =
  kc_instance :: jsstring
  kc_topic :: jsstring
  kc_fromBeginning :: jv
  kc_calls :: "kafkaCall list"

record KafkaExternalService =
  consumers :: "(jsstring \<times> nat) list"
  allConsumers :: "kafkaConsumer list"
  k_updates :: "(nat \<times> (jv \<times> jv list) list) list"

definition kafkaBrokers :: "(jsstring \<times> int) list \<Rightarrow> jsstring list" where
  "kafkaBrokers brokers = map (\<lambda>(host, port). host @ js '':'' @ int_text port) brokers"

definition fromBeginning :: "jv \<Rightarrow> js_error + jv" where
  "fromBeginning params = (case params of
     JNull \<Rightarrow> Inl (err ''Cannot read properties of null'')
   | JObj ps \<Rightarrow> Inr (case map_of ps (js ''fromBeginning'') of None \<Rightarrow> JBool True | Some JNull \<Rightarrow> JBool True | Some v \<Rightarrow> v)
   | _ \<Rightarrow> Inr (JBool True))"

definition callConsumer :: "nat \<Rightarrow> kafkaCall \<Rightarrow> KafkaExternalService \<Rightarrow> KafkaExternalService" where
  "callConsumer c call s = s\<lparr>allConsumers := (allConsumers s)[c := (allConsumers s ! c)\<lparr>kc_calls := kc_calls (allConsumers s ! c) @ [call]\<rparr>]\<rparr>"

definition k_subscribe :: "jsstring \<Rightarrow> jsstring \<Rightarrow> jv \<Rightarrow> KafkaExternalService \<Rightarrow> (js_error + nat) \<times> KafkaExternalService" where
  "k_subscribe i topic params s = (case fromBeginning params of
     Inl e \<Rightarrow> (Inl e, s)
   | Inr v \<Rightarrow> (Inr (length (allConsumers s)), s\<lparr>allConsumers := allConsumers s
       @ [\<lparr>kc_instance = i, kc_topic = topic, kc_fromBeginning = v, kc_calls = [KConnect]\<rparr>]\<rparr>))"

text \<open>The consumer is connected; it has subscribed.\<close>

definition k_connected :: "nat \<Rightarrow> KafkaExternalService \<Rightarrow> KafkaExternalService" where
  "k_connected c s = (let k = allConsumers s ! c in
     callConsumer c (KSubscribe (kc_topic k) (kc_fromBeginning k)) (s\<lparr>consumers := amap_set (kc_instance k) c (consumers s)\<rparr>))"

definition k_subscribed :: "nat \<Rightarrow> KafkaExternalService \<Rightarrow> KafkaExternalService" where
  "k_subscribed c s = callConsumer c KRun s"

text \<open>\<open>String(buffer)\<close> of a buffer or null, the default processor, and a batch of messages (key and value).\<close>

definition bufferText :: "bytes option \<Rightarrow> jsstring" where
  "bufferText b = (case b of Some bs \<Rightarrow> utf8_decode bs | None \<Rightarrow> js ''null'')"

definition defaultProcessor :: "kafkaMessage \<Rightarrow> (jv \<times> jv) list" where
  "defaultProcessor msg = [(JStr (km_key msg), JStr (km_value msg))]"

definition batchEntries :: "(kafkaMessage \<Rightarrow> (jv \<times> jv) list) \<Rightarrow> jsstring \<Rightarrow> (bytes option \<times> bytes option) list \<Rightarrow> (jv \<times> jv list) list" where
  "batchEntries messageProcessor topic messages = groupEntries
     (concat (map (\<lambda>(k, v). messageProcessor \<lparr>km_key = bufferText k, km_value = bufferText v, km_topic = topic\<rparr>) messages)) []"

definition eachBatch :: "(kafkaMessage \<Rightarrow> (jv \<times> jv) list) \<Rightarrow> nat \<Rightarrow> (bytes option \<times> bytes option) list \<Rightarrow> KafkaExternalService \<Rightarrow> KafkaExternalService" where
  "eachBatch messageProcessor c messages s =
     s\<lparr>k_updates := k_updates s @ [(c, batchEntries messageProcessor (kc_topic (allConsumers s ! c)) messages)]\<rparr>"

definition k_unsubscribe :: "jsstring \<Rightarrow> KafkaExternalService \<Rightarrow> KafkaExternalService" where
  "k_unsubscribe i s = (case map_of (consumers s) i of
     Some c \<Rightarrow> callConsumer c KDisconnect (s\<lparr>consumers := amap_del i (consumers s)\<rparr>)
   | None \<Rightarrow> s)"

definition k_shutdown :: "KafkaExternalService \<Rightarrow> KafkaExternalService" where
  "k_shutdown s = fold (\<lambda>c. callConsumer c KDisconnect) (map snd (consumers s)) (s\<lparr>consumers := []\<rparr>)"

section \<open>What the runtime gets\<close>

lemma groupEntries_snoc: "groupEntries (kvs @ [(k, v)]) entries = addEntry k v (groupEntries kvs entries)"
  by (induction kvs entries rule: groupEntries.induct) simp_all

lemma map_of_addEntry: "map_of (addEntry k v entries) x =
    (if x = k then Some ((case map_of entries k of Some vs \<Rightarrow> vs | None \<Rightarrow> []) @ [v]) else map_of entries x)"
  by (auto simp: addEntry_def split: option.split)

lemma map_of_groupEntries:
  "map_of (groupEntries kvs []) x = (if x \<in> fst ` set kvs then Some (map snd (filter (\<lambda>e. fst e = x) kvs)) else None)"
proof (induction kvs rule: rev_induct)
  case (snoc e kvs)
  obtain k v where "e = (k, v)" by (cases e)
  with snoc show ?case by (auto simp: groupEntries_snoc map_of_addEntry filter_empty_conv)
qed simp

lemma keys_addEntry: "map fst (addEntry k v entries) = map fst entries @ (if k \<in> fst ` set entries then [] else [k])"
proof -
  have "map fst (amap_set k u entries) = map fst entries @ (if k \<in> fst ` set entries then [] else [k])" for u
    by (induction k u entries rule: amap_set.induct) auto
  then show ?thesis by (simp add: addEntry_def split: option.split)
qed

lemma keys_groupEntries: "map fst (groupEntries kvs []) = rev (remdups (rev (map fst kvs)))"
proof (induction kvs rule: rev_induct)
  case (snoc e kvs)
  obtain k v where e: "e = (k, v)" by (cases e)
  have "fst ` set (groupEntries kvs []) = set (map fst kvs)" using arg_cong [OF snoc, of set] by simp
  with snoc e show ?case by (simp add: groupEntries_snoc keys_addEntry)
qed simp

text \<open>
  Both adapters hand the runtime every key once, in the order in which keys first occur, with all its values in their order: a
  table the rows that have the key in the column of the key, a batch of messages the values the processor makes of them.
\<close>

theorem entries_grouped:
  "map fst (initEntries col rows) = rev (remdups (rev (map (\<lambda>row. map_of row col) rows)))
   \<and> map_of (initEntries col rows) k = (if k \<in> (\<lambda>row. map_of row col) ` set rows then Some (filter (\<lambda>row. map_of row col = k) rows) else None)
   \<and> (let kvs = concat (map (\<lambda>(k, v). processor \<lparr>km_key = bufferText k, km_value = bufferText v, km_topic = topic\<rparr>) messages) in
      map fst (batchEntries processor topic messages) = rev (remdups (rev (map fst kvs)))
      \<and> map_of (batchEntries processor topic messages) j = (if j \<in> fst ` set kvs then Some (map snd (filter (\<lambda>e. fst e = j) kvs)) else None))"
proof -
  have "map snd (filter (\<lambda>e. fst e = k) (map (\<lambda>row. (map_of row col, row)) rows)) = filter (\<lambda>row. map_of row col = k) rows"
    by (induction rows) simp_all
  then show ?thesis unfolding initEntries_def batchEntries_def Let_def map_of_groupEntries keys_groupEntries by (simp add: comp_def image_image)
qed

text \<open>A consumer that is unsubscribed while it still connects is not known yet: it is connected and subscribed afterwards, and no call disconnects it.\<close>

lemma early_unsubscribe_keeps_consumer:
  assumes "k_subscribe i topic params s = (Inr c, s')" "map_of (consumers s) i = None"
  shows "k_unsubscribe i s' = s'" "map_of (consumers (k_connected c (k_unsubscribe i s'))) i = Some c"
proof -
  have "map_of (consumers s') i = None" using assms by (auto simp: k_subscribe_def split: sum.splits)
  then show n: "k_unsubscribe i s' = s'" by (simp add: k_unsubscribe_def)
  have "kc_instance (allConsumers s' ! c) = i" using assms(1) by (auto simp: k_subscribe_def split: sum.splits)
  with n show "map_of (consumers (k_connected c (k_unsubscribe i s'))) i = Some c" by (simp add: k_connected_def callConsumer_def Let_def)
qed

section \<open>Keys within bounds\<close>

lemma shift53_big: "2 ^ 53 \<le> n \<Longrightarrow> 2 ^ 52 \<le> n div 2 ^ shift53 n \<and> 1 \<le> shift53 n"
proof (induction n rule: shift53.induct)
  case (1 n)
  have s: "shift53 n = Suc (shift53 (n div 2))" using 1(2) by (subst shift53.simps) simp
  then have d: "n div 2 ^ shift53 n = n div 2 div 2 ^ shift53 (n div 2)" by (simp add: div_mult2_eq)
  show ?case
  proof (cases "n div 2 < 2 ^ 53")
    case True
    then have "shift53 (n div 2) = 0" by (subst shift53.simps) simp
    with 1(2) s d show ?thesis by simp
  next
    case False
    with 1 s d show ?thesis by simp
  qed
qed

lemma round53_big: "2 ^ 53 \<le> n \<Longrightarrow> 2 ^ 53 \<le> round53 n"
proof -
  assume n: "2 ^ 53 \<le> n"
  have "2 ^ 52 * 2 ^ 1 \<le> n div 2 ^ shift53 n * 2 ^ shift53 n"
    using shift53_big [OF n] by (intro mult_le_mono power_increasing) simp_all
  then have "2 ^ 53 \<le> n div 2 ^ shift53 n * 2 ^ shift53 n" by simp
  with n show ?thesis by (auto simp: round53_def Let_def add_mult_distrib)
qed

lemma safe_toFloat: "isSafeInteger (toFloat n) = (if \<bar>n\<bar> < 2 ^ 53 then Some n else None)"
proof (cases "\<bar>n\<bar> < 2 ^ 53")
  case True
  then show ?thesis by (simp add: toFloat_exact isSafeInteger_def)
next
  case False
  define m :: nat where "m = nat \<bar>n\<bar>"
  have n: "n = (if n < 0 then - int m else int m)" by (simp add: m_def)
  have "\<not> int m < int (2 ^ 53)" using False by (simp add: m_def)
  then have "2 ^ 53 \<le> m" unfolding of_nat_less_iff by simp
  then have "2 ^ 53 \<le> round53 m" by (rule round53_big)
  then have "int (2 ^ 53) \<le> int (round53 m)" unfolding of_nat_le_iff .
  then have "\<not> \<bar>int (round53 m)\<bar> < 2 ^ 53" by simp
  moreover have "toFloat n = NInt (if n < 0 then - int (round53 m) else int (round53 m))" by (simp add: toFloat_def m_def)
  ultimately show ?thesis using False by (simp add: isSafeInteger_def)
qed

lemma trim_plain:
  assumes "s \<noteq> []" "\<not> is_space (hd s)" "\<not> is_space (last s)"
  shows "trim s = s"
proof -
  obtain c r where s: "s = c # r" using assms(1) by (cases s) auto
  obtain d t where r: "rev s = d # t" using assms(1) by (cases "rev s") auto
  have "d = last s" using arg_cong [OF r, of hd] assms(1) by (simp add: hd_rev)
  with assms(3) have "\<not> is_space d" by simp
  then have "dropWhile is_space (rev s) = rev s" unfolding r by simp
  moreover have "dropWhile is_space s = s" using assms(2) s by simp
  ultimately show ?thesis by (simp add: trim_def)
qed

lemma digit_text:
  assumes "list_all is_digit s" "s \<noteq> []"
  shows "\<not> is_space (last s)" "\<not> is_space (hd s)" "hd s \<noteq> 0x2D"
proof -
  have d: "\<not> is_space c" "c \<noteq> 0x2D" if "is_digit c" for c using that by (auto simp: is_digit_def is_space_def Let_def)
  have "is_digit (last s)" "is_digit (hd s)" using assms by (auto simp: list_all_iff)
  then show "\<not> is_space (last s)" "\<not> is_space (hd s)" "hd s \<noteq> 0x2D" by (simp_all add: d)
qed

lemma Number_int_text: "Number_text other (int_text n) = toFloat n"
proof (cases "n < 0")
  case True
  let ?t = "nat_text (nat (- n))"
  note d = digit_text [OF nat_text_digits nat_text_not_Nil, of "nat (- n)"]
  have e: "int_text n = 0x2D # ?t" using True by (simp add: int_text_def)
  have "trim (int_text n) = int_text n" unfolding e by (rule trim_plain) (use d in \<open>simp_all add: is_space_def\<close>)
  moreover have "\<not> list_all is_digit (0x2D # ?t)" by (simp add: is_digit_def)
  ultimately show ?thesis using True nat_text_digits [of "nat (- n)"] by (simp add: Number_text_def e Let_def)
next
  case False
  let ?t = "nat_text (nat n)"
  note d = digit_text [OF nat_text_digits nat_text_not_Nil, of "nat n"]
  have e: "int_text n = ?t" using False by (simp add: int_text_def)
  have "trim (int_text n) = int_text n" unfolding e by (rule trim_plain) (use d in simp_all)
  then show ?thesis using False nat_text_digits [of "nat n"] by (simp add: Number_text_def e Let_def)
qed

text \<open>
  The integer types of PostgreSQL by their names, each with its size in bytes and whether it is a counter: the values of a type are
  those of a signed integer of its size, those of a counter the positive ones among them.
\<close>

definition pg_integer_types :: "(string \<times> nat \<times> bool) list" where
  "pg_integer_types = [(''SMALLINT'', 2, False), (''INT2'', 2, False), (''INTEGER'', 4, False), (''INT'', 4, False), (''INT4'', 4, False),
     (''BIGINT'', 8, False), (''INT8'', 8, False), (''SMALLSERIAL'', 2, True), (''SERIAL2'', 2, True), (''SERIAL'', 4, True), (''SERIAL4'', 4, True),
     (''BIGSERIAL'', 8, True), (''SERIAL8'', 8, True)]"

definition pg_range :: "nat \<Rightarrow> bool \<Rightarrow> int set" where
  "pg_range width counter = {if counter then 1 else - (2 ^ (8 * width - 1)) .. 2 ^ (8 * width - 1) - 1}"

lemma boundsCheck_ranges: "boundsCheck ty \<noteq> None \<Longrightarrow> ty \<in> set (map (\<lambda>e. js (fst e)) pg_integer_types)"
  by (simp add: boundsCheck_def pg_integer_types_def del: js_simps split: if_splits) blast+

lemma boundsCheck_range:
  assumes "(n, width, c) \<in> set pg_integer_types" "boundsCheck (js n) = Some ok" "\<bar>x\<bar> < 2 ^ 53"
  shows "ok x \<longleftrightarrow> x \<in> pg_range width c"
  using assms by (auto simp: boundsCheck_def pg_integer_types_def pg_range_def)

text \<open>
  C15: A key is accepted only for the type of texts and the integer types. For a key of an integer type, the payload of a notification that is
  the text of an integer selects the rows with that integer exactly if it is a safe integer and a value of the type, and is an
  error otherwise; and no payload selects by any number that is not.
\<close>

theorem select_in_bounds:
  assumes "validateKeyParam params = Inr key" "k_type key \<noteq> js ''TEXT''"
  shows "\<exists>n width c. (n, width, c) \<in> set pg_integer_types \<and> k_type key = js n
    \<and> (\<forall>x. pg_select other key table (int_text x) = (if \<bar>x\<bar> < 2 ^ 53 \<and> x \<in> pg_range width c then Inr (SelectNum table (k_col key) x)
         else Inl (JSError (js ''Invalid '' @ k_type key @ js '' key: '' @ int_text x))))
    \<and> (\<forall>payload q. pg_select other key table payload = Inr q \<longrightarrow>
         (\<exists>x. q = SelectNum table (k_col key) x \<and> \<bar>x\<bar> < 2 ^ 53 \<and> x \<in> pg_range width c))"
proof -
  have "k_type key = js ''TEXT'' \<or> boundsCheck (k_type key) \<noteq> None"
    using assms(1) unfolding validateKeyParam_def by (auto split: json.splits option.splits if_splits simp del: js_simps)
  with assms(2) obtain ok where ok: "boundsCheck (k_type key) = Some ok" by blast
  then obtain n width c where n: "(n, width, c) \<in> set pg_integer_types" "k_type key = js n" using boundsCheck_ranges [of "k_type key"] by auto
  note range = boundsCheck_range [OF n(1) ok [unfolded n(2)]]
  have "pg_select other key table (int_text x) = (if \<bar>x\<bar> < 2 ^ 53 \<and> x \<in> pg_range width c then Inr (SelectNum table (k_col key) x)
      else Inl (JSError (js ''Invalid '' @ k_type key @ js '' key: '' @ int_text x)))" for x
    using assms(2) range [of x] by (auto simp: pg_select_def Number_int_text safe_toFloat ok simp del: js_simps)
  moreover have "\<exists>x. q = SelectNum table (k_col key) x \<and> \<bar>x\<bar> < 2 ^ 53 \<and> x \<in> pg_range width c" if "pg_select other key table payload = Inr q" for payload q
  proof -
    have "\<exists>x. q = SelectNum table (k_col key) x \<and> \<bar>x\<bar> < 2 ^ 53 \<and> ok x"
      using that assms(2) ok by (auto simp: pg_select_def isSafeInteger_def split: option.splits jsnum.splits if_splits simp del: js_simps)
    with range show ?thesis by blast
  qed
  ultimately show ?thesis using n by blast
qed

text \<open>The key of a table with a column of small integers.\<close>

definition demo_key :: jv where
  "demo_key = JObj [(js ''key'', JObj [(js ''col'', JStr [1]), (js ''type'', JStr (js ''INT2''))])]"

theorem select_in_bounds_witness:
  "validateKeyParam demo_key = Inr \<lparr>k_col = [1], k_type = js ''INT2''\<rparr>
   \<and> pg_select (\<lambda>_. NaN) \<lparr>k_col = [1], k_type = js ''INT2''\<rparr> [2] (int_text 32767) = Inr (SelectNum [2] [1] 32767)
   \<and> pg_select (\<lambda>_. NaN) \<lparr>k_col = [1], k_type = js ''INT2''\<rparr> [2] (int_text 32768) = Inl (JSError (js ''Invalid '' @ js ''INT2'' @ js '' key: '' @ int_text 32768))"
proof -
  have k: "validateKeyParam demo_key = Inr \<lparr>k_col = [1], k_type = js ''INT2''\<rparr>" by (simp add: demo_key_def validateKeyParam_def boundsCheck_def)
  have "k_type \<lparr>k_col = [1], k_type = js ''INT2''\<rparr> \<noteq> js ''TEXT''" by simp
  from select_in_bounds [OF k this, of "\<lambda>_. NaN" "[2]"] obtain n width c where
    n: "(n, width, c) \<in> set pg_integer_types" "js ''INT2'' = js n" and
    "\<forall>x. pg_select (\<lambda>_. NaN) \<lparr>k_col = [1], k_type = js ''INT2''\<rparr> [2] (int_text x) = (if \<bar>x\<bar> < 2 ^ 53 \<and> x \<in> pg_range width c then Inr (SelectNum [2] [1] x)
         else Inl (JSError (js ''Invalid '' @ js ''INT2'' @ js '' key: '' @ int_text x)))" by auto
  moreover from n have "pg_range width c = {- 32768 .. 32767}" by (auto simp: pg_integer_types_def pg_range_def)
  ultimately show ?thesis using k by (simp del: js_simps)
qed

text \<open>An integer key from 2 to the 53 on is an error also for the type of 64-bit integers, whose bounds are not checked.\<close>

lemma large_key_invalid:
  "pg_select other \<lparr>k_col = c, k_type = js ''BIGINT''\<rparr> table (int_text (2 ^ 53)) = Inl (JSError (js ''Invalid '' @ js ''BIGINT'' @ js '' key: '' @ int_text (2 ^ 53)))"
proof -
  have "js ''BIGINT'' \<noteq> js ''TEXT''" by simp
  then show ?thesis by (simp add: pg_select_def Number_int_text safe_toFloat del: js_simps)
qed

end
