(* ===== verification/Postgres_Adapter.thy ===== *)
theory Postgres_Adapter
  imports Adapters
begin

text \<open>
  The external service over a PostgreSQL database: \<open>skipruntime-ts/adapters/postgres/src/index.ts\<close>.

  The driver is known by the queries it is sent and the answers it gives: \<open>None\<close> is a promise that is rejected. An
  \<open>async\<close> operation is split where it awaits; what it waits for is the phase of its task. A promise that settles and the removal of
  its entry from \<open>instance_ops\<close> are one step. Logging and the handlers of signals are left out.
\<close>

section \<open>The PostgreSQL service\<close>

record pgSub =
  ps_instance :: jsstring
  ps_table :: jsstring
  ps_key :: pgKey
  ps_history :: bool

text \<open>An operation of an instance: setting up a subscription (by its number) or the teardown of an unsubscription. Its task waits for its
  turn, for the query or the update of the first data, for one of the queries of \<open>setupPgNotify\<close>, for the clean-up after
  one of them failed, or for the query of the teardown.\<close>

datatype pgOp = Setup nat | Teardown

datatype pgPhase = Ready | InitQuery | InitUpdate | CreatingFunction | Listening | CreatingTrigger | CleaningUp | Dropping

record pgTask =
  t_op :: pgOp
  t_phase :: pgPhase

text \<open>A call of \<open>shutdown\<close>: it waits for the operations, for its query, or has ended or failed.\<close>

datatype pgDown = Waiting | DroppingAll "jsstring list" | Ended | DropFailed

record PG =
  open_instances :: "jsstring list"
  instance_ops :: "(jsstring \<times> pgTask list) list"
  broken :: bool
  shutting_down :: bool
  downRuns :: "pgDown list"
  pgSubs :: "pgSub list"
  listeners :: "nat list"
  pgQueries :: "pgQuery list"
  pgUpdates :: "(nat \<times> (jv option \<times> row list) list \<times> bool) list"
  pgErrors :: "(nat \<times> jsstring) list"
  changesRun :: "(nat \<times> jv \<times> pgQuery \<times> bool) list"
  settledOps :: "(jsstring \<times> pgOp \<times> bool) list"

definition newPG :: PG where
  "newPG = \<lparr>open_instances = [], instance_ops = [], broken = False, shutting_down = False, downRuns = [], pgSubs = [], listeners = [],
     pgQueries = [], pgUpdates = [], pgErrors = [], changesRun = [], settledOps = []\<rparr>"

definition tasks :: "jsstring \<Rightarrow> PG \<Rightarrow> pgTask list" where
  "tasks i s = (case map_of (instance_ops s) i of Some ts \<Rightarrow> ts | None \<Rightarrow> [])"

definition chainInstanceOp :: "jsstring \<Rightarrow> pgOp \<Rightarrow> PG \<Rightarrow> PG" where
  "chainInstanceOp i oper s = s\<lparr>instance_ops := amap_set i (tasks i s @ [\<lparr>t_op = oper, t_phase = Ready\<rparr>]) (instance_ops s)\<rparr>"

text \<open>What the service tells about itself; \<open>connected\<close> is the flag of the driver.\<close>

definition isConnected :: "bool \<Rightarrow> PG \<Rightarrow> bool" where
  "isConnected connected s = (\<not> broken s \<and> connected)"

definition getOpenInstances :: "PG \<Rightarrow> jsstring list" where
  "getOpenInstances s = open_instances s"

text \<open>The running operation of an instance moves on, or settles and lets the next one run.\<close>

definition goPhase :: "jsstring \<Rightarrow> pgPhase \<Rightarrow> PG \<Rightarrow> PG" where
  "goPhase i ph s = (case tasks i s of [] \<Rightarrow> s | t # ts \<Rightarrow> s\<lparr>instance_ops := amap_set i (t\<lparr>t_phase := ph\<rparr> # ts) (instance_ops s)\<rparr>)"

definition settleOp :: "jsstring \<Rightarrow> bool \<Rightarrow> PG \<Rightarrow> PG" where
  "settleOp i ok s = (case tasks i s of [] \<Rightarrow> s | t # ts \<Rightarrow>
     s\<lparr>instance_ops := (if ts = [] then amap_del i (instance_ops s) else amap_set i ts (instance_ops s)),
       settledOps := settledOps s @ [(i, t_op t, ok)]\<rparr>)"

definition pg_query :: "pgQuery \<Rightarrow> PG \<Rightarrow> PG" where
  "pg_query q s = s\<lparr>pgQueries := pgQueries s @ [q]\<rparr>"

definition pg_update :: "nat \<Rightarrow> (jv option \<times> row list) list \<Rightarrow> bool \<Rightarrow> PG \<Rightarrow> PG" where
  "pg_update sid entries isInit s = s\<lparr>pgUpdates := pgUpdates s @ [(sid, entries, isInit)]\<rparr>"

definition pg_error :: "nat \<Rightarrow> jsstring \<Rightarrow> PG \<Rightarrow> PG" where
  "pg_error sid m s = s\<lparr>pgErrors := pgErrors s @ [(sid, m)]\<rparr>"

definition syncHistoricData :: "jv \<Rightarrow> bool" where
  "syncHistoricData params = (case params of
     JObj ps \<Rightarrow> (case map_of ps (js ''syncHistoricData'') of None \<Rightarrow> True | Some JNull \<Rightarrow> True | Some v \<Rightarrow> truthyJson v)
   | _ \<Rightarrow> True)"

definition pg_subscribe :: "jsstring \<Rightarrow> jsstring \<Rightarrow> jv \<Rightarrow> PG \<Rightarrow> (js_error + nat) \<times> PG" where
  "pg_subscribe i resource params s =
     (if shutting_down s then (Inl (JSError (js ''Cannot subscribe to resource instance '' @ i @ js '': service is shutting down.'')), s)
      else (case validateKeyParam params of
              Inl e \<Rightarrow> (Inl e, s)
            | Inr key \<Rightarrow> (Inr (length (pgSubs s)), chainInstanceOp i (Setup (length (pgSubs s)))
                (s\<lparr>pgSubs := pgSubs s @ [\<lparr>ps_instance = i, ps_table = resource, ps_key = key, ps_history = syncHistoricData params\<rparr>]\<rparr>))))"

definition pg_unsubscribe :: "jsstring \<Rightarrow> PG \<Rightarrow> PG" where
  "pg_unsubscribe i s = chainInstanceOp i Teardown s"

text \<open>An operation starts when the one before it has settled.\<close>

definition startOp :: "jsstring \<Rightarrow> PG \<Rightarrow> PG" where
  "startOp i s = (case tasks i s of [] \<Rightarrow> s | t # ts \<Rightarrow>
     (case t_op t of
        Setup sid \<Rightarrow>
          let sub = pgSubs s ! sid in
          if ps_history sub then goPhase i InitQuery (pg_query (SelectAll (ps_table sub)) s)
          else goPhase i InitUpdate (pg_update sid [] True s)
      | Teardown \<Rightarrow>
          if i \<notin> set (open_instances s) then settleOp i True s
          else goPhase i Dropping (pg_query (DropFunctions [i]) s)))"

definition setupFailed :: "jsstring \<Rightarrow> nat \<Rightarrow> PG \<Rightarrow> PG" where
  "setupFailed i sid s = goPhase i CleaningUp (pg_query (DropFunctions [i])
     (pg_error sid (js ''Error setting up Postgres change notifications for resource instance '' @ i @ js '':'') s))"

definition setupPgNotify :: "jsstring \<Rightarrow> pgSub \<Rightarrow> PG \<Rightarrow> PG" where
  "setupPgNotify i sub s =
     (if i \<in> set (open_instances s) then settleOp i True s
      else goPhase i CreatingFunction (pg_query (CreateFunction i (k_col (ps_key sub))) s))"

definition resumeSetup :: "jsstring \<Rightarrow> nat \<Rightarrow> pgPhase \<Rightarrow> row list option \<Rightarrow> PG \<Rightarrow> PG" where
  "resumeSetup i sid ph ans s =
     (let sub = pgSubs s ! sid in
      case ph of
        InitQuery \<Rightarrow> (case ans of None \<Rightarrow> settleOp i False s
          | Some rows \<Rightarrow> goPhase i InitUpdate (pg_update sid (initEntries (k_col (ps_key sub)) rows) True s))
      | InitUpdate \<Rightarrow> (case ans of None \<Rightarrow> settleOp i False s
          | Some _ \<Rightarrow> setupPgNotify i sub (s\<lparr>listeners := listeners s @ [sid]\<rparr>))
      | CreatingFunction \<Rightarrow> (case ans of None \<Rightarrow> setupFailed i sid s | Some _ \<Rightarrow> goPhase i Listening (pg_query (Listen i) s))
      | Listening \<Rightarrow> (case ans of None \<Rightarrow> setupFailed i sid s
          | Some _ \<Rightarrow> goPhase i CreatingTrigger (pg_query (CreateTrigger i (ps_table sub)) s))
      | CreatingTrigger \<Rightarrow> (case ans of None \<Rightarrow> setupFailed i sid s
          | Some _ \<Rightarrow> settleOp i True (s\<lparr>open_instances := (if i \<in> set (open_instances s) then open_instances s else open_instances s @ [i])\<rparr>))
      | CleaningUp \<Rightarrow> settleOp i False (s\<lparr>listeners := filter (\<lambda>x. x \<noteq> sid) (listeners s)\<rparr>)
      | _ \<Rightarrow> s)"

definition resumeTeardown :: "jsstring \<Rightarrow> row list option \<Rightarrow> PG \<Rightarrow> PG" where
  "resumeTeardown i ans s = (case ans of None \<Rightarrow> settleOp i False s
     | Some _ \<Rightarrow> settleOp i True (s\<lparr>open_instances := filter (\<lambda>x. x \<noteq> i) (open_instances s)\<rparr>))"

definition resumeOp :: "jsstring \<Rightarrow> row list option \<Rightarrow> PG \<Rightarrow> PG" where
  "resumeOp i ans s = (case tasks i s of [] \<Rightarrow> s | t # ts \<Rightarrow>
     (case t_op t of Setup sid \<Rightarrow> resumeSetup i sid (t_phase t) ans s | Teardown \<Rightarrow> resumeTeardown i ans s))"

text \<open>A notification of the database is handed to every listener in turn; the query of the changed rows runs apart from the tasks.\<close>

definition onNotification :: "(jsstring \<Rightarrow> jsnum) \<Rightarrow> jsstring \<Rightarrow> jsstring option \<Rightarrow> nat \<Rightarrow> (PG, unit) js" where
  "onNotification other channel payload sid = reads (\<lambda>s.
     let sub = pgSubs s ! sid; i = ps_instance sub in
     case payload of
       None \<Rightarrow> skip
     | Some text \<Rightarrow>
         if channel = i \<and> (i \<in> set (open_instances s) \<or> map_of (instance_ops s) i \<noteq> None)
         then andThen (lift (pg_select other (ps_key sub) (ps_table sub) text)) (\<lambda>q.
              modifies (\<lambda>s. pg_query q (s\<lparr>changesRun := changesRun s @ [(sid, case q of SelectNum _ _ n \<Rightarrow> JNum (int_text n) | _ \<Rightarrow> JStr text, q, False)]\<rparr>)))
         else skip)"

definition emitNotification :: "(jsstring \<Rightarrow> jsnum) \<Rightarrow> jsstring \<Rightarrow> jsstring option \<Rightarrow> (PG, unit) js" where
  "emitNotification other channel payload = reads (\<lambda>s. forEach (listeners s) (onNotification other channel payload))"

definition keyText :: "jv \<Rightarrow> jsstring" where
  "keyText k = (case k of JNum t \<Rightarrow> t | JStr t \<Rightarrow> t | _ \<Rightarrow> [])"

definition resumeChange :: "(jsstring \<Rightarrow> jsstring) \<Rightarrow> (jsstring \<Rightarrow> jsstring) \<Rightarrow> nat \<Rightarrow> row list option \<Rightarrow> PG \<Rightarrow> PG" where
  "resumeChange ident literal n ans s =
     (let drp = (\<lambda>s. s\<lparr>changesRun := take n (changesRun s) @ drop (Suc n) (changesRun s)\<rparr>) in
      case changesRun s ! n of (sid, k, q, ok) \<Rightarrow>
        (case ans of
           Some rows \<Rightarrow> if ok then drp s
             else pg_update sid [(Some k, rows)] False (s\<lparr>changesRun := (changesRun s)[n := (sid, k, q, True)]\<rparr>)
         | None \<Rightarrow> drp (pg_error sid
             (if ok then js ''Uncaught error triggered by Postgres adapter update (key '' @ keyText k @ js '', table '' @ ps_table (pgSubs s ! sid) @ js ''):''
              else js ''Error executing Postgres query '' @ [0x22] @ queryText ident literal q @ [0x22, 0x3A]) s)))"

definition clientError :: "PG \<Rightarrow> PG" where
  "clientError s = s\<lparr>broken := True, open_instances := []\<rparr>"

definition pg_shutdown :: "PG \<Rightarrow> PG" where
  "pg_shutdown s = s\<lparr>shutting_down := True, downRuns := downRuns s @ [Waiting]\<rparr>"

definition shutdownReady :: "nat \<Rightarrow> PG \<Rightarrow> PG" where
  "shutdownReady n s =
     (if instance_ops s \<noteq> [] then s
      else if open_instances s = [] then s\<lparr>downRuns := (downRuns s)[n := Ended]\<rparr>
      else pg_query (DropFunctions (open_instances s)) (s\<lparr>downRuns := (downRuns s)[n := DroppingAll (open_instances s)], open_instances := []\<rparr>))"

definition shutdownDropped :: "nat \<Rightarrow> row list option \<Rightarrow> PG \<Rightarrow> PG" where
  "shutdownDropped n ans s = s\<lparr>downRuns := (downRuns s)[n := (case ans of Some _ \<Rightarrow> Ended | None \<Rightarrow> DropFailed)]\<rparr>"

section \<open>The service and its database\<close>

text \<open>
  The functions that exist in the database, as the answers to queries tell; those that a refused clean-up left there; and the
  history of calls. Queries of a broken connection are refused.
\<close>

record pgWorld =
  svc :: PG
  dbFunctions :: "jsstring set"
  leaked :: "jsstring set"
  issuedOps :: "(jsstring \<times> pgOp) list"

definition newWorld :: pgWorld where
  "newWorld = \<lparr>svc = newPG, dbFunctions = {}, leaked = {}, issuedOps = []\<rparr>"

definition dbAnswered :: "pgPhase \<Rightarrow> jsstring \<Rightarrow> row list option \<Rightarrow> pgWorld \<Rightarrow> pgWorld" where
  "dbAnswered ph i ans w = (case (ph, ans) of
     (CreatingFunction, Some _) \<Rightarrow> w\<lparr>dbFunctions := insert i (dbFunctions w)\<rparr>
   | (CleaningUp, None) \<Rightarrow> w\<lparr>leaked := insert i (leaked w)\<rparr>
   | (CleaningUp, Some _) \<Rightarrow> w\<lparr>dbFunctions := dbFunctions w - {i}\<rparr>
   | (Dropping, Some _) \<Rightarrow> w\<lparr>dbFunctions := dbFunctions w - {i}\<rparr>
   | _ \<Rightarrow> w)"

definition dbDropped :: "jsstring list \<Rightarrow> row list option \<Rightarrow> pgWorld \<Rightarrow> pgWorld" where
  "dbDropped is ans w = (case ans of Some _ \<Rightarrow> w\<lparr>dbFunctions := dbFunctions w - set is\<rparr> | None \<Rightarrow> w\<lparr>leaked := leaked w \<union> set is\<rparr>)"

inductive pg_event :: "pgWorld \<Rightarrow> pgWorld \<Rightarrow> bool" where
  subscribed: "pg_subscribe i resource params (svc w) = (Inr sid, s) \<Longrightarrow> pg_event w (w\<lparr>svc := s, issuedOps := issuedOps w @ [(i, Setup sid)]\<rparr>)"
| refused: "pg_subscribe i resource params (svc w) = (Inl e, s) \<Longrightarrow> pg_event w (w\<lparr>svc := s\<rparr>)"
| unsubscribed: "pg_event w (w\<lparr>svc := pg_unsubscribe i (svc w), issuedOps := issuedOps w @ [(i, Teardown)]\<rparr>)"
| start: "tasks i (svc w) = t # ts \<Longrightarrow> t_phase t = Ready \<Longrightarrow> pg_event w (w\<lparr>svc := startOp i (svc w)\<rparr>)"
| answer: "tasks i (svc w) = t # ts \<Longrightarrow> t_phase t \<noteq> Ready \<Longrightarrow> (broken (svc w) \<and> t_phase t \<noteq> InitUpdate \<longrightarrow> ans = None) \<Longrightarrow>
    pg_event w (dbAnswered (t_phase t) i ans (w\<lparr>svc := resumeOp i ans (svc w)\<rparr>))"
| notify: "emitNotification other channel payload (svc w) = (r, s) \<Longrightarrow> pg_event w (w\<lparr>svc := s\<rparr>)"
| change: "n < length (changesRun (svc w)) \<Longrightarrow> pg_event w (w\<lparr>svc := resumeChange ident literal n ans (svc w)\<rparr>)"
| failure: "pg_event w (w\<lparr>svc := clientError (svc w)\<rparr>)"
| shutdown: "pg_event w (w\<lparr>svc := pg_shutdown (svc w)\<rparr>)"
| shutdown_ready: "n < length (downRuns (svc w)) \<Longrightarrow> downRuns (svc w) ! n = Waiting \<Longrightarrow> pg_event w (w\<lparr>svc := shutdownReady n (svc w)\<rparr>)"
| shutdown_dropped: "n < length (downRuns (svc w)) \<Longrightarrow> downRuns (svc w) ! n = DroppingAll is \<Longrightarrow> (broken (svc w) \<longrightarrow> ans = None) \<Longrightarrow>
    pg_event w (dbDropped is ans (w\<lparr>svc := shutdownDropped n ans (svc w)\<rparr>))"

inductive pg_reachable :: "pgWorld \<Rightarrow> bool" where
  init: "pg_reachable newWorld"
| step: "pg_reachable w \<Longrightarrow> pg_event w w' \<Longrightarrow> pg_reachable w'"


section \<open>Effects of the handlers\<close>

lemma tasks_unchanged [simp]:
  "tasks i (s\<lparr>open_instances := a\<rparr>) = tasks i s" "tasks i (s\<lparr>listeners := b\<rparr>) = tasks i s" "tasks i (s\<lparr>pgSubs := c\<rparr>) = tasks i s"
  "tasks i (s\<lparr>changesRun := d\<rparr>) = tasks i s" "tasks i (s\<lparr>downRuns := e\<rparr>) = tasks i s" "tasks i (s\<lparr>shutting_down := f\<rparr>) = tasks i s"
  "tasks i (s\<lparr>broken := g\<rparr>) = tasks i s" "tasks i (pg_query q s) = tasks i s" "tasks i (pg_update sid es b' s) = tasks i s" "tasks i (pg_error sid m s) = tasks i s"
  by (simp_all add: tasks_def pg_query_def pg_update_def pg_error_def)

lemma tasks_chain [simp]: "tasks j (chainInstanceOp i oper s) = (if j = i then tasks i s @ [\<lparr>t_op = oper, t_phase = Ready\<rparr>] else tasks j s)"
  by (simp add: tasks_def chainInstanceOp_def)

lemma tasks_goPhase: "tasks i s = t # ts \<Longrightarrow> tasks j (goPhase i ph s) = (if j = i then t\<lparr>t_phase := ph\<rparr> # ts else tasks j s)"
  by (simp add: tasks_def goPhase_def)

lemma tasks_settle: "tasks i s = t # ts \<Longrightarrow> tasks j (settleOp i ok s) = (if j = i then ts else tasks j s)"
  by (simp add: tasks_def settleOp_def)

lemma settledOps_settle: "tasks i s = t # ts \<Longrightarrow> settledOps (settleOp i ok s) = settledOps s @ [(i, t_op t, ok)]"
  by (simp add: settleOp_def)

lemma other_instances [simp]:
  "j \<noteq> i \<Longrightarrow> tasks j (goPhase i ph s) = tasks j s" "j \<noteq> i \<Longrightarrow> tasks j (settleOp i ok s) = tasks j s"
  by (simp_all add: goPhase_def settleOp_def tasks_def split: list.split)

text \<open>Everything but the tasks and the log of settled operations is left alone by moving on and settling.\<close>

lemma goPhase_fields [simp]:
  "open_instances (goPhase i ph s) = open_instances s" "broken (goPhase i ph s) = broken s" "shutting_down (goPhase i ph s) = shutting_down s"
  "downRuns (goPhase i ph s) = downRuns s" "pgSubs (goPhase i ph s) = pgSubs s" "listeners (goPhase i ph s) = listeners s" "settledOps (goPhase i ph s) = settledOps s"
  by (simp_all add: goPhase_def split: list.split)

lemma settleOp_fields [simp]:
  "open_instances (settleOp i ok s) = open_instances s" "broken (settleOp i ok s) = broken s" "shutting_down (settleOp i ok s) = shutting_down s"
  "downRuns (settleOp i ok s) = downRuns s" "pgSubs (settleOp i ok s) = pgSubs s" "listeners (settleOp i ok s) = listeners s"
  by (simp_all add: settleOp_def split: list.split)

lemma chain_fields [simp]:
  "open_instances (chainInstanceOp i oper s) = open_instances s" "broken (chainInstanceOp i oper s) = broken s" "shutting_down (chainInstanceOp i oper s) = shutting_down s"
  "downRuns (chainInstanceOp i oper s) = downRuns s" "pgSubs (chainInstanceOp i oper s) = pgSubs s" "listeners (chainInstanceOp i oper s) = listeners s"
  "settledOps (chainInstanceOp i oper s) = settledOps s"
  by (simp_all add: chainInstanceOp_def)

lemma log_fields [simp]:
  "open_instances (pg_query q s) = open_instances s" "broken (pg_query q s) = broken s" "shutting_down (pg_query q s) = shutting_down s"
  "downRuns (pg_query q s) = downRuns s" "pgSubs (pg_query q s) = pgSubs s" "listeners (pg_query q s) = listeners s" "settledOps (pg_query q s) = settledOps s"
  "instance_ops (pg_query q s) = instance_ops s"
  "open_instances (pg_update sid es b s) = open_instances s" "broken (pg_update sid es b s) = broken s" "shutting_down (pg_update sid es b s) = shutting_down s"
  "downRuns (pg_update sid es b s) = downRuns s" "pgSubs (pg_update sid es b s) = pgSubs s" "listeners (pg_update sid es b s) = listeners s"
  "settledOps (pg_update sid es b s) = settledOps s" "instance_ops (pg_update sid es b s) = instance_ops s"
  "open_instances (pg_error sid m s) = open_instances s" "broken (pg_error sid m s) = broken s" "shutting_down (pg_error sid m s) = shutting_down s"
  "downRuns (pg_error sid m s) = downRuns s" "pgSubs (pg_error sid m s) = pgSubs s" "listeners (pg_error sid m s) = listeners s"
  "settledOps (pg_error sid m s) = settledOps s" "instance_ops (pg_error sid m s) = instance_ops s"
  by (simp_all add: pg_query_def pg_update_def pg_error_def)

text \<open>What the handlers of notifications leave alone: all that the tasks depend on.\<close>

definition sameCore :: "PG \<Rightarrow> PG \<Rightarrow> bool" where
  "sameCore s s' \<longleftrightarrow> open_instances s' = open_instances s \<and> instance_ops s' = instance_ops s \<and> broken s' = broken s \<and> shutting_down s' = shutting_down s
     \<and> downRuns s' = downRuns s \<and> pgSubs s' = pgSubs s \<and> listeners s' = listeners s \<and> settledOps s' = settledOps s"

lemma sameCore_tasks: "sameCore s s' \<Longrightarrow> tasks i s' = tasks i s"
  by (simp add: sameCore_def tasks_def)

lemma onNotification_core: "onNotification other channel payload sid s = (r, s') \<Longrightarrow> sameCore s s'"
  by (auto simp: onNotification_def js_run sameCore_def andThen_def reads_def lift_def modifies_def Let_def split: option.splits if_splits sum.splits)

lemma notifications_core: "forEach ls (onNotification other channel payload) s = (r, s') \<Longrightarrow> sameCore s s'"
proof (induction ls arbitrary: s)
  case (Cons l ls)
  obtain r1 s1 where 1: "onNotification other channel payload l s = (r1, s1)" by (cases "onNotification other channel payload l s")
  note c = onNotification_core [OF 1]
  show ?case
  proof (cases r1)
    case (Inr u)
    with Cons.prems 1 have "forEach ls (onNotification other channel payload) s1 = (r, s')" by (simp add: andThen_def)
    from Cons.IH [OF this] c show ?thesis by (simp add: sameCore_def)
  qed (use Cons.prems 1 c in \<open>simp add: andThen_def\<close>)
qed (simp add: sameCore_def ret_def)

lemma resumeChange_core: "sameCore s (resumeChange ident literal n ans s)"
  by (auto simp: resumeChange_def sameCore_def Let_def split: prod.split option.split)


section \<open>The state of an instance\<close>

text \<open>The abstract service: the operations of an instance one after the other. A subscription that succeeded opens the instance, an
  unsubscription that succeeded closes it, and what failed changes nothing.\<close>

fun specOpen :: "(pgOp \<times> bool) list \<Rightarrow> bool \<Rightarrow> bool" where
  "specOpen [] b = b"
| "specOpen ((Setup _, ok) # ops) b = specOpen ops (b \<or> ok)"
| "specOpen ((Teardown, ok) # ops) b = specOpen ops (b \<and> \<not> ok)"

lemma specOpen_append: "specOpen (xs @ ys) b = specOpen ys (specOpen xs b)"
  by (induction xs b rule: specOpen.induct) simp_all

definition opsOf :: "jsstring \<Rightarrow> (jsstring \<times> 'a) list \<Rightarrow> 'a list" where
  "opsOf i log = map snd (filter (\<lambda>e. fst e = i) log)"

lemma opsOf_simps [simp]: "opsOf i [] = []" "opsOf i (xs @ ys) = opsOf i xs @ opsOf i ys" "opsOf i ((j, x) # xs) = (if j = i then x # opsOf i xs else opsOf i xs)"
  by (simp_all add: opsOf_def)

definition phase_ok :: "pgOp \<Rightarrow> pgPhase \<Rightarrow> bool" where
  "phase_ok oper ph \<longleftrightarrow> (case oper of Setup _ \<Rightarrow> ph \<noteq> Dropping | Teardown \<Rightarrow> ph = Ready \<or> ph = Dropping)"

definition drained :: "PG \<Rightarrow> bool" where
  "drained s \<longleftrightarrow> (\<exists>r \<in> set (downRuns s). r \<noteq> Waiting)"

definition droppingAll :: "jsstring \<Rightarrow> PG \<Rightarrow> bool" where
  "droppingAll i s \<longleftrightarrow> (\<exists>is. DroppingAll is \<in> set (downRuns s) \<and> i \<in> set is)"

text \<open>An instance by its tasks, whether it is open, has a function in the database, was leaked, is being dropped by a shutdown, its settled
  operations and the operations that were asked for.\<close>

definition inst_ok :: "bool \<Rightarrow> bool \<Rightarrow> pgTask list \<Rightarrow> bool \<Rightarrow> bool \<Rightarrow> bool \<Rightarrow> bool \<Rightarrow> (pgOp \<times> bool) list \<Rightarrow> pgOp list \<Rightarrow> bool" where
  "inst_ok b d ts isOpen f l p done asked \<longleftrightarrow>
     list_all (\<lambda>t. t_phase t = Ready) (tl ts)
     \<and> (ts \<noteq> [] \<longrightarrow> phase_ok (t_op (hd ts)) (t_phase (hd ts))
          \<and> (t_phase (hd ts) \<in> {CreatingFunction, Listening, CreatingTrigger, CleaningUp} \<longrightarrow> \<not> isOpen)
          \<and> (t_phase (hd ts) = Dropping \<and> \<not> b \<longrightarrow> isOpen) \<and> (t_phase (hd ts) \<in> {Listening, CreatingTrigger} \<longrightarrow> f))
     \<and> (\<not> b \<and> isOpen \<longrightarrow> f)
     \<and> (f \<longrightarrow> isOpen \<or> b \<or> l \<or> p \<or> ts \<noteq> [] \<and> t_phase (hd ts) \<in> {Listening, CreatingTrigger, CleaningUp})
     \<and> map fst done @ map t_op ts = asked
     \<and> (\<not> b \<and> \<not> d \<longrightarrow> isOpen = specOpen done False)
     \<and> (d \<longrightarrow> \<not> isOpen \<and> list_all (\<lambda>t. t_op t = Teardown) ts)"

abbreviation inst_at :: "pgWorld \<Rightarrow> jsstring \<Rightarrow> bool" where
  "inst_at w i \<equiv> inst_ok (broken (svc w)) (drained (svc w)) (tasks i (svc w)) (i \<in> set (open_instances (svc w))) (i \<in> dbFunctions w) (i \<in> leaked w)
     (droppingAll i (svc w)) (opsOf i (settledOps (svc w))) (opsOf i (issuedOps w))"

definition pg_inv :: "pgWorld \<Rightarrow> bool" where
  "pg_inv w \<longleftrightarrow> (downRuns (svc w) \<noteq> [] \<longrightarrow> shutting_down (svc w)) \<and> (\<forall>i. inst_at w i)"

lemma pg_inv_inst: "pg_inv w \<Longrightarrow> inst_at w i"
  by (simp add: pg_inv_def)

lemma pg_inv_new: "pg_inv newWorld"
  by (simp add: pg_inv_def inst_ok_def newWorld_def newPG_def tasks_def drained_def)

lemma runs_fields: "downRuns s' = downRuns s \<Longrightarrow> drained s' = drained s \<and> droppingAll j s' = droppingAll j s"
  by (simp add: drained_def droppingAll_def)

text \<open>A step that concerns one instance.\<close>

lemma pg_inv_local:
  assumes inv: "pg_inv w"
    and shared: "broken (svc w') = broken (svc w)" "downRuns (svc w') = downRuns (svc w)" "shutting_down (svc w') = shutting_down (svc w)"
    and others: "\<And>j. j \<noteq> i \<Longrightarrow> tasks j (svc w') = tasks j (svc w) \<and> (j \<in> set (open_instances (svc w')) \<longleftrightarrow> j \<in> set (open_instances (svc w)))
      \<and> (j \<in> dbFunctions w' \<longleftrightarrow> j \<in> dbFunctions w) \<and> (j \<in> leaked w' \<longleftrightarrow> j \<in> leaked w)
      \<and> opsOf j (settledOps (svc w')) = opsOf j (settledOps (svc w)) \<and> opsOf j (issuedOps w') = opsOf j (issuedOps w)"
    and own: "inst_at w' i"
  shows "pg_inv w'"
proof -
  have "inst_at w' j" for j
  proof (cases "j = i")
    case False
    then show ?thesis using pg_inv_inst [OF inv, of j] others [OF False] runs_fields [OF shared(2), of j] shared(1) by simp
  qed (use own in simp)
  then show ?thesis using inv shared by (simp add: pg_inv_def)
qed

lemma pg_inv_chain:
  assumes "pg_inv w" and "(\<exists>sid. oper = Setup sid) \<Longrightarrow> \<not> shutting_down (svc w)"
  shows "pg_inv (w\<lparr>svc := chainInstanceOp i oper ((svc w)\<lparr>pgSubs := subs\<rparr>), issuedOps := issuedOps w @ [(i, oper)]\<rparr>)" (is "pg_inv ?w")
proof (rule pg_inv_local [OF assms(1), where i = i])
  have "drained (svc w) \<Longrightarrow> downRuns (svc w) \<noteq> []" by (auto simp: drained_def)
  with assms have "drained (svc w) \<Longrightarrow> oper = Teardown" by (cases oper) (auto simp: pg_inv_def)
  moreover have "drained (svc ?w) = drained (svc w) \<and> droppingAll i (svc ?w) = droppingAll i (svc w)" by (rule runs_fields) simp
  ultimately show "inst_at ?w i" using pg_inv_inst [OF assms(1), of i]
    by (cases "tasks i (svc w)") (auto simp: inst_ok_def phase_ok_def split: pgOp.split)
qed simp_all

lemma opsOf_settle: "j \<noteq> i \<Longrightarrow> opsOf j (settledOps (settleOp i ok s)) = opsOf j (settledOps s)"
  by (simp add: settleOp_def split: list.split)

lemmas op_effects = tasks_goPhase tasks_settle settledOps_settle specOpen_append

lemma startOp_fields [simp]:
  "broken (startOp i s) = broken s" "downRuns (startOp i s) = downRuns s" "shutting_down (startOp i s) = shutting_down s"
  "open_instances (startOp i s) = open_instances s"
  by (auto simp: startOp_def Let_def split: list.split pgOp.split)

text \<open>Nothing of another instance changes, nor the flags of the service.\<close>

definition sameOthers :: "jsstring \<Rightarrow> PG \<Rightarrow> PG \<Rightarrow> bool" where
  "sameOthers i s s' \<longleftrightarrow> broken s' = broken s \<and> downRuns s' = downRuns s \<and> shutting_down s' = shutting_down s \<and> pgSubs s' = pgSubs s
     \<and> (\<forall>j. j \<noteq> i \<longrightarrow> (j \<in> set (open_instances s') \<longleftrightarrow> j \<in> set (open_instances s)) \<and> tasks j s' = tasks j s
          \<and> opsOf j (settledOps s') = opsOf j (settledOps s))"

lemma sameOthers_intros:
  "sameOthers i s (s\<lparr>listeners := ls\<rparr>)" "sameOthers i s s" "sameOthers i s (pg_query q s)" "sameOthers i s (pg_update sid es ini s)" "sameOthers i s (pg_error sid m s)"
  "sameOthers i s (goPhase i ph s)" "sameOthers i s (settleOp i ok s)"
  "(\<And>j. j \<noteq> i \<Longrightarrow> j \<in> set os \<longleftrightarrow> j \<in> set (open_instances s)) \<Longrightarrow> sameOthers i s (s\<lparr>open_instances := os\<rparr>)"
  by (simp_all add: sameOthers_def opsOf_settle)

lemma sameOthers_trans: "sameOthers i s s' \<Longrightarrow> sameOthers i s' s'' \<Longrightarrow> sameOthers i s s''"
  by (simp add: sameOthers_def)

lemmas sameOthers_then =
  sameOthers_trans [OF _ sameOthers_intros(3)] sameOthers_trans [OF _ sameOthers_intros(4)] sameOthers_trans [OF _ sameOthers_intros(5)]
  sameOthers_trans [OF _ sameOthers_intros(6)] sameOthers_trans [OF _ sameOthers_intros(7)]

lemma sameOthers_setup: "sameOthers i s (setupFailed i sid s)" "sameOthers i s s' \<Longrightarrow> sameOthers i s (setupPgNotify i sub s')"
  unfolding setupFailed_def setupPgNotify_def by (auto intro!: sameOthers_intros sameOthers_then)

lemma sameOthers_resume: "sameOthers i s (resumeOp i ans s)"
proof -
  have "sameOthers i s (resumeSetup i sid ph ans s)" for sid ph
    by (cases ph; cases ans) (auto simp: resumeSetup_def Let_def intro!: sameOthers_intros sameOthers_then sameOthers_setup)
  moreover have "sameOthers i s (resumeTeardown i ans s)"
    by (cases ans) (auto simp: resumeTeardown_def intro!: sameOthers_intros sameOthers_then)
  ultimately show ?thesis by (simp add: resumeOp_def sameOthers_intros split: list.split pgOp.split)
qed

lemma resumeOp_fields [simp]:
  "broken (resumeOp i ans s) = broken s" "downRuns (resumeOp i ans s) = downRuns s" "shutting_down (resumeOp i ans s) = shutting_down s"
  "j \<noteq> i \<Longrightarrow> j \<in> set (open_instances (resumeOp i ans s)) \<longleftrightarrow> j \<in> set (open_instances s)"
  "j \<noteq> i \<Longrightarrow> tasks j (resumeOp i ans s) = tasks j s"
  "j \<noteq> i \<Longrightarrow> opsOf j (settledOps (resumeOp i ans s)) = opsOf j (settledOps s)"
  using sameOthers_resume [of i s ans] by (simp_all add: sameOthers_def)

lemma dbAnswered_fields [simp]:
  "svc (dbAnswered ph i ans w) = svc w" "issuedOps (dbAnswered ph i ans w) = issuedOps w"
  "j \<noteq> i \<Longrightarrow> j \<in> dbFunctions (dbAnswered ph i ans w) \<longleftrightarrow> j \<in> dbFunctions w" "j \<noteq> i \<Longrightarrow> j \<in> leaked (dbAnswered ph i ans w) \<longleftrightarrow> j \<in> leaked w"
  by (auto simp: dbAnswered_def split: pgPhase.split option.split)

text \<open>The two ways a task goes on, for one instance.\<close>

lemma inst_ok_settle:
  assumes "inst_ok b d (t # ts) isOpen f l p done asked"
    and "\<not> b \<Longrightarrow> isOpen' = (case t_op t of Setup _ \<Rightarrow> isOpen \<or> ok | Teardown \<Rightarrow> isOpen \<and> \<not> ok)"
    and "\<not> b \<and> isOpen' \<longrightarrow> f'" "f' \<longrightarrow> isOpen' \<or> b \<or> l' \<or> p" "d \<longrightarrow> \<not> isOpen'"
  shows "inst_ok b d ts isOpen' f' l' p (done @ [(t_op t, ok)]) asked"
proof -
  have "ts \<noteq> [] \<longrightarrow> t_phase (hd ts) = Ready \<and> phase_ok (t_op (hd ts)) Ready" "list_all (\<lambda>t. t_phase t = Ready) (tl ts)"
    using assms(1) by (cases ts; simp add: inst_ok_def phase_ok_def split: pgOp.split)+
  moreover have "\<not> b \<and> \<not> d \<longrightarrow> isOpen' = specOpen (done @ [(t_op t, ok)]) False"
    using assms(1,2) by (cases "t_op t") (auto simp: inst_ok_def specOpen_append)
  ultimately show ?thesis using assms(1,3-5) unfolding inst_ok_def by (intro conjI) (simp_all, blast+)
qed

lemma inst_ok_go:
  assumes "inst_ok b d (t # ts) isOpen f l p done asked"
    and "phase_ok (t_op t) ph" "ph \<in> {CreatingFunction, Listening, CreatingTrigger, CleaningUp} \<longrightarrow> \<not> isOpen" "ph = Dropping \<and> \<not> b \<longrightarrow> isOpen"
    "ph \<in> {Listening, CreatingTrigger} \<longrightarrow> f'" "\<not> b \<and> isOpen \<longrightarrow> f'"
    "f' \<longrightarrow> isOpen \<or> b \<or> l \<or> p \<or> ph \<in> {Listening, CreatingTrigger, CleaningUp}"
  shows "inst_ok b d (t\<lparr>t_phase := ph\<rparr> # ts) isOpen f' l p done asked"
  using assms by (simp add: inst_ok_def)

lemma inst_ok_head:
  assumes "inst_ok b d (t # ts) isOpen f l p done asked"
  shows "t_phase t \<in> {CreatingFunction, Listening, CreatingTrigger, CleaningUp} \<Longrightarrow> \<not> isOpen"
    "t_phase t = Dropping \<Longrightarrow> \<not> b \<Longrightarrow> isOpen" "t_phase t \<in> {Listening, CreatingTrigger} \<Longrightarrow> f" "\<not> b \<Longrightarrow> isOpen \<Longrightarrow> f"
    "t_phase t \<notin> {Listening, CreatingTrigger, CleaningUp} \<Longrightarrow> f \<Longrightarrow> isOpen \<or> b \<or> l \<or> p" "phase_ok (t_op t) (t_phase t)"
    "d \<Longrightarrow> \<not> isOpen \<and> t_op t = Teardown"
  using assms by (auto simp: inst_ok_def)

lemma settle_own:
  assumes "inst_ok b d (t # ts) isOpen f l p (opsOf i (settledOps s)) asked" and "tasks i s = t # ts"
    and "\<not> b \<Longrightarrow> i \<in> set (open_instances s) \<longleftrightarrow> (case t_op t of Setup _ \<Rightarrow> isOpen \<or> ok | Teardown \<Rightarrow> isOpen \<and> \<not> ok)"
    and "\<not> b \<and> i \<in> set (open_instances s) \<longrightarrow> f'" "f' \<longrightarrow> i \<in> set (open_instances s) \<or> b \<or> l' \<or> p" "d \<longrightarrow> i \<notin> set (open_instances s)"
  shows "inst_ok b d (tasks i (settleOp i ok s)) (i \<in> set (open_instances (settleOp i ok s))) f' l' p (opsOf i (settledOps (settleOp i ok s))) asked"
  using inst_ok_settle [OF assms(1,3-6)] by (simp add: tasks_settle [OF assms(2)] settledOps_settle [OF assms(2)])

lemma go_own:
  assumes "inst_ok b d (t # ts) isOpen f l p (opsOf i (settledOps s)) asked" and "tasks i s = t # ts" and "i \<in> set (open_instances s) \<longleftrightarrow> isOpen"
    and "phase_ok (t_op t) ph" "ph \<in> {CreatingFunction, Listening, CreatingTrigger, CleaningUp} \<longrightarrow> \<not> isOpen" "ph = Dropping \<and> \<not> b \<longrightarrow> isOpen"
    "ph \<in> {Listening, CreatingTrigger} \<longrightarrow> f'" "\<not> b \<and> isOpen \<longrightarrow> f'"
    "f' \<longrightarrow> isOpen \<or> b \<or> l \<or> p \<or> ph \<in> {Listening, CreatingTrigger, CleaningUp}"
  shows "inst_ok b d (tasks i (goPhase i ph s)) (i \<in> set (open_instances (goPhase i ph s))) f' l p (opsOf i (settledOps (goPhase i ph s))) asked"
  using inst_ok_go [OF assms(1,4-9)] by (simp add: tasks_goPhase [OF assms(2)] assms(3))

lemma resume_own:
  assumes inv: "inst_ok b d (t # ts) isOpen (i \<in> dbFunctions w) (i \<in> leaked w) p (opsOf i (settledOps s)) asked"
    and t: "tasks i s = t # ts" "t_phase t \<noteq> Ready" and o: "i \<in> set (open_instances s) \<longleftrightarrow> isOpen" and b: "b \<and> t_phase t \<noteq> InitUpdate \<longrightarrow> ans = None"
  shows "inst_ok b d (tasks i (resumeOp i ans s)) (i \<in> set (open_instances (resumeOp i ans s))) (i \<in> dbFunctions (dbAnswered (t_phase t) i ans w))
     (i \<in> leaked (dbAnswered (t_phase t) i ans w)) p (opsOf i (settledOps (resumeOp i ans s))) asked"
proof (cases "t_op t")
  case (Setup sid)
  note h = inst_ok_head [OF inv]
  have nd: "\<not> d" using h(7) Setup by auto
  have k: "phase_ok (t_op t) ph \<longleftrightarrow> ph \<noteq> Dropping" for ph by (simp add: phase_ok_def Setup)
  have r: "resumeOp i ans s = resumeSetup i sid (t_phase t) ans s" by (simp add: resumeOp_def t(1) Setup)
  note defs = resumeSetup_def setupFailed_def setupPgNotify_def dbAnswered_def Let_def
  have stop: "inst_ok b d (tasks i (settleOp i ok s')) (i \<in> set (open_instances (settleOp i ok s'))) f' l' p (opsOf i (settledOps (settleOp i ok s'))) asked"
    if "tasks i s' = t # ts" "settledOps s' = settledOps s" "i \<in> set (open_instances s') \<longleftrightarrow> isOpen \<or> ok" "\<not> b \<and> (isOpen \<or> ok) \<longrightarrow> f'"
      "f' \<longrightarrow> isOpen \<or> ok \<or> b \<or> l' \<or> p" for ok s' f' l'
    by (rule settle_own [where t = t and ts = ts and isOpen = isOpen]) (use inv that nd in \<open>auto simp: Setup\<close>)
  have go: "inst_ok b d (tasks i (goPhase i ph s')) (i \<in> set (open_instances (goPhase i ph s'))) f' l' p (opsOf i (settledOps (goPhase i ph s'))) asked"
    if "l' \<longleftrightarrow> i \<in> leaked w" "tasks i s' = t # ts" "settledOps s' = settledOps s" "open_instances s' = open_instances s" "ph \<noteq> Dropping"
      "ph \<in> {CreatingFunction, Listening, CreatingTrigger, CleaningUp} \<longrightarrow> \<not> isOpen" "ph \<in> {Listening, CreatingTrigger} \<longrightarrow> f'"
      "\<not> b \<and> isOpen \<longrightarrow> f'" "f' \<longrightarrow> isOpen \<or> b \<or> i \<in> leaked w \<or> p \<or> ph \<in> {Listening, CreatingTrigger, CleaningUp}" for ph s' f' l'
    unfolding that(1) by (rule go_own [where t = t and ts = ts and isOpen = isOpen]) (use inv that o k in \<open>simp_all\<close>)
  show ?thesis
  proof (cases "t_phase t")
    case InitQuery
    then show ?thesis unfolding r using h(4,5)
      by (cases ans) (simp_all only: defs pgPhase.case option.case prod.case, (rule stop go; simp add: t o)+)
  next
    case InitUpdate
    have "resumeSetup i sid InitUpdate ans s = (if ans = None then settleOp i False s
        else if isOpen then settleOp i True (s\<lparr>listeners := listeners s @ [sid]\<rparr>)
        else goPhase i CreatingFunction (pg_query (CreateFunction i (k_col (ps_key (pgSubs s ! sid)))) (s\<lparr>listeners := listeners s @ [sid]\<rparr>)))"
      by (cases ans) (simp_all add: defs o)
    moreover have "dbAnswered InitUpdate i ans w = w" by (simp add: dbAnswered_def)
    ultimately show ?thesis unfolding r InitUpdate using h(4,5) InitUpdate
      by (simp only: split: if_split) (intro conjI impI; rule stop go; simp add: t o)
  next
    case CreatingFunction
    then show ?thesis unfolding r using h(1,4,5) b
      by (cases ans) (simp_all only: defs pgPhase.case option.case prod.case, (rule stop go; simp add: t o)+)
  next
    case Listening
    then show ?thesis unfolding r using h(1,3,4,5) b
      by (cases ans) (simp_all only: defs pgPhase.case option.case prod.case, (rule stop go; simp add: t o)+)
  next
    case CreatingTrigger
    then show ?thesis unfolding r using h(1,3,4,5) b
      by (cases ans) (simp_all only: defs pgPhase.case option.case prod.case, (rule stop go; simp add: t o)+)
  next
    case CleaningUp
    then show ?thesis unfolding r using h(1,4)
      by (cases ans) (simp_all only: defs pgPhase.case option.case prod.case, (rule stop go; simp add: t o)+)
  qed (use t h(6) k in simp_all)
next
  case Teardown
  note h = inst_ok_head [OF inv]
  have d: "t_phase t = Dropping" using h(6) t(2) by (simp add: phase_ok_def Teardown)
  have r: "resumeOp i ans s = resumeTeardown i ans s" by (simp add: resumeOp_def t(1) Teardown)
  show ?thesis
  proof (cases ans)
    case None
    show ?thesis unfolding r unfolding d None resumeTeardown_def dbAnswered_def option.case prod.case pgPhase.case
      by (rule settle_own [OF inv]) (use h d t o Teardown in simp_all)
  next
    case (Some rows)
    with b d have "\<not> b" by simp
    show ?thesis unfolding r unfolding d Some resumeTeardown_def dbAnswered_def option.case prod.case pgPhase.case
      by (rule settle_own [where t = t and ts = ts and isOpen = isOpen]) (use h d t o inv Teardown \<open>\<not> b\<close> in simp_all)
  qed
qed

lemma start_own:
  assumes inv: "inst_ok b d (t # ts) isOpen f l p (opsOf i (settledOps s)) asked"
    and t: "tasks i s = t # ts" "t_phase t = Ready" and o: "i \<in> set (open_instances s) \<longleftrightarrow> isOpen"
  shows "inst_ok b d (tasks i (startOp i s)) (i \<in> set (open_instances (startOp i s))) f l p (opsOf i (settledOps (startOp i s))) asked"
proof -
  note h = inst_ok_head [OF inv]
  consider sid ph s' where "t_op t = Setup sid" "startOp i s = goPhase i ph s'" "ph = InitQuery \<or> ph = InitUpdate"
      "tasks i s' = t # ts" "settledOps s' = settledOps s" "open_instances s' = open_instances s"
    | "t_op t = Teardown" "\<not> isOpen" "startOp i s = settleOp i True s"
    | q where "t_op t = Teardown" "isOpen" "startOp i s = goPhase i Dropping (pg_query q s)"
    using t(1) o by (cases "t_op t"; cases "ps_history (pgSubs s ! (case t_op t of Setup sid \<Rightarrow> sid | Teardown \<Rightarrow> 0))")
      (auto simp: startOp_def Let_def)
  then show ?thesis
  proof cases
    case 1
    have "inst_ok b d (tasks i (goPhase i ph s')) (i \<in> set (open_instances (goPhase i ph s'))) f l p (opsOf i (settledOps (goPhase i ph s'))) asked"
      by (rule go_own [where t = t and ts = ts and isOpen = isOpen and f = f]) (use inv 1 o h(4,5) t(2) in \<open>auto simp: phase_ok_def\<close>)
    then show ?thesis unfolding 1(2) .
  next
    case 2
    show ?thesis unfolding 2(3) by (rule settle_own [OF inv t(1)]) (use 2 o h(4,5) t(2) in simp_all)
  next
    case 3
    show ?thesis unfolding 3(3)
      by (rule go_own [where t = t and ts = ts and isOpen = isOpen and f = f]) (use inv 3 o h(4) t in \<open>simp_all add: phase_ok_def\<close>)
  qed
qed

lemma pg_inv_start:
  assumes "pg_inv w" and t: "tasks i (svc w) = t # ts" "t_phase t = Ready"
  shows "pg_inv (w\<lparr>svc := startOp i (svc w)\<rparr>)" (is "pg_inv ?w")
proof (rule pg_inv_local [OF assms(1), where i = i])
  have "drained (svc ?w) = drained (svc w) \<and> droppingAll i (svc ?w) = droppingAll i (svc w)" by (rule runs_fields) simp
  with start_own [OF pg_inv_inst [OF assms(1), of i, unfolded t(1)] t refl] show "inst_at ?w i" by simp
qed (use t in \<open>simp_all add: startOp_def Let_def opsOf_settle split: pgOp.split\<close>)

lemma pg_inv_answer:
  assumes "pg_inv w" and t: "tasks i (svc w) = t # ts" "t_phase t \<noteq> Ready" and b: "broken (svc w) \<and> t_phase t \<noteq> InitUpdate \<longrightarrow> ans = None"
  shows "pg_inv (dbAnswered (t_phase t) i ans (w\<lparr>svc := resumeOp i ans (svc w)\<rparr>))" (is "pg_inv ?w")
proof (rule pg_inv_local [OF assms(1), where i = i])
  have d: "drained (svc ?w) = drained (svc w) \<and> droppingAll i (svc ?w) = droppingAll i (svc w)" by (rule runs_fields) simp
  note inv = pg_inv_inst [OF assms(1), of i, unfolded t(1)]
  have f: "dbFunctions ?w = dbFunctions (dbAnswered (t_phase t) i ans w)" "leaked ?w = leaked (dbAnswered (t_phase t) i ans w)"
    by (auto simp: dbAnswered_def split: pgPhase.split option.split)
  show "inst_at ?w i" using resume_own [OF inv t refl b] d f by simp
qed simp_all

lemma pg_inv_core:
  assumes "pg_inv w" "sameCore (svc w) s"
  shows "pg_inv (w\<lparr>svc := s\<rparr>)"
  using assms by (simp add: pg_inv_def sameCore_tasks [OF assms(2)]) (simp add: sameCore_def drained_def droppingAll_def)

lemma inst_ok_broken:
  assumes "inst_ok b d ts isOpen f l p done asked"
  shows "inst_ok True d ts False f l p done asked"
  using assms by (simp add: inst_ok_def)

lemma pg_inv_failure: "pg_inv w \<Longrightarrow> pg_inv (w\<lparr>svc := clientError (svc w)\<rparr>)"
  using inst_ok_broken by (simp add: pg_inv_def clientError_def drained_def droppingAll_def) blast

lemma pg_inv_shutdown:
  assumes "pg_inv w"
  shows "pg_inv (w\<lparr>svc := pg_shutdown (svc w)\<rparr>)"
proof -
  have "drained (pg_shutdown (svc w)) = drained (svc w)" "droppingAll i (pg_shutdown (svc w)) = droppingAll i (svc w)" for i
    by (auto simp: drained_def droppingAll_def pg_shutdown_def)
  with assms show ?thesis by (simp add: pg_inv_def) (simp add: pg_shutdown_def)
qed

lemma set_update_keeps: "y \<in> set xs \<Longrightarrow> y \<noteq> xs ! n \<Longrightarrow> y \<in> set (xs[n := x])"
  by (metis in_set_conv_nth length_list_update nth_list_update_neq)

lemma pg_inv_ready:
  assumes inv: "pg_inv w" and n: "n < length (downRuns (svc w))" "downRuns (svc w) ! n = Waiting"
  shows "pg_inv (w\<lparr>svc := shutdownReady n (svc w)\<rparr>)"
proof (cases "instance_ops (svc w) = []")
  case False
  then show ?thesis using inv by (simp add: shutdownReady_def)
next
  case True
  let ?w = "w\<lparr>svc := shutdownReady n (svc w)\<rparr>"
  have t: "tasks i (svc w) = []" for i using True by (simp add: tasks_def)
  have dr: "downRuns (svc ?w) = (downRuns (svc w))[n := (if open_instances (svc w) = [] then Ended else DroppingAll (open_instances (svc w)))]"
    and f: "open_instances (svc ?w) = []" "broken (svc ?w) = broken (svc w)" "settledOps (svc ?w) = settledOps (svc w)" "shutting_down (svc ?w) = shutting_down (svc w)"
    and t': "tasks i (svc ?w) = []" for i
    using True by (simp_all add: shutdownReady_def t)
  have d: "drained (svc ?w)" unfolding drained_def dr using set_update_memI [OF n(1)] by force
  have p: "droppingAll i (svc ?w)" if "droppingAll i (svc w) \<or> i \<in> set (open_instances (svc w))" for i
  proof (cases "i \<in> set (open_instances (svc w))")
    case True
    then have "open_instances (svc w) \<noteq> []" by auto
    with True show ?thesis unfolding droppingAll_def dr using set_update_memI [OF n(1)] by auto
  next
    case False
    with that obtain js where "DroppingAll js \<in> set (downRuns (svc w))" "i \<in> set js" by (auto simp: droppingAll_def)
    with n(2) set_update_keeps show ?thesis unfolding droppingAll_def dr by (metis pgDown.distinct(1))
  qed
  have "inst_at ?w i" for i
    using pg_inv_inst [OF inv, of i] d p [of i] unfolding f t' t by (simp add: inst_ok_def) blast
  then show ?thesis using inv f dr n by (auto simp: pg_inv_def)
qed

lemma drained_head:
  assumes "inst_ok b True ts isOpen f l p done asked"
  shows "\<not> isOpen" "ts \<noteq> [] \<Longrightarrow> t_phase (hd ts) = Ready \<or> t_phase (hd ts) = Dropping"
proof -
  show "\<not> isOpen" using assms by (simp add: inst_ok_def)
  assume "ts \<noteq> []"
  then obtain t ts' where ts: "ts = t # ts'" by (cases ts) auto
  with inst_ok_head(6,7) [of b True t ts' isOpen f l p "done" asked] assms show "t_phase (hd ts) = Ready \<or> t_phase (hd ts) = Dropping"
    by (simp add: phase_ok_def)
qed

lemma inst_ok_drained:
  assumes "inst_ok b True ts isOpen f l p done asked" and "f' \<longrightarrow> b \<or> l' \<or> p'"
  shows "inst_ok b True ts isOpen f' l' p' done asked"
proof (cases ts)
  case (Cons t ts')
  with drained_head [OF assms(1)] have "\<not> isOpen" "t_phase t = Ready \<or> t_phase t = Dropping" by simp_all
  then show ?thesis using assms unfolding Cons inst_ok_def by (elim disjE) (simp_all, auto)
qed (use assms in \<open>simp add: inst_ok_def\<close>)

lemma inst_ok_function:
  assumes "inst_ok b True ts isOpen f l p done asked" and f
  shows "b \<or> l \<or> p"
proof -
  have "f \<longrightarrow> isOpen \<or> b \<or> l \<or> p \<or> ts \<noteq> [] \<and> t_phase (hd ts) \<in> {Listening, CreatingTrigger, CleaningUp}" using assms(1) unfolding inst_ok_def by (elim conjE)
  with assms(2) drained_head [OF assms(1)] show ?thesis by fastforce
qed

lemma pg_inv_dropped:
  assumes inv: "pg_inv w" and n: "n < length (downRuns (svc w))" "downRuns (svc w) ! n = DroppingAll is" "broken (svc w) \<longrightarrow> ans = None"
  shows "pg_inv (dbDropped is ans (w\<lparr>svc := shutdownDropped n ans (svc w)\<rparr>))" (is "pg_inv ?w")
proof -
  have dr: "downRuns (svc ?w) = (downRuns (svc w))[n := (case ans of Some _ \<Rightarrow> Ended | None \<Rightarrow> DropFailed)]"
    and f: "open_instances (svc ?w) = open_instances (svc w)" "broken (svc ?w) = broken (svc w)" "settledOps (svc ?w) = settledOps (svc w)"
      "shutting_down (svc ?w) = shutting_down (svc w)" "issuedOps ?w = issuedOps w"
    and t: "tasks i (svc ?w) = tasks i (svc w)" for i
    by (simp_all add: shutdownDropped_def dbDropped_def split: option.split)
  have d: "drained (svc w)" using n nth_mem [OF n(1)] by (auto simp: drained_def)
  have d': "drained (svc ?w)" unfolding drained_def dr using set_update_memI [OF n(1)] by (auto split: option.split)
  have p: "droppingAll i (svc ?w) \<or> i \<in> set is" if "droppingAll i (svc w)" for i
  proof -
    from that obtain js where j: "DroppingAll js \<in> set (downRuns (svc w))" "i \<in> set js" by (auto simp: droppingAll_def)
    show ?thesis
    proof (cases "js = is")
      case False
      with j(1) n(2) have "DroppingAll js \<in> set (downRuns (svc ?w))" unfolding dr by (intro set_update_keeps) auto
      with j(2) show ?thesis by (auto simp: droppingAll_def)
    qed (use j(2) in simp)
  qed
  have "inst_at ?w i" for i
  proof -
    have i: "inst_ok (broken (svc w)) True (tasks i (svc w)) (i \<in> set (open_instances (svc w))) (i \<in> dbFunctions w) (i \<in> leaked w)
        (droppingAll i (svc w)) (opsOf i (settledOps (svc w))) (opsOf i (issuedOps w))"
      using pg_inv_inst [OF inv, of i] d by simp
    have "i \<in> dbFunctions ?w \<longrightarrow> broken (svc w) \<or> i \<in> leaked ?w \<or> droppingAll i (svc ?w)"
      using inst_ok_function [OF i] p [of i] by (cases ans) (auto simp: dbDropped_def)
    from inst_ok_drained [OF i this] d' show ?thesis unfolding f t by simp
  qed
  then show ?thesis using inv f dr n by (auto simp: pg_inv_def)
qed

lemma pg_inv_event: "pg_event w w' \<Longrightarrow> pg_inv w \<Longrightarrow> pg_inv w'"
proof (induction rule: pg_event.induct)
  case (subscribed i resource params w sid s)
  then have "\<not> shutting_down (svc w)" "\<exists>subs. s = chainInstanceOp i (Setup sid) ((svc w)\<lparr>pgSubs := subs\<rparr>)"
    by (auto simp: pg_subscribe_def split: if_splits sum.splits)
  with pg_inv_chain [OF subscribed.prems] show ?case by blast
next
  case (refused i resource params w e s)
  then have "s = svc w" by (auto simp: pg_subscribe_def split: if_splits sum.splits)
  with refused show ?case by simp
next
  case (unsubscribed w i)
  with pg_inv_chain [of w Teardown i "pgSubs (svc w)"] show ?case by (simp add: pg_unsubscribe_def)
next
  case (notify other channel payload w r s)
  then have "sameCore (svc w) s" by (auto simp: emitNotification_def reads_def intro: notifications_core)
  with notify show ?case by (simp add: pg_inv_core)
next
  case (change n w ident literal ans)
  then show ?case by (simp add: pg_inv_core resumeChange_core)
qed (blast intro: pg_inv_start pg_inv_answer pg_inv_failure pg_inv_shutdown pg_inv_ready pg_inv_dropped)+

lemma pg_reachable_inv: "pg_reachable w \<Longrightarrow> pg_inv w"
  by (induction rule: pg_reachable.induct) (auto intro: pg_inv_new pg_inv_event)


text \<open>
  C12: The operations of an instance take effect one after the other in the order of the calls, whatever the interleaving of the
  answers: those that have settled, followed by those that still run or wait, are the calls in their order; and as long as the
  connection is not broken and no shutdown has got past its wait, an instance is open exactly if the operations that have settled leave it so,
  where a subscription that succeeded opens it, an unsubscription that succeeded closes it, and what failed changes nothing.
\<close>

theorem instance_ops_in_order:
  assumes "pg_reachable w"
  shows "map fst (opsOf i (settledOps (svc w))) @ map t_op (tasks i (svc w)) = opsOf i (issuedOps w)
    \<and> (\<not> broken (svc w) \<longrightarrow> set (downRuns (svc w)) \<subseteq> {Waiting} \<longrightarrow>
         (i \<in> set (open_instances (svc w)) \<longleftrightarrow> specOpen (opsOf i (settledOps (svc w))) False))"
proof -
  have "inst_at w i" using pg_inv_inst [OF pg_reachable_inv [OF assms]] .
  moreover have "set (downRuns (svc w)) \<subseteq> {Waiting} \<Longrightarrow> \<not> drained (svc w)" by (auto simp: drained_def)
  ultimately show ?thesis unfolding inst_ok_def by blast
qed

text \<open>
  C13: While the connection holds, the set of open instances is true to the database: every open instance has its function there. Every function in the
  database belongs to an open instance, or to an operation that is under way or a shutdown that is dropping it, or a query that should have removed
  it was refused. Once every call of shutdown has ended, only what was refused is left.
\<close>

theorem channels_truthful:
  assumes "pg_reachable w" and "\<not> broken (svc w)"
  shows "set (open_instances (svc w)) \<subseteq> dbFunctions w
    \<and> (\<forall>i \<in> dbFunctions w. i \<in> set (open_instances (svc w)) \<or> tasks i (svc w) \<noteq> [] \<or> droppingAll i (svc w) \<or> i \<in> leaked w)
    \<and> (downRuns (svc w) \<noteq> [] \<and> set (downRuns (svc w)) \<subseteq> {Ended} \<longrightarrow> dbFunctions w \<subseteq> leaked w)"
proof -
  have inv: "inst_at w i" for i using pg_inv_inst [OF pg_reachable_inv [OF assms(1)]] .
  have "i \<in> leaked w" if d: "downRuns (svc w) \<noteq> []" "set (downRuns (svc w)) \<subseteq> {Ended}" and i: "i \<in> dbFunctions w" for i
  proof -
    obtain r rs where r: "downRuns (svc w) = r # rs" using d(1) by (cases "downRuns (svc w)") auto
    with d(2) have "drained (svc w)" by (auto simp: drained_def)
    then have "broken (svc w) \<or> i \<in> leaked w \<or> droppingAll i (svc w)" using inst_ok_function [of _ "tasks i (svc w)"] inv [of i] i by fastforce
    moreover have "\<not> droppingAll i (svc w)" using d(2) by (auto simp: droppingAll_def)
    ultimately show ?thesis using assms(2) by blast
  qed
  moreover have "i \<in> set (open_instances (svc w)) \<longrightarrow> i \<in> dbFunctions w"
    "i \<in> dbFunctions w \<longrightarrow> i \<in> set (open_instances (svc w)) \<or> tasks i (svc w) \<noteq> [] \<or> droppingAll i (svc w) \<or> i \<in> leaked w" for i
    using inv [of i] assms(2) unfolding inst_ok_def by blast+
  ultimately show ?thesis by blast
qed


section \<open>Listeners\<close>

text \<open>A subscription has its listener from the end of its first update on, unless its set-up fails.\<close>

definition registeredPhase :: "pgPhase \<Rightarrow> bool" where
  "registeredPhase ph \<longleftrightarrow> ph \<in> {CreatingFunction, Listening, CreatingTrigger, CleaningUp}"

definition registered :: "pgTask list \<Rightarrow> (pgOp \<times> bool) list \<Rightarrow> nat \<Rightarrow> bool" where
  "registered ts done sid \<longleftrightarrow> (Setup sid, True) \<in> set done \<or> (ts \<noteq> [] \<and> t_op (hd ts) = Setup sid \<and> registeredPhase (t_phase (hd ts)))"

definition sub_inv :: "pgWorld \<Rightarrow> bool" where
  "sub_inv w \<longleftrightarrow> (\<forall>i sid. (i, Setup sid) \<in> set (issuedOps w) \<longrightarrow> sid < length (pgSubs (svc w)) \<and> ps_instance (pgSubs (svc w) ! sid) = i)
     \<and> (\<forall>i. distinct (filter (\<lambda>x. x \<noteq> Teardown) (opsOf i (issuedOps w))))
     \<and> distinct (listeners (svc w))
     \<and> (\<forall>sid. sid \<in> set (listeners (svc w)) \<longleftrightarrow> (\<exists>i. registered (tasks i (svc w)) (opsOf i (settledOps (svc w))) sid))"

lemma in_opsOf: "x \<in> set (opsOf i log) \<longleftrightarrow> (i, x) \<in> set log"
  by (force simp: opsOf_def)

lemma only_result:
  "distinct (filter (\<lambda>x. x \<noteq> Teardown) (map fst xs)) \<Longrightarrow> (Setup sid, b) \<in> set xs \<Longrightarrow> (Setup sid, c) \<in> set xs \<Longrightarrow> b = c"
  by (induction xs) (auto simp: image_iff split: if_splits)

text \<open>The subscription whose task is at the head of an instance is registered nowhere else.\<close>

lemma head_registered:
  assumes "pg_inv w" "sub_inv w" and t: "tasks i (svc w) = t # ts" "t_op t = Setup sid"
  shows "sid \<in> set (listeners (svc w)) \<longleftrightarrow> registeredPhase (t_phase t)" "(Setup sid, ok) \<notin> set (opsOf i (settledOps (svc w)))"
    "Setup sid \<notin> t_op ` set ts" "j \<noteq> i \<Longrightarrow> \<not> registered (tasks j (svc w)) (opsOf j (settledOps (svc w))) sid"
proof -
  have asked: "map fst (opsOf j (settledOps (svc w))) @ map t_op (tasks j (svc w)) = opsOf j (issuedOps w)" for j
    using pg_inv_inst [OF assms(1), of j] by (simp add: inst_ok_def)
  have "distinct (filter (\<lambda>x. x \<noteq> Teardown) (map fst (opsOf i (settledOps (svc w))) @ Setup sid # map t_op ts))"
    using assms(2) asked [of i, unfolded t(1)] t(2) by (simp add: sub_inv_def)
  then have d: "Setup sid \<notin> fst ` set (opsOf i (settledOps (svc w)))" "Setup sid \<notin> t_op ` set ts" by (auto simp: image_iff)
  then show "(Setup sid, ok) \<notin> set (opsOf i (settledOps (svc w)))" "Setup sid \<notin> t_op ` set ts" for ok by force+
  have "Setup sid \<in> set (opsOf i (issuedOps w))" unfolding asked [symmetric] t(1) using t(2) by simp
  then have "(i, Setup sid) \<in> set (issuedOps w)" by (simp add: in_opsOf)
  then have i: "ps_instance (pgSubs (svc w) ! sid) = i" using assms(2) by (simp add: sub_inv_def)
  have other: "\<not> registered (tasks j (svc w)) (opsOf j (settledOps (svc w))) sid" if "j \<noteq> i" for j
  proof
    assume "registered (tasks j (svc w)) (opsOf j (settledOps (svc w))) sid"
    then have "Setup sid \<in> set (map fst (opsOf j (settledOps (svc w))) @ map t_op (tasks j (svc w)))"
      by (cases "tasks j (svc w)") (force simp: registered_def)+
    then have "(j, Setup sid) \<in> set (issuedOps w)" unfolding asked by (simp add: in_opsOf)
    then have "ps_instance (pgSubs (svc w) ! sid) = j" using assms(2) by (simp add: sub_inv_def)
    with i that show False by simp
  qed
  then show "j \<noteq> i \<Longrightarrow> \<not> registered (tasks j (svc w)) (opsOf j (settledOps (svc w))) sid" .
  have "registered (tasks i (svc w)) (opsOf i (settledOps (svc w))) sid \<longleftrightarrow> registeredPhase (t_phase t)"
    using d(1) t by (force simp: registered_def)
  with other show "sid \<in> set (listeners (svc w)) \<longleftrightarrow> registeredPhase (t_phase t)" using assms(2) unfolding sub_inv_def by metis
qed

text \<open>What an answer does to the listeners: the subscription is registered afterwards or it is not.\<close>

definition listenersNow :: "bool \<Rightarrow> bool \<Rightarrow> nat \<Rightarrow> nat list \<Rightarrow> nat list" where
  "listenersNow before after sid ls = (if before = after then ls else if after then ls @ [sid] else filter (\<lambda>x. x \<noteq> sid) ls)"

lemma resume_listeners:
  assumes t: "tasks i s = t # ts" "t_op t = Setup sid" "t_phase t \<notin> {Ready, Dropping}"
  obtains r ph where "listeners (resumeOp i ans s) = listenersNow (registeredPhase (t_phase t)) r sid (listeners s)"
    "tasks i (resumeOp i ans s) = t\<lparr>t_phase := ph\<rparr> # ts \<and> registeredPhase ph = r \<and> settledOps (resumeOp i ans s) = settledOps s
      \<or> tasks i (resumeOp i ans s) = ts \<and> settledOps (resumeOp i ans s) = settledOps s @ [(i, Setup sid, r)]"
proof -
  have r: "resumeOp i ans s = resumeSetup i sid (t_phase t) ans s" using t by (simp add: resumeOp_def)
  note result = that [unfolded r]
  have go: thesis if e: "resumeSetup i sid (t_phase t) ans s = goPhase i ph s1" "tasks i s1 = t # ts" "settledOps s1 = settledOps s"
    "listeners s1 = listenersNow (registeredPhase (t_phase t)) (registeredPhase ph) sid (listeners s)" for ph s1
    by (rule result [of "registeredPhase ph" ph, unfolded e(1)]) (use e in \<open>simp_all add: tasks_goPhase [OF e(2)]\<close>)
  have stop: thesis if e: "resumeSetup i sid (t_phase t) ans s = settleOp i ok s1" "tasks i s1 = t # ts" "settledOps s1 = settledOps s"
    "listeners s1 = listenersNow (registeredPhase (t_phase t)) ok sid (listeners s)" for ok s1
    by (rule result [of ok Ready, unfolded e(1)]) (use e t(2) in \<open>simp_all add: tasks_settle [OF e(2)] settledOps_settle [OF e(2)]\<close>)
  note defs = resumeSetup_def setupFailed_def setupPgNotify_def Let_def registeredPhase_def listenersNow_def
  have fail: thesis if "ans = None" "t_phase t \<in> {CreatingFunction, Listening, CreatingTrigger}"
    by (rule go [of CleaningUp "pg_query (DropFunctions [i])
        (pg_error sid (js ''Error setting up Postgres change notifications for resource instance '' @ i @ js '':'') s)"])
      (use that t(1) in \<open>auto simp: defs simp del: js_simps\<close>)
  show thesis
  proof (cases "t_phase t")
    case InitUpdate
    show thesis
    proof (cases "ans = None \<or> i \<in> set (open_instances s)")
      case True
      with InitUpdate t(1) show thesis by (intro stop [of "ans \<noteq> None" "if ans = None then s else s\<lparr>listeners := listeners s @ [sid]\<rparr>"]) (auto simp: defs)
    next
      case False
      with InitUpdate t(1) show thesis
        by (intro go [of CreatingFunction "pg_query (CreateFunction i (k_col (ps_key (pgSubs s ! sid)))) (s\<lparr>listeners := listeners s @ [sid]\<rparr>)"]) (auto simp: defs)
    qed
  next
    case InitQuery
    show thesis
    proof (cases ans)
      case None
      with InitQuery t(1) show thesis by (intro stop [of False s]) (simp_all add: defs)
    next
      case (Some rows)
      with InitQuery t(1) show thesis
        by (intro go [of InitUpdate "pg_update sid (initEntries (k_col (ps_key (pgSubs s ! sid))) rows) True s"]) (simp_all add: defs)
    qed
  next
    case CreatingFunction
    show thesis
    proof (cases ans)
      case (Some rows)
      with CreatingFunction t(1) show thesis by (intro go [of Listening "pg_query (Listen i) s"]) (simp_all add: defs)
    qed (rule fail, simp_all add: CreatingFunction)
  next
    case Listening
    show thesis
    proof (cases ans)
      case (Some rows)
      with Listening t(1) show thesis
        by (intro go [of CreatingTrigger "pg_query (CreateTrigger i (ps_table (pgSubs s ! sid))) s"]) (simp_all add: defs)
    qed (rule fail, simp_all add: Listening)
  next
    case CreatingTrigger
    show thesis
    proof (cases ans)
      case (Some rows)
      with CreatingTrigger t(1) show thesis
        by (intro stop [of True "s\<lparr>open_instances := (if i \<in> set (open_instances s) then open_instances s else open_instances s @ [i])\<rparr>"]) (simp_all add: defs)
    qed (rule fail, simp_all add: CreatingTrigger)
  next
    case CleaningUp
    with t(1) show thesis by (intro stop [of False "s\<lparr>listeners := filter (\<lambda>x. x \<noteq> sid) (listeners s)\<rparr>"]) (auto simp: defs)
  qed (use t(3) in simp_all)
qed


lemma sub_inv_move:
  assumes inv: "sub_inv w" and same: "sameOthers i (svc w) (svc w')" "issuedOps w' = issuedOps w"
    and ls: "listeners (svc w') = listenersNow before after sid (listeners (svc w))" and before: "before \<longleftrightarrow> sid \<in> set (listeners (svc w))"
    and alone: "\<And>j. j \<noteq> i \<Longrightarrow> \<not> registered (tasks j (svc w)) (opsOf j (settledOps (svc w))) sid"
    and own: "\<And>x. registered (tasks i (svc w')) (opsOf i (settledOps (svc w'))) x \<longleftrightarrow>
      (if x = sid then after else registered (tasks i (svc w)) (opsOf i (settledOps (svc w))) x)"
  shows "sub_inv w'"
proof -
  let ?r = "\<lambda>w j. registered (tasks j (svc w)) (opsOf j (settledOps (svc w)))"
  have o: "?r w' j x \<longleftrightarrow> ?r w j x" if "j \<noteq> i" for j x using same(1) that by (simp add: sameOthers_def)
  have "x \<in> set (listeners (svc w')) \<longleftrightarrow> (if x = sid then after else x \<in> set (listeners (svc w)))" for x
    using before by (auto simp: ls listenersNow_def)
  moreover have "(\<exists>j. ?r w' j x) \<longleftrightarrow> (if x = sid then after else \<exists>j. ?r w j x)" for x
    using o own alone by metis
  moreover have "distinct (listeners (svc w'))" using inv before by (auto simp: ls listenersNow_def sub_inv_def)
  moreover have "pgSubs (svc w') = pgSubs (svc w)" using same(1) by (simp add: sameOthers_def)
  ultimately show ?thesis using inv same(2) by (simp add: sub_inv_def)
qed

lemma sub_inv_same:
  assumes inv: "sub_inv w" and same: "sameOthers i (svc w) (svc w')" "issuedOps w' = issuedOps w" "listeners (svc w') = listeners (svc w)"
    and own: "\<And>x. registered (tasks i (svc w')) (opsOf i (settledOps (svc w'))) x \<longleftrightarrow> registered (tasks i (svc w)) (opsOf i (settledOps (svc w))) x"
  shows "sub_inv w'"
proof -
  have "registered (tasks j (svc w')) (opsOf j (settledOps (svc w'))) x \<longleftrightarrow> registered (tasks j (svc w)) (opsOf j (settledOps (svc w))) x" for j x
    using same(1) own by (cases "j = i") (simp_all add: sameOthers_def)
  moreover have "pgSubs (svc w') = pgSubs (svc w)" using same(1) by (simp add: sameOthers_def)
  ultimately show ?thesis using inv same(2,3) by (simp add: sub_inv_def)
qed

lemma registered_next: "list_all (\<lambda>t. t_phase t = Ready) ts \<Longrightarrow> registered ts done x \<longleftrightarrow> (Setup x, True) \<in> set done"
  by (cases ts) (auto simp: registered_def registeredPhase_def)

lemma sub_inv_answer:
  assumes inv: "pg_inv w" "sub_inv w" and t: "tasks i (svc w) = t # ts" "t_phase t \<noteq> Ready"
  shows "sub_inv (dbAnswered (t_phase t) i ans (w\<lparr>svc := resumeOp i ans (svc w)\<rparr>))" (is "sub_inv ?w")
proof -
  have rdy: "list_all (\<lambda>t. t_phase t = Ready) ts" using pg_inv_inst [OF inv(1), of i, unfolded t(1)] by (simp add: inst_ok_def)
  have ok: "phase_ok (t_op t) (t_phase t)" using inst_ok_head(6) [OF pg_inv_inst [OF inv(1), of i, unfolded t(1)]] .
  have same: "sameOthers i (svc w) (svc ?w)" using sameOthers_resume by simp
  show ?thesis
  proof (cases "t_op t")
    case (Setup sid)
    note h = head_registered [OF inv t(1) Setup]
    have "t_phase t \<notin> {Ready, Dropping}" using ok t(2) Setup by (simp add: phase_ok_def)
    from resume_listeners [OF t(1) Setup this, of ans] obtain r ph where
      ls: "listeners (svc ?w) = listenersNow (registeredPhase (t_phase t)) r sid (listeners (svc w))" and
      nx: "tasks i (svc ?w) = t\<lparr>t_phase := ph\<rparr> # ts \<and> registeredPhase ph = r \<and> settledOps (svc ?w) = settledOps (svc w)
        \<or> tasks i (svc ?w) = ts \<and> settledOps (svc ?w) = settledOps (svc w) @ [(i, Setup sid, r)]" by auto
    have own: "registered (tasks i (svc ?w)) (opsOf i (settledOps (svc ?w))) x \<longleftrightarrow>
        (if x = sid then r else registered (tasks i (svc w)) (opsOf i (settledOps (svc w))) x)" for x
      using nx
    proof (elim disjE conjE)
      assume "tasks i (svc ?w) = t\<lparr>t_phase := ph\<rparr> # ts" "registeredPhase ph = r" "settledOps (svc ?w) = settledOps (svc w)"
      then show ?thesis using h(2) [of True] t(1) Setup by (auto simp: registered_def)
    next
      assume e: "tasks i (svc ?w) = ts" "settledOps (svc ?w) = settledOps (svc w) @ [(i, Setup sid, r)]"
      show ?thesis unfolding e registered_next [OF rdy] using h(2) [of True] t(1) Setup by (auto simp: registered_def)
    qed
    show ?thesis by (rule sub_inv_move [OF inv(2) same _ ls _ h(4) own]) (simp_all add: h(1))
  next
    case Teardown
    show ?thesis
    proof (rule sub_inv_same [OF inv(2) same])
      show "registered (tasks i (svc ?w)) (opsOf i (settledOps (svc ?w))) x \<longleftrightarrow> registered (tasks i (svc w)) (opsOf i (settledOps (svc w))) x" for x
        using rdy t(1) Teardown by (cases ans) (simp_all add: resumeOp_def resumeTeardown_def op_effects registered_next, simp_all add: registered_def)
    qed (use t(1) Teardown in \<open>simp_all add: resumeOp_def resumeTeardown_def split: option.split\<close>)
  qed
qed

lemma startOp_listeners [simp]: "listeners (startOp i s) = listeners s"
  by (auto simp: startOp_def Let_def split: list.split pgOp.split)

lemma sub_inv_start:
  assumes inv: "pg_inv w" "sub_inv w" and t: "tasks i (svc w) = t # ts" "t_phase t = Ready"
  shows "sub_inv (w\<lparr>svc := startOp i (svc w)\<rparr>)" (is "sub_inv ?w")
proof (rule sub_inv_same [OF inv(2)])
  have rdy: "list_all (\<lambda>t. t_phase t = Ready) ts" using pg_inv_inst [OF inv(1), of i, unfolded t(1)] by (simp add: inst_ok_def)
  show "sameOthers i (svc w) (svc ?w)" using t(1)
    by (auto simp: startOp_def Let_def intro!: sameOthers_intros sameOthers_then split: pgOp.split)
  show "registered (tasks i (svc ?w)) (opsOf i (settledOps (svc ?w))) x \<longleftrightarrow> registered (tasks i (svc w)) (opsOf i (settledOps (svc w))) x" for x
    using t rdy registered_next [of ts] by (cases "t_op t") (auto simp: startOp_def Let_def op_effects registered_def registeredPhase_def)
qed simp_all

lemma sub_inv_chain:
  assumes "sub_inv w" and new: "oper = Setup sid \<Longrightarrow> sid = length (pgSubs (svc w)) \<and> subs = pgSubs (svc w) @ [sub] \<and> ps_instance sub = i"
    and old: "oper = Teardown \<Longrightarrow> subs = pgSubs (svc w)" and k: "oper = Setup sid \<or> oper = Teardown"
  shows "sub_inv (w\<lparr>svc := chainInstanceOp i oper ((svc w)\<lparr>pgSubs := subs\<rparr>), issuedOps := issuedOps w @ [(i, oper)]\<rparr>)" (is "sub_inv ?w")
proof -
  have "registered (tasks j (svc ?w)) (opsOf j (settledOps (svc ?w))) x \<longleftrightarrow> registered (tasks j (svc w)) (opsOf j (settledOps (svc w))) x" for j x
    by (cases "tasks i (svc w)") (auto simp: registered_def registeredPhase_def)
  moreover have "Setup (length (pgSubs (svc w))) \<notin> set (opsOf j (issuedOps w))" for j using assms(1) by (auto simp: sub_inv_def in_opsOf)
  ultimately show ?thesis using assms(1) k new old by (auto simp: sub_inv_def nth_append less_Suc_eq)
qed

lemma sub_inv_core:
  assumes "sub_inv w" and "listeners s = listeners (svc w)" "pgSubs s = pgSubs (svc w)" "settledOps s = settledOps (svc w)" "instance_ops s = instance_ops (svc w)"
    and "svc w' = s" "issuedOps w' = issuedOps w"
  shows "sub_inv w'"
  using assms by (simp add: sub_inv_def tasks_def)

lemma sub_inv_event: "pg_event w w' \<Longrightarrow> pg_inv w \<Longrightarrow> sub_inv w \<Longrightarrow> sub_inv w'"
proof (induction rule: pg_event.induct)
  case (subscribed i resource params w sid s)
  then obtain key where "sid = length (pgSubs (svc w))"
    "s = chainInstanceOp i (Setup sid) ((svc w)\<lparr>pgSubs := pgSubs (svc w) @ [\<lparr>ps_instance = i, ps_table = resource, ps_key = key, ps_history = syncHistoricData params\<rparr>]\<rparr>)"
    by (auto simp: pg_subscribe_def split: if_splits sum.splits)
  then show ?case by (simp only:) (rule sub_inv_chain [OF subscribed.prems(2), where sid = "length (pgSubs (svc w))"
      and sub = "\<lparr>ps_instance = i, ps_table = resource, ps_key = key, ps_history = syncHistoricData params\<rparr>"], simp_all)
next
  case (refused i resource params w e s)
  then have "s = svc w" by (auto simp: pg_subscribe_def split: if_splits sum.splits)
  with refused show ?case by simp
next
  case (unsubscribed w i)
  have "sub_inv (w\<lparr>svc := chainInstanceOp i Teardown ((svc w)\<lparr>pgSubs := pgSubs (svc w)\<rparr>), issuedOps := issuedOps w @ [(i, Teardown)]\<rparr>)"
    by (rule sub_inv_chain [OF unsubscribed(2)]) simp_all
  then show ?case by (simp add: pg_unsubscribe_def)
next
  case (notify other channel payload w r s)
  then have "sameCore (svc w) s" by (auto simp: emitNotification_def reads_def intro: notifications_core)
  then have "listeners s = listeners (svc w)" "pgSubs s = pgSubs (svc w)" "settledOps s = settledOps (svc w)" "instance_ops s = instance_ops (svc w)"
    by (simp_all add: sameCore_def)
  from sub_inv_core [OF notify.prems(2) this] show ?case by simp
next
  case (change n w ident literal ans)
  have "sameCore (svc w) (resumeChange ident literal n ans (svc w))" by (rule resumeChange_core)
  then show ?case by - (rule sub_inv_core [OF change.prems(2)], simp_all add: sameCore_def)
next
  case (failure w)
  then show ?case by - (rule sub_inv_core [of w "clientError (svc w)"], simp_all add: clientError_def)
next
  case (shutdown w)
  then show ?case by - (rule sub_inv_core [of w "pg_shutdown (svc w)"], simp_all add: pg_shutdown_def)
next
  case (shutdown_ready n w)
  then show ?case by - (rule sub_inv_core [of w "shutdownReady n (svc w)"], simp_all add: shutdownReady_def)
next
  case (shutdown_dropped n w "is" ans)
  then show ?case by - (rule sub_inv_core [of w "shutdownDropped n ans (svc w)"], simp_all add: shutdownDropped_def dbDropped_def split: option.split)
qed (blast intro: sub_inv_start sub_inv_answer)+

lemma sub_reachable_inv: "pg_reachable w \<Longrightarrow> sub_inv w"
proof (induction rule: pg_reachable.induct)
  case init
  show ?case by (simp add: sub_inv_def newWorld_def newPG_def tasks_def registered_def)
next
  case (step w w')
  then show ?case using sub_inv_event pg_reachable_inv by blast
qed

text \<open>
  C14: A subscription that succeeded has one listener for notifications and one that failed has none, whatever happened
  before, in between and since to its instance; a call that has not settled has one exactly from the end of its first update on.
\<close>

theorem listeners_match:
  assumes "pg_reachable w"
  shows "distinct (listeners (svc w))
    \<and> (\<forall>(i, oper, ok) \<in> set (settledOps (svc w)). \<forall>sid. oper = Setup sid \<longrightarrow> (sid \<in> set (listeners (svc w)) \<longleftrightarrow> ok))
    \<and> (\<forall>i t ts sid. tasks i (svc w) = t # ts \<and> t_op t = Setup sid \<longrightarrow> (sid \<in> set (listeners (svc w)) \<longleftrightarrow> registeredPhase (t_phase t)))"
proof -
  note inv = pg_reachable_inv [OF assms] sub_reachable_inv [OF assms]
  have "sid \<in> set (listeners (svc w)) \<longleftrightarrow> ok" if s: "(i, Setup sid, ok) \<in> set (settledOps (svc w))" for i sid ok
  proof -
    have asked: "map fst (opsOf j (settledOps (svc w))) @ map t_op (tasks j (svc w)) = opsOf j (issuedOps w)" for j
      using pg_inv_inst [OF inv(1), of j] by (simp add: inst_ok_def)
    have d: "distinct (filter (\<lambda>x. x \<noteq> Teardown) (map fst (opsOf i (settledOps (svc w))) @ map t_op (tasks i (svc w))))"
      using inv(2) unfolding asked by (simp add: sub_inv_def)
    have so: "(Setup sid, ok) \<in> set (opsOf i (settledOps (svc w)))" using s by (simp add: in_opsOf)
    have only: "b = ok" if "(Setup sid, b) \<in> set (opsOf i (settledOps (svc w)))" for b
      using only_result [OF _ that so] d by simp
    have notask: "Setup sid \<notin> t_op ` set (tasks i (svc w))" using d so by force
    have inst: "j = i" if "registered (tasks j (svc w)) (opsOf j (settledOps (svc w))) sid" for j
    proof -
      have "Setup sid \<in> set (opsOf j (issuedOps w))" unfolding asked [symmetric] using that by (cases "tasks j (svc w)") (force simp: registered_def)+
      moreover have "Setup sid \<in> set (opsOf i (issuedOps w))" unfolding asked [symmetric] using so by force
      ultimately show ?thesis using inv(2) unfolding sub_inv_def in_opsOf by blast
    qed
    have "\<not> (tasks i (svc w) \<noteq> [] \<and> t_op (hd (tasks i (svc w))) = Setup sid)" using notask by (cases "tasks i (svc w)") auto
    then have "registered (tasks i (svc w)) (opsOf i (settledOps (svc w))) sid \<longleftrightarrow> (Setup sid, True) \<in> set (opsOf i (settledOps (svc w)))"
      unfolding registered_def by blast
    also have "\<dots> \<longleftrightarrow> ok" using so only [of True] by (cases ok) auto
    finally have "registered (tasks i (svc w)) (opsOf i (settledOps (svc w))) sid \<longleftrightarrow> ok" .
    then show ?thesis using inv(2) inst unfolding sub_inv_def by metis
  qed
  moreover have "distinct (listeners (svc w))" using inv(2) by (simp add: sub_inv_def)
  moreover have "sid \<in> set (listeners (svc w)) \<longleftrightarrow> registeredPhase (t_phase t)" if "tasks i (svc w) = t # ts \<and> t_op t = Setup sid" for i t ts sid
    using head_registered(1) [OF inv] that by blast
  ultimately show ?thesis by fastforce
qed


section \<open>A run, and what is left behind\<close>

text \<open>An instance is subscribed to without historic data and set up.\<close>

definition demo_params :: jv where
  "demo_params = JObj [(js ''key'', JObj [(js ''col'', JStr [2]), (js ''type'', JStr (js ''TEXT''))]), (js ''syncHistoricData'', JBool False)]"

definition pg_answered :: "jsstring \<Rightarrow> row list option \<Rightarrow> pgWorld \<Rightarrow> pgWorld" where
  "pg_answered i ans w = dbAnswered (t_phase (hd (tasks i (svc w)))) i ans (w\<lparr>svc := resumeOp i ans (svc w)\<rparr>)"

lemma reachable_answered:
  assumes "pg_reachable w" "tasks i (svc w) \<noteq> []" "t_phase (hd (tasks i (svc w))) \<noteq> Ready" "\<not> broken (svc w)"
  shows "pg_reachable (pg_answered i ans w)"
proof -
  obtain t ts where t: "tasks i (svc w) = t # ts" using assms(2) by (cases "tasks i (svc w)") auto
  have "pg_event w (dbAnswered (t_phase t) i ans (w\<lparr>svc := resumeOp i ans (svc w)\<rparr>))"
    by (rule pg_event.answer [OF t]) (use t assms in simp_all)
  with assms(1) show ?thesis unfolding pg_answered_def t by (auto intro: pg_reachable.step)
qed

definition demo_key_text :: pgKey where
  "demo_key_text = \<lparr>k_col = [2], k_type = js ''TEXT''\<rparr>"

lemma demo_valid: "validateKeyParam demo_params = Inr demo_key_text" "syncHistoricData demo_params = False"
  by (simp_all add: demo_params_def validateKeyParam_def syncHistoricData_def demo_key_text_def truthyJson_def)

definition demo_w1 :: pgWorld where
  "demo_w1 = newWorld\<lparr>svc := snd (pg_subscribe [1] [3] demo_params newPG), issuedOps := [([1], Setup 0)]\<rparr>"

definition demo_open :: pgWorld where
  "demo_open = pg_answered [1] (Some []) (pg_answered [1] (Some []) (pg_answered [1] (Some []) (pg_answered [1] (Some [])
     (demo_w1\<lparr>svc := startOp [1] (svc demo_w1)\<rparr>))))"

lemmas demo_eval = demo_open_def demo_w1_def pg_answered_def pg_subscribe_def demo_valid newWorld_def newPG_def chainInstanceOp_def startOp_def goPhase_def
  settleOp_def tasks_def resumeOp_def resumeSetup_def setupPgNotify_def dbAnswered_def pg_query_def pg_update_def Let_def

lemma demo_open_reachable: "pg_reachable demo_open"
proof -
  have "pg_event newWorld demo_w1"
    using pg_event.subscribed [of "[1]" "[3]" demo_params newWorld 0 "svc demo_w1"]
    by (simp add: demo_w1_def newWorld_def pg_subscribe_def newPG_def demo_valid)
  then have 1: "pg_reachable demo_w1" using pg_reachable.init pg_reachable.step by blast
  have "pg_event demo_w1 (demo_w1\<lparr>svc := startOp [1] (svc demo_w1)\<rparr>)"
    by (rule pg_event.start [of "[1]" _ "\<lparr>t_op = Setup 0, t_phase = Ready\<rparr>" "[]"]) (simp_all add: demo_eval)
  with 1 have "pg_reachable (demo_w1\<lparr>svc := startOp [1] (svc demo_w1)\<rparr>)" using pg_reachable.step by blast
  then show ?thesis unfolding demo_open_def by (intro reachable_answered) (simp_all add: demo_eval)
qed

lemma demo_open_fields:
  "open_instances (svc demo_open) = [[1]]" "settledOps (svc demo_open) = [([1], Setup 0, True)]" "tasks [1] (svc demo_open) = []" "broken (svc demo_open) = False"
  "dbFunctions demo_open = {[1]}" "downRuns (svc demo_open) = []" "listeners (svc demo_open) = [0]"
  by (simp_all add: demo_eval)

theorem instance_ops_in_order_witness:
  "pg_reachable demo_open \<and> opsOf [1] (issuedOps demo_open) = [Setup 0] \<and> [1] \<in> set (open_instances (svc demo_open))"
  using instance_ops_in_order [OF demo_open_reachable, of "[1]"] demo_open_reachable by (simp add: demo_open_fields)

theorem channels_truthful_witness:
  "pg_reachable demo_open \<and> \<not> broken (svc demo_open) \<and> set (open_instances (svc demo_open)) \<subseteq> dbFunctions demo_open \<and> dbFunctions demo_open = {[1]}"
  using channels_truthful [OF demo_open_reachable] demo_open_reachable by (simp add: demo_open_fields)

theorem listeners_match_witness:
  "pg_reachable demo_open \<and> ([1], Setup 0, True) \<in> set (settledOps (svc demo_open)) \<and> 0 \<in> set (listeners (svc demo_open))"
  using listeners_match [OF demo_open_reachable] demo_open_reachable by (simp add: demo_open_fields)

text \<open>An unsubscription leaves the listener of its subscription; a notification runs its query for every listener of the instance, also for those of
  subscriptions that ended.\<close>

lemma unsubscription_keeps_listener: "listeners (resumeTeardown i ans s) = listeners s" "t_op (hd (tasks i s)) = Teardown \<Longrightarrow> listeners (startOp i s) = listeners s"
  by (simp_all add: resumeTeardown_def split: option.split)

lemma every_listener_runs:
  assumes "\<forall>sid \<in> set ls. ps_instance (pgSubs s ! sid) = i \<and> k_type (ps_key (pgSubs s ! sid)) = js ''TEXT''" "i \<in> set (open_instances s)"
  shows "\<exists>s'. forEach ls (onNotification other i (Some text)) s = (Inr (), s') \<and> map fst (changesRun s') = map fst (changesRun s) @ ls"
  using assms
proof (induction ls arbitrary: s)
  case (Cons l ls)
  obtain r s1 where e: "onNotification other i (Some text) l s = (r, s1)" by (cases "onNotification other i (Some text) l s")
  have o: "r = Inr ()" "map fst (changesRun s1) = map fst (changesRun s) @ [l]"
    using e Cons.prems by (auto simp: onNotification_def reads_def Let_def andThen_def lift_def modifies_def pg_select_def pg_query_def simp del: js_simps)
  have c: "sameCore s s1" using onNotification_core [OF e] .
  then have "\<forall>sid \<in> set ls. ps_instance (pgSubs s1 ! sid) = i \<and> k_type (ps_key (pgSubs s1 ! sid)) = js ''TEXT''" "i \<in> set (open_instances s1)"
    using Cons.prems by (simp_all add: sameCore_def del: js_simps)
  from Cons.IH [OF this] e o show ?case by (auto simp: andThen_def)
qed (simp add: ret_def)

text \<open>A payload that is no valid key makes the handler of the notification throw, which nothing catches.\<close>

lemma invalid_key_escapes:
  assumes "listeners s = sid # ls" "ps_instance (pgSubs s ! sid) = i" "i \<in> set (open_instances s)"
    and "pg_select other (ps_key (pgSubs s ! sid)) (ps_table (pgSubs s ! sid)) text = Inl e"
  shows "emitNotification other i (Some text) s = (Inl e, s)"
  using assms by (simp add: emitNotification_def onNotification_def reads_def Let_def andThen_def lift_def)

end
