(* ===== verification/Wasm_Binding.thy ===== *)
theory Wasm_Binding
  imports Wasm_Utils Service_Callbacks Transactions
begin

text \<open>
  The service runtime over a compiled program: \<open>skipruntime-ts/wasm/src/internals/skipruntime_module.ts\<close>.

  \<open>WasmFromBinding\<close> gives the runtime the functions of the engine, \<open>LinksImpl\<close> gives the engine the callbacks of the runtime, and \<open>Manager\<close> binds
  them to the names the program imports. Strings cross as pointers into the memory of the program and are written and read by
  \<open>Wasm_Utils\<close>; a pointer to a JSON value is the value, as in \<open>Skjson\<close>, so that \<open>toPtr\<close> and \<open>toNullablePtr\<close> do nothing.

  The state is that of the running service whose engine is the host of the program. The exports of the program are an argument; they
  act on the whole state.
\<close>

section \<open>The runtime and the host of its engine\<close>

text \<open>The state of the runtime with another engine.\<close>

definition withEngine :: "'m \<Rightarrow> 'n core \<Rightarrow> 'm core" where
  "withEngine e s = heap.extend (heap.truncate s) (core.fields (handles s) (ctxStack s) (forkName s) (initializing s) (changes s) (definitions s)
     (nextDefinition s) (writers s) (nextWriter s) (deferred s) (nextPromise s) e)"

lemma withEngine_simps [simp]:
  "engine (withEngine e s) = e" "withEngine e (withEngine e' s) = withEngine e s" "withEngine (engine s) s = s"
  "forkName (withEngine e s) = forkName s" "handles (withEngine e s) = handles s"
  by (simp_all add: withEngine_def heap.defs core.defs)

type_synonym ('x, 'v) host = "('x, 'v) utils core"

type_synonym ('x, 'v) hutils = "('x, 'v, unit core) utils_scheme"

definition asUtils :: "('x, 'v) host \<Rightarrow> ('x, 'v) hutils" where
  "asUtils s = utils.extend (engine s) (withEngine () s)"

definition fromUtils :: "('x, 'v) hutils \<Rightarrow> ('x, 'v) host" where
  "fromUtils u = withEngine (utils.truncate u) (utils.more u)"

text \<open>A method of \<open>Utils\<close> on the state of the runtime.\<close>

definition hosted :: "(('x, 'v) hutils, 'a) js \<Rightarrow> (('x, 'v) host, 'a) js" where
  "hosted m s = (case m (asUtils s) of (r, u) \<Rightarrow> (r, fromUtils u))"

definition withString :: "('x, 'v) hutils Exported \<Rightarrow> jsstring \<Rightarrow> (nat \<Rightarrow> (('x, 'v) host, 'a) js) \<Rightarrow> (('x, 'v) host, 'a) js" where
  "withString ex s k = andThen (hosted (exportString ex s)) k"

definition withOptString :: "('x, 'v) hutils Exported \<Rightarrow> jsstring option \<Rightarrow> (nat option \<Rightarrow> (('x, 'v) host, 'a) js) \<Rightarrow> (('x, 'v) host, 'a) js" where
  "withOptString ex s k = (if truthy s then withString ex (the s) (\<lambda>p. k (Some p)) else k None)"

definition importedName :: "('x, 'v) hutils Exported \<Rightarrow> (('x, 'v) host, nat) js \<Rightarrow> (('x, 'v) host, jsstring) js" where
  "importedName ex m = andThen m (\<lambda>p. hosted (importString ex p))"

section \<open>The functions of the engine\<close>

record 'w FromWasm =
  fw_NonEmptyIterator_next :: "nat \<Rightarrow> ('w, cjson option) js"
  fw_createMapper :: "nat \<Rightarrow> ('w, nat) js"
  fw_createLazyCompute :: "nat \<Rightarrow> ('w, nat) js"
  fw_createExternalService :: "nat \<Rightarrow> ('w, nat) js"
  fw_CollectionWriter_update :: "nat \<Rightarrow> cjson \<Rightarrow> bool \<Rightarrow> ('w, cjson) js"
  fw_createResource :: "nat \<Rightarrow> ('w, nat) js"
  fw_createService :: "nat \<Rightarrow> ('w, nat) js"
  fw_Collection_getArray :: "nat \<Rightarrow> cjson \<Rightarrow> ('w, cjson) js"
  fw_Collection_map :: "nat \<Rightarrow> nat \<Rightarrow> ('w, nat) js"
  fw_Collection_mapReduce :: "nat \<Rightarrow> nat \<Rightarrow> nat \<Rightarrow> ('w, nat) js"
  fw_Collection_nativeMapReduce :: "nat \<Rightarrow> nat \<Rightarrow> nat \<Rightarrow> ('w, nat) js"
  fw_Collection_reduce :: "nat \<Rightarrow> nat \<Rightarrow> ('w, nat) js"
  fw_Collection_nativeReduce :: "nat \<Rightarrow> nat \<Rightarrow> ('w, nat) js"
  fw_Collection_slice :: "nat \<Rightarrow> cjson \<Rightarrow> ('w, nat) js"
  fw_Collection_take :: "nat \<Rightarrow> int \<Rightarrow> ('w, nat) js"
  fw_Collection_merge :: "nat \<Rightarrow> cjson \<Rightarrow> ('w, nat) js"
  fw_Collection_size :: "nat \<Rightarrow> ('w, int) js"
  fw_LazyCollection_getArray :: "nat \<Rightarrow> cjson \<Rightarrow> ('w, cjson) js"
  fw_createNotifier :: "nat \<Rightarrow> ('w, nat) js"
  fw_Runtime_createResource :: "nat \<Rightarrow> nat \<Rightarrow> cjson \<Rightarrow> ('w, cjson) js"
  fw_Runtime_getAll :: "nat \<Rightarrow> cjson \<Rightarrow> ('w, cjson) js"
  fw_Runtime_getForKey :: "nat \<Rightarrow> cjson \<Rightarrow> cjson \<Rightarrow> ('w, cjson) js"
  fw_Runtime_closeResource :: "nat \<Rightarrow> ('w, nat) js"
  fw_Runtime_subscribe :: "nat \<Rightarrow> nat \<Rightarrow> nat option \<Rightarrow> ('w, int) js"
  fw_Runtime_unsubscribe :: "nat \<Rightarrow> ('w, nat) js"
  fw_Runtime_update :: "nat \<Rightarrow> cjson \<Rightarrow> ('w, cjson) js"
  fw_Runtime_fork :: "nat \<Rightarrow> ('w, nat) js"
  fw_Runtime_forkExists :: "nat \<Rightarrow> ('w, int) js"
  fw_Runtime_merge :: "cjson \<Rightarrow> ('w, nat) js"
  fw_Runtime_abortFork :: "('w, nat) js"
  fw_Runtime_reload :: "nat \<Rightarrow> ('w, cjson) js"
  fw_Runtime_closeResourceStreams :: "cjson \<Rightarrow> ('w, nat) js"
  fw_createReducer :: "nat \<Rightarrow> ('w, nat) js"
  fw_initService :: "nat \<Rightarrow> ('w, cjson) js"
  fw_closeService :: "('w, int) js"
  fw_Context_createLazyCollection :: "nat \<Rightarrow> ('w, nat) js"
  fw_Context_jsonExtract :: "cjson \<Rightarrow> nat \<Rightarrow> ('w, cjson) js"
  fw_Context_useExternalResource :: "nat \<Rightarrow> nat \<Rightarrow> cjson \<Rightarrow> ('w, nat) js"

definition wasm_NonEmptyIterator_next :: "('x, 'v) hutils Exported \<Rightarrow> ('x, 'v) host FromWasm \<Rightarrow> nat \<Rightarrow> (('x, 'v) host, cjson option) js" where
  "wasm_NonEmptyIterator_next ex fw vs = fw_NonEmptyIterator_next fw vs"

definition wasm_createMapper :: "('x, 'v) hutils Exported \<Rightarrow> ('x, 'v) host FromWasm \<Rightarrow> nat \<Rightarrow> (('x, 'v) host, nat) js" where
  "wasm_createMapper ex fw ref = fw_createMapper fw ref"

definition wasm_createLazyCompute :: "('x, 'v) hutils Exported \<Rightarrow> ('x, 'v) host FromWasm \<Rightarrow> nat \<Rightarrow> (('x, 'v) host, nat) js" where
  "wasm_createLazyCompute ex fw ref = fw_createLazyCompute fw ref"


definition wasm_CollectionWriter_update :: "('x, 'v) hutils Exported \<Rightarrow> ('x, 'v) host FromWasm \<Rightarrow> jsstring \<Rightarrow> cjson \<Rightarrow> bool \<Rightarrow> (('x, 'v) host, cjson) js" where
  "wasm_CollectionWriter_update ex fw name vs isInit = withString ex name (\<lambda>p0. fw_CollectionWriter_update fw p0 vs isInit)"

definition wasm_createResource :: "('x, 'v) hutils Exported \<Rightarrow> ('x, 'v) host FromWasm \<Rightarrow> nat \<Rightarrow> (('x, 'v) host, nat) js" where
  "wasm_createResource ex fw ref = fw_createResource fw ref"

definition wasm_createService :: "('x, 'v) hutils Exported \<Rightarrow> ('x, 'v) host FromWasm \<Rightarrow> nat \<Rightarrow> (('x, 'v) host, nat) js" where
  "wasm_createService ex fw ref = fw_createService fw ref"

definition wasm_Collection_getArray :: "('x, 'v) hutils Exported \<Rightarrow> ('x, 'v) host FromWasm \<Rightarrow> jsstring \<Rightarrow> cjson \<Rightarrow> (('x, 'v) host, cjson) js" where
  "wasm_Collection_getArray ex fw collection key = withString ex collection (\<lambda>p0. fw_Collection_getArray fw p0 key)"

definition wasm_Collection_map :: "('x, 'v) hutils Exported \<Rightarrow> ('x, 'v) host FromWasm \<Rightarrow> jsstring \<Rightarrow> nat \<Rightarrow> (('x, 'v) host, jsstring) js" where
  "wasm_Collection_map ex fw collection mapper = withString ex collection (\<lambda>p0. importedName ex (fw_Collection_map fw p0 mapper))"

definition wasm_Collection_mapReduce :: "('x, 'v) hutils Exported \<Rightarrow> ('x, 'v) host FromWasm \<Rightarrow> jsstring \<Rightarrow> nat \<Rightarrow> nat \<Rightarrow> (('x, 'v) host, jsstring) js" where
  "wasm_Collection_mapReduce ex fw collection mapper reducer = withString ex collection (\<lambda>p0. importedName ex (fw_Collection_mapReduce fw p0 mapper reducer))"

definition wasm_Collection_nativeMapReduce :: "('x, 'v) hutils Exported \<Rightarrow> ('x, 'v) host FromWasm \<Rightarrow> jsstring \<Rightarrow> nat \<Rightarrow> jsstring \<Rightarrow> (('x, 'v) host, jsstring) js" where
  "wasm_Collection_nativeMapReduce ex fw collection mapper reducer = withString ex collection (\<lambda>p0. withString ex reducer (\<lambda>p2. importedName ex (fw_Collection_nativeMapReduce fw p0 mapper p2)))"

definition wasm_Collection_reduce :: "('x, 'v) hutils Exported \<Rightarrow> ('x, 'v) host FromWasm \<Rightarrow> jsstring \<Rightarrow> nat \<Rightarrow> (('x, 'v) host, jsstring) js" where
  "wasm_Collection_reduce ex fw collection reducer = withString ex collection (\<lambda>p0. importedName ex (fw_Collection_reduce fw p0 reducer))"

definition wasm_Collection_nativeReduce :: "('x, 'v) hutils Exported \<Rightarrow> ('x, 'v) host FromWasm \<Rightarrow> jsstring \<Rightarrow> jsstring \<Rightarrow> (('x, 'v) host, jsstring) js" where
  "wasm_Collection_nativeReduce ex fw collection reducer = withString ex collection (\<lambda>p0. withString ex reducer (\<lambda>p1. importedName ex (fw_Collection_nativeReduce fw p0 p1)))"

definition wasm_Collection_slice :: "('x, 'v) hutils Exported \<Rightarrow> ('x, 'v) host FromWasm \<Rightarrow> jsstring \<Rightarrow> cjson \<Rightarrow> (('x, 'v) host, jsstring) js" where
  "wasm_Collection_slice ex fw collection rng = withString ex collection (\<lambda>p0. importedName ex (fw_Collection_slice fw p0 rng))"

definition wasm_Collection_take :: "('x, 'v) hutils Exported \<Rightarrow> ('x, 'v) host FromWasm \<Rightarrow> jsstring \<Rightarrow> int \<Rightarrow> (('x, 'v) host, jsstring) js" where
  "wasm_Collection_take ex fw collection limit = withString ex collection (\<lambda>p0. importedName ex (fw_Collection_take fw p0 limit))"

definition wasm_Collection_merge :: "('x, 'v) hutils Exported \<Rightarrow> ('x, 'v) host FromWasm \<Rightarrow> jsstring \<Rightarrow> cjson \<Rightarrow> (('x, 'v) host, jsstring) js" where
  "wasm_Collection_merge ex fw collection others = withString ex collection (\<lambda>p0. importedName ex (fw_Collection_merge fw p0 others))"

definition wasm_Collection_size :: "('x, 'v) hutils Exported \<Rightarrow> ('x, 'v) host FromWasm \<Rightarrow> jsstring \<Rightarrow> (('x, 'v) host, int) js" where
  "wasm_Collection_size ex fw collection = withString ex collection (\<lambda>p0. fw_Collection_size fw p0)"

definition wasm_LazyCollection_getArray :: "('x, 'v) hutils Exported \<Rightarrow> ('x, 'v) host FromWasm \<Rightarrow> jsstring \<Rightarrow> cjson \<Rightarrow> (('x, 'v) host, cjson) js" where
  "wasm_LazyCollection_getArray ex fw collection key = withString ex collection (\<lambda>p0. fw_LazyCollection_getArray fw p0 key)"

definition wasm_createNotifier :: "('x, 'v) hutils Exported \<Rightarrow> ('x, 'v) host FromWasm \<Rightarrow> nat \<Rightarrow> (('x, 'v) host, nat) js" where
  "wasm_createNotifier ex fw ref = fw_createNotifier fw ref"

definition wasm_Runtime_createResource :: "('x, 'v) hutils Exported \<Rightarrow> ('x, 'v) host FromWasm \<Rightarrow> jsstring \<Rightarrow> jsstring \<Rightarrow> cjson \<Rightarrow> (('x, 'v) host, cjson) js" where
  "wasm_Runtime_createResource ex fw identifier resource params = withString ex identifier (\<lambda>p0. withString ex resource (\<lambda>p1. fw_Runtime_createResource fw p0 p1 params))"

definition wasm_Runtime_getAll :: "('x, 'v) hutils Exported \<Rightarrow> ('x, 'v) host FromWasm \<Rightarrow> jsstring \<Rightarrow> cjson \<Rightarrow> (('x, 'v) host, cjson) js" where
  "wasm_Runtime_getAll ex fw resource params = withString ex resource (\<lambda>p0. fw_Runtime_getAll fw p0 params)"

definition wasm_Runtime_getForKey :: "('x, 'v) hutils Exported \<Rightarrow> ('x, 'v) host FromWasm \<Rightarrow> jsstring \<Rightarrow> cjson \<Rightarrow> cjson \<Rightarrow> (('x, 'v) host, cjson) js" where
  "wasm_Runtime_getForKey ex fw resource params key = withString ex resource (\<lambda>p0. fw_Runtime_getForKey fw p0 params key)"

definition wasm_Runtime_closeResource :: "('x, 'v) hutils Exported \<Rightarrow> ('x, 'v) host FromWasm \<Rightarrow> jsstring \<Rightarrow> (('x, 'v) host, nat) js" where
  "wasm_Runtime_closeResource ex fw identifier = withString ex identifier (\<lambda>p0. fw_Runtime_closeResource fw p0)"

definition wasm_Runtime_subscribe :: "('x, 'v) hutils Exported \<Rightarrow> ('x, 'v) host FromWasm \<Rightarrow> jsstring \<Rightarrow> nat \<Rightarrow> jsstring option \<Rightarrow> (('x, 'v) host, int) js" where
  "wasm_Runtime_subscribe ex fw collection notifier watermark = withString ex collection (\<lambda>p0. withOptString ex watermark (\<lambda>p2. fw_Runtime_subscribe fw p0 notifier p2))"

definition wasm_Runtime_unsubscribe :: "('x, 'v) hutils Exported \<Rightarrow> ('x, 'v) host FromWasm \<Rightarrow> jsstring \<Rightarrow> (('x, 'v) host, nat) js" where
  "wasm_Runtime_unsubscribe ex fw i = withString ex i (\<lambda>p0. fw_Runtime_unsubscribe fw p0)"

definition wasm_Runtime_update :: "('x, 'v) hutils Exported \<Rightarrow> ('x, 'v) host FromWasm \<Rightarrow> jsstring \<Rightarrow> cjson \<Rightarrow> (('x, 'v) host, cjson) js" where
  "wasm_Runtime_update ex fw input vs = withString ex input (\<lambda>p0. fw_Runtime_update fw p0 vs)"

definition wasm_Runtime_fork :: "('x, 'v) hutils Exported \<Rightarrow> ('x, 'v) host FromWasm \<Rightarrow> jsstring \<Rightarrow> (('x, 'v) host, nat) js" where
  "wasm_Runtime_fork ex fw name = withString ex name (\<lambda>p0. fw_Runtime_fork fw p0)"

definition wasm_Runtime_forkExists :: "('x, 'v) hutils Exported \<Rightarrow> ('x, 'v) host FromWasm \<Rightarrow> jsstring \<Rightarrow> (('x, 'v) host, bool) js" where
  "wasm_Runtime_forkExists ex fw name = withString ex name (\<lambda>p0. andThen (fw_Runtime_forkExists fw p0) (\<lambda>r. ret (r \<noteq> 0)))"

definition wasm_Runtime_merge :: "('x, 'v) hutils Exported \<Rightarrow> ('x, 'v) host FromWasm \<Rightarrow> cjson \<Rightarrow> (('x, 'v) host, nat) js" where
  "wasm_Runtime_merge ex fw ignore = fw_Runtime_merge fw ignore"

definition wasm_Runtime_abortFork :: "('x, 'v) hutils Exported \<Rightarrow> ('x, 'v) host FromWasm \<Rightarrow> (('x, 'v) host, nat) js" where
  "wasm_Runtime_abortFork ex fw = fw_Runtime_abortFork fw"

definition wasm_Runtime_reload :: "('x, 'v) hutils Exported \<Rightarrow> ('x, 'v) host FromWasm \<Rightarrow> nat \<Rightarrow> (('x, 'v) host, cjson) js" where
  "wasm_Runtime_reload ex fw service = fw_Runtime_reload fw service"

definition wasm_Runtime_closeResourceStreams :: "('x, 'v) hutils Exported \<Rightarrow> ('x, 'v) host FromWasm \<Rightarrow> cjson \<Rightarrow> (('x, 'v) host, nat) js" where
  "wasm_Runtime_closeResourceStreams ex fw streams = fw_Runtime_closeResourceStreams fw streams"

definition wasm_createReducer :: "('x, 'v) hutils Exported \<Rightarrow> ('x, 'v) host FromWasm \<Rightarrow> nat \<Rightarrow> (('x, 'v) host, nat) js" where
  "wasm_createReducer ex fw ref = fw_createReducer fw ref"

definition wasm_initService :: "('x, 'v) hutils Exported \<Rightarrow> ('x, 'v) host FromWasm \<Rightarrow> nat \<Rightarrow> (('x, 'v) host, cjson) js" where
  "wasm_initService ex fw service = fw_initService fw service"

definition wasm_closeService :: "('x, 'v) hutils Exported \<Rightarrow> ('x, 'v) host FromWasm \<Rightarrow> (('x, 'v) host, int) js" where
  "wasm_closeService ex fw = fw_closeService fw"

definition wasm_Context_createLazyCollection :: "('x, 'v) hutils Exported \<Rightarrow> ('x, 'v) host FromWasm \<Rightarrow> nat \<Rightarrow> (('x, 'v) host, jsstring) js" where
  "wasm_Context_createLazyCollection ex fw compute = importedName ex (fw_Context_createLazyCollection fw compute)"

definition wasm_Context_jsonExtract :: "('x, 'v) hutils Exported \<Rightarrow> ('x, 'v) host FromWasm \<Rightarrow> cjson \<Rightarrow> jsstring \<Rightarrow> (('x, 'v) host, cjson) js" where
  "wasm_Context_jsonExtract ex fw frm pattern = withString ex pattern (\<lambda>p1. fw_Context_jsonExtract fw frm p1)"

definition wasm_Context_useExternalResource :: "('x, 'v) hutils Exported \<Rightarrow> ('x, 'v) host FromWasm \<Rightarrow> jsstring \<Rightarrow> jsstring \<Rightarrow> cjson \<Rightarrow> (('x, 'v) host, jsstring) js" where
  "wasm_Context_useExternalResource ex fw service identifier params = withString ex service (\<lambda>p0. withString ex identifier (\<lambda>p1. importedName ex (fw_Context_useExternalResource fw p0 p1 params)))"

definition WasmFromBinding :: "json_env \<Rightarrow> nat \<Rightarrow> nat \<Rightarrow> ('x, 'v) hutils Exported \<Rightarrow> ('x, 'v) host FromWasm \<Rightarrow> ('x, 'v) host FromBinding" where
  "WasmFromBinding env depth refs ex fw = \<lparr>b_json = env, b_depth = depth, b_refs = refs,
     b_openScope = hosted (andThen (modifies (\<lambda>w. w\<lparr>stddebug := []\<rparr>)) (\<lambda>_. SKIP_new_Obstack ex)),
     b_closeScope = (\<lambda>p. hosted (andThen (SKIP_destroy_Obstack ex p) (\<lambda>_. flushDebug))),
     b_fork = wasm_Runtime_fork ex fw, b_merge = wasm_Runtime_merge ex fw, b_abortFork = wasm_Runtime_abortFork ex fw,
     b_forkExists = wasm_Runtime_forkExists ex fw, b_createService = wasm_createService ex fw, b_initService = wasm_initService ex fw,
     b_closeService = wasm_closeService ex fw, b_createResource = wasm_Runtime_createResource ex fw, b_getAll = wasm_Runtime_getAll ex fw,
     b_getForKey = wasm_Runtime_getForKey ex fw, b_closeResource = wasm_Runtime_closeResource ex fw, b_createNotifier = wasm_createNotifier ex fw,
     b_subscribe = wasm_Runtime_subscribe ex fw, b_unsubscribe = wasm_Runtime_unsubscribe ex fw, b_update = wasm_Runtime_update ex fw,
     b_reload = wasm_Runtime_reload ex fw, b_closeResourceStreams = wasm_Runtime_closeResourceStreams ex fw, b_writerUpdate = wasm_CollectionWriter_update ex fw,
     b_next = wasm_NonEmptyIterator_next ex fw, b_createMapper = wasm_createMapper ex fw, b_createLazyCompute = wasm_createLazyCompute ex fw,
     b_createReducer = wasm_createReducer ex fw, b_createResourceObject = wasm_createResource ex fw, b_collGetArray = wasm_Collection_getArray ex fw,
     b_collMap = wasm_Collection_map ex fw, b_collMapReduce = wasm_Collection_mapReduce ex fw, b_collNativeMapReduce = wasm_Collection_nativeMapReduce ex fw,
     b_collReduce = wasm_Collection_reduce ex fw, b_collNativeReduce = wasm_Collection_nativeReduce ex fw, b_collSlice = wasm_Collection_slice ex fw,
     b_collTake = wasm_Collection_take ex fw, b_collMerge = wasm_Collection_merge ex fw, b_collSize = wasm_Collection_size ex fw,
     b_lazyGetArray = wasm_LazyCollection_getArray ex fw, b_createLazyCollection = wasm_Context_createLazyCollection ex fw, b_jsonExtract = wasm_Context_jsonExtract ex fw,
     b_useExternalResource = wasm_Context_useExternalResource ex fw\<rparr>"

section \<open>Scopes\<close>

text \<open>The scopes of the runtime are those of \<open>Utils\<close>: its \<open>runWithGC\<close> is \<open>runWithGc\<close> of the host, when leaving a scope does not fail.\<close>

definition unhosted :: "(('x, 'v) host, 'a) js \<Rightarrow> (('x, 'v) hutils, 'a) js" where
  "unhosted m u = (case m (fromUtils u) of (r, s) \<Rightarrow> (r, asUtils s))"

lemma runtime_scopes:
  assumes "\<And>p w. \<exists>w'. SKIP_destroy_Obstack ex p w = (Inr (), w')"
  shows "runWithGC (WasmFromBinding env depth refs ex fw) fn s = hosted (runWithGc ex ret (unhosted fn)) s"
proof -
  obtain p u where p: "SKIP_new_Obstack ex ((asUtils s)\<lparr>stddebug := []\<rparr>) = (p, u)" by fastforce
  obtain r s1 where r: "fn (fromUtils u) = (r, s1)" by fastforce
  show ?thesis
  proof (cases p)
    case (Inl e)
    then show ?thesis using p by (simp add: runWithGC_def runWithGc_def WasmFromBinding_def hosted_def andThen_def modifies_def)
  next
    case (Inr q)
    obtain v where v: "SKIP_destroy_Obstack ex q (asUtils s1) = (Inr (), v)" using assms by blast
    show ?thesis using p Inr r v
      by (cases r) (simp_all add: runWithGC_def runWithGc_def WasmFromBinding_def hosted_def unhosted_def andThen_def modifies_def tryCatch_def tryFinally_def flushDebug_def ret_def throw_def)
  qed
qed

section \<open>Strings in the memory of the program\<close>

lemma utils_parts [simp]: "utils.truncate (utils.extend e x) = e" "utils.more (utils.extend e x) = x" "utils.extend (utils.truncate u) (utils.more u) = u"
  by (cases e, simp add: utils.defs) (simp add: utils.defs, cases u, simp add: utils.defs)

lemma withEngine_unit [simp]: "withEngine () (s :: unit core) = s"
  using withEngine_simps(3) [of s] by simp

lemma asUtils_fromUtils [simp]: "asUtils (fromUtils u) = u" "fromUtils (asUtils s) = s"
  by (simp_all add: asUtils_def fromUtils_def)




definition sameHost :: "('x, 'v, 'm) utils_scheme \<Rightarrow> ('x, 'v, 'm) utils_scheme \<Rightarrow> bool" where
  "sameHost w v \<longleftrightarrow> v = w\<lparr>memory := memory v, native := native v\<rparr>"





lemma sameHost_refl [simp]: "sameHost w w"
  by (simp add: sameHost_def)













section \<open>The strings of the calls\<close>















section \<open>The callbacks of the engine\<close>






















































end
