(* ===== verification/Skdb_Cli.thy ===== *)
theory Skdb_Cli
  imports JS_Strings
begin

text \<open>
  The command line of the database: \<open>sql/ts/src/skdb-cli.ts\<close>.

  The program runs from its first to its last line; a step of it continues or ends the process. What is printed is a list of messages. The terminal is
  the list of lines that will be typed, the standard input a text, and the file of credentials a text or missing. The local and the remote database are
  arguments, as are \<open>JSON.parse\<close> on the texts it is given here and the base 64 encoding. The arguments are those that \<open>parseArgs\<close> of Node has found.
  Names of hosts, databases and keys are other than those every object inherits (\<open>__proto__\<close>, \<open>constructor\<close>, \<open>toString\<close> and the other properties of
  \<open>Object.prototype\<close>): the objects here have only properties of their own.
\<close>

section \<open>Arguments\<close>

type_synonym cell = "jsstring json"
type_synonym cliRow = "(jsstring \<times> cell) list"

record argDef =
  d_key :: jsstring
  d_value :: "jsstring option"
  d_help :: jsstring
  d_default :: "jsstring option"

text \<open>\<open>default: false\<close> counts as no default.\<close>

definition flagDef :: "string \<Rightarrow> string \<Rightarrow> argDef" where
  "flagDef key help = \<lparr>d_key = js key, d_value = None, d_help = js help, d_default = None\<rparr>"

definition valueDef :: "string \<Rightarrow> string \<Rightarrow> string \<Rightarrow> argDef" where
  "valueDef key valName help = \<lparr>d_key = js key, d_value = Some (js valName), d_help = js help, d_default = None\<rparr>"

definition defaultHost :: jsstring where
  "defaultHost = js ''wss://api.skiplabs.io''"

definition argSchema :: "jsstring \<Rightarrow> argDef list" where
  "argSchema credsFileName =
    [flagDef ''help'' '''',
     valueDef ''db'' ''db'' ''Name of database to connect to.'',
     (valueDef ''host'' ''host'' ''URI to connect to.'')\<lparr>d_default := Some defaultHost\<rparr>,
     valueDef ''access-key'' ''key'' ''Access key to use. Default: first specified in credentials file.'',
     flagDef ''dev'' ''Connect to the local dev server, use this to access credentials.'',
     flagDef ''json-output'' ''Rows are output as JSON objects. Default: false.'',
     flagDef ''pipe-separated-output'' ''SQL output is separated by a pipe. Default: false.'',
     flagDef ''simple-output'' ''No cute terminal usage. E.g. no readline.'',
     (flagDef ''add-cred'' '''')\<lparr>d_help := js ''Add a credential to '' @ credsFileName @ js ''. Pass the private key b64 on stdin.''\<rparr>,
     valueDef ''create-db'' ''db'' ''Create database.'',
     flagDef ''create-user'' ''Create user.'',
     flagDef ''remote-repl'' ''Interactively execute SQL queries against the server.'',
     flagDef ''local-repl'' ''Interactively execute SQL queries against a local db.'',
     flagDef ''schema'' ''Dump the database schema as SQL DML.'',
     valueDef ''table-schema'' ''table'' ''Dump the table schema as SQL DML.'',
     valueDef ''view-schema'' ''view'' ''Dump the view schema as SQL DML.'']"

definition flagHelp :: "argDef \<Rightarrow> jsstring" where
  "flagHelp d = js ''[--'' @ d_key d @ (case d_value d of Some v \<Rightarrow> js '' <'' @ v @ js ''>'' | None \<Rightarrow> []) @ js '']''
     @ (if d_help d \<noteq> [] then js ''  -- '' @ d_help d else [])
     @ (case d_default d of Some v \<Rightarrow> js '' Default: '' @ v | None \<Rightarrow> [])"

record cliArgs =
  v_help :: bool
  v_db :: "jsstring option"
  v_host :: jsstring
  v_access_key :: "jsstring option"
  v_dev :: bool
  v_json_output :: bool
  v_pipe_separated_output :: bool
  v_add_cred :: bool
  v_create_db :: "jsstring option"
  v_create_user :: bool
  v_remote_repl :: bool
  v_local_repl :: bool
  v_schema :: bool
  v_table_schema :: "jsstring option"
  v_view_schema :: "jsstring option"

section \<open>State\<close>

datatype message = Log jsstring | ErrorLog jsstring | Trace js_error | LogObject jsstring "(jsstring \<times> jsstring) list" | Table "cliRow list"

text \<open>Credentials by host, database and access key; the credentials in use are those of the host and the database, or come from the dev server.\<close>

type_synonym keys = "(jsstring \<times> jsstring) list"
type_synonym creds = "(jsstring \<times> (jsstring \<times> keys) list) list"

record 'd cli =
  credsFile :: "jsstring option"
  creds :: creds
  devCreds :: keys
  input :: jsstring
  said :: "message list"
  database :: 'd

record 'd cliEnv =
  bin :: jsstring
  credsFileName :: jsstring
  parseCreds :: "jsstring \<Rightarrow> js_error + creds"
  parseUser :: "jsstring \<Rightarrow> js_error + jsstring \<times> jsstring"
  fetchText :: "jsstring \<Rightarrow> js_error + jsstring"
  base64 :: "bytes \<Rightarrow> jsstring"
  connect :: "jsstring \<Rightarrow> jsstring \<Rightarrow> jsstring \<Rightarrow> jsstring \<Rightarrow> ('d, unit) js"
  connected :: "'d \<Rightarrow> bool"
  createDatabase :: "jsstring \<Rightarrow> ('d, jsstring \<times> bytes) js"
  createUser :: "('d, jsstring \<times> bytes) js"
  remoteSchema :: "('d, jsstring) js"
  remoteTableSchema :: "jsstring \<Rightarrow> ('d, jsstring) js"
  remoteViewSchema :: "jsstring \<Rightarrow> ('d, jsstring) js"
  remoteExec :: "jsstring \<Rightarrow> ('d, cliRow list) js"
  localSchema :: "jsstring option \<Rightarrow> ('d, jsstring) js"
  localExec :: "jsstring \<Rightarrow> ('d, cliRow list) js"
  localMirror :: "jsstring list \<Rightarrow> ('d, unit) js"
  closeConnection :: "('d, unit) js"

definition say :: "message \<Rightarrow> ('d cli, unit) js" where
  "say m = modifies (\<lambda>s. s\<lparr>said := said s @ [m]\<rparr>)"

definition onDatabase :: "('d, 'a) js \<Rightarrow> ('d cli, 'a) js" where
  "onDatabase m s = (case m (database s) of (r, d) \<Rightarrow> (r, s\<lparr>database := d\<rparr>))"

text \<open>A step of the program: it goes on, or the process ends with a code.\<close>

datatype control = Continue | Exit int

definition thenStep :: "('d cli, control) js \<Rightarrow> ('d cli, control) js \<Rightarrow> ('d cli, control) js" where
  "thenStep m k = andThen m (\<lambda>c. case c of Continue \<Rightarrow> k | Exit n \<Rightarrow> ret (Exit n))"

definition go :: "('d cli, unit) js \<Rightarrow> ('d cli, control) js" where
  "go m = andThen m (\<lambda>_. ret Continue)"

definition sayAndExit :: "message \<Rightarrow> int \<Rightarrow> ('d cli, control) js" where
  "sayAndExit m n = andThen (say m) (\<lambda>_. ret (Exit n))"

section \<open>Usage\<close>

definition printHelp :: "'d cliEnv \<Rightarrow> ('d cli, unit) js" where
  "printHelp e =
     andThen (say (Log (js ''Usage: '' @ bin e @ js '' '' @ join ([newline] @ js ''    '') (map flagHelp (argSchema (credsFileName e)))))) (\<lambda>_.
     andThen (say (Log [])) (\<lambda>_.
     say (Log (js ''Anything passed on stdin will be evaluated as sql by the remote db.''))))"

definition usage :: "'d cliEnv \<Rightarrow> cliArgs \<Rightarrow> ('d cli, control) js" where
  "usage e a = (if v_help a \<or> v_db a = None then andThen (printHelp e) (\<lambda>_. ret (Exit 1)) else ret Continue)"

section \<open>Credentials\<close>

text \<open>An object with a property set, in the order of JavaScript.\<close>

definition setProp :: "jsstring \<Rightarrow> 'v \<Rightarrow> (jsstring \<times> 'v) list \<Rightarrow> (jsstring \<times> 'v) list" where
  "setProp k v kvs = own_order (amap_set k v kvs)"

text \<open>\<open>obj[k] ?? {}\<close>, for a name that is not inherited.\<close>

definition orEmptyObj :: "(jsstring \<times> 'v list) list \<Rightarrow> jsstring \<Rightarrow> 'v list" where
  "orEmptyObj kvs k = (case map_of kvs k of Some v \<Rightarrow> v | None \<Rightarrow> [])"

text \<open>\<open>s.split(sep, 2)\<close> at the first two separators.\<close>

fun split_at :: "jsstring \<Rightarrow> jsstring \<Rightarrow> jsstring \<times> jsstring option" where
  "split_at sep [] = ([], None)"
| "split_at sep (c # s) = (if take (length sep) (c # s) = sep then ([], Some (drop (length sep) (c # s)))
     else (case split_at sep s of (l, r) \<Rightarrow> (c # l, r)))"

definition split2 :: "jsstring \<Rightarrow> jsstring \<Rightarrow> jsstring \<times> jsstring option" where
  "split2 sep s = (case split_at sep s of (l, None) \<Rightarrow> (l, None) | (l, Some r) \<Rightarrow> (l, Some (fst (split_at sep r))))"

definition devHost :: "jsstring \<Rightarrow> jsstring" where
  "devHost h = (if h = defaultHost then js ''ws://localhost:3586'' else h)"

definition devPort :: "jsstring option \<Rightarrow> jsstring" where
  "devPort sport = (case sport of
     Some p \<Rightarrow> if p = [] then js ''3586'' else (case parseInt p of Some n \<Rightarrow> int_text n | None \<Rightarrow> js ''NaN'')
   | None \<Rightarrow> js ''3586'')"

definition usersUrl :: "jsstring \<Rightarrow> jsstring \<Rightarrow> jsstring \<Rightarrow> jsstring" where
  "usersUrl shost port dbName = js ''http://'' @ shost @ js '':'' @ port @ js ''/dbs/'' @ dbName @ js ''/users''"

fun parseUsers :: "(jsstring \<Rightarrow> js_error + jsstring \<times> jsstring) \<Rightarrow> jsstring list \<Rightarrow> js_error + keys" where
  "parseUsers parse [] = Inr []"
| "parseUsers parse (l # ls) = bindE (parse l) (\<lambda>u. bindE (parseUsers parse ls) (\<lambda>us. Inr (u # us)))"

definition getCredsFromDevServer :: "'d cliEnv \<Rightarrow> jsstring \<Rightarrow> jsstring \<Rightarrow> jsstring \<Rightarrow> ('d cli, control) js" where
  "getCredsFromDevServer e shost port dbName =
     (case bindE (fetchText e (usersUrl shost port dbName)) (\<lambda>data. parseUsers (parseUser e) (filter (\<lambda>l. trim l \<noteq> []) (lines_of data))) of
        Inl _ \<Rightarrow> sayAndExit (Log (js ''Could not fetch from the dev server, is it running? Trying because `--dev` was passed.'')) 1
      | Inr users \<Rightarrow> go (modifies (\<lambda>s. s\<lparr>devCreds := fromEntries users\<rparr>)))"

definition devCredentials :: "'d cliEnv \<Rightarrow> cliArgs \<Rightarrow> ('d cli, control) js" where
  "devCredentials e a =
     andThen (if v_add_cred a then say (Log (js ''Cannot add-cred when credentials are managed by the dev server (--dev was passed).'')) else skip) (\<lambda>_.
     let h = devHost (v_host a);
         rest = (case split2 (js ''://'') h of (l, Some r) \<Rightarrow> r | (l, None) \<Rightarrow> l)
     in case split2 (js '':'') rest of (shost, sport) \<Rightarrow> getCredsFromDevServer e shost (devPort sport) (the (v_db a)))"

definition stringifyCreds :: "creds \<Rightarrow> jsstring" where
  "stringifyCreds cs = JSON_stringify id (JObj (map (\<lambda>(h, dbs). (h, JObj (map (\<lambda>(d, ks). (d, JObj (map (\<lambda>(k, p). (k, JStr p)) ks))) dbs))) cs))"

text \<open>Reading the file also gives the host and the database their entries.\<close>

definition readCreds :: "'d cliEnv \<Rightarrow> cliArgs \<Rightarrow> ('d cli, unit) js" where
  "readCreds e a = reads (\<lambda>s.
     andThen (case credsFile s of None \<Rightarrow> ret [] | Some text \<Rightarrow> lift (parseCreds e text)) (\<lambda>cs.
     let hostCreds = orEmptyObj cs (v_host a)
     in modifies (\<lambda>s. s\<lparr>creds := setProp (v_host a) (setProp (the (v_db a)) (orEmptyObj hostCreds (the (v_db a))) hostCreds) cs\<rparr>)))"

definition dbCreds :: "cliArgs \<Rightarrow> 'd cli \<Rightarrow> keys" where
  "dbCreds a s = (if v_dev a then devCreds s else orEmptyObj (orEmptyObj (creds s) (v_host a)) (the (v_db a)))"

definition setKey :: "cliArgs \<Rightarrow> jsstring \<Rightarrow> jsstring \<Rightarrow> 'd cli \<Rightarrow> 'd cli" where
  "setKey a k v s = (let hostCreds = orEmptyObj (creds s) (v_host a) in
     s\<lparr>creds := setProp (v_host a) (setProp (the (v_db a)) (setProp k v (orEmptyObj hostCreds (the (v_db a)))) hostCreds) (creds s)\<rparr>)"

definition writeCreds :: "('d cli, unit) js" where
  "writeCreds = modifies (\<lambda>s. s\<lparr>credsFile := Some (stringifyCreds (creds s))\<rparr>)"

definition addCred :: "cliArgs \<Rightarrow> ('d cli, control) js" where
  "addCred a = (case v_access_key a of
     None \<Rightarrow> sayAndExit (Log (js ''Must pass --db --host and --access-key.'')) 1
   | Some k \<Rightarrow> andThen (modifies (\<lambda>s. setKey a (trim k) (trim (input s)) s)) (\<lambda>_. andThen writeCreds (\<lambda>_. ret (Exit 0))))"

definition fileCredentials :: "'d cliEnv \<Rightarrow> cliArgs \<Rightarrow> ('d cli, control) js" where
  "fileCredentials e a = andThen (readCreds e a) (\<lambda>_. if v_add_cred a then addCred a else ret Continue)"

definition credentials :: "'d cliEnv \<Rightarrow> cliArgs \<Rightarrow> ('d cli, control) js" where
  "credentials e a = (if v_dev a then devCredentials e a else fileCredentials e a)"

section \<open>Connecting\<close>

definition chosenKey :: "cliArgs \<Rightarrow> 'd cli \<Rightarrow> jsstring" where
  "chosenKey a s = (case v_access_key a of Some k \<Rightarrow> k | None \<Rightarrow> fst (hd (dbCreds a s)))"

definition connectHost :: "cliArgs \<Rightarrow> jsstring" where
  "connectHost a = (if v_dev a then devHost (v_host a) else v_host a)"

definition pickKey :: "'d cliEnv \<Rightarrow> cliArgs \<Rightarrow> ('d cli, control) js" where
  "pickKey e a = reads (\<lambda>s.
     if dbCreds a s = [] then sayAndExit (Log (js ''Could not find credentials for '' @ the (v_db a) @ js '' in '' @ credsFileName e)) 1
     else (case map_of (dbCreds a s) (chosenKey a s) of
             None \<Rightarrow> sayAndExit (Log (js ''Could not find private key for access key: '' @ chosenKey a s)) 1
           | Some p \<Rightarrow>
               if p = [] then sayAndExit (Log (js ''Could not find private key for access key: '' @ chosenKey a s)) 1
               else go (onDatabase (connect e (connectHost a) (the (v_db a)) (chosenKey a s) p))))"

text \<open>\<open>connectedRemote()\<close>, which may give no remote.\<close>

definition withRemote :: "'d cliEnv \<Rightarrow> ('d, 'a) js \<Rightarrow> ('d cli, 'a) js" where
  "withRemote e m = reads (\<lambda>s. if connected e (database s) then onDatabase m else throw (err ''No connected remote''))"

section \<open>Output\<close>

text \<open>The cell of a row; a value that is missing is an empty cell when it is joined.\<close>

definition cellText :: "cliRow \<Rightarrow> jsstring \<Rightarrow> jsstring" where
  "cellText row key = (case map_of row key of Some (JStr s) \<Rightarrow> s | Some v \<Rightarrow> JSON_stringify id v | None \<Rightarrow> [])"

definition pipeTable :: "cliRow list \<Rightarrow> jsstring" where
  "pipeTable rows = (let keys = map fst (hd rows) in
     join [newline] (join [0x7C] keys # map (\<lambda>row. join [0x7C] (map (cellText row) keys)) rows))"

definition display :: "cliArgs \<Rightarrow> cliRow list \<Rightarrow> ('d cli, unit) js" where
  "display a rows =
     (if v_json_output a then say (Log (join [newline] (map (\<lambda>row. JSON_stringify id (JObj row)) rows)))
      else if v_pipe_separated_output a then (if rows = [] then skip else say (Log (pipeTable rows)))
      else if rows = [] then skip else say (Table rows))"

section \<open>Operations\<close>

text \<open>\<open>Object.defineProperty(obj, key, text)\<close>: a text is no description of a property.\<close>

definition defineProperty :: "jsstring \<Rightarrow> jsstring \<Rightarrow> ('w, (jsstring \<times> jsstring) list) js" where
  "defineProperty key text = throw (JSError (js ''Property description must be an object: '' @ text))"

definition createDb :: "'d cliEnv \<Rightarrow> cliArgs \<Rightarrow> jsstring \<Rightarrow> ('d cli, unit) js" where
  "createDb e a name =
     andThen (withRemote e (createDatabase e name)) (\<lambda>(key, pk).
     andThen (defineProperty key (base64 e pk)) (\<lambda>newDbCreds.
     andThen (say (Log (js ''Successfully created database: '' @ name @ js ''.''))) (\<lambda>_.
     andThen (say (LogObject (js ''Credentials for '' @ name @ js '': '') newDbCreds)) (\<lambda>_.
     if v_dev a then skip
     else andThen (modifies (\<lambda>s. s\<lparr>creds := setProp (v_host a) (setProp name newDbCreds (orEmptyObj (creds s) (v_host a))) (creds s)\<rparr>)) (\<lambda>_.
          andThen writeCreds (\<lambda>_. say (Log (js ''Credentials were added to '' @ credsFileName e @ js ''.''))))))))"

definition createUserOp :: "'d cliEnv \<Rightarrow> cliArgs \<Rightarrow> ('d cli, unit) js" where
  "createUserOp e a =
     andThen (withRemote e (createUser e)) (\<lambda>(key, pk).
     andThen (defineProperty key (base64 e pk)) (\<lambda>newDbCreds.
     andThen (say (LogObject (js ''Successfully created user: '') newDbCreds)) (\<lambda>_.
     if v_dev a then skip
     else andThen (modifies (setKey a key (base64 e pk))) (\<lambda>_.
          andThen writeCreds (\<lambda>_. say (Log (js ''Credentials were added to '' @ credsFileName e @ js ''.'')))))))"

definition whenSome :: "jsstring option \<Rightarrow> (jsstring \<Rightarrow> ('d cli, unit) js) \<Rightarrow> ('d cli, control) js" where
  "whenSome v f = go (case v of Some x \<Rightarrow> if x = [] then skip else f x | None \<Rightarrow> skip)"

definition operations :: "'d cliEnv \<Rightarrow> cliArgs \<Rightarrow> ('d cli, control) js" where
  "operations e a =
     thenStep (whenSome (v_create_db a) (createDb e a))
     (thenStep (go (if v_create_user a then createUserOp e a else skip))
     (thenStep (go (if v_schema a then andThen (withRemote e (remoteSchema e)) (\<lambda>t. say (Log (trim t))) else skip))
     (thenStep (whenSome (v_table_schema a) (\<lambda>n. andThen (withRemote e (remoteTableSchema e n)) (\<lambda>t. say (Log (trim t)))))
     (whenSome (v_view_schema a) (\<lambda>n. andThen (withRemote e (remoteViewSchema e n)) (\<lambda>t. say (Log (trim t))))))))"

section \<open>The interactive sessions\<close>

datatype session = Remote | Local

datatype replNext = Stay | Switch session | Quit | Leave

text \<open>\<open>query.split(" ", 2)[1]\<close>\<close>

definition secondWord :: "jsstring \<Rightarrow> jsstring option" where
  "secondWord query = (case split1 blank query of _ # w # _ \<Rightarrow> Some w | _ \<Rightarrow> None)"

definition startsWith :: "jsstring \<Rightarrow> jsstring \<Rightarrow> bool" where
  "startsWith prefix s = (take (length prefix) s = prefix)"

definition sayAll :: "jsstring list \<Rightarrow> ('d cli, unit) js" where
  "sayAll ls = forEach ls (\<lambda>l. say (Log l))"

definition commandsBegin :: jsstring where
  "commandsBegin = js ''Commands begin with '' @ [0x27, 0x2E, 0x27]"

definition remoteHelp :: "jsstring list" where
  "remoteHelp = [js ''Send input to the server to be executed as a query.'', js ''Multi-statement queries should (currently) be combined on a single line.'', [],
     commandsBegin, [], js ''.help   -- This message.'', js ''.exit   -- Exit this repl session.'', js ''.local  -- Switch to local repl.'',
     js ''.schema -- Output the schema.'', js ''.table-schema <table> -- Output the schema <table>.'', js ''.view-schema <view> -- Output the schema for <view>.'']"

definition localHelp :: "jsstring list" where
  "localHelp = [js ''Evaluate input as a SQL query against a local database.'', [], commandsBegin, [], js ''.help -- This message.'',
     js ''.exit -- Exit this repl session.'', js ''.remote -- Switch to remote repl.'',
     js ''.js -- Switch to a javascript repl. There is a pre-configured `skdb` global. Currently this is a one-way trip.'',
     js ''.schema -- Output the schema.'', js ''.table-schema <table> -- Output the schema <table>.'', js ''.view-schema <view> -- Output the schema for <view>.'',
     js ''.mirror <table1> <table2> ... -- Mirror the remote tables.'']"

definition orReport :: "jsstring \<Rightarrow> bool \<Rightarrow> ('d cli, unit) js \<Rightarrow> ('d cli, replNext) js" where
  "orReport m withTrace f = andThen (tryCatch f (\<lambda>ex. andThen (say (ErrorLog m)) (\<lambda>_. if withTrace then say (Trace ex) else skip))) (\<lambda>_. ret Stay)"

definition printed :: "('d cli, jsstring) js \<Rightarrow> ('d cli, unit) js" where
  "printed m = andThen m (\<lambda>t. say (Log t))"

text \<open>The name after a schema command: without one the remote session ends with an error, outside of the \<open>try\<close>.\<close>

definition remoteNamed :: "'d cliEnv \<Rightarrow> jsstring \<Rightarrow> (jsstring \<Rightarrow> ('d, jsstring) js) \<Rightarrow> jsstring \<Rightarrow> ('d cli, replNext) js" where
  "remoteNamed e what f query = (case secondWord query of
     None \<Rightarrow> throw (JSError (js ''No '' @ what @ js '' name found in query: '' @ query))
   | Some n \<Rightarrow> orReport (js ''Could not find schema for '' @ n @ js ''.'') False (printed (withRemote e (f n))))"

definition remoteLine :: "'d cliEnv \<Rightarrow> cliArgs \<Rightarrow> jsstring \<Rightarrow> ('d cli, replNext) js" where
  "remoteLine e a query =
     (if trim query = js ''.exit'' then ret Quit
      else if trim query = js ''.help'' then andThen (sayAll remoteHelp) (\<lambda>_. ret Stay)
      else if trim query = js ''.local'' then ret (Switch Local)
      else if trim query = js ''.schema'' then orReport (js ''Could not query schema.'') True (printed (withRemote e (remoteSchema e)))
      else if startsWith (js ''.table-schema'') query then remoteNamed e (js ''table'') (remoteTableSchema e) query
      else if startsWith (js ''.view-schema'') query then remoteNamed e (js ''view'') (remoteViewSchema e) query
      else orReport (js ''Could not eval query. Try `.help`'') True (andThen (withRemote e (remoteExec e query)) (display a)))"

definition localNamed :: "'d cliEnv \<Rightarrow> jsstring \<Rightarrow> ('d cli, replNext) js" where
  "localNamed e query = (let n = secondWord query in
     orReport (js ''Could not find schema for '' @ (case n of Some x \<Rightarrow> x | None \<Rightarrow> js ''undefined'') @ js ''.'') False (printed (onDatabase (localSchema e n))))"

definition localLine :: "'d cliEnv \<Rightarrow> cliArgs \<Rightarrow> jsstring \<Rightarrow> ('d cli, replNext) js" where
  "localLine e a query =
     (if trim query = js ''.exit'' then ret Quit
      else if trim query = js ''.help'' then andThen (sayAll localHelp) (\<lambda>_. ret Stay)
      else if trim query = js ''.remote'' then ret (Switch Remote)
      else if trim query = js ''.js'' then ret Leave
      else if trim query = js ''.schema'' then orReport (js ''Could not query schema.'') True (printed (onDatabase (localSchema e None)))
      else if startsWith (js ''.table-schema'') query then localNamed e query
      else if startsWith (js ''.view-schema'') query then localNamed e query
      else if startsWith (js ''.mirror'') query then
        (let tables = tl (split1 blank query) in
         orReport (js ''Could not mirror tables '' @ join [0x2C] tables @ js ''.'') True (onDatabase (localMirror e tables)))
      else orReport (js ''Could not eval query. Try `.help`'') True (andThen (onDatabase (localExec e query)) (display a)))"

definition sessionLine :: "'d cliEnv \<Rightarrow> cliArgs \<Rightarrow> session \<Rightarrow> jsstring \<Rightarrow> ('d cli, replNext) js" where
  "sessionLine e a w query = (case w of Remote \<Rightarrow> remoteLine e a query | Local \<Rightarrow> localLine e a query)"

text \<open>
  The sessions, on the lines that are typed. When they are used up the remote session ends if the input is closed; otherwise the program
  waits for a line, which is \<open>None\<close>.
\<close>

fun repl :: "'d cliEnv \<Rightarrow> cliArgs \<Rightarrow> bool \<Rightarrow> session \<Rightarrow> jsstring list \<Rightarrow> ('d cli, control option) js" where
  "repl e a closed w [] = ret (if closed \<and> w = Remote then Some (Exit 0) else None)"
| "repl e a closed w (query # ls) = andThen (sessionLine e a w query) (\<lambda>n. case n of
     Stay \<Rightarrow> repl e a closed w ls
   | Switch v \<Rightarrow> repl e a closed v ls
   | Quit \<Rightarrow> ret (Some (Exit 0))
   | Leave \<Rightarrow> ret (Some Continue))"

section \<open>The program\<close>

definition evalInput :: "'d cliEnv \<Rightarrow> cliArgs \<Rightarrow> ('d cli, control) js" where
  "evalInput e a = reads (\<lambda>s.
     if trim (input s) = [] then ret Continue
     else tryCatch (go (andThen (withRemote e (remoteExec e (input s))) (display a)))
            (\<lambda>ex. andThen (say (ErrorLog (js ''Could not eval query.''))) (\<lambda>_. sayAndExit (Trace ex) 1)))"

definition finish :: "'d cliEnv \<Rightarrow> cliArgs \<Rightarrow> ('d cli, control) js" where
  "finish e a = go (if v_remote_repl a \<or> v_local_repl a then skip else onDatabase (closeConnection e))"

text \<open>A session in JavaScript takes the terminal over, so that a local session after it gets no lines.\<close>

definition sessions :: "'d cliEnv \<Rightarrow> cliArgs \<Rightarrow> bool \<Rightarrow> jsstring list \<Rightarrow> ('d cli, control option) js" where
  "sessions e a closed ls =
     andThen (if v_remote_repl a then repl e a closed Remote ls else ret (Some Continue)) (\<lambda>c.
     if c = Some Continue \<and> v_local_repl a then repl e a closed Local (if v_remote_repl a then [] else ls) else ret c)"

definition cliMain :: "'d cliEnv \<Rightarrow> cliArgs \<Rightarrow> bool \<Rightarrow> jsstring list \<Rightarrow> ('d cli, control option) js" where
  "cliMain e a closed ls =
     andThen (thenStep (usage e a) (thenStep (credentials e a) (thenStep (pickKey e a) (operations e a)))) (\<lambda>c.
     if c \<noteq> Continue then ret (Some c)
     else andThen (sessions e a closed ls) (\<lambda>c.
          if c \<noteq> Some Continue then ret c
          else andThen (thenStep (evalInput e a) (finish e a)) (\<lambda>c. ret (Some c))))"

section \<open>The dev server in applications\<close>

text \<open>\<open>packages/dev/src/skdb-dev.ts\<close>; the key is passed on as it came, its import is that of the platform.\<close>

definition noDevServer :: js_error where
  "noDevServer = err ''Could not fetch from the dev server, is it running?''"

definition getCreds :: "'d cliEnv \<Rightarrow> jsstring \<Rightarrow> int \<Rightarrow> jsstring \<Rightarrow> js_error + keys" where
  "getCreds e shost port dbName =
     (case bindE (fetchText e (usersUrl shost (int_text port) dbName)) (\<lambda>data. parseUsers (parseUser e) (filter (\<lambda>l. trim l \<noteq> []) (lines_of data))) of
        Inl _ \<Rightarrow> Inl noDevServer
      | Inr users \<Rightarrow> Inr (foldl (\<lambda>m (k, v). amap_set k v m) [] users))"

record DevServer =
  ds_database :: jsstring
  ds_host :: jsstring
  ds_port :: int
  ds_creds :: keys

definition skdbDevServerDb :: "'d cliEnv \<Rightarrow> jsstring \<Rightarrow> jsstring \<Rightarrow> int \<Rightarrow> js_error + DevServer" where
  "skdbDevServerDb e dbName shost port =
     (if startsWith (js ''http'') shost \<or> startsWith (js ''https'') shost then Inl (err ''host should be the hostname without scheme. Drop the http://.'')
      else if startsWith (js ''ws://'') shost \<or> startsWith (js ''wss://'') shost then Inl (err ''host should be the hostname without scheme. Drop the ws://.'')
      else bindE (getCreds e shost port dbName) (\<lambda>cs. Inr \<lparr>ds_database = dbName, ds_host = shost, ds_port = port, ds_creds = cs\<rparr>))"

definition devConnect :: "'d cliEnv \<Rightarrow> jsstring \<Rightarrow> (DevServer \<times> 'd, unit) js" where
  "devConnect e key = reads (\<lambda>(ds, _).
     andThen (lift (getCreds e (ds_host ds) (ds_port ds) (ds_database ds))) (\<lambda>cs.
     andThen (modifies (\<lambda>(ds, d). (ds\<lparr>ds_creds := cs\<rparr>, d))) (\<lambda>_.
     case map_of cs key of
       None \<Rightarrow> throw (JSError (js ''Could not find credential for '' @ key @ js ''.'' @
         (if cs = [] then js '' Error in setup: we are not aware of any accessKeys.''
          else js '' We are aware of the following accessKeys: '' @ join [0x2C] (map fst cs) @ js ''.'')))
     | Some p \<Rightarrow> (\<lambda>(ds, d). case connect e (js ''ws://'' @ ds_host ds @ js '':'' @ int_text (ds_port ds)) (ds_database ds) key p d of (r, d') \<Rightarrow> (r, (ds, d'))))))"

text \<open>The request of \<open>schema\<close> and what its answer, a status and a text, means: an error, or whether to warn of a migration.\<close>

definition statement :: "jsstring \<Rightarrow> jsstring" where
  "statement s = (if s \<noteq> [] \<and> last s = 0x3B then s else s @ [0x3B])"

definition schemaBody :: "jsstring list \<Rightarrow> jsstring" where
  "schemaBody stmts = join [newline] (map statement stmts)"

definition schemaAnswer :: "(js_error + int \<times> jsstring) \<Rightarrow> js_error + bool" where
  "schemaAnswer r = (case r of
     Inl _ \<Rightarrow> Inl noDevServer
   | Inr (status, text) \<Rightarrow> if 300 \<le> status then Inl (JSError (js ''Failed to setup the database: '' @ text)) else Inr (status = 201))"

section \<open>The file of credentials\<close>

definition readFile :: "'d cliEnv \<Rightarrow> 'd cli \<Rightarrow> js_error + creds" where
  "readFile e s = (case credsFile s of None \<Rightarrow> Inr [] | Some t \<Rightarrow> parseCreds e t)"

definition credAt :: "creds \<Rightarrow> jsstring \<Rightarrow> jsstring \<Rightarrow> jsstring \<Rightarrow> jsstring option" where
  "credAt cs h d k = map_of (orEmptyObj (orEmptyObj cs h) d) k"

text \<open>The properties of an object have different names.\<close>

definition wfCreds :: "creds \<Rightarrow> bool" where
  "wfCreds cs \<longleftrightarrow> distinct (map fst cs) \<and> (\<forall>h. distinct (map fst (orEmptyObj cs h)) \<and> (\<forall>d. distinct (map fst (orEmptyObj (orEmptyObj cs h) d))))"

lemma distinct_own_order: "distinct (map fst kvs) \<Longrightarrow> distinct (map fst (own_order kvs))"
  by (auto simp: own_order_def distinct_map inj_on_def)

lemma setProp_distinct: "distinct (map fst kvs) \<Longrightarrow> distinct (map fst (setProp k v kvs))"
  by (simp add: setProp_def distinct_own_order)

lemma map_of_setProp: "distinct (map fst kvs) \<Longrightarrow> map_of (setProp k v kvs) = (map_of kvs)(k \<mapsto> v)"
  by (simp add: setProp_def map_of_own_order fun_eq_iff)

lemma orEmptyObj_setProp: "distinct (map fst kvs) \<Longrightarrow> orEmptyObj (setProp k v kvs) x = (if x = k then v else orEmptyObj kvs x)"
  by (simp add: orEmptyObj_def map_of_setProp)

lemma wfCreds_Nil: "wfCreds []"
  by (simp add: wfCreds_def orEmptyObj_def)

lemma wfCreds_set:
  assumes "wfCreds cs" and "distinct (map fst ks)"
  shows "wfCreds (setProp h (setProp d ks (orEmptyObj cs h)) cs)"
  using assms by (simp add: wfCreds_def setProp_distinct orEmptyObj_setProp)

lemma credAt_set:
  assumes "wfCreds cs"
  shows "credAt (setProp h (setProp d ks (orEmptyObj cs h)) cs) h' d' k = (if h' = h \<and> d' = d then map_of ks k else credAt cs h' d' k)"
  using assms by (simp add: credAt_def wfCreds_def orEmptyObj_setProp)

text \<open>Reading the credentials leaves them as they are, also with the entries it adds.\<close>

lemma readCreds_run:
  assumes "readFile e s = Inr cs" and "wfCreds cs"
  obtains cs' where "readCreds e a s = (Inr (), s\<lparr>creds := cs'\<rparr>)" "wfCreds cs'" "credAt cs' = credAt cs"
proof -
  let ?h = "v_host a" and ?d = "the (v_db a)"
  let ?cs = "setProp ?h (setProp ?d (orEmptyObj (orEmptyObj cs ?h) ?d) (orEmptyObj cs ?h)) cs"
  have "readCreds e a s = (Inr (), s\<lparr>creds := ?cs\<rparr>)"
    using assms(1) by (auto simp: readCreds_def readFile_def andThen_def lift_def Let_def split: option.splits)
  moreover have "wfCreds ?cs" using assms(2) by (intro wfCreds_set) (simp_all add: wfCreds_def)
  moreover have "credAt ?cs = credAt cs" using credAt_set [OF assms(2)] by (auto simp: fun_eq_iff credAt_def)
  ultimately show ?thesis using that by blast
qed

lemma addCred_run:
  assumes "v_access_key a = Some k" and "wfCreds (creds s)"
  obtains cs where "addCred a s = (Inr (Exit 0), s\<lparr>creds := cs, credsFile := Some (stringifyCreds cs)\<rparr>)" "wfCreds cs"
    "\<And>h d x. credAt cs h d x = (if h = v_host a \<and> d = the (v_db a) \<and> x = trim k then Some (trim (input s)) else credAt (creds s) h d x)"
proof -
  let ?h = "v_host a" and ?d = "the (v_db a)"
  let ?ks = "setProp (trim k) (trim (input s)) (orEmptyObj (orEmptyObj (creds s) ?h) ?d)"
  have d: "distinct (map fst (orEmptyObj (orEmptyObj (creds s) ?h) ?d))" using assms(2) by (simp add: wfCreds_def)
  let ?cs = "setProp ?h (setProp ?d ?ks (orEmptyObj (creds s) ?h)) (creds s)"
  have "addCred a s = (Inr (Exit 0), s\<lparr>creds := ?cs, credsFile := Some (stringifyCreds ?cs)\<rparr>)"
    using assms(1) by (simp add: addCred_def setKey_def writeCreds_def Let_def)
  moreover have "wfCreds ?cs" using assms(2) d by (intro wfCreds_set setProp_distinct)
  moreover have "credAt ?cs h x y = (if h = ?h \<and> x = ?d \<and> y = trim k then Some (trim (input s)) else credAt (creds s) h x y)" for h x y
    using credAt_set [OF assms(2)] map_of_setProp [OF d] by (simp add: credAt_def)
  ultimately show ?thesis using that by blast
qed

lemma pickKey_run:
  assumes "credAt (creds s) (v_host a) (the (v_db a)) k = Some p" and "v_access_key a = Some k" and "p \<noteq> []" and "\<not> v_dev a"
  shows "pickKey e a s = go (onDatabase (connect e (v_host a) (the (v_db a)) k p)) s"
  using assms by (auto simp: pickKey_def dbCreds_def credAt_def chosenKey_def connectHost_def)

text \<open>
  C28: A credential with a key that is not blank is found again once it was added, whatever is in the file under names of its own: adding ends the program with code 0 without connecting, the file then has the trimmed key under its host,
  database and trimmed name and is unchanged otherwise, and the next run with that name connects with the key.
\<close>

theorem added_credential_is_used:
  assumes wf: "\<forall>t cs. parseCreds e t = Inr cs \<longrightarrow> wfCreds cs"
    and a: "\<not> v_help a" "v_db a = Some d" "\<not> v_dev a" "v_add_cred a" "v_access_key a = Some k"
    and start: "readFile e s = Inr cs" and run: "cliMain e a closed ls s = (r, s1)"
    and parse: "parseCreds e (stringifyCreds (creds s1)) = Inr (creds s1)"
    and b: "\<not> v_help b" "v_db b = Some d" "v_host b = v_host a" "\<not> v_dev b" "\<not> v_add_cred b" "v_access_key b = Some (trim k)" and key: "trim (input s) \<noteq> []"
  shows "r = Inr (Some (Exit 0)) \<and> database s1 = database s \<and> readFile e s1 = Inr (creds s1)
    \<and> (\<forall>h x y. credAt (creds s1) h x y = (if h = v_host a \<and> x = d \<and> y = trim k then Some (trim (input s)) else credAt cs h x y))
    \<and> (\<exists>s2. database s2 = database s \<and> thenStep (usage e b) (thenStep (credentials e b) (pickKey e b)) s1
          = go (onDatabase (connect e (v_host a) d (trim k) (trim (input s)))) s2)"
proof -
  have "wfCreds cs" using start wf wfCreds_Nil by (auto simp: readFile_def split: option.splits)
  then obtain cs1 where r1: "readCreds e a s = (Inr (), s\<lparr>creds := cs1\<rparr>)" "wfCreds cs1" "credAt cs1 = credAt cs"
    using readCreds_run [OF start] by blast
  let ?s = "s\<lparr>creds := cs1\<rparr>"
  have "wfCreds (creds ?s)" using r1(2) by simp
  then obtain cs2 where r2: "addCred a ?s = (Inr (Exit 0), ?s\<lparr>creds := cs2, credsFile := Some (stringifyCreds cs2)\<rparr>)" "wfCreds cs2"
    "\<And>h x y. credAt cs2 h x y = (if h = v_host a \<and> x = the (v_db a) \<and> y = trim k then Some (trim (input ?s)) else credAt (creds ?s) h x y)"
    using addCred_run [OF a(5)] by blast
  have "cliMain e a closed ls s = (Inr (Some (Exit 0)), s\<lparr>creds := cs2, credsFile := Some (stringifyCreds cs2)\<rparr>)"
    using r1(1) r2(1) a by (simp add: cliMain_def usage_def thenStep_def credentials_def fileCredentials_def andThen_def)
  with run have s1: "r = Inr (Some (Exit 0))" "s1 = s\<lparr>creds := cs2, credsFile := Some (stringifyCreds cs2)\<rparr>" by simp_all
  have at: "credAt cs2 h x y = (if h = v_host a \<and> x = d \<and> y = trim k then Some (trim (input s)) else credAt cs h x y)" for h x y
    using r2(3) r1(3) a(2) by simp
  have f1: "readFile e s1 = Inr cs2" using parse s1(2) by (simp add: readFile_def)
  then obtain cs3 where r3: "readCreds e b s1 = (Inr (), s1\<lparr>creds := cs3\<rparr>)" "credAt cs3 = credAt cs2" using readCreds_run r2(2) by blast
  have "pickKey e b (s1\<lparr>creds := cs3\<rparr>) = go (onDatabase (connect e (v_host b) (the (v_db b)) (trim k) (trim (input s)))) (s1\<lparr>creds := cs3\<rparr>)"
    by (rule pickKey_run) (use b key at r3(2) in simp_all)
  then have "thenStep (usage e b) (thenStep (credentials e b) (pickKey e b)) s1
      = go (onDatabase (connect e (v_host a) d (trim k) (trim (input s)))) (s1\<lparr>creds := cs3\<rparr>)"
    using b r3(1) by (simp add: usage_def thenStep_def credentials_def fileCredentials_def andThen_assoc andThen_def [of "readCreds e b"])
  then show ?thesis using s1 f1 at by (intro conjI exI [of _ "s1\<lparr>creds := cs3\<rparr>"]) simp_all
qed

text \<open>A credential is added to a file that does not exist yet.\<close>

definition demo_creds :: creds where
  "demo_creds = [([0x68], [([0x64], [([0x6B], [0x70])])])]"

definition demo_env :: "unit cliEnv" where
  "demo_env = \<lparr>bin = [], credsFileName = [], parseCreds = (\<lambda>t. if t = stringifyCreds demo_creds then Inr demo_creds else Inl (JSError t)),
     parseUser = (\<lambda>t. Inl (JSError t)), fetchText = (\<lambda>t. Inl (JSError t)), base64 = (\<lambda>_. []), connect = (\<lambda>_ _ _ _. skip), connected = (\<lambda>_. True),
     createDatabase = (\<lambda>n. ret (n, [])), createUser = ret ([], []), remoteSchema = ret [], remoteTableSchema = ret, remoteViewSchema = ret,
     remoteExec = (\<lambda>_. ret []), localSchema = (\<lambda>_. ret []), localExec = (\<lambda>_. ret []), localMirror = (\<lambda>_. skip), closeConnection = skip\<rparr>"

definition demo_args :: "bool \<Rightarrow> jsstring \<Rightarrow> cliArgs" where
  "demo_args add k = \<lparr>v_help = False, v_db = Some [0x64], v_host = [0x68], v_access_key = Some k, v_dev = False, v_json_output = False,
     v_pipe_separated_output = False, v_add_cred = add, v_create_db = None, v_create_user = False, v_remote_repl = False, v_local_repl = False,
     v_schema = False, v_table_schema = None, v_view_schema = None\<rparr>"

definition demo_cli :: "unit cli" where
  "demo_cli = \<lparr>credsFile = None, creds = [], devCreds = [], input = [0x70, 0x0A], said = [], database = ()\<rparr>"

lemma demo_args_sel [simp]: "v_help (demo_args x k) = False" "v_db (demo_args x k) = Some [0x64]" "v_host (demo_args x k) = [0x68]" "v_access_key (demo_args x k) = Some k"
  "v_dev (demo_args x k) = False" "v_add_cred (demo_args x k) = x"
  by (simp_all add: demo_args_def)

lemma demo_trim: "trim [0x20, 0x6B] = [0x6B]" "trim [0x70, 0x0A] = [0x70]"
  by (simp_all add: trim_def is_space_def Let_def)

lemma setProp_only: "\<not> is_index k \<Longrightarrow> setProp k v [] = [(k, v)]" "\<not> is_index k \<Longrightarrow> setProp k v [(k, w)] = [(k, v)]"
  by (simp_all add: setProp_def own_order_def)

lemma demo_names: "\<not> is_index [0x68]" "\<not> is_index [0x64]" "\<not> is_index [0x6B]"
  by (simp_all add: is_index_def is_digit_def)

lemma demo_run: "cliMain demo_env (demo_args True [0x20, 0x6B]) False [] demo_cli
    = (Inr (Some (Exit 0)), demo_cli\<lparr>creds := demo_creds, credsFile := Some (stringifyCreds demo_creds)\<rparr>)"
proof -
  have r: "readCreds demo_env (demo_args True [0x20, 0x6B]) demo_cli = (Inr (), demo_cli\<lparr>creds := [([0x68], [([0x64], [])])]\<rparr>)"
    by (simp add: readCreds_def demo_cli_def orEmptyObj_def Let_def setProp_only demo_names)
  have c: "addCred (demo_args True [0x20, 0x6B]) (demo_cli\<lparr>creds := [([0x68], [([0x64], [])])]\<rparr>)
      = (Inr (Exit 0), demo_cli\<lparr>creds := demo_creds, credsFile := Some (stringifyCreds demo_creds)\<rparr>)"
    by (simp add: addCred_def setKey_def writeCreds_def demo_cli_def orEmptyObj_def Let_def setProp_only demo_names demo_trim demo_creds_def)
  show ?thesis using r c by (simp add: cliMain_def usage_def thenStep_def credentials_def fileCredentials_def andThen_def)
qed

theorem added_credential_is_used_witness:
  "cliMain demo_env (demo_args True [0x20, 0x6B]) False [] demo_cli
     = (Inr (Some (Exit 0)), demo_cli\<lparr>creds := demo_creds, credsFile := Some (stringifyCreds demo_creds)\<rparr>)
   \<and> (\<exists>s2. thenStep (usage demo_env (demo_args False [0x6B])) (thenStep (credentials demo_env (demo_args False [0x6B])) (pickKey demo_env (demo_args False [0x6B])))
        (demo_cli\<lparr>creds := demo_creds, credsFile := Some (stringifyCreds demo_creds)\<rparr>)
      = go (onDatabase (connect demo_env [0x68] [0x64] [0x6B] [0x70])) s2)"
proof -
  have p: "parseCreds demo_env (stringifyCreds demo_creds) = Inr demo_creds" by (simp add: demo_env_def)
  have wf: "\<forall>t cs. parseCreds demo_env t = Inr cs \<longrightarrow> wfCreds cs"
    by (auto simp: demo_env_def wfCreds_def demo_creds_def orEmptyObj_def split: if_splits)
  have f: "readFile demo_env demo_cli = Inr []" "input demo_cli = [0x70, 0x0A]" by (simp_all add: readFile_def demo_cli_def)
  have "\<exists>s2. database s2 = database demo_cli \<and> thenStep (usage demo_env (demo_args False [0x6B])) (thenStep (credentials demo_env (demo_args False [0x6B])) (pickKey demo_env (demo_args False [0x6B])))
        (demo_cli\<lparr>creds := demo_creds, credsFile := Some (stringifyCreds demo_creds)\<rparr>)
      = go (onDatabase (connect demo_env (v_host (demo_args True [0x20, 0x6B])) [0x64] (trim [0x20, 0x6B]) (trim (input demo_cli)))) s2"
    by (rule added_credential_is_used [OF wf _ _ _ _ _ f(1) demo_run, THEN conjunct2, THEN conjunct2, THEN conjunct2, THEN conjunct2])
      (simp_all add: p f(2) demo_trim)
  then show ?thesis using demo_run by (auto simp: f(2) demo_trim)
qed

section \<open>Keys that are lost, sessions that end, output that is read back\<close>

text \<open>A database or a user is created and the program then fails before it has shown or kept the key.\<close>

lemma created_key_is_lost:
  assumes "connected e (database s)"
  shows "createDatabase e name (database s) = (Inr (key, pk), d) \<Longrightarrow>
      createDb e a name s = (Inl (JSError (js ''Property description must be an object: '' @ base64 e pk)), s\<lparr>database := d\<rparr>)"
    and "createUser e (database s) = (Inr (key, pk), d) \<Longrightarrow>
      createUserOp e a s = (Inl (JSError (js ''Property description must be an object: '' @ base64 e pk)), s\<lparr>database := d\<rparr>)"
  using assms by (simp_all add: createDb_def createUserOp_def withRemote_def onDatabase_def defineProperty_def andThen_def reads_def)

text \<open>A schema command without a name ends the remote session with an error.\<close>

lemma nameless_schema_ends_session:
  "repl e a closed Remote (js ''.table-schema'' # ls) s = (Inl (JSError (js ''No table name found in query: .table-schema'')), s)"
  by (simp add: sessionLine_def remoteLine_def remoteNamed_def startsWith_def secondWord_def trim_def is_space_def)

lemma split1_append: "sep \<notin> set x \<Longrightarrow> split1 sep (x @ sep # s) = x # split1 sep s"
  by (induction x) auto

lemma split1_plain: "sep \<notin> set x \<Longrightarrow> split1 sep x = [x]"
  by (induction x) auto

lemma split1_join: "xs \<noteq> [] \<Longrightarrow> \<forall>x \<in> set xs. sep \<notin> set x \<Longrightarrow> split1 sep (join [sep] xs) = xs"
  by (induction "[sep]" xs rule: join.induct) (simp_all add: split1_append split1_plain)

lemma join_free: "c \<noteq> sep \<Longrightarrow> \<forall>x \<in> set xs. c \<notin> set x \<Longrightarrow> c \<notin> set (join [sep] xs)"
  by (induction "[sep]" xs rule: join.induct) auto

text \<open>The lines of the output separated by pipes are the columns and the rows with their cells, when no cell has a pipe or the end of a line in it.\<close>

lemma pipe_output_roundtrip:
  assumes "rows \<noteq> []" and "hd rows \<noteq> []"
    and "\<forall>k \<in> fst ` set (hd rows). newline \<notin> set k \<and> 0x7C \<notin> set k"
    and "\<forall>row \<in> set rows. \<forall>k \<in> fst ` set (hd rows). newline \<notin> set (cellText row k) \<and> 0x7C \<notin> set (cellText row k)"
  shows "map (split1 0x7C) (lines_of (pipeTable rows)) = map fst (hd rows) # map (\<lambda>row. map (cellText row) (map fst (hd rows))) rows"
proof -
  let ?keys = "map fst (hd rows)" and ?line = "\<lambda>row. map (cellText row) (map fst (hd rows))"
  have "lines_of (pipeTable rows) = join [0x7C] ?keys # map (\<lambda>row. join [0x7C] (?line row)) rows"
    unfolding lines_of_def pipeTable_def Let_def using assms(3,4) join_free [of newline "0x7C"] by (intro split1_join) (simp_all add: ball_Un image_iff)
  moreover have "split1 0x7C (join [0x7C] ?keys) = ?keys" using assms(2,3) by (intro split1_join) auto
  moreover have "split1 0x7C (join [0x7C] (?line row)) = ?line row" if "row \<in> set rows" for row
    using assms(2,4) that by (intro split1_join) auto
  ultimately show ?thesis by simp
qed

end
