(* ===== verification/Spec2Isabelle.thy ===== *)
theory Spec2Isabelle
  imports Permanent_Failure Wasm_Runtime Service_Callbacks Skdb_Worker Skdb_Memory Skdb_Database Postgres_Adapter Wasm_Binding Skdb_Cli
begin

text \<open>
  A verification development of the TypeScript side of Skip: the service runtime (\<open>skipruntime-ts\<close>), the host of the compiled
  programs (\<open>skiplang/prelude/ts\<close>, \<open>skiplang/skjson/ts\<close>) and the client of the database SKDB (\<open>sql/ts\<close>). All paths below are
  relative to \<open>src/\<close>.

  \<^bold>\<open>The program.\<close> An engine for reactive computations and for SQL is compiled from Skiplang. JavaScript code surrounds it. A
  service registers its operators with the engine by number, runs its updates in forks that are merged or aborted, and offers its
  resources over HTTP. A database runs in the page or in a worker thread, keeps its memory as pages in the store of the browser,
  tells watchers about changes, and mirrors tables of a remote database over one socket that carries many streams and is replaced
  when it fails. Strings, JSON values and exceptions cross between JavaScript and the compiled program through linear memory.

  \<^bold>\<open>Foundations.\<close>
  \<^item> \<open>Prelude\<close>: strings as UTF-16 code units, exceptions, the type \<open>js\<close> of computations with a state and exceptions with its laws,
    insertion-ordered maps; the collections \<open>js_run\<close>, \<open>buf_simps\<close> and \<open>amap_simps\<close>.
  \<^item> \<open>JS_Text\<close>, \<open>JS_Buffer\<close>, \<open>JS_Json\<close>, \<open>JS_Strings\<close>: the text codecs, buffers, JSON and string functions of the language.

  \<^bold>\<open>The connection to a remote database\<close> (\<open>sql/ts/src/skdb_orchestration.ts\<close>).
  \<^item> \<open>Proto_Codec\<close>: \<open>encodeProtoMsg\<close> and \<open>ProtoMsgDecoder\<close>; a message is decoded to what was encoded, in any number of chunks, and it
    is stated exactly which messages cannot be encoded. \<open>Mux_Codec\<close>: the frames of \<open>MuxedSocket\<close> and their parser, with round trips.
  \<^item> \<open>Mux_World\<close>, \<open>Mux_Stream\<close>, \<open>Muxed_Socket\<close>: objects are records in a world and refer to each other by address; callbacks are
    handlers that may re-enter the objects; every \<open>await\<close> and timer is a pending job. The locales \<open>stream_client\<close> and \<open>socket_client\<close>
    state what the callbacks must keep, so that the invariants are proved once for every client.
  \<^item> \<open>Resilient\<close>: \<open>ResilientMuxedSocket\<close> and \<open>ResilientStream\<close>; the locale \<open>app_client\<close> is the contract of the application above
    them, and \<open>sublocale\<close> shows that it gives the two contracts below.
  \<^item> \<open>Server_Lines\<close>, \<open>Skdb_Server\<close>: the line protocol of data messages and \<open>SKDBServer\<close>, which interprets \<open>app_client\<close>; the local database
    it drives (\<open>SKDBMechanism\<close>) is a parameter.
  \<^item> \<open>Client_System\<close>: all of it as one step relation \<open>srv_event\<close> whose events come in any order. No frame follows the local close of its
    stream, stream numbers are unique, closed sides stay closed, a stream with four states implements two half-streams with their
    frames and data, and a request for a socket is served by the next one that is attached. \<open>Permanent_Failure\<close>: an error that
    cannot be retried stays recorded over all later events and fails every request.

  \<^bold>\<open>The host of a compiled program\<close> (\<open>skiplang/prelude/ts/wasm/src\<close>).
  \<^item> \<open>Mem_FS\<close>: files and environment in memory; the invariant of the file system and the round trip of what is written.
  \<^item> \<open>Wasm_Utils\<close>, \<open>Wasm_Runtime\<close>: linear memory, strings, streams, exceptions and allocation scopes (\<open>Utils\<close>), and the functions
    given to the program. The hand-written UTF-8 encoder is the platform's; strings come back unchanged; an error thrown through the
    program is the one that arrives; a scope is closed on every path, and once if destroying it succeeds.
  \<^item> \<open>Skjson\<close> (\<open>skiplang/skjson/ts\<close>): freezing, cloning, proxies, import and export over a heap of objects that may be shared. The
    collections of the runtime are managed objects that refer to its mutable state, and are not looked into as data.

  \<^bold>\<open>The service runtime\<close> (\<open>skipruntime-ts/core/src/index.ts\<close>).
  \<^item> \<open>Handles\<close>: the table of numbers for JavaScript objects, with the locale \<open>handle_table\<close> interpreted on it.
  \<^item> \<open>Values_Impl\<close>, \<open>Deep_Equals\<close>: the values of a key, and when two operators are the same.
  \<^item> \<open>Core_Runtime\<close>, \<open>Transactions\<close>: \<open>ServiceInstance\<close>, \<open>CollectionWriter\<close> and \<open>ToBinding\<close>; an \<open>async\<close> method is split where it awaits.
    The engine is the record of functions \<open>FromBinding\<close>; \<open>transactional\<close> states what is relied on of its forks, and concrete engines
    satisfy it: a merge commits as a whole or not at all and may fail after it has committed, and the abort of a missing fork may
    fail. An update is merged as a whole or leaves the data as they were, and \<open>committed_update_fails\<close> shows that one that was merged can fail.
  \<^item> \<open>Service_Callbacks\<close>: collections, contexts, service definitions and the functions that the engine calls; parameters of operators
    are frozen or copied, and the active subscriptions are those of the definition.
  \<^item> \<open>Wasm_Binding\<close> (\<open>skipruntime-ts/wasm/src/internals/skipruntime_module.ts\<close>): the runtime and a compiled engine bound to each other. The
    state of the runtime has the host of the program as its engine; the functions that take or return strings, in both directions, find the
    encoding of these strings in the memory of the program at the time of the call.
  \<^item> \<open>Skip_Http\<close> (\<open>server/src/rest.ts\<close>, \<open>helpers/src\<close>): the routes with the limit of the size of a body, the client with every method,
    event streams, polled and remote external services.
  \<^item> \<open>Adapters\<close>, \<open>Postgres_Adapter\<close> (\<open>adapters/postgres/src\<close>, \<open>adapters/kafka/src\<close>): external services over a Kafka cluster and a
    PostgreSQL database. The operations of an instance of the database are tasks that wait for answers; in every interleaving of calls,
    answers, failures and notifications they take effect in the order of the calls, and the set of open instances stays true to the
    database.

  \<^bold>\<open>The local database\<close> (\<open>sql/ts/src\<close>).
  \<^item> \<open>Skdb_Memory\<close> (\<open>skdb_skdb.ts\<close>, \<open>skdb_storage.ts\<close>): the image of the memory in the store and what is restored of it, dirty pages, saving; a
    save cannot succeed before another one has, so that every save throws.
  \<^item> \<open>Skdb_Links\<close> (\<open>skdb_skdb.ts\<close>, \<open>skdb_util.ts\<close>): rows, watchers, notifications, query numbers, query results; batches are
    delivered to the watchers in order.
  \<^item> \<open>Skdb_Database\<close> (\<open>skdb_database.ts\<close>, \<open>skdb_util.ts\<close>, \<open>skdb_group.ts\<close>): commands, schemas, \<open>insertMany\<close>, mirroring, transactions, groups.
  \<^item> \<open>Skdb_Cli\<close> (\<open>skdb-cli.ts\<close>, \<open>packages/dev/src/skdb-dev.ts\<close>): the command line and the development client, the file of
    credentials, operations and interactive sessions; a credential that was added is the
    one the next run uses. Names that every object inherits (\<open>constructor\<close>, \<open>toString\<close> and the like, and \<open>__proto__\<close>) are left out as names of databases and hosts.
  \<^item> \<open>Worker_Rpc\<close> (\<open>skiplang/prelude/ts/worker/src/worker.ts\<close>) and \<open>Skdb_Worker\<close> (\<open>skdb_wdatabase.ts\<close>, \<open>skdb_worker.ts\<close>): calls to a database in
    a worker, both ends, with every interleaving of messages; each promise is settled once, by its own answer.

  \<^bold>\<open>Parameters.\<close> The exports of the compiled program, the classes of the application, the store of the browser, random bytes, clocks
  and signatures are arguments of the definitions. Where a property relies on their behaviour, its hypotheses say so and its witness
  instantiates them with concrete functions.

  \<^bold>\<open>Termination and bounds.\<close> Loops are structural or have a measure. Two loops depend on the engine and may not end, \<open>popLoop\<close> of
  \<open>Skdb_Memory\<close> and \<open>notifyLoop\<close> of \<open>Skdb_Links\<close>; they are \<open>partial_function (option)\<close> where \<open>None\<close> is a loop that does not return, and their
  properties say when they return. The recursions over JavaScript objects (\<open>deepFreeze\<close>, \<open>deepEquals\<close>, \<open>exportJSON\<close>, \<open>clone\<close>) take the
  depth of the stack; running out of it is the exception JavaScript throws, and they are shown to return when the depth exceeds that of
  an acyclic structure. The iterations over the active streams of a socket see streams that callbacks open or close meanwhile
  (\<open>forLive\<close>); they are given \<open>2 ^ 24 + 1\<close> rounds, the size limit of a map, and \<open>forLive_enough\<close> shows that this is
  enough when the callbacks open none. Numbers are words of their width where the code uses 32-bit operators or typed arrays, and integers
  otherwise; floating-point values occur only where the code passes them on.

  \<^bold>\<open>Not modelled.\<close> The compiled engine, the Skiplang compiler, the server, and the native addon are not TypeScript. Starting
  servers, databases and workers, dates, logging and the environments of
  browser and Node are effects of their platforms. Floating-point arrays, mathematical functions and the printing of handles are left
  out, as are the parsing of the rows of a remote \<open>exec\<close> and methods that only pass a call on.
\<close>

end
